(* ===== verification/Prelude.thy ===== *)
theory Prelude
  imports Main "HOL-Library.Word"
begin

text \<open>
  Shared vocabulary of the development: machine integers at their C width, the bit-range
  operations of SystemC bit vectors (\<^verbatim>\<open>sc_bv::range\<close>), little-endian byte views of words,
  the outcome of a routine that may call \<^verbatim>\<open>exit\<close> or run into undefined behaviour, and
  \<^verbatim>\<open>std::map\<close> as an association list sorted by key (so that iteration order is the code's).
\<close>

unbundle bit_operations_syntax

section \<open>Machine integers\<close>

type_synonym u8 = "8 word"
type_synonym u16 = "16 word"
type_synonym u32 = "32 word"
type_synonym u64 = "64 word"

named_theorems bv_simps \<open>bitwise characterisations of bit-vector ranges\<close>
named_theorems outcome_simps \<open>rewriting of outcomes and their sequencing\<close>
named_theorems smap_simps \<open>look-ups in sorted association lists\<close>

section \<open>Bit ranges of bit vectors\<close>

text \<open>
  \<^verbatim>\<open>v.range(hi, lo)\<close> read as a value, and \<^verbatim>\<open>v.range(hi, lo) = x\<close> as an update: the low
  \<^verbatim>\<open>hi - lo + 1\<close> bits of \<^verbatim>\<open>x\<close> are stored (SystemC truncates or zero-extends).
\<close>

definition bv_range :: "nat \<Rightarrow> nat \<Rightarrow> 'a::len word \<Rightarrow> 'b::len word" where
  "bv_range hi lo v = take_bit (hi - lo + 1) (ucast (drop_bit lo v))"

definition bv_set_range :: "nat \<Rightarrow> nat \<Rightarrow> 'b::len word \<Rightarrow> 'a::len word \<Rightarrow> 'a word" where
  "bv_set_range hi lo x v =
     (v AND NOT (push_bit lo (mask (hi - lo + 1)))) OR
     push_bit lo (take_bit (hi - lo + 1) (ucast x))"

lemma bit_bv_range [bv_simps]:
  "bit (bv_range hi lo v :: 'b::len word) n \<longleftrightarrow>
     n < LENGTH('b) \<and> n < hi - lo + 1 \<and> bit (v :: 'a::len word) (lo + n)"
  by (auto simp: bv_range_def bit_simps dest: bit_imp_le_length)

lemma bit_bv_set_range [bv_simps]:
  "bit (bv_set_range hi lo (x :: 'b::len word) (v :: 'a::len word)) n \<longleftrightarrow>
     n < LENGTH('a) \<and>
     (if lo \<le> n \<and> n < lo + (hi - lo + 1) then bit x (n - lo) else bit v n)"
  by (auto simp: bv_set_range_def bit_simps dest: bit_imp_le_length)

lemma bv_range_set_same:
  assumes "hi < LENGTH('a)" and "lo \<le> hi"
  shows "bv_range hi lo (bv_set_range hi lo (x :: 'b::len word) (v :: 'a::len word)) =
         (take_bit (hi - lo + 1) x :: 'b word)"
  using assms by (intro bit_word_eqI) (auto simp: bv_simps bit_simps)

lemma bv_range_set_other:
  assumes "hi' < lo \<or> hi < lo'" and "lo' \<le> hi'" and "lo \<le> hi"
  shows "bv_range hi' lo' (bv_set_range hi lo (x :: 'b::len word) (v :: 'a::len word)) =
         (bv_range hi' lo' v :: 'c::len word)"
  using assms by (intro bit_word_eqI) (auto simp: bv_simps dest: bit_imp_le_length)

section \<open>Single bits and byte masks\<close>

lemma unat_less_exp: "unat (w :: 'a::len word) < 2 ^ LENGTH('a)"
  by (rule unsigned_less)

lemma unat_take_bit: "unat (take_bit n (w :: 'a::len word)) = unat w mod 2 ^ n"
  by (simp only: unsigned_take_bit_eq take_bit_nat_def)

lemma unat_drop_bit: "unat (drop_bit n (w :: 'a::len word)) = unat w div 2 ^ n"
  by (simp only: unsigned_drop_bit_eq drop_bit_nat_def take_bit_nat_eq_self [OF unat_less_exp])

lemma take_bit_small: "unat (w :: 'a::len word) < 2 ^ n \<Longrightarrow> take_bit n w = w"
  by (simp only: word_unat_eq_iff unat_take_bit mod_less)

lemma unat_of_nat_self: "n < 2 ^ LENGTH('a) \<Longrightarrow> unat (of_nat n :: 'a::len word) = n"
  by (simp add: unsigned_of_nat take_bit_nat_eq_self)

lemma and_1_neq_0 [simp]: "drop_bit j (b :: 'a::len word) AND 1 \<noteq> 0 \<longleftrightarrow> bit b j"
  by (simp add: and_one_eq bit_iff_odd_drop_bit flip: odd_iff_mod_2_eq_one)

lemma and_1_eq_0 [simp]: "drop_bit j (b :: 'a::len word) AND 1 = 0 \<longleftrightarrow> \<not> bit b j"
  using and_1_neq_0 by blast

lemma bit_0xff: "bit (0xff :: 'a::len word) n \<longleftrightarrow> n < LENGTH('a) \<and> n < 8"
proof -
  have "(0xff :: 'a word) = mask 8" by (simp add: mask_eq_exp_minus_1)
  then show ?thesis by (simp only: bit_mask_iff possible_bit_word)
qed

lemma bit_push_0xff:
  "bit (push_bit k (0xff :: 'a::len word)) n \<longleftrightarrow> k \<le> n \<and> n < k + 8 \<and> n < LENGTH('a)"
  by (auto simp only: bit_push_bit_iff bit_0xff possible_bit_word)

section \<open>Little-endian bytes of a 64-bit word\<close>

definition byte_of :: "u64 \<Rightarrow> nat \<Rightarrow> u8" where
  "byte_of w i = ucast (drop_bit (8 * i) w)"

definition bytes8 :: "u64 \<Rightarrow> u8 list" where
  "bytes8 w = map (byte_of w) [0..<8]"

fun word_of_bytes :: "u8 list \<Rightarrow> u64" where
  "word_of_bytes [] = 0"
| "word_of_bytes (b # bs) = ucast b OR push_bit 8 (word_of_bytes bs)"

lemma bit_byte_of [bv_simps]: "bit (byte_of w i) n \<longleftrightarrow> n < 8 \<and> bit w (8 * i + n)"
  by (auto simp: byte_of_def bit_simps)

lemma length_bytes8 [simp]: "length (bytes8 w) = 8"
  by (simp add: bytes8_def)

lemma nth_bytes8 [simp]: "i < 8 \<Longrightarrow> bytes8 w ! i = byte_of w i"
  by (simp add: bytes8_def)

lemma bit_word_of_bytes:
  "bit (word_of_bytes bs) n \<longleftrightarrow> n < 64 \<and> n div 8 < length bs \<and> bit (bs ! (n div 8)) (n mod 8)"
proof (induction bs arbitrary: n)
  case Nil
  then show ?case by simp
next
  case (Cons b bs)
  show ?case
  proof (cases "n < 8")
    case True
    then show ?thesis by (auto simp: bit_simps)
  next
    case False
    then have d: "n div 8 = Suc ((n - 8) div 8)" and m: "n mod 8 = (n - 8) mod 8"
      by (simp_all add: le_div_geq le_mod_geq)
    from False have "\<not> bit b n" by (auto dest: bit_imp_le_length)
    with False show ?thesis
      by (auto simp: bit_simps Cons.IH [of "n - 8"] d m)
  qed
qed

lemma word_of_bytes8 [simp]: "word_of_bytes (bytes8 w) = w"
proof (rule bit_word_eqI)
  fix n assume "n < LENGTH(64)"
  then have "n div 8 < 8" by simp
  with \<open>n < LENGTH(64)\<close> show "bit (word_of_bytes (bytes8 w)) n \<longleftrightarrow> bit w n"
    by (simp add: bit_word_of_bytes bv_simps)
qed

lemma word_eq_bytesI: "(\<And>i. i < 8 \<Longrightarrow> byte_of v i = byte_of w i) \<Longrightarrow> v = w"
proof -
  assume *: "\<And>i. i < 8 \<Longrightarrow> byte_of v i = byte_of w i"
  then have "bytes8 v = bytes8 w" by (simp add: bytes8_def)
  then have "word_of_bytes (bytes8 v) = word_of_bytes (bytes8 w)" by simp
  then show ?thesis by simp
qed

section \<open>First index satisfying a test\<close>

lemma find_upt_Some_iff:
  "find P [0..<n] = Some w \<longleftrightarrow> w < n \<and> P w \<and> (\<forall>v < w. \<not> P v)"
  by (auto simp: find_Some_iff)

lemma find_upt_None_iff: "find P [0..<n] = None \<longleftrightarrow> (\<forall>w < n. \<not> P w)"
  by (auto simp: find_None_iff)

section \<open>Outcomes\<close>

text \<open>
  A routine either continues with a new state, terminates the process with an exit status
  (\<^verbatim>\<open>std::exit\<close>, a failed \<^verbatim>\<open>sc_assert\<close>), or executes an operation with undefined behaviour
  (an index outside an array, a shift count outside the width of the shifted type).
\<close>

datatype 's outcome = Next 's | Exit int 's | Undefined

fun and_then :: "'s outcome \<Rightarrow> ('s \<Rightarrow> 't outcome) \<Rightarrow> (int \<Rightarrow> 's \<Rightarrow> 't outcome) \<Rightarrow> 't outcome" where
  "and_then (Next s) f g = f s"
| "and_then (Exit c s) f g = g c s"
| "and_then Undefined f g = Undefined"

definition seq_out :: "'s outcome \<Rightarrow> ('s \<Rightarrow> 's outcome) \<Rightarrow> 's outcome" where
  "seq_out r f = and_then r f Exit"

lemma seq_out_simps [simp, outcome_simps]:
  "seq_out (Next s) f = f s"
  "seq_out (Exit c s) f = Exit c s"
  "seq_out Undefined f = Undefined"
  by (simp_all add: seq_out_def)

lemma seq_out_assoc [outcome_simps]:
  "seq_out (seq_out r f) g = seq_out r (\<lambda>s. seq_out (f s) g)"
  by (cases r) simp_all

lemma seq_out_Next_iff:
  "seq_out r f = Next t \<longleftrightarrow> (\<exists>s. r = Next s \<and> f s = Next t)"
  by (cases r) auto

lemma seq_out_Undefined_iff:
  "seq_out r f = Undefined \<longleftrightarrow> r = Undefined \<or> (\<exists>s. r = Next s \<and> f s = Undefined)"
  by (cases r) auto

text \<open>The state in which an outcome leaves the object, whether it continues or exits.\<close>

fun out_state :: "'s outcome \<Rightarrow> 's option" where
  "out_state (Next s) = Some s"
| "out_state (Exit c s) = Some s"
| "out_state Undefined = None"

section \<open>\<^verbatim>\<open>std::map\<close> as a sorted association list\<close>

type_synonym ('k, 'v) smap = "('k \<times> 'v) list"

definition smap_ok :: "('k::linorder, 'v) smap \<Rightarrow> bool" where
  "smap_ok m \<longleftrightarrow> sorted_wrt (<) (map fst m)"

text \<open>\<^verbatim>\<open>insert\<close> leaves an existing binding as it is, as \<^verbatim>\<open>std::map::insert\<close> does.\<close>

fun smap_insert :: "'k::linorder \<Rightarrow> 'v \<Rightarrow> ('k, 'v) smap \<Rightarrow> ('k, 'v) smap" where
  "smap_insert k v [] = [(k, v)]"
| "smap_insert k v ((k', v') # m) =
     (if k < k' then (k, v) # (k', v') # m
      else if k = k' then (k', v') # m
      else (k', v') # smap_insert k v m)"

definition smap_find :: "('k, 'v) smap \<Rightarrow> 'k \<Rightarrow> 'v option" where
  "smap_find m k = map_of m k"

definition smap_erase :: "'k \<Rightarrow> ('k, 'v) smap \<Rightarrow> ('k, 'v) smap" where
  "smap_erase k m = filter (\<lambda>p. fst p \<noteq> k) m"

lemma smap_find_Nil [simp]: "smap_find [] k = None"
  by (simp add: smap_find_def)

lemma smap_find_Cons [simp]:
  "smap_find ((a, v) # m) k = (if k = a then Some v else smap_find m k)"
  by (simp add: smap_find_def)

lemma set_smap_insert: "set (smap_insert k v m) \<subseteq> insert (k, v) (set m)"
  by (induction k v m rule: smap_insert.induct) (auto split: if_splits)

lemma smap_ok_insert [simp, smap_simps]: "smap_ok m \<Longrightarrow> smap_ok (smap_insert k v m)"
proof (induction m)
  case Nil
  then show ?case by (simp add: smap_ok_def)
next
  case (Cons p m)
  obtain k' v' where p: "p = (k', v')" by force
  from Cons.prems p have ok: "smap_ok m" and lt: "\<forall>x\<in>set m. k' < fst x"
    by (auto simp: smap_ok_def)
  from Cons.IH [OF ok] have IH: "sorted_wrt (<) (map fst (smap_insert k v m))"
    by (simp add: smap_ok_def)
  have "\<forall>x\<in>set (smap_insert k v m). k' < fst x" if "k' < k"
    using that lt set_smap_insert [of k v m] by auto
  with IH ok lt p show ?case
    by (auto simp: smap_ok_def)
qed

lemma smap_ok_erase [simp, smap_simps]: "smap_ok m \<Longrightarrow> smap_ok (smap_erase k m)"
  by (induction m) (auto simp: smap_ok_def smap_erase_def)

lemma smap_find_insert [simp, smap_simps]:
  "smap_find (smap_insert k v m) k' =
     (if k' = k \<and> smap_find m k = None then Some v else smap_find m k')"
  if "smap_ok m"
  using that
proof (induction m)
  case Nil
  then show ?case by simp
next
  case (Cons p m)
  obtain a b where p: "p = (a, b)" by force
  from Cons.prems p have ok: "smap_ok m" and lt: "\<forall>x\<in>set m. a < fst x"
    by (auto simp: smap_ok_def)
  have absent: "smap_find m k = None" if "k < a"
  proof -
    from that lt have "k \<notin> fst ` set m" by force
    then show ?thesis by (simp add: smap_find_def map_of_eq_None_iff)
  qed
  show ?case using Cons.IH [OF ok] absent by (auto simp: p)
qed

lemma smap_find_erase [simp, smap_simps]:
  "smap_find (smap_erase k m) k' = (if k' = k then None else smap_find m k')"
  by (induction m) (auto simp: smap_find_def smap_erase_def)

lemma smap_find_in_set: "smap_find m k = Some v \<Longrightarrow> (k, v) \<in> set m"
  by (simp add: smap_find_def map_of_SomeD)

lemma smap_in_set_find: "smap_ok m \<Longrightarrow> (k, v) \<in> set m \<Longrightarrow> smap_find m k = Some v"
  by (induction m) (auto simp: smap_ok_def)

lemma length_smap_insert:
  "smap_ok m \<Longrightarrow> smap_find m k = None \<Longrightarrow> length (smap_insert k v m) = Suc (length m)"
  by (induction m) (auto simp: smap_ok_def split: if_splits)

lemma length_smap_erase:
  "smap_ok m \<Longrightarrow> smap_find m k = Some v \<Longrightarrow> Suc (length (smap_erase k m)) = length m"
proof (induction m)
  case (Cons p m)
  have "smap_erase k m = m" if "fst p = k"
    using Cons.prems(1) that by (auto simp: smap_ok_def smap_erase_def filter_id_conv)
  with Cons show ?case by (cases p) (auto simp: smap_ok_def smap_erase_def)
qed simp

lemma set_smap_erase: "set (smap_erase k m) = {p \<in> set m. fst p \<noteq> k}"
  by (auto simp: smap_erase_def)

text \<open>
  The contract the clients of \<^verbatim>\<open>std::map\<close> rely on; the sorted association list meets it.
\<close>

locale std_map =
  fixes find :: "'m \<Rightarrow> 'k \<Rightarrow> 'v option"
    and ins :: "'k \<Rightarrow> 'v \<Rightarrow> 'm \<Rightarrow> 'm"
    and erase :: "'k \<Rightarrow> 'm \<Rightarrow> 'm"
    and ok :: "'m \<Rightarrow> bool"
  assumes find_ins: "ok m \<Longrightarrow> find m k = None \<Longrightarrow> find (ins k v m) = (find m)(k \<mapsto> v)"
    and find_erase: "ok m \<Longrightarrow> find (erase k m) = (find m)(k := None)"
    and ok_ins: "ok m \<Longrightarrow> ok (ins k v m)"
    and ok_erase: "ok m \<Longrightarrow> ok (erase k m)"
begin

lemma dom_ins: "ok m \<Longrightarrow> find m k = None \<Longrightarrow> dom (find (ins k v m)) = insert k (dom (find m))"
  by (simp add: find_ins)

lemma dom_erase: "ok m \<Longrightarrow> dom (find (erase k m)) = dom (find m) - {k}"
  by (simp add: find_erase)

lemma erase_ins: "ok m \<Longrightarrow> find m k = None \<Longrightarrow> find (erase k (ins k v m)) = find m"
  by (simp add: find_ins find_erase ok_ins fun_upd_idem)

end

interpretation smap: std_map smap_find smap_insert smap_erase smap_ok
  by unfold_locales (auto simp: fun_eq_iff)

end
