(* ===== verification/Test_Defs.thy ===== *)
theory Test_Defs
  imports Prelude
begin

text \<open>
  The configuration macros of \<^verbatim>\<open>hpdcache_test_defs.h\<close> with no \<^verbatim>\<open>CONF_HPDCACHE_*\<close> override,
  the derived field widths, and the bit-vector types of the default configuration.
\<close>

named_theorems conf_defs \<open>configuration constants\<close>

definition HPDCACHE_TEST_DEFS_LOG2 :: "nat \<Rightarrow> nat" where
  "HPDCACHE_TEST_DEFS_LOG2 x =
     (if x \<le> 1 then 0
      else if x \<le> 2 then 1
      else if x \<le> 4 then 2
      else if x \<le> 8 then 3
      else if x \<le> 16 then 4
      else if x \<le> 32 then 5
      else if x \<le> 64 then 6
      else if x \<le> 128 then 7
      else if x \<le> 256 then 8
      else if x \<le> 512 then 9
      else if x \<le> 1024 then 10
      else if x \<le> 2048 then 11
      else if x \<le> 4096 then 12
      else if x \<le> 8192 then 13
      else if x \<le> 16384 then 14
      else 0)"

definition SCOREBOARD_RAM_SIZE :: nat where
  [conf_defs]: "SCOREBOARD_RAM_SIZE = 16 * 2 ^ 20"

definition HPDCACHE_WAYS :: nat where [conf_defs]: "HPDCACHE_WAYS = 8"
definition HPDCACHE_SETS :: nat where [conf_defs]: "HPDCACHE_SETS = 64"
definition HPDCACHE_CL_WORDS :: nat where [conf_defs]: "HPDCACHE_CL_WORDS = 8"
definition HPDCACHE_WORD_WIDTH :: nat where [conf_defs]: "HPDCACHE_WORD_WIDTH = 64"
definition HPDCACHE_PA_WIDTH :: nat where [conf_defs]: "HPDCACHE_PA_WIDTH = 49"
definition HPDCACHE_REQ_WORDS :: nat where [conf_defs]: "HPDCACHE_REQ_WORDS = 1"

definition HPDCACHE_REQ_DATA_WIDTH :: nat where
  [conf_defs]: "HPDCACHE_REQ_DATA_WIDTH = HPDCACHE_REQ_WORDS * HPDCACHE_WORD_WIDTH"

definition HPDCACHE_MEM_ADDR_WIDTH :: nat where [conf_defs]: "HPDCACHE_MEM_ADDR_WIDTH = 64"
definition HPDCACHE_MEM_DATA_WIDTH :: nat where [conf_defs]: "HPDCACHE_MEM_DATA_WIDTH = 512"
definition HPDCACHE_MEM_ID_WIDTH :: nat where [conf_defs]: "HPDCACHE_MEM_ID_WIDTH = 4"
definition HPDCACHE_REQ_SRC_ID_WIDTH :: nat where [conf_defs]: "HPDCACHE_REQ_SRC_ID_WIDTH = 3"
definition HPDCACHE_REQ_TRANS_ID_WIDTH :: nat where [conf_defs]: "HPDCACHE_REQ_TRANS_ID_WIDTH = 6"

definition HPDCACHE_SET_WIDTH :: nat where
  [conf_defs]: "HPDCACHE_SET_WIDTH = HPDCACHE_TEST_DEFS_LOG2 HPDCACHE_SETS"

definition HPDCACHE_CL_OFFSET_WIDTH :: nat where
  [conf_defs]: "HPDCACHE_CL_OFFSET_WIDTH =
     HPDCACHE_TEST_DEFS_LOG2 ((HPDCACHE_CL_WORDS * HPDCACHE_WORD_WIDTH) div 8)"

definition HPDCACHE_NLINE_WIDTH :: nat where
  [conf_defs]: "HPDCACHE_NLINE_WIDTH = HPDCACHE_PA_WIDTH - HPDCACHE_CL_OFFSET_WIDTH"

definition HPDCACHE_TAG_WIDTH :: nat where
  [conf_defs]: "HPDCACHE_TAG_WIDTH = HPDCACHE_NLINE_WIDTH - HPDCACHE_SET_WIDTH"

definition HPDCACHE_ADDR_OFFSET_WIDTH :: nat where
  [conf_defs]: "HPDCACHE_ADDR_OFFSET_WIDTH = HPDCACHE_PA_WIDTH - HPDCACHE_TAG_WIDTH"

definition HPDCACHE_REQ_OP_WIDTH :: nat where [conf_defs]: "HPDCACHE_REQ_OP_WIDTH = 5"
definition HPDCACHE_REQ_SIZE_WIDTH :: nat where [conf_defs]: "HPDCACHE_REQ_SIZE_WIDTH = 3"
definition HPDCACHE_REQ_PMA_WIDTH :: nat where [conf_defs]: "HPDCACHE_REQ_PMA_WIDTH = 5"
definition HPDCACHE_REQ_NEED_RSP_WIDTH :: nat where [conf_defs]: "HPDCACHE_REQ_NEED_RSP_WIDTH = 1"
definition HPDCACHE_REQ_PHYS_INDEXED_WIDTH :: nat where
  [conf_defs]: "HPDCACHE_REQ_PHYS_INDEXED_WIDTH = 1"
definition HPDCACHE_RSP_ERROR_WIDTH :: nat where [conf_defs]: "HPDCACHE_RSP_ERROR_WIDTH = 1"
definition HPDCACHE_RSP_ABORTED_WIDTH :: nat where [conf_defs]: "HPDCACHE_RSP_ABORTED_WIDTH = 1"

definition HPDCACHE_CORE_REQ_WIDTH :: nat where
  [conf_defs]: "HPDCACHE_CORE_REQ_WIDTH =
     HPDCACHE_ADDR_OFFSET_WIDTH + HPDCACHE_REQ_DATA_WIDTH + HPDCACHE_REQ_OP_WIDTH
     + HPDCACHE_REQ_DATA_WIDTH div 8 + HPDCACHE_REQ_SIZE_WIDTH + HPDCACHE_REQ_SRC_ID_WIDTH
     + HPDCACHE_REQ_TRANS_ID_WIDTH + HPDCACHE_REQ_NEED_RSP_WIDTH
     + HPDCACHE_REQ_PHYS_INDEXED_WIDTH + HPDCACHE_TAG_WIDTH + HPDCACHE_REQ_PMA_WIDTH"

definition HPDCACHE_CORE_RSP_WIDTH :: nat where
  [conf_defs]: "HPDCACHE_CORE_RSP_WIDTH =
     HPDCACHE_REQ_DATA_WIDTH + HPDCACHE_REQ_SRC_ID_WIDTH + HPDCACHE_REQ_TRANS_ID_WIDTH
     + HPDCACHE_RSP_ERROR_WIDTH + HPDCACHE_RSP_ABORTED_WIDTH"

text \<open>The derived widths of the default configuration, for the simplifier.\<close>

lemma conf_widths [simp]:
  "HPDCACHE_REQ_DATA_WIDTH = 64" "HPDCACHE_SET_WIDTH = 6" "HPDCACHE_CL_OFFSET_WIDTH = 6"
  "HPDCACHE_NLINE_WIDTH = 43" "HPDCACHE_TAG_WIDTH = 37" "HPDCACHE_ADDR_OFFSET_WIDTH = 12"
  "HPDCACHE_CORE_REQ_WIDTH = 145" "HPDCACHE_CORE_RSP_WIDTH = 75"
  by (simp_all add: conf_defs HPDCACHE_TEST_DEFS_LOG2_def)

lemma conf_values [simp]:
  "HPDCACHE_WAYS = 8" "HPDCACHE_SETS = 64" "HPDCACHE_CL_WORDS = 8" "HPDCACHE_WORD_WIDTH = 64"
  "HPDCACHE_PA_WIDTH = 49" "HPDCACHE_REQ_WORDS = 1" "HPDCACHE_MEM_ADDR_WIDTH = 64"
  "HPDCACHE_MEM_DATA_WIDTH = 512" "HPDCACHE_MEM_ID_WIDTH = 4" "HPDCACHE_REQ_SRC_ID_WIDTH = 3"
  "HPDCACHE_REQ_TRANS_ID_WIDTH = 6" "HPDCACHE_REQ_OP_WIDTH = 5" "HPDCACHE_REQ_SIZE_WIDTH = 3"
  "HPDCACHE_REQ_PMA_WIDTH = 5" "HPDCACHE_REQ_NEED_RSP_WIDTH = 1"
  "HPDCACHE_REQ_PHYS_INDEXED_WIDTH = 1" "HPDCACHE_RSP_ERROR_WIDTH = 1"
  "HPDCACHE_RSP_ABORTED_WIDTH = 1" "SCOREBOARD_RAM_SIZE = 16777216"
  by (simp_all add: conf_defs)

section \<open>Bit-vector types of the default configuration\<close>

type_synonym addr_bv = "49 word"       \<comment> \<open>\<^verbatim>\<open>sc_bv<HPDCACHE_PA_WIDTH>\<close>\<close>
type_synonym op_bv = "5 word"          \<comment> \<open>\<^verbatim>\<open>sc_bv<HPDCACHE_REQ_OP_WIDTH>\<close>\<close>
type_synonym size_bv = "3 word"        \<comment> \<open>\<^verbatim>\<open>sc_bv<HPDCACHE_REQ_SIZE_WIDTH>\<close>\<close>
type_synonym sid_bv = "3 word"         \<comment> \<open>\<^verbatim>\<open>sc_bv<HPDCACHE_REQ_SRC_ID_WIDTH>\<close>\<close>
type_synonym tid_bv = "6 word"         \<comment> \<open>\<^verbatim>\<open>sc_bv<HPDCACHE_REQ_TRANS_ID_WIDTH>\<close>\<close>
type_synonym mem_bv = "512 word"       \<comment> \<open>\<^verbatim>\<open>sc_bv<HPDCACHE_MEM_DATA_WIDTH>\<close>\<close>

section \<open>The logarithm macro\<close>

lemma log2_le_bound:
  assumes "1 \<le> x" and "x \<le> 16384"
  shows "x \<le> 2 ^ HPDCACHE_TEST_DEFS_LOG2 x"
  using assms by (simp add: HPDCACHE_TEST_DEFS_LOG2_def)

lemma log2_less_double:
  assumes "1 \<le> x" and "x \<le> 16384"
  shows "2 ^ HPDCACHE_TEST_DEFS_LOG2 x < 2 * x"
  using assms by (simp add: HPDCACHE_TEST_DEFS_LOG2_def)

end
