(* ===== verification/Ram_Model.thy ===== *)
theory Ram_Model
  imports Prelude
begin

text \<open>
  \<^verbatim>\<open>ram_model<N>\<close> (\<^verbatim>\<open>ram_model.h\<close>): a byte array of \<^verbatim>\<open>N\<close> elements with a bitmap of the bytes that
  have been written. An access outside one of the arrays is undefined behaviour of the C++
  and is the value \<open>None\<close> of the model. The arrays are functions from indices, read only
  below their length.
\<close>

record ram =
  ram_N :: nat
  mem_m :: "nat \<Rightarrow> u8"
  bmap_m :: "nat \<Rightarrow> u8"

definition ram_init :: "nat \<Rightarrow> ram" where
  "ram_init N = \<lparr>ram_N = N, mem_m = (\<lambda>_. 0), bmap_m = (\<lambda>_. 0)\<rparr>"

definition getBit :: "u8 \<Rightarrow> nat \<Rightarrow> u8" where
  "getBit byte pos = drop_bit pos byte AND 1"

definition setBit :: "u8 \<Rightarrow> nat \<Rightarrow> u8" where
  "setBit byte pos = byte OR push_bit pos 1"

definition getBmap :: "ram \<Rightarrow> nat \<Rightarrow> bool option" where
  "getBmap r addr =
     (let off = addr mod ram_N r in
      if off div 8 < ram_N r div 8 then Some (getBit (bmap_m r (off div 8)) (off mod 8) \<noteq> 0)
      else None)"

definition setBmap :: "ram \<Rightarrow> nat \<Rightarrow> ram option" where
  "setBmap r addr =
     (let off = addr mod ram_N r in
      if off div 8 < ram_N r div 8
      then Some (r\<lparr>bmap_m := (bmap_m r)(off div 8 := setBit (bmap_m r (off div 8)) (off mod 8))\<rparr>)
      else None)"

text \<open>
  The loop of \<^verbatim>\<open>read\<close>: \<open>i\<close> is the loop counter, the last argument the iterations left;
  \<open>valid\<close> is \<open>None\<close> for a null pointer.
\<close>

fun ram_read_loop ::
  "ram \<Rightarrow> nat \<Rightarrow> nat \<Rightarrow> u8 list \<Rightarrow> u8 list option \<Rightarrow> nat \<Rightarrow> (u8 list \<times> u8 list option) option" where
  "ram_read_loop r off i buf valid 0 = Some (buf, valid)"
| "ram_read_loop r off i buf valid (Suc k) =
     (if off + i < ram_N r then
        (case valid of
           None \<Rightarrow> ram_read_loop r off (Suc i) (buf @ [mem_m r (off + i)]) None k
         | Some v \<Rightarrow>
             (case getBmap r (off + i) of
                None \<Rightarrow> None
              | Some b \<Rightarrow>
                  ram_read_loop r off (Suc i) (buf @ [mem_m r (off + i)])
                    (Some (if b then v[i div 8 := setBit (v ! (i div 8)) (i mod 8)] else v)) k))
      else None)"

definition ram_read :: "ram \<Rightarrow> nat \<Rightarrow> u64 \<Rightarrow> bool \<Rightarrow> (u8 list \<times> u8 list option) option" where
  "ram_read r n addr want_valid =
     ram_read_loop r (unat addr mod ram_N r) 0 []
       (if want_valid then Some (replicate ((n + 7) div 8) 0) else None) n"

fun ram_write_loop ::
  "nat \<Rightarrow> u8 list \<Rightarrow> u8 list \<Rightarrow> nat \<Rightarrow> nat \<Rightarrow> ram \<Rightarrow> ram option" where
  "ram_write_loop off buf be i 0 r = Some r"
| "ram_write_loop off buf be i (Suc k) r =
     (if i div 8 < length be then
        (if getBit (be ! (i div 8)) (i mod 8) \<noteq> 0 then
           (if off + i < ram_N r \<and> i < length buf then
              (case setBmap (r\<lparr>mem_m := (mem_m r)(off + i := buf ! i)\<rparr>) (off + i) of
                 None \<Rightarrow> None
               | Some r' \<Rightarrow> ram_write_loop off buf be (Suc i) k r')
            else None)
         else ram_write_loop off buf be (Suc i) k r)
      else None)"

definition ram_write :: "ram \<Rightarrow> u8 list \<Rightarrow> u8 list \<Rightarrow> nat \<Rightarrow> u64 \<Rightarrow> ram option" where
  "ram_write r buf be n addr = ram_write_loop (unat addr mod ram_N r) buf be 0 n r"

section \<open>The abstract store\<close>

text \<open>A byte that has been written holds its value; any other byte is unknown.\<close>

definition ram_abs :: "ram \<Rightarrow> nat \<Rightarrow> u8 option" where
  "ram_abs r a =
     (if a < ram_N r \<and> bit (bmap_m r (a div 8)) (a mod 8) then Some (mem_m r a) else None)"

definition ram_ok :: "ram \<Rightarrow> bool" where
  "ram_ok r \<longleftrightarrow> 0 < ram_N r \<and> 8 dvd ram_N r"

definition be_bit :: "u8 list \<Rightarrow> nat \<Rightarrow> bool" where
  "be_bit be i \<longleftrightarrow> bit (be ! (i div 8)) (i mod 8)"

lemma getBit_iff [simp]: "getBit b p \<noteq> 0 \<longleftrightarrow> bit b p"
  by (simp add: getBit_def and_one_eq bit_iff_odd_drop_bit flip: odd_iff_mod_2_eq_one)

lemma getBit_eq_0 [simp]: "getBit b p = 0 \<longleftrightarrow> \<not> bit b p"
  using getBit_iff by blast

lemma bit_setBit [simp]: "p < 8 \<Longrightarrow> bit (setBit b p) q \<longleftrightarrow> bit b q \<or> q = p"
  by (auto simp: setBit_def bit_simps)

lemma ram_ok_div: "ram_ok r \<Longrightarrow> a < ram_N r \<Longrightarrow> a div 8 < ram_N r div 8"
  by (auto simp: ram_ok_def elim!: dvdE)

lemma getBmap_ok:
  "ram_ok r \<Longrightarrow> a < ram_N r \<Longrightarrow> getBmap r a = Some (ram_abs r a \<noteq> None)"
  by (simp add: getBmap_def ram_ok_div Let_def ram_abs_def)

lemma setBmap_ok:
  "ram_ok r \<Longrightarrow> a < ram_N r \<Longrightarrow>
   setBmap r a = Some (r\<lparr>bmap_m := (bmap_m r)(a div 8 := setBit (bmap_m r (a div 8)) (a mod 8))\<rparr>)"
  by (simp add: setBmap_def ram_ok_div Let_def)

lemma div_mod_8_eq: "a div 8 = b div 8 \<Longrightarrow> a mod 8 = b mod 8 \<Longrightarrow> a = (b::nat)"
  by (metis div_mult_mod_eq)

text \<open>One enabled byte of the write loop updates the abstract store at one address.\<close>

lemma ram_abs_store_byte:
  assumes "ram_ok r" and "a < ram_N r"
  shows "ram_abs (r\<lparr>mem_m := (mem_m r)(a := b),
                    bmap_m := (bmap_m r)(a div 8 := setBit (bmap_m r (a div 8)) (a mod 8))\<rparr>) =
         (ram_abs r)(a \<mapsto> b)"
  using assms by (auto simp: ram_abs_def fun_eq_iff dest: div_mod_8_eq)

definition upd_bytes :: "u8 list \<Rightarrow> u8 list \<Rightarrow> nat \<Rightarrow> nat \<Rightarrow> nat \<Rightarrow> (nat \<Rightarrow> u8 option) \<Rightarrow> nat \<Rightarrow> u8 option" where
  "upd_bytes buf be off i n f a =
     (if off + i \<le> a \<and> a < off + n \<and> be_bit be (a - off) then Some (buf ! (a - off)) else f a)"

lemma upd_bytes_self: "upd_bytes buf be off n n f = f"
  by (auto simp: upd_bytes_def fun_eq_iff)

lemma upd_bytes_step:
  "i < n \<Longrightarrow> upd_bytes buf be off i n f =
     upd_bytes buf be off (Suc i) n (if be_bit be i then f(off + i \<mapsto> buf ! i) else f)"
  by (auto simp: upd_bytes_def fun_eq_iff)
     (metis add_diff_cancel_left' le_antisym not_less_eq_eq)+

lemma ram_write_loop_correct:
  assumes "ram_ok r" and "off + (i + k) \<le> ram_N r" and "i + k \<le> length buf"
    and "i + k \<le> 8 * length be"
  shows "\<exists>r'. ram_write_loop off buf be i k r = Some r' \<and> ram_ok r' \<and> ram_N r' = ram_N r \<and>
              ram_abs r' = upd_bytes buf be off i (i + k) (ram_abs r)"
  using assms
proof (induction k arbitrary: i r)
  case 0
  then show ?case by (simp add: upd_bytes_self)
next
  case (Suc k)
  let ?a = "off + i"
  let ?r1 = "r\<lparr>mem_m := (mem_m r)(?a := buf ! i),
               bmap_m := (bmap_m r)(?a div 8 := setBit (bmap_m r (?a div 8)) (?a mod 8))\<rparr>"
  define r1 where "r1 = (if be_bit be i then ?r1 else r)"
  from Suc.prems have lt: "?a < ram_N r" and il: "i < length buf" and bl: "i div 8 < length be"
    by auto
  have ok1: "ram_ok r1" and N1: "ram_N r1 = ram_N r"
    using Suc.prems(1) by (auto simp: r1_def ram_ok_def)
  have abs1: "ram_abs r1 = (if be_bit be i then (ram_abs r)(?a \<mapsto> buf ! i) else ram_abs r)"
    using ram_abs_store_byte [OF Suc.prems(1) lt] by (simp add: r1_def)
  have step: "ram_write_loop off buf be i (Suc k) r = ram_write_loop off buf be (Suc i) k r1"
  proof -
    have "setBmap (r\<lparr>mem_m := (mem_m r)(?a := buf ! i)\<rparr>) ?a = Some ?r1"
      using Suc.prems(1) lt by (subst setBmap_ok) (auto simp: ram_ok_def)
    with lt il bl show ?thesis by (auto simp: r1_def be_bit_def)
  qed
  obtain r' where "ram_write_loop off buf be (Suc i) k r1 = Some r'" "ram_ok r'"
      "ram_N r' = ram_N r1" "ram_abs r' = upd_bytes buf be off (Suc i) (Suc i + k) (ram_abs r1)"
    using Suc.IH [of r1 "Suc i"] ok1 N1 Suc.prems by auto
  then show ?case
    using step N1 abs1 upd_bytes_step [of i "i + Suc k" buf be off "ram_abs r"] by auto
qed

lemma ram_write_correct:
  assumes "ram_ok r" and "unat addr mod ram_N r + n \<le> ram_N r" and "n \<le> length buf"
    and "n \<le> 8 * length be"
  obtains r' where "ram_write r buf be n addr = Some r'" "ram_ok r'" "ram_N r' = ram_N r"
    "ram_abs r' = upd_bytes buf be (unat addr mod ram_N r) 0 n (ram_abs r)"
  using ram_write_loop_correct [of r "unat addr mod ram_N r" 0 n buf be] assms
  by (auto simp: ram_write_def)

lemma ram_read_loop_correct:
  assumes "ram_ok r" and "off + (i + k) \<le> ram_N r" and "length buf = i" and "i + k \<le> 8 * length v"
  shows "\<exists>v'. ram_read_loop r off i buf (Some v) k =
                Some (buf @ map (\<lambda>j. mem_m r (off + j)) [i..<i + k], Some v') \<and>
              length v' = length v \<and>
              (\<forall>j < 8 * length v. be_bit v' j \<longleftrightarrow>
                 be_bit v j \<or> (i \<le> j \<and> j < i + k \<and> ram_abs r (off + j) \<noteq> None))"
  using assms
proof (induction k arbitrary: i buf v)
  case 0
  then show ?case by auto
next
  case (Suc k)
  let ?b = "ram_abs r (off + i) \<noteq> None" and ?buf = "buf @ [mem_m r (off + i)]"
  define w where "w = (if ?b then v[i div 8 := setBit (v ! (i div 8)) (i mod 8)] else v)"
  from Suc.prems have lt: "off + i < ram_N r" and il: "i div 8 < length v" by auto
  have len: "length w = length v" by (simp add: w_def)
  have step: "ram_read_loop r off i buf (Some v) (Suc k) =
              ram_read_loop r off (Suc i) ?buf (Some w) k"
    using lt getBmap_ok [OF Suc.prems(1) lt] by (simp add: w_def)
  have bits: "be_bit w j \<longleftrightarrow> be_bit v j \<or> (j = i \<and> ?b)" if "j < 8 * length v" for j
    using that il by (auto simp: w_def be_bit_def nth_list_update dest: div_mod_8_eq)
  have upt: "[i..<i + Suc k] = i # [Suc i..<Suc i + k]"
    by (simp add: upt_conv_Cons)
  have "\<exists>v'. ram_read_loop r off (Suc i) ?buf (Some w) k =
        Some (?buf @ map (\<lambda>j. mem_m r (off + j)) [Suc i..<Suc i + k], Some v') \<and>
      length v' = length w \<and>
      (\<forall>j < 8 * length w. be_bit v' j \<longleftrightarrow>
         be_bit w j \<or> (Suc i \<le> j \<and> j < Suc i + k \<and> ram_abs r (off + j) \<noteq> None))"
    by (rule Suc.IH) (use Suc.prems len in auto)
  then obtain v' where v': "ram_read_loop r off i buf (Some v) (Suc k) =
        Some (buf @ map (\<lambda>j. mem_m r (off + j)) [i..<i + Suc k], Some v')" "length v' = length v"
      "\<forall>j < 8 * length v. be_bit v' j \<longleftrightarrow>
         be_bit w j \<or> (Suc i \<le> j \<and> j < Suc i + k \<and> ram_abs r (off + j) \<noteq> None)"
    unfolding step upt len by auto
  have "be_bit v' j \<longleftrightarrow> be_bit v j \<or> (i \<le> j \<and> j < i + Suc k \<and> ram_abs r (off + j) \<noteq> None)"
    if "j < 8 * length v" for j
    using v'(3) bits [OF that] that by (auto simp: le_less)
  with v'(1,2) show ?case by blast
qed

lemma be_bit_replicate: "j < 8 * n \<Longrightarrow> \<not> be_bit (replicate n 0) j"
  by (simp add: be_bit_def)

lemma ram_read_correct:
  assumes "ram_ok r" and "unat addr mod ram_N r + n \<le> ram_N r"
  obtains bs v where "ram_read r n addr True = Some (bs, Some v)"
    "bs = map (\<lambda>j. mem_m r (unat addr mod ram_N r + j)) [0..<n]" "length v = (n + 7) div 8"
    "\<And>j. j < n \<Longrightarrow> be_bit v j \<longleftrightarrow> ram_abs r (unat addr mod ram_N r + j) \<noteq> None"
proof -
  let ?off = "unat addr mod ram_N r" and ?v = "replicate ((n + 7) div 8) (0::u8)"
  have n8: "n \<le> 8 * ((n + 7) div 8)" by simp
  obtain v' where "ram_read_loop r ?off 0 [] (Some ?v) n =
        Some (map (\<lambda>j. mem_m r (?off + j)) [0..<n], Some v')" "length v' = (n + 7) div 8"
      "\<And>j. j < 8 * ((n + 7) div 8) \<Longrightarrow>
         be_bit v' j \<longleftrightarrow> be_bit ?v j \<or> (j < n \<and> ram_abs r (?off + j) \<noteq> None)"
    using ram_read_loop_correct [of r ?off 0 n "[]" ?v] assms n8 by auto
  then show thesis
    using that n8 by (simp add: ram_read_def be_bit_replicate)
qed

section \<open>The contract of a byte store\<close>

text \<open>
  What the scoreboard relies on: a write inside the array succeeds, updates exactly the enabled
  bytes and a read returns the current value of every known byte and says which are known.
\<close>

locale byte_store =
  fixes abs :: "'r \<Rightarrow> nat \<Rightarrow> u8 option"
    and sz :: "'r \<Rightarrow> nat"
    and ok :: "'r \<Rightarrow> bool"
    and rd :: "'r \<Rightarrow> nat \<Rightarrow> u64 \<Rightarrow> bool \<Rightarrow> (u8 list \<times> u8 list option) option"
    and wr :: "'r \<Rightarrow> u8 list \<Rightarrow> u8 list \<Rightarrow> nat \<Rightarrow> u64 \<Rightarrow> 'r option"
  assumes wr_ok: "ok r \<Longrightarrow> unat addr mod sz r + n \<le> sz r \<Longrightarrow> n \<le> length buf \<Longrightarrow>
      n \<le> 8 * length be \<Longrightarrow>
      \<exists>r'. wr r buf be n addr = Some r' \<and> ok r' \<and> sz r' = sz r \<and>
           abs r' = upd_bytes buf be (unat addr mod sz r) 0 n (abs r)"
    and rd_ok: "ok r \<Longrightarrow> unat addr mod sz r + n \<le> sz r \<Longrightarrow>
      \<exists>bs v. rd r n addr True = Some (bs, Some v) \<and> length bs = n \<and> length v = (n + 7) div 8 \<and>
             (\<forall>j < n. be_bit v j \<longleftrightarrow> abs r (unat addr mod sz r + j) \<noteq> None) \<and>
             (\<forall>j < n. \<forall>b. abs r (unat addr mod sz r + j) = Some b \<longrightarrow> bs ! j = b)"
begin

lemma write_then_read:
  assumes "ok r" "unat addr mod sz r + n \<le> sz r" "n \<le> length buf" "n \<le> 8 * length be"
  shows "\<exists>r' bs v. wr r buf be n addr = Some r' \<and> rd r' n addr True = Some (bs, Some v) \<and>
           length bs = n \<and> (\<forall>j < n. be_bit be j \<longrightarrow> be_bit v j \<and> bs ! j = buf ! j)"
proof -
  obtain r' where r': "wr r buf be n addr = Some r'" "ok r'" "sz r' = sz r"
      "abs r' = upd_bytes buf be (unat addr mod sz r) 0 n (abs r)"
    using wr_ok [OF assms] by blast
  obtain bs v where "rd r' n addr True = Some (bs, Some v)" "length bs = n"
      "\<forall>j < n. be_bit v j \<longleftrightarrow> abs r' (unat addr mod sz r' + j) \<noteq> None"
      "\<forall>j < n. \<forall>b. abs r' (unat addr mod sz r' + j) = Some b \<longrightarrow> bs ! j = b"
    using rd_ok [of r' addr n] r' assms(2) by metis
  with r' show ?thesis
    by (intro exI [of _ r'] exI [of _ bs] exI [of _ v]) (auto simp: upd_bytes_def)
qed

end

interpretation ram: byte_store ram_abs ram_N ram_ok ram_read ram_write
proof
  show "\<exists>r'. ram_write r buf be n addr = Some r' \<and> ram_ok r' \<and> ram_N r' = ram_N r \<and>
             ram_abs r' = upd_bytes buf be (unat addr mod ram_N r) 0 n (ram_abs r)"
    if "ram_ok r" "unat addr mod ram_N r + n \<le> ram_N r" "n \<le> length buf" "n \<le> 8 * length be"
    for r addr n buf be
    using ram_write_correct [OF that] by metis
  show "\<exists>bs v. ram_read r n addr True = Some (bs, Some v) \<and> length bs = n \<and>
          length v = (n + 7) div 8 \<and>
          (\<forall>j < n. be_bit v j \<longleftrightarrow> ram_abs r (unat addr mod ram_N r + j) \<noteq> None) \<and>
          (\<forall>j < n. \<forall>b. ram_abs r (unat addr mod ram_N r + j) = Some b \<longrightarrow> bs ! j = b)"
    if r: "ram_ok r" "unat addr mod ram_N r + n \<le> ram_N r" for r addr n
  proof -
    obtain bs v where bs: "ram_read r n addr True = Some (bs, Some v)"
        "bs = map (\<lambda>j. mem_m r (unat addr mod ram_N r + j)) [0..<n]" "length v = (n + 7) div 8"
      and v: "\<And>j. j < n \<Longrightarrow> be_bit v j \<longleftrightarrow> ram_abs r (unat addr mod ram_N r + j) \<noteq> None"
      by (rule ram_read_correct [OF r]) blast
    have "bs ! j = b" if "j < n" "ram_abs r (unat addr mod ram_N r + j) = Some b" for j b
      using that bs(2) by (simp add: ram_abs_def split: if_splits)
    with bs v show ?thesis by (intro exI [of _ bs] exI [of _ v]) auto
  qed
qed

end
