(* ===== verification/Mem_Model.thy ===== *)
theory Mem_Model
  imports Prelude
begin

text \<open>
  \<^verbatim>\<open>mem_model\<close> (\<^verbatim>\<open>mem_model.h\<close>): the sparse 64-bit-word memory behind the memory response model.
  A word that is read or partly written before it exists is created from two calls of \<^verbatim>\<open>rand()\<close>
  (or from the initial value). The C library's generator is the parameter \<open>rand\<close>: \<open>rand n\<close>
  is the result of the \<open>n\<close>-th call, and \<open>rand_cnt\<close> counts the calls made so far.
\<close>

datatype mem_model_init_mode_e = MEM_MODEL_INIT_VALUE | MEM_MODEL_INIT_RANDOM

record mem_model =
  mem_array_m :: "u64 \<rightharpoonup> u64"
  init_mode_m :: mem_model_init_mode_e
  init_val_m :: u64
  rand_cnt :: nat

type_synonym rand_src = "nat \<Rightarrow> u32"

text \<open>The constructor stores the random mode whatever mode it is given.\<close>

definition mem_model_new :: "mem_model_init_mode_e \<Rightarrow> u64 \<Rightarrow> mem_model" where
  "mem_model_new init_mode init_val =
     \<lparr>mem_array_m = Map.empty, init_mode_m = MEM_MODEL_INIT_RANDOM, init_val_m = init_val,
      rand_cnt = 0\<rparr>"

fun init_word :: "rand_src \<Rightarrow> mem_model \<Rightarrow> u64 \<times> mem_model" where
  "init_word rand m =
     (case init_mode_m m of
        MEM_MODEL_INIT_RANDOM \<Rightarrow>
          (push_bit 32 (ucast (rand (rand_cnt m))) OR ucast (rand (Suc (rand_cnt m))),
           m\<lparr>rand_cnt := rand_cnt m + 2\<rparr>)
      | MEM_MODEL_INIT_VALUE \<Rightarrow> (init_val_m m, m))"

definition readMemory :: "rand_src \<Rightarrow> mem_model \<Rightarrow> u64 \<Rightarrow> u64 \<times> mem_model" where
  "readMemory rand m word_addr =
     (case mem_array_m m word_addr of
        Some v \<Rightarrow> (v, m)
      | None \<Rightarrow> let (v, m') = init_word rand m
                in (v, m'\<lparr>mem_array_m := (mem_array_m m')(word_addr \<mapsto> v)\<rparr>))"

definition merge_mask :: "u64 \<Rightarrow> u64 \<Rightarrow> u64 \<Rightarrow> u64" where
  "merge_mask old data msk = (old AND NOT msk) OR (data AND msk)"

definition writeMemory :: "rand_src \<Rightarrow> mem_model \<Rightarrow> u64 \<Rightarrow> u64 \<Rightarrow> u64 \<Rightarrow> mem_model" where
  "writeMemory rand m word_addr data msk =
     (case mem_array_m m word_addr of
        Some v \<Rightarrow> m\<lparr>mem_array_m := (mem_array_m m)(word_addr \<mapsto> merge_mask v data msk)\<rparr>
      | None \<Rightarrow> let (v, m') = init_word rand m
                in m'\<lparr>mem_array_m := (mem_array_m m')(word_addr \<mapsto> merge_mask v data msk)\<rparr>)"

definition beToMask :: "u8 \<Rightarrow> u64" where
  "beToMask be =
     foldl (\<lambda>msk j. if drop_bit j be AND 1 \<noteq> 0 then msk OR push_bit (j * 8) 0xff else msk) 0 [0..<8]"

section \<open>Masks and bytes\<close>

lemma bit_beToMask_upto:
  fixes be :: u8
  shows
  "k \<le> 8 \<Longrightarrow>
   bit (foldl (\<lambda>msk j. if drop_bit j be AND 1 \<noteq> 0 then msk OR push_bit (j * 8) 0xff else msk)
        (0 :: u64) [0..<k]) n \<longleftrightarrow> n < 64 \<and> n div 8 < k \<and> bit be (n div 8)"
proof (induction k)
  case 0
  then show ?case by simp
next
  case (Suc k)
  have "k * 8 \<le> n \<and> n < k * 8 + 8 \<longleftrightarrow> n div 8 = k" by auto
  with Suc show ?case by (auto simp: bit_or_iff bit_push_0xff less_Suc_eq)
qed

lemma bit_beToMask [bv_simps]: "bit (beToMask be) n \<longleftrightarrow> n < 64 \<and> bit be (n div 8)"
  using bit_beToMask_upto [of 8 be n] by (auto simp: beToMask_def dest: bit_imp_le_length)

lemma byte_of_merge_mask [simp]:
  "i < 8 \<Longrightarrow>
   byte_of (merge_mask old data (beToMask be)) i = (if bit be i then byte_of data i else byte_of old i)"
  by (rule bit_word_eqI) (auto simp: merge_mask_def bv_simps bit_simps)

section \<open>Reads and writes\<close>

lemma readMemory_present [simp]:
  "mem_array_m m a = Some v \<Longrightarrow> readMemory rand m a = (v, m)"
  by (simp add: readMemory_def)

text \<open>A read pins the word: it is now present with the value returned, and nothing else changed.\<close>

lemma readMemory_pins:
  assumes "readMemory rand m a = (v, m')"
  shows "mem_array_m m' = (mem_array_m m)(a \<mapsto> v)" and "init_mode_m m' = init_mode_m m"
  using assms
  by (auto simp: readMemory_def Let_def split: option.splits prod.splits mem_model_init_mode_e.splits)

lemma writeMemory_contents:
  "\<exists>old. mem_array_m (writeMemory rand m a d k) = (mem_array_m m)(a \<mapsto> merge_mask old d k) \<and>
         (mem_array_m m a \<noteq> None \<longrightarrow> mem_array_m m a = Some old)"
  by (auto simp: writeMemory_def Let_def split: option.splits prod.splits mem_model_init_mode_e.splits)

lemma writeMemory_present:
  "mem_array_m m a = Some v \<Longrightarrow>
   writeMemory rand m a d k = m\<lparr>mem_array_m := (mem_array_m m)(a \<mapsto> merge_mask v d k)\<rparr>"
  by (simp add: writeMemory_def)

section \<open>The contract of a word memory\<close>

text \<open>
  What the memory response model relies on: a read fixes the word it returns, a write merges the
  enabled bytes into the word and touches no other word.
\<close>

locale word_memory =
  fixes cont :: "'m \<Rightarrow> u64 \<rightharpoonup> u64"
    and rd :: "'m \<Rightarrow> u64 \<Rightarrow> u64 \<times> 'm"
    and wr :: "'m \<Rightarrow> u64 \<Rightarrow> u64 \<Rightarrow> u8 \<Rightarrow> 'm"
  assumes rd_cont: "rd m a = (v, m') \<Longrightarrow> cont m' = (cont m)(a \<mapsto> v)"
    and rd_present: "cont m a = Some v \<Longrightarrow> fst (rd m a) = v"
    and wr_cont: "\<exists>new. cont (wr m a d be) = (cont m)(a \<mapsto> new) \<and>
          (\<forall>i < 8. bit be i \<longrightarrow> byte_of new i = byte_of d i) \<and>
          (\<forall>i < 8. \<not> bit be i \<longrightarrow> (\<forall>old. cont m a = Some old \<longrightarrow> byte_of new i = byte_of old i))"
begin

lemma read_read: "rd m a = (v, m') \<Longrightarrow> fst (rd m' a) = v"
  by (rule rd_present) (simp add: rd_cont)

lemma read_after_write_byte:
  assumes "i < 8"
  shows "bit be i \<Longrightarrow> byte_of (fst (rd (wr m a d be) a)) i = byte_of d i"
    and "\<not> bit be i \<Longrightarrow> cont m a = Some old \<Longrightarrow>
         byte_of (fst (rd (wr m a d be) a)) i = byte_of old i"
proof -
  obtain new where new: "cont (wr m a d be) = (cont m)(a \<mapsto> new)"
      "\<forall>i < 8. bit be i \<longrightarrow> byte_of new i = byte_of d i"
      "\<forall>i < 8. \<not> bit be i \<longrightarrow> (\<forall>old. cont m a = Some old \<longrightarrow> byte_of new i = byte_of old i)"
    using wr_cont by blast
  then have "fst (rd (wr m a d be) a) = new" by (intro rd_present) simp
  with new assms show "bit be i \<Longrightarrow> byte_of (fst (rd (wr m a d be) a)) i = byte_of d i"
    and "\<not> bit be i \<Longrightarrow> cont m a = Some old \<Longrightarrow>
         byte_of (fst (rd (wr m a d be) a)) i = byte_of old i"
    by auto
qed

lemma write_other: "a' \<noteq> a \<Longrightarrow> cont (wr m a d be) a' = cont m a'"
  using wr_cont [of m a d be] by auto

end

interpretation memw: word_memory mem_array_m "readMemory rand"
    "\<lambda>m a d be. writeMemory rand m a d (beToMask be)" for rand
proof
  show "mem_array_m m' = (mem_array_m m)(a \<mapsto> v)" if "readMemory rand m a = (v, m')" for m a v m'
    using that by (rule readMemory_pins)
  show "fst (readMemory rand m a) = v" if "mem_array_m m a = Some v" for m a v
    using that by simp
  show "\<exists>new. mem_array_m (writeMemory rand m a d (beToMask be)) = (mem_array_m m)(a \<mapsto> new) \<and>
          (\<forall>i < 8. bit be i \<longrightarrow> byte_of new i = byte_of d i) \<and>
          (\<forall>i < 8. \<not> bit be i \<longrightarrow> (\<forall>old. mem_array_m m a = Some old \<longrightarrow> byte_of new i = byte_of old i))"
    for m a d be
    using writeMemory_contents [of rand m a d "beToMask be"] by auto
qed

end
