(* ===== verification/Cache_Data.thy ===== *)
theory Cache_Data
  imports Mem_Model
begin

text \<open>
  \<^verbatim>\<open>GenericCacheData\<close> (\<^verbatim>\<open>generic_cache_data.h\<close>): the data array of a set-associative cache, one
  64-bit word per (way, set, word). \<open>None\<close> is a failed construction assertion or undefined
  behaviour (an index outside the vector, a shift of an \<^verbatim>\<open>int\<close> by 32 bits or more).
\<close>

record cache_data =
  data_m :: "u64 list"
  ways_d :: nat
  sets_d :: nat
  words_d :: nat

definition cache_data_new :: "nat \<Rightarrow> nat \<Rightarrow> nat \<Rightarrow> cache_data option" where
  "cache_data_new nways nsets nwords =
     (if 0 < nsets \<and> 0 < nways \<and> 0 < nwords
      then Some \<lparr>data_m = replicate (nways * nsets * nwords) 0, ways_d = nways, sets_d = nsets,
                 words_d = nwords\<rparr>
      else None)"

definition data_getAddrSet :: "cache_data \<Rightarrow> u64 \<Rightarrow> nat" where
  "data_getAddrSet c addr = (unat addr div (words_d c * 8)) mod sets_d c"

definition data_getAddrWord :: "cache_data \<Rightarrow> u64 \<Rightarrow> nat" where
  "data_getAddrWord c addr = (unat addr div 8) mod words_d c"

definition data_index :: "cache_data \<Rightarrow> nat \<Rightarrow> nat \<Rightarrow> nat \<Rightarrow> nat" where
  "data_index c way st word = way * (sets_d c * words_d c) + st * words_d c + word"

definition getCacheData :: "cache_data \<Rightarrow> nat \<Rightarrow> nat \<Rightarrow> nat \<Rightarrow> u64 option" where
  "getCacheData c way st word =
     (if data_index c way st word < length (data_m c)
      then Some (data_m c ! data_index c way st word) else None)"

text \<open>
  \<^verbatim>\<open>0xff << (i * 8)\<close> is a shift of a 32-bit \<^verbatim>\<open>int\<close>: undefined from 32 bits on, and the \<^verbatim>\<open>int\<close> result is
  sign-extended when it is or-ed into the 64-bit mask.
\<close>

definition int_shl_0xff :: "nat \<Rightarrow> u64 option" where
  "int_shl_0xff sh = (if sh < 32 then Some (scast (push_bit sh 0xff :: u32)) else None)"

fun write_mask_loop :: "u8 \<Rightarrow> nat list \<Rightarrow> u64 \<Rightarrow> u64 option" where
  "write_mask_loop be [] msk = Some msk"
| "write_mask_loop be (i # is) msk =
     (if drop_bit i be AND 1 \<noteq> 0
      then (case int_shl_0xff (i * 8) of None \<Rightarrow> None | Some s \<Rightarrow> write_mask_loop be is (msk OR s))
      else write_mask_loop be is msk)"

definition write_mask :: "u8 \<Rightarrow> u64 option" where
  "write_mask be = write_mask_loop be [0..<8] 0"

definition cache_data_write ::
  "cache_data \<Rightarrow> u64 \<Rightarrow> u8 \<Rightarrow> nat \<Rightarrow> nat \<Rightarrow> nat \<Rightarrow> cache_data option" where
  "cache_data_write c wdata be way st word =
     (case write_mask be of
        None \<Rightarrow> None
      | Some msk \<Rightarrow>
          (case getCacheData c way st word of
             None \<Rightarrow> None
           | Some prev \<Rightarrow>
               Some (c\<lparr>data_m := (data_m c)[data_index c way st word :=
                                   (prev AND NOT msk) OR (wdata AND msk)]\<rparr>)))"

definition cache_data_read :: "cache_data \<Rightarrow> nat \<Rightarrow> nat \<Rightarrow> nat \<Rightarrow> u64 option" where
  "cache_data_read c way st word = getCacheData c way st word"

definition cache_data_ok :: "cache_data \<Rightarrow> bool" where
  "cache_data_ok c \<longleftrightarrow> length (data_m c) = ways_d c * sets_d c * words_d c"

section \<open>Indexing\<close>

lemma data_index_bound:
  assumes "way < ways_d c" "st < sets_d c" "word < words_d c"
  shows "data_index c way st word < ways_d c * sets_d c * words_d c"
proof -
  let ?S = "sets_d c" and ?W = "words_d c"
  have "st * ?W + word < ?S * ?W"
    using assms(2,3) by (metis add.commute mult_Suc less_le_trans add_less_cancel_left
        mult_le_mono1 Suc_leI)
  moreover have "way * (?S * ?W) + ?S * ?W \<le> ways_d c * (?S * ?W)"
    using assms(1) by (metis mult_Suc add.commute mult_le_mono1 Suc_leI)
  ultimately show ?thesis by (simp add: data_index_def mult.assoc)
qed

lemma data_index_inj:
  assumes "st < sets_d c" "word < words_d c" "st' < sets_d c" "word' < words_d c"
    and eq: "data_index c way st word = data_index c way' st' word'"
  shows "way = way' \<and> st = st' \<and> word = word'"
proof -
  let ?S = "sets_d c" and ?W = "words_d c"
  have flat: "data_index c w s x = (w * ?S + s) * ?W + x" for w s x
    by (simp add: data_index_def algebra_simps)
  from assms(2,4) eq have "word = word'" "way * ?S + st = way' * ?S + st'"
    unfolding flat
    by (metis mod_mult_self3 mod_less, metis div_mult_self3 div_less add_0_right
        less_nat_zero_code)
  moreover from this(2) assms(1,3) have "st = st'" "way = way'"
    by (metis mod_mult_self3 mod_less, metis div_mult_self3 div_less add_0_right
        less_nat_zero_code)
  ultimately show ?thesis by simp
qed

section \<open>Byte enables\<close>

lemma write_mask_loop_undefined:
  "i \<in> set is \<Longrightarrow> 4 \<le> i \<Longrightarrow> bit be i \<Longrightarrow> write_mask_loop be is msk = None"
  by (induction "is" arbitrary: msk) (auto simp: int_shl_0xff_def split: option.splits)

lemma int_shl_0xff_low: "sh \<le> 16 \<Longrightarrow> int_shl_0xff sh = Some (push_bit sh 0xff)"
proof -
  assume "sh \<le> 16"
  have "scast (push_bit sh 0xff :: u32) = (push_bit sh 0xff :: u64)"
  proof (rule bit_word_eqI)
    fix n assume "n < LENGTH(64)"
    with \<open>sh \<le> 16\<close> show "bit (scast (push_bit sh 0xff :: u32) :: u64) n \<longleftrightarrow> bit (push_bit sh 0xff :: u64) n"
      by (auto simp: bit_signed_iff bit_push_0xff min_def)
  qed
  with \<open>sh \<le> 16\<close> show ?thesis by (simp add: int_shl_0xff_def)
qed

lemma write_mask_loop_low:
  assumes "\<And>i. i \<in> set is \<Longrightarrow> bit be i \<Longrightarrow> i < 3"
  shows "write_mask_loop be is msk =
    Some (foldl (\<lambda>msk j. if drop_bit j be AND 1 \<noteq> 0 then msk OR push_bit (j * 8) 0xff else msk) msk is)"
  using assms
proof (induction "is" arbitrary: msk)
  case Nil
  then show ?case by simp
next
  case (Cons i js)
  have IH: "write_mask_loop be js m =
      Some (foldl (\<lambda>msk j. if drop_bit j be AND 1 \<noteq> 0 then msk OR push_bit (j * 8) 0xff else msk) m js)" for m
    using Cons.prems by (intro Cons.IH) auto
  have "bit be i \<Longrightarrow> int_shl_0xff (i * 8) = Some (push_bit (i * 8) 0xff)"
    using Cons.prems [of i] by (intro int_shl_0xff_low) auto
  then show ?case using IH by simp
qed

lemma write_mask_low: "(\<And>i. bit be i \<Longrightarrow> i < 3) \<Longrightarrow> write_mask be = Some (beToMask be)"
  by (simp add: write_mask_def beToMask_def write_mask_loop_low)

lemma getCacheData_ok:
  "cache_data_ok c \<Longrightarrow> way < ways_d c \<Longrightarrow> st < sets_d c \<Longrightarrow> word < words_d c \<Longrightarrow>
   getCacheData c way st word = Some (data_m c ! data_index c way st word)"
  by (simp add: getCacheData_def cache_data_ok_def data_index_bound)

lemma data_index_upd [simp]: "data_index (c\<lparr>data_m := d\<rparr>) = data_index c"
  by (simp add: data_index_def fun_eq_iff)

section \<open>Properties\<close>

text \<open>
  A store whose byte enables select only bytes 0 to 2 behaves as a cache data array must: the
  write succeeds, the addressed word keeps its other bytes and takes the enabled bytes of the
  data, and every other (way, set, word) keeps its value.
\<close>

theorem cache_data_write_low_bytes:
  assumes "cache_data_ok c" "way < ways_d c" "st < sets_d c" "word < words_d c"
    and "\<And>i. bit be i \<Longrightarrow> i < 3"
  shows "\<exists>c' old new. cache_data_write c wdata be way st word = Some c' \<and> cache_data_ok c' \<and>
           cache_data_read c way st word = Some old \<and> cache_data_read c' way st word = Some new \<and>
           (\<forall>i < 8. byte_of new i = (if bit be i then byte_of wdata i else byte_of old i)) \<and>
           (\<forall>w s x. w < ways_d c \<and> s < sets_d c \<and> x < words_d c \<and> (w, s, x) \<noteq> (way, st, word) \<longrightarrow>
              cache_data_read c' w s x = cache_data_read c w s x)"
proof -
  let ?i = "data_index c way st word"
  define old where "old = data_m c ! ?i"
  define new where "new = merge_mask old wdata (beToMask be)"
  define c' where "c' = c\<lparr>data_m := (data_m c)[?i := new]\<rparr>"
  have bound: "?i < length (data_m c)"
    using assms by (simp add: cache_data_ok_def data_index_bound)
  have ok': "cache_data_ok c'" and geo: "ways_d c' = ways_d c" "sets_d c' = sets_d c" "words_d c' = words_d c"
    using assms(1) by (simp_all add: c'_def cache_data_ok_def)
  have wr: "cache_data_write c wdata be way st word = Some c'"
    using assms by (simp add: cache_data_write_def write_mask_low getCacheData_ok c'_def new_def old_def
        merge_mask_def)
  have rd: "cache_data_read c way st word = Some old" "cache_data_read c' way st word = Some new"
    using assms ok' bound by (simp_all add: cache_data_read_def getCacheData_ok geo old_def)
       (simp add: c'_def)
  have frame: "cache_data_read c' w s x = cache_data_read c w s x"
    if "w < ways_d c" "s < sets_d c" "x < words_d c" "(w, s, x) \<noteq> (way, st, word)" for w s x
  proof -
    have "data_index c w s x \<noteq> ?i"
      using that assms(3,4) data_index_inj [of s c x st word w way] by auto
    with that assms(1) ok' geo show ?thesis
      by (simp add: cache_data_read_def getCacheData_ok) (simp add: c'_def)
  qed
  have "\<forall>i < 8. byte_of new i = (if bit be i then byte_of wdata i else byte_of old i)"
    by (simp add: new_def)
  with wr ok' rd frame show ?thesis by blast
qed

theorem cache_data_write_low_bytes_witness:
  "\<exists>c' new. cache_data_write \<lparr>data_m = [0x1122334455667788, 9], ways_d = 2, sets_d = 1, words_d = 1\<rparr> 0xaabbcc 5 0 0 0 = Some c' \<and>
     cache_data_read c' 0 0 0 = Some new \<and> byte_of new 0 = 0xcc \<and> byte_of new 1 = 0x77 \<and> byte_of new 2 = 0xaa"
proof -
  let ?c = "\<lparr>data_m = [0x1122334455667788, 9 :: u64], ways_d = 2, sets_d = 1, words_d = 1\<rparr>"
  have "\<forall>i \<in> set [0..<8]. bit (5 :: u8) i \<longrightarrow> i < 3" by (simp add: upt_rec)
  then have be: "i < 3" if "bit (5 :: u8) i" for i
    using that bit_imp_le_length [OF that] by auto
  have ok: "cache_data_ok ?c" by (simp add: cache_data_ok_def)
  from cache_data_write_low_bytes [OF ok, where way = 0 and st = 0 and word = 0 and be = 5 and wdata = "0xaabbcc", OF _ _ _ be]
  obtain c' old new where w: "cache_data_write ?c 0xaabbcc 5 0 0 0 = Some c'"
    and old: "cache_data_read ?c 0 0 0 = Some old" and new: "cache_data_read c' 0 0 0 = Some new"
    and bytes: "\<forall>i < 8. byte_of new i = (if bit (5 :: u8) i then byte_of 0xaabbcc i else byte_of old i)"
    by auto
  have "cache_data_read ?c 0 0 0 = Some 0x1122334455667788" by code_simp
  with old have "old = 0x1122334455667788" by simp
  with bytes have "byte_of new 0 = byte_of 0xaabbcc 0" "byte_of new 1 = byte_of 0x1122334455667788 1"
      "byte_of new 2 = byte_of 0xaabbcc 2" by simp_all
  moreover have "byte_of 0xaabbcc 0 = 0xcc" "byte_of 0x1122334455667788 1 = 0x77" "byte_of 0xaabbcc 2 = 0xaa"
    by code_simp+
  ultimately have "byte_of new 0 = 0xcc" "byte_of new 1 = 0x77" "byte_of new 2 = 0xaa" by simp_all
  with w new show ?thesis by blast
qed

text \<open>
  C29. The write mask is computed by shifting the \<^verbatim>\<open>int\<close> constant \<^verbatim>\<open>0xff\<close>: a store that enables any of
  the bytes 4 to 7 of a word (in particular a store of a whole word) is undefined, whatever the
  cache holds.
\<close>

theorem cache_data_write_high_bytes_undefined:
  assumes "4 \<le> i" and "i < 8" and "bit be i"
  shows "cache_data_write c wdata be way st word = None"
  using assms write_mask_loop_undefined [of i "[0..<8]" be 0]
  by (simp add: cache_data_write_def write_mask_def)

theorem cache_data_write_high_bytes_undefined_witness:
  "cache_data_write \<lparr>data_m = [0], ways_d = 1, sets_d = 1, words_d = 1\<rparr> 5 0xff 0 0 0 = None"
  by (rule cache_data_write_high_bytes_undefined [of 4]) simp_all

end
