(* ===== verification/Cache_Dir.thy ===== *)
theory Cache_Dir
  imports Prelude
begin

text \<open>
  \<^verbatim>\<open>GenericCacheDirectoryBase\<close> and \<^verbatim>\<open>GenericCacheDirectoryPlru\<close>: the tag directory of a set-associative
  cache with pseudo-LRU replacement. The three arrays are flat, indexed by \<^verbatim>\<open>way * sets + set\<close>.
  The virtual functions \<^verbatim>\<open>repl\<close> and \<^verbatim>\<open>replUpdate\<close>, on which the base class relies, are the interface
  \<open>replacement_policy\<close>, met by the pseudo-LRU directory.
\<close>

record cache_dir =
  tag_m :: "nat \<Rightarrow> u64"
  val_m :: "nat \<Rightarrow> bool"
  plru_m :: "nat \<Rightarrow> bool"
  ways_m :: nat
  sets_m :: nat
  bytes_m :: nat

section \<open>Address arithmetic\<close>

definition dir_idx :: "cache_dir \<Rightarrow> nat \<Rightarrow> nat \<Rightarrow> nat" where
  "dir_idx d way s = way * sets_m d + s"

definition getCacheTag :: "cache_dir \<Rightarrow> nat \<Rightarrow> nat \<Rightarrow> u64" where
  "getCacheTag d way s = tag_m d (dir_idx d way s)"

definition getCacheValid :: "cache_dir \<Rightarrow> nat \<Rightarrow> nat \<Rightarrow> bool" where
  "getCacheValid d way s = val_m d (dir_idx d way s)"

definition getCachePlru :: "cache_dir \<Rightarrow> nat \<Rightarrow> nat \<Rightarrow> bool" where
  "getCachePlru d way s = plru_m d (dir_idx d way s)"

definition getNline_tag :: "cache_dir \<Rightarrow> u64 \<Rightarrow> nat \<Rightarrow> u64" where
  "getNline_tag d tag s = tag * of_nat (sets_m d) + of_nat s"

definition getNline :: "cache_dir \<Rightarrow> u64 \<Rightarrow> u64" where
  "getNline d addr = of_nat (unat addr div bytes_m d)"

definition getAddr :: "cache_dir \<Rightarrow> u64 \<Rightarrow> nat \<Rightarrow> u64" where
  "getAddr d tag s = getNline_tag d tag s * of_nat (bytes_m d)"

definition getAddrTag :: "cache_dir \<Rightarrow> u64 \<Rightarrow> u64" where
  "getAddrTag d addr = of_nat (unat addr div (sets_m d * bytes_m d))"

definition getAddrSet :: "cache_dir \<Rightarrow> u64 \<Rightarrow> nat" where
  "getAddrSet d addr = (unat addr div bytes_m d) mod sets_m d"

section \<open>Operations of the base class\<close>

text \<open>
  The constructor checks its three assertions and leaves the arrays uninitialised: their contents
  are arguments.
\<close>

definition cache_dir_new ::
  "(nat \<Rightarrow> u64) \<Rightarrow> (nat \<Rightarrow> bool) \<Rightarrow> (nat \<Rightarrow> bool) \<Rightarrow> nat \<Rightarrow> nat \<Rightarrow> nat \<Rightarrow> cache_dir option" where
  "cache_dir_new tags vals plrus nways nsets nbytes =
     (if 0 < nsets \<and> 0 < nways \<and> 0 < nbytes
      then Some \<lparr>tag_m = tags, val_m = vals, plru_m = plrus, ways_m = nways, sets_m = nsets,
                 bytes_m = nbytes\<rparr>
      else None)"

definition all_ways_sets :: "cache_dir \<Rightarrow> (nat \<times> nat) list" where
  "all_ways_sets d = concat (map (\<lambda>way. map (\<lambda>s. (way, s)) [0..<sets_m d]) [0..<ways_m d])"

definition base_reset :: "cache_dir \<Rightarrow> cache_dir" where
  "base_reset d =
     d\<lparr>val_m := foldl (\<lambda>v (way, s). v(dir_idx d way s := False)) (val_m d) (all_ways_sets d),
       tag_m := foldl (\<lambda>t (way, s). t(dir_idx d way s := 0)) (tag_m d) (all_ways_sets d)\<rparr>"

text \<open>\<^verbatim>\<open>hit\<close>: the way and set of the line, \<open>None\<close> for a miss (out parameters set to \<^verbatim>\<open>UINT_MAX\<close>).\<close>

definition hit :: "cache_dir \<Rightarrow> u64 \<Rightarrow> (nat \<times> nat) option" where
  "hit d addr =
     (let s = getAddrSet d addr; tag = getAddrTag d addr in
      map_option (\<lambda>way. (way, s))
        (find (\<lambda>way. getCacheValid d way s \<and> tag = getCacheTag d way s) [0..<ways_m d]))"

text \<open>\<^verbatim>\<open>inval(way, set)\<close>; a way or set outside the directory is an index outside the array.\<close>

definition inval_way :: "cache_dir \<Rightarrow> nat \<Rightarrow> nat \<Rightarrow> (bool \<times> cache_dir) option" where
  "inval_way d way s =
     (if dir_idx d way s < ways_m d * sets_m d
      then Some (getCacheValid d way s, d\<lparr>val_m := (val_m d)(dir_idx d way s := False)\<rparr>)
      else None)"

definition inval_addr :: "cache_dir \<Rightarrow> u64 \<Rightarrow> bool \<times> cache_dir" where
  "inval_addr d addr =
     (let s = getAddrSet d addr; tag = getAddrTag d addr in
      case find (\<lambda>way. getCacheTag d way s = tag) [0..<ways_m d] of
        Some way \<Rightarrow> (True, d\<lparr>val_m := (val_m d)(dir_idx d way s := False)\<rparr>)
      | None \<Rightarrow> (False, d))"

text \<open>\<^verbatim>\<open>printTrace\<close>: the (set, way, tag) of each line printed, in the order of the two loops.\<close>

definition printTrace :: "cache_dir \<Rightarrow> (nat \<times> nat \<times> u64) list" where
  "printTrace d =
     map (\<lambda>(way, s). (s, way, getCacheTag d way s))
       (filter (\<lambda>(way, s). getCacheValid d way s) (all_ways_sets d))"

section \<open>Operations of the pseudo-LRU directory\<close>

definition plru_reset :: "cache_dir \<Rightarrow> cache_dir" where
  "plru_reset d =
     (let d' = base_reset d in
      d'\<lparr>plru_m := foldl (\<lambda>p (way, s). p(dir_idx d way s := False)) (plru_m d') (all_ways_sets d)\<rparr>)"

definition replUpdate :: "cache_dir \<Rightarrow> nat \<Rightarrow> nat \<Rightarrow> cache_dir" where
  "replUpdate d way s =
     (let p = (plru_m d)(dir_idx d way s := True);
          all_set = foldl (\<lambda>r w. r \<and> p (dir_idx d w s)) True [0..<ways_m d]
      in d\<lparr>plru_m := (if all_set
                      then foldl (\<lambda>p w. if w \<noteq> way then p(dir_idx d w s := False) else p) p
                             [0..<ways_m d]
                      else p)\<rparr>)"

text \<open>
  \<^verbatim>\<open>repl\<close> returns whether a valid line was evicted, its tag, and the way and set now holding the
  address; \<open>None\<close> is the failed assertion that some pseudo-LRU bit is clear.
\<close>

record victim =
  evicted :: bool
  victim_tag :: u64
  victim_way :: nat
  victim_set :: nat

definition repl :: "cache_dir \<Rightarrow> u64 \<Rightarrow> (victim \<times> cache_dir) option" where
  "repl d addr =
     (let s = getAddrSet d addr; tag = getAddrTag d addr in
      case find (\<lambda>way. \<not> getCacheValid d way s) [0..<ways_m d] of
        Some way \<Rightarrow>
          Some (\<lparr>evicted = False, victim_tag = 0, victim_way = way, victim_set = s\<rparr>,
                replUpdate (d\<lparr>val_m := (val_m d)(dir_idx d way s := True),
                              tag_m := (tag_m d)(dir_idx d way s := tag)\<rparr>) way s)
      | None \<Rightarrow>
          (case find (\<lambda>way. \<not> getCachePlru d way s) [0..<ways_m d] of
             Some way \<Rightarrow>
               Some (\<lparr>evicted = True, victim_tag = getCacheTag d way s, victim_way = way,
                      victim_set = s\<rparr>,
                     replUpdate (d\<lparr>tag_m := (tag_m d)(dir_idx d way s := tag)\<rparr>) way s)
           | None \<Rightarrow> None))"

definition alloc :: "cache_dir \<Rightarrow> u64 \<Rightarrow> (victim \<times> cache_dir) option" where
  "alloc d addr = repl d addr"

definition access :: "cache_dir \<Rightarrow> u64 \<Rightarrow> bool \<Rightarrow> (nat \<times> nat) option \<times> cache_dir" where
  "access d addr update_repl_flags =
     (case hit d addr of
        Some (way, s) \<Rightarrow> (Some (way, s), if update_repl_flags then replUpdate d way s else d)
      | None \<Rightarrow> (None, d))"

section \<open>Well-formed directories\<close>

definition dir_geo :: "cache_dir \<Rightarrow> bool" where
  "dir_geo d \<longleftrightarrow> 0 < ways_m d \<and> 0 < sets_m d \<and> 0 < bytes_m d \<and> sets_m d * bytes_m d < 2 ^ 64"

text \<open>
  The invariant of a directory driven through its operations: in every set some pseudo-LRU bit is
  clear, no tag is valid twice, and an invalid way that still holds the tag of a valid line comes
  after it (so that \<^verbatim>\<open>inval(addr)\<close>, which does not test the valid bit, finds the valid line first).
\<close>

definition plru_inv :: "cache_dir \<Rightarrow> nat \<Rightarrow> bool" where
  "plru_inv d s \<longleftrightarrow> (\<exists>w < ways_m d. \<not> getCachePlru d w s)"

definition tags_inv :: "cache_dir \<Rightarrow> nat \<Rightarrow> bool" where
  "tags_inv d s \<longleftrightarrow>
     (\<forall>v < ways_m d. \<forall>w < ways_m d. getCacheValid d v s \<and> getCacheTag d v s = getCacheTag d w s \<longrightarrow>
        (if getCacheValid d w s then v = w else v < w))"

definition set_inv :: "cache_dir \<Rightarrow> nat \<Rightarrow> bool" where
  "set_inv d s \<longleftrightarrow> plru_inv d s \<and> tags_inv d s"

definition dir_inv :: "cache_dir \<Rightarrow> bool" where
  "dir_inv d \<longleftrightarrow> dir_geo d \<and> 2 \<le> ways_m d \<and> (\<forall>s < sets_m d. set_inv d s)"

lemma getAddrSet_less: "dir_geo d \<Longrightarrow> getAddrSet d a < sets_m d"
  by (simp add: getAddrSet_def dir_geo_def)

lemma dir_idx_inj:
  "s < sets_m d \<Longrightarrow> s' < sets_m d \<Longrightarrow> dir_idx d w s = dir_idx d w' s' \<longleftrightarrow> w = w' \<and> s = s'"
  unfolding dir_idx_def
  by (metis add_diff_cancel_left' diff_is_0_eq div_less div_mult_self3 less_nat_zero_code
      mod_less mod_mult_self3 add.right_neutral)

lemma dir_idx_bound: "w < ways_m d \<Longrightarrow> s < sets_m d \<Longrightarrow> dir_idx d w s < ways_m d * sets_m d"
proof -
  assume "w < ways_m d" "s < sets_m d"
  then have "w * sets_m d + s < Suc w * sets_m d" by simp
  also have "\<dots> \<le> ways_m d * sets_m d" using \<open>w < ways_m d\<close> by (intro mult_le_mono1) simp
  finally show ?thesis by (simp add: dir_idx_def)
qed

lemma dir_upd_simps [simp]:
  "dir_idx (d\<lparr>tag_m := t\<rparr>) = dir_idx d" "dir_idx (d\<lparr>val_m := v\<rparr>) = dir_idx d"
  "dir_idx (d\<lparr>plru_m := p\<rparr>) = dir_idx d"
  "getAddrSet (d\<lparr>tag_m := t\<rparr>) = getAddrSet d" "getAddrSet (d\<lparr>val_m := v\<rparr>) = getAddrSet d"
  "getAddrSet (d\<lparr>plru_m := p\<rparr>) = getAddrSet d"
  "getAddrTag (d\<lparr>tag_m := t\<rparr>) = getAddrTag d" "getAddrTag (d\<lparr>val_m := v\<rparr>) = getAddrTag d"
  "getAddrTag (d\<lparr>plru_m := p\<rparr>) = getAddrTag d"
  "dir_geo (d\<lparr>tag_m := t\<rparr>) = dir_geo d" "dir_geo (d\<lparr>val_m := v\<rparr>) = dir_geo d"
  "dir_geo (d\<lparr>plru_m := p\<rparr>) = dir_geo d"
  by (simp_all add: fun_eq_iff dir_idx_def getAddrSet_def getAddrTag_def dir_geo_def)

section \<open>What \<open>replUpdate\<close> does\<close>

lemma foldl_all: "foldl (\<lambda>r w. r \<and> f w) b ws \<longleftrightarrow> b \<and> (\<forall>w \<in> set ws. f w)"
  by (induction ws arbitrary: b) auto

lemma foldl_clear:
  "foldl (\<lambda>p w. if w \<noteq> way then p(g w := False) else p) p ws i \<longleftrightarrow>
     p i \<and> \<not> (\<exists>w \<in> set ws. w \<noteq> way \<and> g w = i)"
  by (induction ws arbitrary: p) auto

definition all_others_set :: "cache_dir \<Rightarrow> nat \<Rightarrow> nat \<Rightarrow> bool" where
  "all_others_set d way s \<longleftrightarrow> (\<forall>w < ways_m d. w \<noteq> way \<longrightarrow> getCachePlru d w s)"

lemma replUpdate_frame [simp]:
  "tag_m (replUpdate d way s) = tag_m d" "val_m (replUpdate d way s) = val_m d"
  "ways_m (replUpdate d way s) = ways_m d" "sets_m (replUpdate d way s) = sets_m d"
  "bytes_m (replUpdate d way s) = bytes_m d"
  by (simp_all add: replUpdate_def Let_def)

lemma replUpdate_frame2 [simp]:
  "getCacheTag (replUpdate d way s) = getCacheTag d" "getCacheValid (replUpdate d way s) = getCacheValid d"
  "dir_idx (replUpdate d way s) = dir_idx d" "getAddrSet (replUpdate d way s) = getAddrSet d"
  "getAddrTag (replUpdate d way s) = getAddrTag d" "dir_geo (replUpdate d way s) = dir_geo d"
  by (simp_all add: fun_eq_iff getCacheTag_def getCacheValid_def dir_idx_def getAddrSet_def
      getAddrTag_def dir_geo_def)

lemma hit_replUpdate [simp]: "hit (replUpdate d way s) = hit d"
  by (simp add: fun_eq_iff hit_def)

lemma getCachePlru_replUpdate:
  assumes "s < sets_m d" "s' < sets_m d" "way < ways_m d" "w < ways_m d"
  shows "getCachePlru (replUpdate d way s) w s' \<longleftrightarrow>
    (if s' \<noteq> s then getCachePlru d w s'
     else if w = way then True
     else getCachePlru d w s \<and> \<not> all_others_set d way s)"
proof -
  let ?p = "(plru_m d)(dir_idx d way s := True)"
  have all: "foldl (\<lambda>r w. r \<and> ?p (dir_idx d w s)) True [0..<ways_m d] \<longleftrightarrow> all_others_set d way s"
    using assms(1,3) by (auto simp: foldl_all all_others_set_def getCachePlru_def dir_idx_inj)
  have eq: "replUpdate d way s =
      d\<lparr>plru_m := (if all_others_set d way s
         then foldl (\<lambda>p w. if w \<noteq> way then p(dir_idx d w s := False) else p) ?p [0..<ways_m d]
         else ?p)\<rparr>"
    by (simp only: replUpdate_def Let_def all)
  show ?thesis
    unfolding eq using assms by (auto simp: getCachePlru_def foldl_clear dir_idx_inj)
qed

lemma replUpdate_plru_clear:
  assumes "2 \<le> ways_m d" "way < ways_m d" "s < sets_m d"
  shows "\<exists>w < ways_m d. w \<noteq> way \<and> \<not> getCachePlru (replUpdate d way s) w s"
proof (cases "all_others_set d way s")
  case True
  define w where "w = (if way = 0 then 1 else 0 :: nat)"
  have "w < ways_m d" "w \<noteq> way" using assms by (auto simp: w_def)
  with True assms show ?thesis by (auto simp: getCachePlru_replUpdate)
next
  case False
  then obtain w where "w < ways_m d" "w \<noteq> way" "\<not> getCachePlru d w s"
    by (auto simp: all_others_set_def)
  with assms show ?thesis by (auto simp: getCachePlru_replUpdate)
qed

lemma tags_inv_replUpdate [simp]: "tags_inv (replUpdate d way s) s' = tags_inv d s'"
  by (simp add: tags_inv_def)

lemma plru_inv_replUpdate:
  assumes "2 \<le> ways_m d" "way < ways_m d" "s < sets_m d" "s' < sets_m d" "s' \<noteq> s \<Longrightarrow> plru_inv d s'"
  shows "plru_inv (replUpdate d way s) s'"
proof (cases "s' = s")
  case True
  with replUpdate_plru_clear [of d way s] assms show ?thesis by (auto simp: plru_inv_def)
next
  case False
  with assms show ?thesis by (auto simp: plru_inv_def getCachePlru_replUpdate)
qed

lemma dir_inv_replUpdate:
  "dir_inv d \<Longrightarrow> way < ways_m d \<Longrightarrow> s < sets_m d \<Longrightarrow> dir_inv (replUpdate d way s)"
  by (auto simp: dir_inv_def set_inv_def intro: plru_inv_replUpdate)

section \<open>Invalidation, reset and allocation keep the invariant\<close>

lemma hit_alt:
  "hit d a = map_option (\<lambda>w. (w, getAddrSet d a))
     (find (\<lambda>w. getCacheValid d w (getAddrSet d a) \<and> getCacheTag d w (getAddrSet d a) = getAddrTag d a)
       [0..<ways_m d])"
  by (simp add: hit_def Let_def eq_commute [of "getAddrTag d a"])

lemma hit_Some_iff:
  "hit d a = Some (w, s) \<longleftrightarrow> s = getAddrSet d a \<and> w < ways_m d \<and> getCacheValid d w s \<and>
     getCacheTag d w s = getAddrTag d a \<and>
     (\<forall>v < w. \<not> (getCacheValid d v s \<and> getCacheTag d v s = getAddrTag d a))"
  by (auto simp: hit_alt find_upt_Some_iff)

lemma hit_None_iff:
  "hit d a = None \<longleftrightarrow>
     (\<forall>w < ways_m d. getCacheValid d w (getAddrSet d a) \<longrightarrow>
        getCacheTag d w (getAddrSet d a) \<noteq> getAddrTag d a)"
  by (auto simp: hit_alt find_upt_None_iff)

lemma tags_inv_unique:
  "tags_inv d s \<Longrightarrow> v < ways_m d \<Longrightarrow> w < ways_m d \<Longrightarrow> getCacheValid d v s \<Longrightarrow>
   getCacheValid d w s \<Longrightarrow> getCacheTag d v s = getCacheTag d w s \<Longrightarrow> v = w"
  unfolding tags_inv_def by metis

lemma tags_inv_stale:
  "tags_inv d s \<Longrightarrow> v < ways_m d \<Longrightarrow> w < ways_m d \<Longrightarrow> getCacheValid d v s \<Longrightarrow>
   \<not> getCacheValid d w s \<Longrightarrow> getCacheTag d v s = getCacheTag d w s \<Longrightarrow> v < w"
  unfolding tags_inv_def by metis

lemma tags_invI:
  assumes "\<And>v w. v < ways_m d \<Longrightarrow> w < ways_m d \<Longrightarrow> getCacheValid d v s \<Longrightarrow> getCacheValid d w s \<Longrightarrow>
             getCacheTag d v s = getCacheTag d w s \<Longrightarrow> v = w"
    and "\<And>v w. v < ways_m d \<Longrightarrow> w < ways_m d \<Longrightarrow> getCacheValid d v s \<Longrightarrow> \<not> getCacheValid d w s \<Longrightarrow>
             getCacheTag d v s = getCacheTag d w s \<Longrightarrow> v < w"
  shows "tags_inv d s"
  using assms unfolding tags_inv_def by simp

lemma getCacheValid_upd:
  "s < sets_m d \<Longrightarrow> s' < sets_m d \<Longrightarrow>
   getCacheValid (d\<lparr>val_m := (val_m d)(dir_idx d way s := b)\<rparr>) w s' \<longleftrightarrow>
     (if w = way \<and> s' = s then b else getCacheValid d w s')"
  by (auto simp: getCacheValid_def dir_idx_inj)

lemma getCacheTag_upd:
  "s < sets_m d \<Longrightarrow> s' < sets_m d \<Longrightarrow>
   getCacheTag (d\<lparr>tag_m := (tag_m d)(dir_idx d way s := t)\<rparr>) w s' =
     (if w = way \<and> s' = s then t else getCacheTag d w s')"
  by (auto simp: getCacheTag_def dir_idx_inj)

lemma dir_get_frame [simp]:
  "getCacheTag (d\<lparr>val_m := vm\<rparr>) = getCacheTag d" "getCachePlru (d\<lparr>val_m := vm\<rparr>) = getCachePlru d"
  "getCacheValid (d\<lparr>tag_m := tm\<rparr>) = getCacheValid d" "getCachePlru (d\<lparr>tag_m := tm\<rparr>) = getCachePlru d"
  "getCacheTag (d\<lparr>plru_m := pm\<rparr>) = getCacheTag d" "getCacheValid (d\<lparr>plru_m := pm\<rparr>) = getCacheValid d"
  by (simp_all add: getCacheValid_def getCacheTag_def getCachePlru_def fun_eq_iff)

lemma plru_inv_frame [simp]:
  "plru_inv (d\<lparr>val_m := vm\<rparr>) s = plru_inv d s" "plru_inv (d\<lparr>tag_m := tm\<rparr>) s = plru_inv d s"
  by (simp_all add: plru_inv_def)

text \<open>Clearing one valid bit, and allocating a fresh tag in a way, keep the tags of a set in order.\<close>

lemma tags_inv_clear_valid:
  assumes inv: "tags_inv d s'" and "s < sets_m d" "s' < sets_m d" "way < ways_m d"
  shows "tags_inv (d\<lparr>val_m := (val_m d)(dir_idx d way s := False)\<rparr>) s'"
proof -
  let ?d = "d\<lparr>val_m := (val_m d)(dir_idx d way s := False)\<rparr>"
  have val: "getCacheValid ?d w s' \<longleftrightarrow> getCacheValid d w s' \<and> \<not> (w = way \<and> s' = s)" for w
    using assms by (simp add: getCacheValid_upd)
  show ?thesis
  proof (rule tags_invI, goal_cases)
    case (1 v w)
    then show ?case using val [of v] val [of w] by (intro tags_inv_unique [OF inv]) simp_all
  next
    case (2 v w)
    then show ?case
      using val [of v] val [of w] tags_inv_unique [OF inv, of v w] tags_inv_stale [OF inv, of v w]
      by auto
  qed
qed

lemma tags_inv_alloc:
  assumes inv: "tags_inv d s'" and s: "s < sets_m d" "s' < sets_m d"
    and fresh: "\<And>w. w < ways_m d \<Longrightarrow> w \<noteq> way \<Longrightarrow> getCacheValid d w s \<Longrightarrow> getCacheTag d w s \<noteq> t"
    and first: "\<And>w. w < ways_m d \<Longrightarrow> \<not> getCacheValid d w s \<Longrightarrow> way \<le> w"
    and tag: "\<And>w. getCacheTag d' w s' = (if w = way \<and> s' = s then t else getCacheTag d w s')"
    and val: "\<And>w. getCacheValid d' w s' \<longleftrightarrow> (w = way \<and> s' = s) \<or> getCacheValid d w s'"
    and ways: "ways_m d' = ways_m d"
  shows "tags_inv d' s'"
proof (rule tags_invI, unfold ways, goal_cases)
  case (1 v w)
  show ?case
  proof (cases "s' = s \<and> (v = way \<or> w = way)")
    case True
    with 1 fresh [of v] fresh [of w] tag [of v] tag [of w] val [of v] val [of w]
    show ?thesis by metis
  next
    case False
    with 1 tag [of v] tag [of w] val [of v] val [of w] tags_inv_unique [OF inv, of v w]
    show ?thesis by metis
  qed
next
  case (2 v w)
  show ?case
  proof (cases "s' = s \<and> v = way")
    case True
    with 2 first [of w] val [of w] show ?thesis by auto
  next
    case False
    with 2 tag [of v] tag [of w] val [of v] val [of w] tags_inv_stale [OF inv, of v w]
    show ?thesis by metis
  qed
qed

lemma dir_inv_clear_valid:
  "dir_inv d \<Longrightarrow> way < ways_m d \<Longrightarrow> s < sets_m d \<Longrightarrow>
   dir_inv (d\<lparr>val_m := (val_m d)(dir_idx d way s := False)\<rparr>)"
  by (auto simp: dir_inv_def set_inv_def intro: tags_inv_clear_valid)

lemma dir_inv_inval_way:
  "dir_inv d \<Longrightarrow> way < ways_m d \<Longrightarrow> s < sets_m d \<Longrightarrow>
   \<exists>d'. inval_way d way s = Some (getCacheValid d way s, d') \<and> dir_inv d'"
  by (simp add: inval_way_def dir_idx_bound dir_inv_clear_valid)

lemma dir_inv_geo: "dir_inv d \<Longrightarrow> dir_geo d"
  by (simp add: dir_inv_def)

lemma dir_inv_inval_addr: "dir_inv d \<Longrightarrow> dir_inv (snd (inval_addr d a))"
  by (auto simp: inval_addr_def Let_def find_upt_Some_iff getAddrSet_less dir_inv_geo
      intro: dir_inv_clear_valid split: option.splits)

lemma dir_inv_hit_unique:
  assumes "dir_inv d" "w < ways_m d" "getCacheValid d w (getAddrSet d a)"
    "getCacheTag d w (getAddrSet d a) = getAddrTag d a"
  shows "hit d a = Some (w, getAddrSet d a)"
proof -
  let ?s = "getAddrSet d a"
  have inv: "tags_inv d ?s" using assms(1) by (simp add: dir_inv_def set_inv_def getAddrSet_less)
  have "\<not> (getCacheValid d v ?s \<and> getCacheTag d v ?s = getAddrTag d a)" if "v < w" for v
    using that tags_inv_unique [OF inv, of v w] assms by auto
  with assms show ?thesis by (simp add: hit_Some_iff)
qed

lemma hit_inval_addr:
  assumes inv: "dir_inv d"
  shows "hit (snd (inval_addr d a)) a = None"
proof -
  let ?s = "getAddrSet d a"
  have s: "?s < sets_m d" and sinv: "tags_inv d ?s"
    using inv by (simp_all add: dir_inv_def set_inv_def getAddrSet_less)
  show ?thesis
  proof (cases "find (\<lambda>way. getCacheTag d way ?s = getAddrTag d a) [0..<ways_m d]")
    case None
    then have "inval_addr d a = (False, d)" by (simp add: inval_addr_def)
    with None show ?thesis by (auto simp: hit_None_iff find_upt_None_iff)
  next
    case (Some w)
    then have w: "w < ways_m d" "getCacheTag d w ?s = getAddrTag d a"
      and first: "\<forall>v < w. getCacheTag d v ?s \<noteq> getAddrTag d a"
      by (auto simp: find_upt_Some_iff)
    have "v = w" if "v < ways_m d" "getCacheValid d v ?s" "getCacheTag d v ?s = getAddrTag d a" for v
    proof (cases "getCacheValid d w ?s")
      case True
      with that w tags_inv_unique [OF sinv, of v w] show ?thesis by simp
    next
      case False
      with that w tags_inv_stale [OF sinv, of v w] first show ?thesis by metis
    qed
    then have "\<not> getCacheValid (d\<lparr>val_m := (val_m d)(dir_idx d w ?s := False)\<rparr>) v ?s"
      if "v < ways_m d" "getCacheTag d v ?s = getAddrTag d a" for v
      using that s by (cases "v = w") (simp_all add: getCacheValid_upd, blast)
    with Some show ?thesis
      by (auto simp: inval_addr_def hit_None_iff)
  qed
qed

lemma foldl_fill:
  "foldl (\<lambda>f (w, s). f(g w s := c)) f ps i = (if \<exists>p \<in> set ps. g (fst p) (snd p) = i then c else f i)"
  by (induction ps arbitrary: f) auto

lemma set_all_ways_sets [simp]: "set (all_ways_sets d) = {..<ways_m d} \<times> {..<sets_m d}"
  by (auto simp: all_ways_sets_def)

lemma dir_inv_plru_reset:
  assumes "dir_geo d" "2 \<le> ways_m d"
  shows "dir_inv (plru_reset d)"
proof -
  let ?d = "plru_reset d"
  have geo: "ways_m ?d = ways_m d" "sets_m ?d = sets_m d" "bytes_m ?d = bytes_m d" "dir_idx ?d = dir_idx d"
    by (simp_all add: plru_reset_def base_reset_def Let_def)
  have "\<not> getCacheValid ?d w s" "\<not> getCachePlru ?d w s" if "w < ways_m d" "s < sets_m d" for w s
    using that by (auto simp: getCacheValid_def getCachePlru_def geo plru_reset_def base_reset_def
        Let_def foldl_fill)
  then have "plru_inv ?d s" "tags_inv ?d s" if "s < sets_m d" for s
    using that assms(2) by (auto simp: plru_inv_def tags_inv_def geo intro!: exI [of _ 0])
  with assms show ?thesis
    by (auto simp: dir_inv_def set_inv_def geo dir_geo_def)
qed

lemma repl_empty_way:
  assumes inv: "dir_inv d" and miss: "hit d a = None"
    and way: "find (\<lambda>way. \<not> getCacheValid d way (getAddrSet d a)) [0..<ways_m d] = Some way"
  defines "s \<equiv> getAddrSet d a" and "t \<equiv> getAddrTag d a"
  defines "d0 \<equiv> d\<lparr>val_m := (val_m d)(dir_idx d way s := True), tag_m := (tag_m d)(dir_idx d way s := t)\<rparr>"
  shows "dir_inv (replUpdate d0 way s)" and "hit (replUpdate d0 way s) a = Some (way, s)"
proof -
  have s: "s < sets_m d" using inv by (simp add: s_def getAddrSet_less dir_inv_geo)
  have w: "way < ways_m d" and first: "\<And>v. v < ways_m d \<Longrightarrow> \<not> getCacheValid d v s \<Longrightarrow> way \<le> v"
    using way by (auto simp: find_upt_Some_iff s_def) (meson leI)
  have geo: "ways_m d0 = ways_m d" "sets_m d0 = sets_m d" "dir_geo d0 = dir_geo d"
      "getAddrSet d0 = getAddrSet d" "getAddrTag d0 = getAddrTag d" "getCachePlru d0 = getCachePlru d"
    by (simp_all add: d0_def)
  have tag: "getCacheTag d0 v s' = (if v = way \<and> s' = s then t else getCacheTag d v s')"
    if "s' < sets_m d" for v s'
    using that s by (auto simp: d0_def getCacheTag_def dir_idx_inj)
  have val: "getCacheValid d0 v s' \<longleftrightarrow> (v = way \<and> s' = s) \<or> getCacheValid d v s'"
    if "s' < sets_m d" for v s'
    using that s by (auto simp: d0_def getCacheValid_def dir_idx_inj)
  have "tags_inv d0 s'" if "s' < sets_m d" for s'
    using tags_inv_alloc [of d s' s way t d0] inv miss s first that tag val geo(1)
    by (auto simp: dir_inv_def set_inv_def hit_None_iff s_def t_def)
  with inv w s show inv': "dir_inv (replUpdate d0 way s)"
    by (intro dir_inv_replUpdate) (auto simp: dir_inv_def set_inv_def plru_inv_def geo)
  have "hit (replUpdate d0 way s) a = Some (way, getAddrSet (replUpdate d0 way s) a)"
    using inv' w s tag [of s] val [of s] by (intro dir_inv_hit_unique) (auto simp: geo s_def t_def)
  then show "hit (replUpdate d0 way s) a = Some (way, s)" by (simp add: geo s_def)
qed

lemma repl_evict_way:
  assumes inv: "dir_inv d" and miss: "hit d a = None"
    and full: "find (\<lambda>way. \<not> getCacheValid d way (getAddrSet d a)) [0..<ways_m d] = None"
    and way: "way < ways_m d"
  defines "s \<equiv> getAddrSet d a" and "t \<equiv> getAddrTag d a"
  defines "d0 \<equiv> d\<lparr>tag_m := (tag_m d)(dir_idx d way s := t)\<rparr>"
  shows "dir_inv (replUpdate d0 way s)" and "hit (replUpdate d0 way s) a = Some (way, s)"
proof -
  have s: "s < sets_m d" using inv by (simp add: s_def getAddrSet_less dir_inv_geo)
  have valid: "getCacheValid d v s" if "v < ways_m d" for v
    using full that by (auto simp: find_upt_None_iff s_def)
  have geo: "ways_m d0 = ways_m d" "sets_m d0 = sets_m d" "dir_geo d0 = dir_geo d"
      "getAddrSet d0 = getAddrSet d" "getAddrTag d0 = getAddrTag d" "getCachePlru d0 = getCachePlru d"
      "getCacheValid d0 = getCacheValid d"
    by (simp_all add: d0_def)
  have tag: "getCacheTag d0 v s' = (if v = way \<and> s' = s then t else getCacheTag d v s')"
    if "s' < sets_m d" for v s'
    using that s by (auto simp: d0_def getCacheTag_def dir_idx_inj)
  have "tags_inv d0 s'" if "s' < sets_m d" for s'
    using tags_inv_alloc [of d s' s way t d0] inv miss s that tag geo valid way
    by (auto simp: dir_inv_def set_inv_def hit_None_iff s_def t_def)
  with inv way s show inv': "dir_inv (replUpdate d0 way s)"
    by (intro dir_inv_replUpdate) (auto simp: dir_inv_def set_inv_def plru_inv_def geo)
  have "hit (replUpdate d0 way s) a = Some (way, getAddrSet (replUpdate d0 way s) a)"
    using inv' way s tag [of s] valid by (intro dir_inv_hit_unique) (auto simp: geo s_def t_def)
  then show "hit (replUpdate d0 way s) a = Some (way, s)" by (simp add: geo s_def)
qed

lemma repl_total:
  assumes "dir_inv d"
  shows "\<exists>v d'. repl d a = Some (v, d')"
proof -
  have "plru_inv d (getAddrSet d a)"
    using assms by (simp add: dir_inv_def set_inv_def getAddrSet_less)
  then have "find (\<lambda>way. \<not> getCachePlru d way (getAddrSet d a)) [0..<ways_m d] \<noteq> None"
    by (auto simp: plru_inv_def find_upt_None_iff)
  then show ?thesis by (auto simp: repl_def Let_def split: option.splits)
qed

lemma repl_fills:
  assumes "dir_inv d" "hit d a = None" "repl d a = Some (v, d')"
  shows "dir_inv d'" and "hit d' a = Some (victim_way v, victim_set v)"
  using assms repl_empty_way [OF assms(1,2)] repl_evict_way [OF assms(1,2)]
  by (auto simp: repl_def Let_def find_upt_Some_iff split: option.splits)

section \<open>The replacement interface of the base class\<close>

text \<open>
  \<open>access\<close> and \<open>alloc\<close> of the base class are written against the virtual functions; the laws
  they need are stated here once, and met by the pseudo-LRU directory.
\<close>

locale replacement_policy =
  fixes inv :: "'d \<Rightarrow> bool"
    and lookup :: "'d \<Rightarrow> u64 \<Rightarrow> (nat \<times> nat) option"
    and upd :: "'d \<Rightarrow> nat \<Rightarrow> nat \<Rightarrow> 'd"
    and rep :: "'d \<Rightarrow> u64 \<Rightarrow> (victim \<times> 'd) option"
  assumes upd_inv: "inv d \<Longrightarrow> lookup d a = Some (w, s) \<Longrightarrow> inv (upd d w s)"
    and upd_lookup: "lookup (upd d w s) = lookup d"
    and rep_total: "inv d \<Longrightarrow> \<exists>v d'. rep d a = Some (v, d')"
    and rep_fill: "inv d \<Longrightarrow> lookup d a = None \<Longrightarrow> rep d a = Some (v, d') \<Longrightarrow>
      inv d' \<and> lookup d' a = Some (victim_way v, victim_set v)"
begin

lemma miss_then_fill_hits:
  assumes "inv d" "lookup d a = None"
  shows "\<exists>v d'. rep d a = Some (v, d') \<and> inv d' \<and> lookup d' a = Some (victim_way v, victim_set v)"
  using rep_total [OF assms(1), of a] rep_fill [OF assms] by blast

lemma touch_keeps:
  assumes "inv d" "lookup d a = Some (w, s)"
  shows "inv (upd d w s)" and "lookup (upd d w s) b = lookup d b"
  using assms by (simp_all add: upd_inv upd_lookup)

end

interpretation plru: replacement_policy dir_inv hit replUpdate repl
proof
  show "dir_inv (replUpdate d w s)" if "dir_inv d" "hit d a = Some (w, s)" for d a w s
    using that by (auto simp: hit_Some_iff getAddrSet_less dir_inv_geo intro: dir_inv_replUpdate)
  show "hit (replUpdate d w s) = hit d" for d w s by simp
  show "\<exists>v d'. repl d a = Some (v, d')" if "dir_inv d" for d a using that by (rule repl_total)
  show "dir_inv d' \<and> hit d' a = Some (victim_way v, victim_set v)"
    if "dir_inv d" "hit d a = None" "repl d a = Some (v, d')" for d a v d'
    using repl_fills [OF that] by simp
qed

section \<open>Reachable directories\<close>

text \<open>
  The states a directory of a given geometry goes through: from a reset, by accesses, by refills of
  lines that miss, and by invalidations.
\<close>

inductive dir_reach :: "cache_dir \<Rightarrow> bool" where
  reset: "dir_geo d \<Longrightarrow> 2 \<le> ways_m d \<Longrightarrow> dir_reach (plru_reset d)"
| access: "dir_reach d \<Longrightarrow> dir_reach (snd (access d a upd))"
| refill: "dir_reach d \<Longrightarrow> hit d a = None \<Longrightarrow> alloc d a = Some (v, d') \<Longrightarrow> dir_reach d'"
| inval_line: "dir_reach d \<Longrightarrow> dir_reach (snd (inval_addr d a))"
| inval_way: "dir_reach d \<Longrightarrow> w < ways_m d \<Longrightarrow> s < sets_m d \<Longrightarrow> inval_way d w s = Some (b, d') \<Longrightarrow>
    dir_reach d'"

lemma dir_inv_access: "dir_inv d \<Longrightarrow> dir_inv (snd (access d a u))"
  by (auto simp: access_def plru.touch_keeps split: option.splits)

lemma dir_reach_inv: "dir_reach d \<Longrightarrow> dir_inv d"
proof (induction rule: dir_reach.induct)
  case (refill d a v d')
  then show ?case using repl_fills(1) by (simp add: alloc_def)
next
  case (inval_way d w s b d')
  then show ?case using dir_inv_inval_way [of d w s] by auto
qed (simp_all add: dir_inv_plru_reset dir_inv_access dir_inv_inval_addr)

text \<open>A small directory (two ways, one set, 16-byte lines) after a reset and after one and two refills.\<close>

definition dir_w0 :: cache_dir where
  "dir_w0 = plru_reset \<lparr>tag_m = (\<lambda>_. 7), val_m = (\<lambda>_. True), plru_m = (\<lambda>_. True), ways_m = 2, sets_m = 1,
     bytes_m = 16\<rparr>"

definition dir_w1 :: cache_dir where
  "dir_w1 = snd (the (alloc dir_w0 0))"

definition dir_w2 :: cache_dir where
  "dir_w2 = snd (the (alloc dir_w1 16))"

lemma dir_reach_refill: "dir_reach d \<Longrightarrow> hit d a = None \<Longrightarrow> dir_reach (snd (the (alloc d a)))"
  using plru.rep_total [OF dir_reach_inv, of d a] by (auto simp: alloc_def intro: dir_reach.refill)

lemma dir_reach_w0: "dir_reach dir_w0"
  unfolding dir_w0_def by (rule dir_reach.reset) (simp_all add: dir_geo_def)

lemma dir_reach_w1: "dir_reach dir_w1"
  unfolding dir_w1_def by (rule dir_reach_refill [OF dir_reach_w0]) code_simp

lemma dir_reach_w2: "dir_reach dir_w2"
  unfolding dir_w2_def by (rule dir_reach_refill [OF dir_reach_w1]) code_simp

section \<open>Properties\<close>

text \<open>
  C9. In every reachable state of a pseudo-LRU directory with at least two ways, the replacement
  routine returns a way (its assertion that some pseudo-LRU bit is clear never fails), and a line
  that missed is found in the way and set that were returned.
\<close>

theorem plru_alloc_never_fails:
  assumes "dir_reach d"
  shows "\<exists>v d'. alloc d a = Some (v, d') \<and>
           (hit d a = None \<longrightarrow> hit d' a = Some (victim_way v, victim_set v))"
  using plru.rep_total [OF dir_reach_inv [OF assms], of a] repl_fills(2) [OF dir_reach_inv [OF assms]]
  by (fastforce simp: alloc_def)

theorem plru_alloc_never_fails_witness:
  "\<exists>v d'. alloc dir_w2 32 = Some (v, d') \<and> hit d' 32 = Some (victim_way v, victim_set v)"
proof -
  have "hit dir_w2 32 = None" by code_simp
  with plru_alloc_never_fails [OF dir_reach_w2, of 32] show ?thesis by blast
qed

text \<open>
  Invalidating an address in a reachable directory leaves no valid line for that address,
  although the loop compares tags without testing the valid bit and stops at the first match.
\<close>

theorem inval_addr_removes_line:
  assumes "dir_reach d"
  shows "hit (snd (inval_addr d a)) a = None"
  by (rule hit_inval_addr [OF dir_reach_inv [OF assms]])

theorem inval_addr_removes_line_witness:
  "hit dir_w2 16 \<noteq> None \<and> hit (snd (inval_addr dir_w2 16)) 16 = None"
proof
  show "hit dir_w2 16 \<noteq> None" by code_simp
  show "hit (snd (inval_addr dir_w2 16)) 16 = None"
    by (rule inval_addr_removes_line [OF dir_reach_w2])
qed

text \<open>
  C27. Pseudo-LRU never evicts the line used last: right after a way of a set was accessed, a refill of
  the same set that has to evict chooses a different way.
\<close>

theorem plru_keeps_last_used:
  assumes "dir_reach d" and "hit d b = Some (way, s)" and "getAddrSet d a = s"
    and "repl (snd (access d b True)) a = Some (v, d')" and "evicted v"
  shows "victim_way v \<noteq> way"
proof -
  have way: "way < ways_m d" and s: "s < sets_m d"
    using assms(2) dir_reach_inv [OF assms(1)]
    by (auto simp: hit_Some_iff getAddrSet_less dir_inv_geo)
  have "getCachePlru (replUpdate d way s) way s"
    using way s by (simp add: getCachePlru_replUpdate)
  with assms(2-5) show ?thesis
    by (auto simp: access_def repl_def Let_def find_upt_Some_iff split: option.splits)
qed

theorem plru_keeps_last_used_witness:
  "\<exists>v d'. repl (snd (access dir_w2 0 True)) 32 = Some (v, d') \<and> evicted v \<and> victim_way v \<noteq> 0"
proof -
  obtain v d' where r: "repl (snd (access dir_w2 0 True)) 32 = Some (v, d')"
    using plru.rep_total [OF dir_inv_access [OF dir_reach_inv [OF dir_reach_w2]]] by blast
  have "map_option (\<lambda>p. evicted (fst p)) (repl (snd (access dir_w2 0 True)) 32) = Some True" by code_simp
  with r have e: "evicted v" by simp
  have "hit dir_w2 0 = Some (0, 0)" "getAddrSet dir_w2 32 = 0" by code_simp+
  from plru_keeps_last_used [OF dir_reach_w2 this r e] r e show ?thesis by blast
qed

text \<open>
  With a single way the same routine fails its assertion: after a reset, a first refill succeeds
  and the next refill of the set finds its only pseudo-LRU bit set.
\<close>

theorem plru_single_way_asserts:
  assumes "dir_geo d" and "ways_m d = 1" and "repl (plru_reset d) a = Some (v, d')"
    and "getAddrSet d b = getAddrSet d a"
  shows "repl d' b = None"
proof -
  let ?r = "plru_reset d" and ?s = "getAddrSet d a"
  have geo: "ways_m ?r = 1" "sets_m ?r = sets_m d" "getAddrSet ?r = getAddrSet d" "dir_idx ?r = dir_idx d"
    using assms(2) by (simp_all add: plru_reset_def base_reset_def Let_def)
  have s: "?s < sets_m d" using assms(1) by (rule getAddrSet_less)
  have "\<not> getCacheValid ?r 0 ?s"
    using s assms(2) by (auto simp: getCacheValid_def geo plru_reset_def base_reset_def Let_def foldl_fill)
  then have d': "d' = replUpdate (?r\<lparr>val_m := (val_m ?r)(dir_idx ?r 0 ?s := True),
       tag_m := (tag_m ?r)(dir_idx ?r 0 ?s := getAddrTag ?r a)\<rparr>) 0 ?s"
    using assms(3) by (simp add: repl_def Let_def geo)
  have "ways_m d' = 1" "getAddrSet d' = getAddrSet d" by (simp_all add: d' geo)
  moreover have "getCacheValid d' 0 ?s" using s by (simp add: d' getCacheValid_def)
  moreover have "getCachePlru d' 0 ?s" using s by (simp add: d' getCachePlru_replUpdate geo)
  ultimately show ?thesis by (simp add: repl_def Let_def assms(4))
qed

theorem plru_single_way_asserts_witness:
  "\<exists>v d'. repl (plru_reset (dir_w0\<lparr>ways_m := 1\<rparr>)) 0 = Some (v, d') \<and> repl d' 16 = None"
proof -
  let ?d = "dir_w0\<lparr>ways_m := 1\<rparr>"
  have "\<not> Option.is_none (repl (plru_reset ?d) 0)" by code_simp
  then obtain v d' where r: "repl (plru_reset ?d) 0 = Some (v, d')"
    by (auto simp: Option.is_none_def)
  have "dir_geo ?d" "getAddrSet ?d 16 = getAddrSet ?d 0" by (simp add: dir_geo_def dir_w0_def plru_reset_def base_reset_def Let_def) code_simp
  from plru_single_way_asserts [OF this(1) _ r this(2)] r show ?thesis by simp
qed

text \<open>
  Splitting an address into tag and set and rebuilding it yields the address of its line: the
  address rounded down to the line size, for every geometry whose set span fits in 64 bits.
\<close>

theorem getAddr_split:
  assumes "dir_geo d"
  shows "unat (getAddr d (getAddrTag d a) (getAddrSet d a)) = unat a div bytes_m d * bytes_m d"
proof -
  let ?B = "bytes_m d" and ?S = "sets_m d" and ?n = "unat a"
  have pos: "0 < ?B" "0 < ?S" using assms by (auto simp: dir_geo_def)
  have lt: "?n < 2 ^ 64" using unsigned_less [of a] by simp
  have tag: "?n div (?S * ?B) = (?n div ?B) div ?S"
    by (metis div_mult2_eq mult.commute)
  have "(?n div ?B) div ?S * ?S + (?n div ?B) mod ?S = ?n div ?B" by simp
  then have "getNline_tag d (getAddrTag d a) (getAddrSet d a) = of_nat (?n div ?B)"
    unfolding getNline_tag_def getAddrTag_def getAddrSet_def tag
    by (metis of_nat_add of_nat_mult)
  then have eq: "getAddr d (getAddrTag d a) (getAddrSet d a) = (of_nat (?n div ?B * ?B) :: u64)"
    by (simp add: getAddr_def)
  have "?n div ?B * ?B \<le> ?n" by simp
  then have "?n div ?B * ?B < 2 ^ 64" using lt by (rule le_less_trans)
  then show ?thesis unfolding eq by (intro unat_of_nat_self) simp
qed

theorem getAddr_split_witness:
  "unat (getAddr dir_w0 (getAddrTag dir_w0 75) (getAddrSet dir_w0 75)) = 64"
proof -
  have "dir_geo dir_w0" using dir_reach_inv [OF dir_reach_w0] by (rule dir_inv_geo)
  from getAddr_split [OF this, of 75] show ?thesis
    by (simp add: dir_w0_def plru_reset_def base_reset_def Let_def)
qed

end
