(* ===== verification/Fault_Injection.thy ===== *)
theory Fault_Injection
  imports Test_Defs
begin

text \<open>
  \<^verbatim>\<open>hpdcache_fault_injection\<close>: placing a fault mask on the SRAM word that holds a directory entry or
  a data word. The \<^verbatim>\<open>CONF_HPDCACHE_*\<close> macros the class needs have no defaults and are the record
  \<open>fi_conf\<close>; the simulator scopes and the two DPI functions of the wrapper are outside the sources,
  and the result of an injection is the call it makes: the scope, the row and the packed vector.
\<close>

datatype domain_e = CACHE_DIR | CACHE_DAT

record fi_conf =
  CONF_WAYS :: nat
  CONF_DATA_WAYS_PER_RAM_WORD :: nat
  CONF_ACCESS_WORDS :: nat
  CONF_CL_WORDS :: nat
  CONF_WORD_WIDTH :: nat

section \<open>Geometry of the memories\<close>

definition getDir :: "nat \<Rightarrow> nat" where
  "getDir way = way"

definition getDatRow :: "fi_conf \<Rightarrow> nat \<Rightarrow> nat" where
  "getDatRow c way = way div CONF_DATA_WAYS_PER_RAM_WORD c"

definition getDatCol :: "fi_conf \<Rightarrow> nat \<Rightarrow> nat" where
  "getDatCol c word = word mod CONF_ACCESS_WORDS c"

definition getParBits :: "nat \<Rightarrow> nat" where
  "getParBits wordWidth = (if wordWidth < 64 then 7 else 8)"

record 'scope fi_scopes =
  dirScopes :: "nat \<Rightarrow> 'scope"
  datScopes :: "nat \<Rightarrow> nat \<Rightarrow> 'scope"

definition DATA_ROWS :: "fi_conf \<Rightarrow> nat" where
  "DATA_ROWS c = CONF_WAYS c div CONF_DATA_WAYS_PER_RAM_WORD c"

definition DATA_COLS :: "fi_conf \<Rightarrow> nat" where
  "DATA_COLS c = CONF_ACCESS_WORDS c"

text \<open>\<^verbatim>\<open>getScope\<close>; \<open>None\<close> is an index outside the scope tables.\<close>

definition getScope :: "fi_conf \<Rightarrow> 'scope fi_scopes \<Rightarrow> domain_e \<Rightarrow> nat \<Rightarrow> nat \<Rightarrow> nat \<Rightarrow> 'scope option" where
  "getScope c sc domain st way word =
     (case domain of
        CACHE_DIR \<Rightarrow> if getDir way < CONF_WAYS c then Some (dirScopes sc (getDir way)) else None
      | CACHE_DAT \<Rightarrow>
          if getDatRow c way < DATA_ROWS c \<and> getDatCol c word < DATA_COLS c
          then Some (datScopes sc (getDatRow c way) (getDatCol c word)) else None)"

text \<open>
  The constructor looks every scope up by its hierarchical name (\<open>lookup\<close> stands for
  \<^verbatim>\<open>svGetScopeFromName\<close> on the name of way \<^verbatim>\<open>w\<close>, or of row \<^verbatim>\<open>w\<close> and column \<^verbatim>\<open>m\<close>); \<open>None\<close> is a
  failed assertion.
\<close>

datatype hier_name = Dir_sram nat | Data_sram nat nat

fun all_some :: "'a option list \<Rightarrow> 'a list option" where
  "all_some [] = Some []"
| "all_some (None # xs) = None"
| "all_some (Some x # xs) = map_option (Cons x) (all_some xs)"

definition fault_injection_new :: "fi_conf \<Rightarrow> (hier_name \<Rightarrow> 'scope option) \<Rightarrow> 'scope fi_scopes option" where
  "fault_injection_new c lookup =
     (case all_some (map (\<lambda>w. lookup (Dir_sram w)) [0..<CONF_WAYS c]) of
        None \<Rightarrow> None
      | Some ds \<Rightarrow>
          (case all_some (map (\<lambda>w. all_some (map (\<lambda>m. lookup (Data_sram w m)) [0..<CONF_ACCESS_WORDS c]))
                          [0..<CONF_WAYS c div CONF_DATA_WAYS_PER_RAM_WORD c]) of
             None \<Rightarrow> None
           | Some dss \<Rightarrow>
               if HPDCACHE_WORD_WIDTH = 64 \<or> HPDCACHE_WORD_WIDTH = 32
               then Some \<lparr>dirScopes = (\<lambda>w. ds ! w), datScopes = (\<lambda>w m. dss ! w ! m)\<rparr>
               else None))"

section \<open>Injecting a fault\<close>

text \<open>\<^verbatim>\<open>SV_PACKED_DATA_NELEMS\<close>, and the \<^verbatim>\<open>aval\<close> members of a packed vector of \<^verbatim>\<open>n\<close> 32-bit elements.\<close>

definition SV_PACKED_DATA_NELEMS :: "nat \<Rightarrow> nat" where
  "SV_PACKED_DATA_NELEMS w = (w + 31) div 32"

definition dir_chunk :: "64 word \<Rightarrow> nat \<Rightarrow> nat \<Rightarrow> u32" where
  "dir_chunk msk WordBits b =
     (let loIdx = b * 32; hiIdx = (if (b + 1) * 32 > WordBits then WordBits else (b + 1) * 32)
      in if loIdx < WordBits then bv_range (hiIdx - 1) loIdx msk else 0)"

definition DirBits :: nat where
  "DirBits = HPDCACHE_TAG_WIDTH + 4"

definition injectDirFault ::
  "fi_conf \<Rightarrow> 'scope fi_scopes \<Rightarrow> nat \<Rightarrow> nat \<Rightarrow> 64 word \<Rightarrow> ('scope \<times> nat \<times> u32 list) option" where
  "injectDirFault c sc st way msk =
     (let WordBits = DirBits + getParBits DirBits in
      case getScope c sc CACHE_DIR st way 0 of
        None \<Rightarrow> None
      | Some scope \<Rightarrow>
          Some (scope, st, map (dir_chunk msk WordBits) [0..<SV_PACKED_DATA_NELEMS WordBits]))"

text \<open>
  The loop over the middle elements of \<^verbatim>\<open>injectDatFault\<close>: element \<^verbatim>\<open>b\<close>, next mask bit \<^verbatim>\<open>hiIdx\<close>, bits
  left. It ends because 32 bits are taken each time.
\<close>

function dat_middle :: "72 word \<Rightarrow> u32 list \<Rightarrow> nat \<Rightarrow> nat \<Rightarrow> nat \<Rightarrow> u32 list \<times> nat \<times> nat \<times> nat" where
  "dat_middle msk lv b hiIdx bits =
     (if bits \<ge> 32
      then dat_middle msk (lv[b := bv_range (hiIdx + 32 - 1) hiIdx msk]) (b + 1) (hiIdx + 32) (bits - 32)
      else (lv, b, hiIdx, bits))"
  by pat_completeness auto
termination by (relation "measure (\<lambda>(msk, lv, b, hiIdx, bits). bits)") auto

declare dat_middle.simps [simp del]

definition dat_lv :: "nat \<Rightarrow> nat \<Rightarrow> nat \<Rightarrow> 72 word \<Rightarrow> u32 list" where
  "dat_lv WordBits RamBits ramWord msk =
     (let ramOffset = ramWord * WordBits;
          wordOffset = ramOffset mod 32;
          bits = WordBits;
          lv = replicate (SV_PACKED_DATA_NELEMS RamBits) 0;
          b = ramOffset div 32;
          hiIdx = (if bits \<ge> 32 then 32 - wordOffset else bits);
          lv = lv[b := push_bit wordOffset (bv_range (hiIdx - 1) 0 msk)];
          (lv, b, hiIdx, bits) = dat_middle msk lv (b + 1) hiIdx (bits - hiIdx)
      in if bits \<noteq> 0 then lv[b := bv_range (hiIdx + bits - 1) hiIdx msk] else lv)"

definition injectDatFault ::
  "fi_conf \<Rightarrow> 'scope fi_scopes \<Rightarrow> nat \<Rightarrow> nat \<Rightarrow> nat \<Rightarrow> 72 word \<Rightarrow> ('scope \<times> nat \<times> u32 list) option" where
  "injectDatFault c sc st way word msk =
     (let WordBits = CONF_WORD_WIDTH c + getParBits (CONF_WORD_WIDTH c);
          RamBits = WordBits * CONF_DATA_WAYS_PER_RAM_WORD c in
      case getScope c sc CACHE_DAT st way word of
        None \<Rightarrow> None
      | Some scope \<Rightarrow>
          Some (scope, (st * CONF_CL_WORDS c + word) div CONF_ACCESS_WORDS c,
                dat_lv WordBits RamBits (way mod CONF_DATA_WAYS_PER_RAM_WORD c) msk))"

section \<open>Bits of a packed vector\<close>

definition lv_bit :: "u32 list \<Rightarrow> nat \<Rightarrow> bool" where
  "lv_bit lv n \<longleftrightarrow> n div 32 < length lv \<and> bit (lv ! (n div 32)) (n mod 32)"

text \<open>The part of the mask from bit \<open>lo\<close> of a word that starts at \<open>off\<close>, up to bit \<open>hi\<close>, is placed.\<close>

definition placed :: "72 word \<Rightarrow> nat \<Rightarrow> nat \<Rightarrow> u32 list \<Rightarrow> bool" where
  "placed msk off k lv \<longleftrightarrow> (\<forall>n. lv_bit lv n \<longleftrightarrow> off \<le> n \<and> n < off + k \<and> bit msk (n - off))"

lemma div_32_eq: "n div 32 = b \<longleftrightarrow> 32 * b \<le> n \<and> n < 32 * b + (32::nat)"
  by auto

lemma fill_32: "n + (32 - n mod 32) = 32 * (n div 32 + (1::nat))"
  by presburger

lemma bit_head:
  "wo < 32 \<Longrightarrow> bit (push_bit wo (bv_range (31 - wo) 0 (msk :: 72 word) :: u32)) i \<longleftrightarrow>
     wo \<le> i \<and> i < 32 \<and> bit msk (i - wo)"
  by (auto simp: bv_simps bit_simps)

lemma head_index:
  assumes "off = 32 * q + w" "w < 32" "32 * q \<le> n" "n < 32 * q + (32::nat)"
  shows "n - 32 * q - w = n - off" "w \<le> n - 32 * q \<longleftrightarrow> off \<le> n" "n - 32 * q < 32" "n < off + (32 - w)"
  using assms by linarith+

lemma lv_bit_update:
  "b < length lv \<Longrightarrow> lv_bit (lv[b := x]) n \<longleftrightarrow> (if n div 32 = b then bit x (n - 32 * b) else lv_bit lv n)"
  by (auto simp: lv_bit_def nth_list_update minus_mult_div_eq_mod [symmetric])

lemma placed_chunk:
  assumes "placed msk off k lv" and "off + k = 32 * b" and "b < length lv" and "m \<le> 32" "0 < m"
  shows "placed msk off (k + m) (lv[b := bv_range (k + m - 1) k msk])"
  unfolding placed_def
proof
  fix n
  show "lv_bit (lv[b := bv_range (k + m - 1) k msk]) n \<longleftrightarrow> off \<le> n \<and> n < off + (k + m) \<and> bit msk (n - off)"
  proof (cases "n div 32 = b")
    case True
    then have n: "32 * b \<le> n" "n < 32 * b + 32" by (auto simp: div_32_eq)
    with assms(2) have "k + (n - 32 * b) = n - off" by simp
    with True n assms show ?thesis by (auto simp: lv_bit_update bv_simps)
  next
    case False
    then have "\<not> (32 * b \<le> n \<and> n < 32 * b + 32)" by (simp add: div_32_eq)
    then have "n < off + k \<longleftrightarrow> n < off + (k + m)" using assms(2,4) by linarith
    with False assms(1) show ?thesis by (simp add: placed_def lv_bit_update assms(3))
  qed
qed

lemma dat_middle_placed:
  assumes "placed msk off hi lv" and "off + hi = 32 * b" and "off + hi + bits \<le> 32 * length lv"
  shows "let (lv', b', hi', bits') = dat_middle msk lv b hi bits in
           placed msk off hi' lv' \<and> off + hi' = 32 * b' \<and> hi' + bits' = hi + bits \<and> bits' < 32 \<and>
           length lv' = length lv"
  using assms
proof (induction msk lv b hi bits rule: dat_middle.induct)
  case (1 msk lv b hi bits)
  show ?case
  proof (cases "bits \<ge> 32")
    case True
    have "b < length lv" using 1(3,4) True by simp
    then have "placed msk off (hi + 32) (lv[b := bv_range (hi + 32 - 1) hi msk])"
      using placed_chunk [OF 1(2,3), of 32] by simp
    with 1 True show ?thesis
      by (subst dat_middle.simps) auto
  next
    case False
    with 1 show ?thesis by (subst dat_middle.simps) simp
  qed
qed

lemma dat_lv_placed:
  assumes "32 \<le> W" and "W \<le> 72" and "r < k"
  shows "placed msk (r * W) W (dat_lv W (W * k) r msk)"
proof -
  let ?off = "r * W" let ?lv0 = "replicate (SV_PACKED_DATA_NELEMS (W * k)) (0 :: u32)"
  let ?wo = "?off mod 32" let ?hi = "32 - ?off mod 32"
  let ?lv1 = "?lv0[?off div 32 := push_bit ?wo (bv_range (?hi - 1) 0 msk)]"
  have "Suc r * W \<le> W * k" using assms(3) by (metis Suc_leI mult.commute mult_le_mono1)
  then have "?off + W \<le> W * k" by simp
  also have "W * k \<le> 32 * length ?lv0" by (simp add: SV_PACKED_DATA_NELEMS_def)
  finally have len: "?off + W \<le> 32 * length ?lv0" .
  then have b: "?off div 32 < length ?lv0" using assms(1) by linarith
  have eq: "?off + ?hi = 32 * (?off div 32 + 1)"
    by (rule fill_32)
  have p1: "placed msk ?off ?hi ?lv1"
    unfolding placed_def
  proof
    fix n
    have z: "\<not> lv_bit ?lv0 n" by (simp add: lv_bit_def)
    show "lv_bit ?lv1 n \<longleftrightarrow> ?off \<le> n \<and> n < ?off + ?hi \<and> bit msk (n - ?off)"
    proof (cases "n div 32 = ?off div 32")
      case True
      then have n: "32 * (?off div 32) \<le> n" "n < 32 * (?off div 32) + 32" by (auto simp: div_32_eq)
      have "n - 32 * (?off div 32) - ?wo = n - ?off" "?wo \<le> n - 32 * (?off div 32) \<longleftrightarrow> ?off \<le> n"
          "n - 32 * (?off div 32) < 32" "n < ?off + ?hi"
        using head_index [OF _ _ n, of ?off ?wo] by simp_all
      with True b show ?thesis by (simp add: lv_bit_update bit_head)
    next
      case False
      then have "\<not> (?off \<le> n \<and> n < ?off + ?hi)" unfolding eq by (auto simp: div_32_eq)
      with False z b show ?thesis by (auto simp: lv_bit_update)
    qed
  qed
  obtain lv' b' hi' bits' where m: "dat_middle msk ?lv1 (?off div 32 + 1) ?hi (W - ?hi) = (lv', b', hi', bits')"
    by (metis prod_cases4)
  have "?hi \<le> W" using assms(1) by simp
  with dat_middle_placed [OF p1 eq, of "W - ?hi"] m len
  have p2: "placed msk ?off hi' lv'" "?off + hi' = 32 * b'" "hi' + bits' = W" "bits' < 32" "length lv' = length ?lv0"
    by simp_all
  have "dat_lv W (W * k) r msk = (if bits' \<noteq> 0 then lv'[b' := bv_range (hi' + bits' - 1) hi' msk] else lv')"
    using assms(1) m by (simp add: dat_lv_def Let_def)
  moreover have "b' < length lv'" if "bits' \<noteq> 0" using that p2 len by linarith
  ultimately show ?thesis
    using placed_chunk [OF p2(1,2), of bits'] p2 by auto
qed

section \<open>Properties\<close>

text \<open>
  A data fault reaches exactly the word it is meant for: when several ways share a RAM word, the
  vector handed to the RAM carries the low bits of the mask at the position of the chosen way, and
  no other bit of the RAM word is flipped, for both supported word widths.
\<close>

theorem injectDatFault_hits_way:
  assumes "injectDatFault c sc st way word msk = Some (scope, row, lv)"
    and "CONF_WORD_WIDTH c = 32 \<or> CONF_WORD_WIDTH c = 64" and "0 < CONF_DATA_WAYS_PER_RAM_WORD c"
  shows "let W = CONF_WORD_WIDTH c + getParBits (CONF_WORD_WIDTH c);
             off = (way mod CONF_DATA_WAYS_PER_RAM_WORD c) * W
         in \<forall>n. lv_bit lv n \<longleftrightarrow> off \<le> n \<and> n < off + W \<and> bit msk (n - off)"
proof -
  let ?W = "CONF_WORD_WIDTH c + getParBits (CONF_WORD_WIDTH c)" and ?k = "CONF_DATA_WAYS_PER_RAM_WORD c"
  have "32 \<le> ?W" "?W \<le> 72" using assms(2) by (auto simp: getParBits_def)
  from dat_lv_placed [OF this, of "way mod ?k" ?k msk] assms(1,3) show ?thesis
    by (simp add: injectDatFault_def placed_def Let_def split: option.splits)
qed

definition fi_conf_w :: fi_conf where
  "fi_conf_w = \<lparr>CONF_WAYS = 4, CONF_DATA_WAYS_PER_RAM_WORD = 2, CONF_ACCESS_WORDS = 2, CONF_CL_WORDS = 8,
     CONF_WORD_WIDTH = 64\<rparr>"

definition fi_scopes_w :: "nat fi_scopes" where
  "fi_scopes_w = \<lparr>dirScopes = (\<lambda>w. w), datScopes = (\<lambda>w m. 10 * w + m)\<rparr>"

theorem injectDatFault_hits_way_witness:
  "\<exists>lv. injectDatFault fi_conf_w fi_scopes_w 3 1 2 1 = Some (0, 13, lv) \<and> (\<forall>n. lv_bit lv n \<longleftrightarrow> n = 72)"
proof -
  obtain lv where lv: "injectDatFault fi_conf_w fi_scopes_w 3 1 2 1 = Some (0, 13, lv)"
    by (simp add: injectDatFault_def getScope_def fi_conf_w_def fi_scopes_w_def getDatRow_def getDatCol_def
        DATA_ROWS_def DATA_COLS_def Let_def)
  from injectDatFault_hits_way [OF this] have "\<forall>n. lv_bit lv n \<longleftrightarrow> 72 \<le> n \<and> n < 144 \<and> bit (1 :: 72 word) (n - 72)"
    by (simp add: fi_conf_w_def getParBits_def Let_def)
  moreover have "72 \<le> n \<and> n < 144 \<and> bit (1 :: 72 word) (n - 72) \<longleftrightarrow> n = 72" for n
    by (auto simp: bit_1_iff)
  ultimately have "\<forall>n. lv_bit lv n \<longleftrightarrow> n = 72" by simp
  with lv show ?thesis by blast
qed

text \<open>
  A directory fault flips the bits the mask selects among the entry and its parity bits (48 bits
  in the default configuration) and no other.
\<close>

theorem injectDirFault_bits:
  assumes "injectDirFault c sc st way msk = Some (scope, row, lv)"
  shows "row = st \<and> (\<forall>n. lv_bit lv n \<longleftrightarrow> n < 48 \<and> bit msk n)"
proof -
  have W: "DirBits + getParBits DirBits = 48" by (simp add: DirBits_def getParBits_def)
  have n: "[0..<SV_PACKED_DATA_NELEMS 48] = [0, 1]" by code_simp
  have lv: "row = st" "lv = [dir_chunk msk 48 0, dir_chunk msk 48 1]"
    using assms by (simp_all add: injectDirFault_def W Let_def n split: option.splits)
  have c0: "bit (dir_chunk msk 48 0) i \<longleftrightarrow> i < 32 \<and> bit msk i" for i
    by (simp add: dir_chunk_def bv_simps)
  have c1: "bit (dir_chunk msk 48 (Suc 0)) i \<longleftrightarrow> i < 16 \<and> bit msk (32 + i)" for i
    by (auto simp: dir_chunk_def bv_simps)
  have "lv_bit lv n \<longleftrightarrow> n < 48 \<and> bit msk n" for n
  proof -
    consider "n < 32" | "32 \<le> n" "n < 64" | "64 \<le> n" by linarith
    then show ?thesis
    proof cases
      case 1
      then show ?thesis by (simp add: lv lv_bit_def c0)
    next
      case 2
      then have "n div 32 = 1" "n mod 32 = n - 32" by (simp_all add: div_32_eq mod_if)
      with 2 show ?thesis by (auto simp: lv lv_bit_def c1)
    next
      case 3
      then have "2 \<le> n div 32" by simp
      with 3 show ?thesis by (simp add: lv lv_bit_def)
    qed
  qed
  with lv(1) show ?thesis by blast
qed

theorem injectDirFault_bits_witness:
  "\<exists>lv. injectDirFault fi_conf_w fi_scopes_w 5 3 (push_bit 40 1 OR push_bit 50 1) = Some (3, 5, lv) \<and>
     lv_bit lv 40 \<and> \<not> lv_bit lv 50"
proof -
  obtain lv where lv: "injectDirFault fi_conf_w fi_scopes_w 5 3 (push_bit 40 1 OR push_bit 50 1) = Some (3, 5, lv)"
    by (simp add: injectDirFault_def getScope_def fi_conf_w_def fi_scopes_w_def getDir_def Let_def)
  from injectDirFault_bits [OF this] have "lv_bit lv 40" "\<not> lv_bit lv 50"
    by (simp_all add: bit_simps)
  with lv show ?thesis by blast
qed

end
