(* ===== verification/Sc_Verif_Lib.thy ===== *)
theory Sc_Verif_Lib
  imports Prelude "HOL-Library.Multiset"
begin

text \<open>
  The verification library \<^verbatim>\<open>sc_verif_lib/include\<close>: the logger, the transaction base class, the
  transaction pool with its reuse of objects, the sequence base class that hands pool objects out,
  and the agent that binds sequences to its channels. Shared pointers are references into a heap of
  transaction objects, so that reuse of an object is visible.
\<close>

section \<open>Logger\<close>

definition LOG_NONE :: int where "LOG_NONE = 0"
definition LOG_LOW :: int where "LOG_LOW = 1"
definition LOG_MEDIUM :: int where "LOG_MEDIUM = 2"
definition LOG_HIGH :: int where "LOG_HIGH = 3"
definition LOG_WARNING :: int where "LOG_WARNING = LOG_LOW"
definition LOG_INFO :: int where "LOG_INFO = LOG_MEDIUM"
definition LOG_DEBUG :: int where "LOG_DEBUG = LOG_HIGH"

lemmas log_levels = LOG_NONE_def LOG_LOW_def LOG_MEDIUM_def LOG_HIGH_def LOG_WARNING_def LOG_INFO_def
  LOG_DEBUG_def

record logger =
  log_level :: int
  cout :: string

definition logger_initial :: logger where
  "logger_initial = \<lparr>log_level = LOG_INFO, cout = []\<rparr>"

definition set_log_level :: "int \<Rightarrow> logger \<Rightarrow> logger" where
  "set_log_level level l = l\<lparr>log_level := level\<rparr>"

definition is_warning_enabled :: "logger \<Rightarrow> bool" where
  "is_warning_enabled l \<longleftrightarrow> log_level l \<ge> LOG_WARNING"

definition is_info_enabled :: "logger \<Rightarrow> bool" where
  "is_info_enabled l \<longleftrightarrow> log_level l \<ge> LOG_INFO"

definition is_debug_enabled :: "logger \<Rightarrow> bool" where
  "is_debug_enabled l \<longleftrightarrow> log_level l \<ge> LOG_DEBUG"

definition log_info :: "string \<Rightarrow> logger \<Rightarrow> logger" where
  "log_info msg l = (if log_level l \<ge> LOG_INFO then l\<lparr>cout := cout l @ msg\<rparr> else l)"

definition log_warning :: "string \<Rightarrow> logger \<Rightarrow> logger" where
  "log_warning msg l = (if log_level l \<ge> LOG_WARNING then l\<lparr>cout := cout l @ msg\<rparr> else l)"

definition log_debug :: "string \<Rightarrow> logger \<Rightarrow> logger" where
  "log_debug msg l = (if log_level l \<ge> LOG_DEBUG then l\<lparr>cout := cout l @ msg\<rparr> else l)"

section \<open>Transactions and their pool\<close>

record transaction =
  trans_id :: u64

definition set_id :: "u64 \<Rightarrow> 'a transaction_scheme \<Rightarrow> 'a transaction_scheme" where
  "set_id i t = t\<lparr>trans_id := i\<rparr>"

definition get_id :: "'a transaction_scheme \<Rightarrow> u64" where
  "get_id t = trans_id t"

text \<open>
  The pool holds references; \<open>heap\<close> maps a reference to its object and \<open>next_ref\<close> is the next
  reference a \<^verbatim>\<open>make_shared\<close> returns.
\<close>

record 't transaction_pool =
  heap :: "nat \<Rightarrow> 't"
  next_ref :: nat
  pool :: "nat list"
  trans_bundle_sz :: int
  nb_trans :: u64
  nb_allocated :: u64
  nb_release :: u64

definition transaction_pool_new :: "(nat \<Rightarrow> 't) \<Rightarrow> int \<Rightarrow> 't transaction_pool" where
  "transaction_pool_new junk sz =
     \<lparr>heap = junk, next_ref = 0, pool = [], trans_bundle_sz = sz, nb_trans = 0, nb_allocated = 0,
      nb_release = 0\<rparr>"

text \<open>The loop that creates a bundle of objects (\<open>mk\<close> is a default-constructed transaction).\<close>

fun alloc_bundle :: "'t \<Rightarrow> nat \<Rightarrow> 't transaction_pool \<Rightarrow> 't transaction_pool" where
  "alloc_bundle mk 0 p = p"
| "alloc_bundle mk (Suc n) p =
     alloc_bundle mk n
       (p\<lparr>heap := (heap p)(next_ref p := mk), next_ref := Suc (next_ref p),
          nb_allocated := nb_allocated p + 1, pool := pool p @ [next_ref p]\<rparr>)"

text \<open>\<^verbatim>\<open>acquire_transaction\<close>; \<open>None\<close> is \<^verbatim>\<open>front\<close> of an empty list (a bundle size below 1).\<close>

definition pool_acquire ::
  "'a transaction_scheme \<Rightarrow> 'a transaction_scheme transaction_pool \<Rightarrow>
   (nat \<times> 'a transaction_scheme transaction_pool) option" where
  "pool_acquire mk p =
     (let p = (if pool p = [] then alloc_bundle mk (nat (trans_bundle_sz p)) p else p) in
      case pool p of
        [] \<Rightarrow> None
      | r # rs \<Rightarrow>
          Some (r, p\<lparr>pool := rs, heap := (heap p)(r := set_id (nb_trans p) (heap p r)),
                     nb_trans := nb_trans p + 1\<rparr>))"

definition pool_release :: "nat \<Rightarrow> 't transaction_pool \<Rightarrow> 't transaction_pool" where
  "pool_release r p = p\<lparr>nb_release := nb_release p + 1, pool := pool p @ [r]\<rparr>"

text \<open>The counters the destructor reports at debug level.\<close>

definition pool_report :: "'t transaction_pool \<Rightarrow> u64 \<times> u64 \<times> u64" where
  "pool_report p = (nb_allocated p, nb_trans p, nb_release p)"

section \<open>The sequence base class\<close>

text \<open>\<^verbatim>\<open>acquire_transaction()\<close> assigns a default object, its identifier included.\<close>

definition sequence_acquire ::
  "'a transaction_scheme \<Rightarrow> 'a transaction_scheme transaction_pool \<Rightarrow>
   (nat \<times> 'a transaction_scheme transaction_pool) option" where
  "sequence_acquire mk p =
     map_option (\<lambda>(r, p'). (r, p'\<lparr>heap := (heap p')(r := mk)\<rparr>)) (pool_acquire mk p)"

definition sequence_acquire_init ::
  "'a transaction_scheme \<Rightarrow> 'a transaction_scheme \<Rightarrow> 'a transaction_scheme transaction_pool \<Rightarrow>
   (nat \<times> 'a transaction_scheme transaction_pool) option" where
  "sequence_acquire_init mk ini p =
     map_option (\<lambda>(r, p'). (r, p'\<lparr>heap := (heap p')(r := set_id (get_id (heap p' r)) ini)\<rparr>))
       (pool_acquire mk p)"

definition sequence_release :: "nat \<Rightarrow> 't transaction_pool \<Rightarrow> 't transaction_pool" where
  "sequence_release r p = pool_release r p"

section \<open>The agent\<close>

record seq_ports =
  seq_clk :: "nat option"
  seq_rst :: "nat option"
  seq_fifo_o :: "nat option"
  seq_ret_i :: "nat option"

record agent =
  ag_clk :: nat
  ag_rst :: nat
  ag_transaction_fifo :: nat
  ag_transaction_ret :: nat
  slist :: "seq_ports list"

definition add_sequence :: "seq_ports \<Rightarrow> agent \<Rightarrow> agent" where
  "add_sequence sq a =
     (let sq = sq\<lparr>seq_clk := Some (ag_clk a)\<rparr>;
          sq = sq\<lparr>seq_rst := Some (ag_rst a)\<rparr>;
          sq = sq\<lparr>seq_fifo_o := Some (ag_transaction_fifo a)\<rparr>;
          sq = sq\<lparr>seq_ret_i := Some (ag_transaction_ret a)\<rparr>
      in a\<lparr>slist := slist a @ [sq]\<rparr>)"

definition get_sequence_list :: "agent \<Rightarrow> seq_ports list" where
  "get_sequence_list a = slist a"

lemma add_sequence_bound:
  "\<forall>sq \<in> set (get_sequence_list a). seq_fifo_o sq = Some (ag_transaction_fifo a) \<Longrightarrow>
   \<forall>sq' \<in> set (get_sequence_list (add_sequence sq a)). seq_fifo_o sq' = Some (ag_transaction_fifo a)"
  by (auto simp: get_sequence_list_def add_sequence_def Let_def)

section \<open>Reuse of pool objects\<close>

text \<open>
  The states of a pool under a client that releases only what it holds: \<open>out\<close> is the list of
  references held, most recent first.
\<close>

inductive pool_run ::
  "'a transaction_scheme \<Rightarrow> 'a transaction_scheme transaction_pool \<Rightarrow> nat list \<Rightarrow> bool" for mk where
  start: "0 < sz \<Longrightarrow> pool_run mk (transaction_pool_new junk sz) []"
| acquire: "pool_run mk p out \<Longrightarrow> sequence_acquire_init mk ini p = Some (r, p') \<Longrightarrow> pool_run mk p' (r # out)"
| release: "pool_run mk p out \<Longrightarrow> r \<in> set out \<Longrightarrow> pool_run mk (sequence_release r p) (remove1 r out)"

lemma alloc_bundle_frame [simp]:
  "pool (alloc_bundle mk n p) = pool p @ [next_ref p..<next_ref p + n]"
  "next_ref (alloc_bundle mk n p) = next_ref p + n"
  "trans_bundle_sz (alloc_bundle mk n p) = trans_bundle_sz p"
  "nb_trans (alloc_bundle mk n p) = nb_trans p"
  "nb_allocated (alloc_bundle mk n p) = nb_allocated p + of_nat n"
  by (induction n arbitrary: p) (simp_all add: upt_conv_Cons del: upt_Suc)

definition pool_inv :: "'t transaction_pool \<Rightarrow> nat list \<Rightarrow> bool" where
  "pool_inv p out \<longleftrightarrow> distinct (out @ pool p) \<and> set (out @ pool p) = {..<next_ref p} \<and>
     nb_allocated p = of_nat (next_ref p) \<and> 0 < trans_bundle_sz p"

lemma pool_inv_bundle:
  assumes "pool_inv p out"
  shows "pool_inv (alloc_bundle mk n p) out"
proof -
  let ?q = "alloc_bundle mk n p"
  have "set (out @ pool ?q) = {..<next_ref p} \<union> {next_ref p..<next_ref p + n}"
    using assms by (auto simp: pool_inv_def)
  also have "\<dots> = {..<next_ref ?q}" by auto
  finally have "set (out @ pool ?q) = {..<next_ref ?q}" .
  moreover have "x < next_ref p" if "x \<in> set (out @ pool p)" for x
    using assms that by (simp add: pool_inv_def)
  then have "distinct (out @ pool ?q)"
    using assms by (fastforce simp: pool_inv_def)
  ultimately show ?thesis using assms by (simp add: pool_inv_def)
qed

lemma pool_acquire_inv:
  assumes "pool_inv p out"
  shows "\<exists>r p'. pool_acquire mk p = Some (r, p') \<and> pool_inv p' (r # out) \<and> r \<notin> set out \<and>
           trans_id (heap p' r) = nb_trans p \<and> nb_trans p' = nb_trans p + 1"
proof -
  define q where "q = (if pool p = [] then alloc_bundle mk (nat (trans_bundle_sz p)) p else p)"
  have q: "pool_inv q out" "nb_trans q = nb_trans p" using assms by (auto simp: q_def pool_inv_bundle)
  have "pool q \<noteq> []" using assms by (auto simp: q_def pool_inv_def)
  then obtain r rs where rs: "pool q = r # rs" by (cases "pool q") auto
  then have "pool_acquire mk p = Some (r, q\<lparr>pool := rs,
      heap := (heap q)(r := set_id (nb_trans q) (heap q r)), nb_trans := nb_trans q + 1\<rparr>)"
    unfolding pool_acquire_def Let_def q_def [symmetric] by simp
  with q rs show ?thesis by (auto simp: pool_inv_def set_id_def)
qed

lemma pool_inv_heap [simp]: "pool_inv (p\<lparr>heap := h\<rparr>) out = pool_inv p out"
  by (simp add: pool_inv_def)

lemma pool_release_inv: "pool_inv p out \<Longrightarrow> r \<in> set out \<Longrightarrow> pool_inv (pool_release r p) (remove1 r out)"
  by (auto simp: pool_inv_def pool_release_def)

lemma pool_run_inv: "pool_run mk p out \<Longrightarrow> pool_inv p out"
proof (induction rule: pool_run.induct)
  case (start sz junk)
  then show ?case by (simp add: pool_inv_def transaction_pool_new_def)
next
  case (acquire p out ini r p')
  from pool_acquire_inv [OF acquire.IH, of mk] acquire.hyps(2) show ?case
    by (auto simp: sequence_acquire_init_def)
next
  case (release p out r)
  then show ?case by (simp add: sequence_release_def pool_release_inv)
qed

section \<open>Properties\<close>

text \<open>
  Two transactions that are held at the same time are distinct objects: after any sequence of
  acquires and releases of held objects, an acquire succeeds and returns an object that nobody
  holds and that is not left in the pool, carrying the running transaction number.
\<close>

theorem acquire_fresh_object:
  assumes "pool_run mk p out"
  shows "\<exists>r p'. sequence_acquire_init mk ini p = Some (r, p') \<and> r \<notin> set out \<and> r \<notin> set (pool p') \<and>
           heap p' r = set_id (nb_trans p) ini"
proof -
  obtain r p' where "pool_acquire mk p = Some (r, p')" "pool_inv p' (r # out)" "r \<notin> set out"
      "trans_id (heap p' r) = nb_trans p"
    using pool_acquire_inv [OF pool_run_inv [OF assms]] by blast
  then show ?thesis
    by (auto simp: sequence_acquire_init_def get_id_def pool_inv_def)
qed

theorem acquire_fresh_object_witness:
  "\<exists>r p'. sequence_acquire_init \<lparr>trans_id = 0\<rparr> \<lparr>trans_id = 9\<rparr>
       (transaction_pool_new (\<lambda>_. \<lparr>trans_id = 5\<rparr>) 10) = Some (r, p') \<and> heap p' r = \<lparr>trans_id = 0\<rparr>"
proof -
  have "pool_run \<lparr>trans_id = 0\<rparr> (transaction_pool_new (\<lambda>_. \<lparr>trans_id = 5\<rparr>) 10) []"
    by (rule pool_run.start) simp
  from acquire_fresh_object [OF this, of "\<lparr>trans_id = 9\<rparr>"] show ?thesis
    by (auto simp: set_id_def transaction_pool_new_def)
qed



text \<open>
  The argument-less \<^verbatim>\<open>acquire_transaction()\<close> does not keep the number the pool assigns: the object
  it returns is a default-constructed one, so every such transaction carries the same identifier.
\<close>

theorem sequence_acquire_drops_id:
  "sequence_acquire mk p = Some (r, p') \<Longrightarrow> heap p' r = mk \<and> get_id (heap p' r) = get_id mk"
  by (auto simp: sequence_acquire_def)

theorem sequence_acquire_drops_id_witness:
  "\<exists>r p'. sequence_acquire \<lparr>trans_id = 0\<rparr> \<lparr>heap = (\<lambda>_. \<lparr>trans_id = 5\<rparr>), next_ref = 1, pool = [0],
      trans_bundle_sz = 10, nb_trans = 7, nb_allocated = 1, nb_release = 1\<rparr> = Some (r, p') \<and>
      get_id (heap p' r) = 0"
proof -
  let ?p = "\<lparr>heap = (\<lambda>_. \<lparr>trans_id = 5\<rparr>), next_ref = 1, pool = [0], trans_bundle_sz = 10, nb_trans = 7,
    nb_allocated = 1, nb_release = 1\<rparr>"
  obtain r p' where "sequence_acquire \<lparr>trans_id = 0\<rparr> ?p = Some (r, p')"
    by (simp add: sequence_acquire_def pool_acquire_def)
  with sequence_acquire_drops_id [OF this] show ?thesis by (auto simp: get_id_def)
qed

end
