(* ===== verification/Transaction.thy ===== *)
theory Transaction
  imports Fault_Injection Sc_Verif_Lib
begin

text \<open>
  \<^verbatim>\<open>hpdcache_test_transaction.h\<close>: the requests and responses exchanged between the sequences, the
  driver, the scoreboard and the memory model. The operation is kept as the 5-bit vector the code
  stores, compared with the codes of the enumeration. Text is produced by \<^verbatim>\<open>std::hex\<close> (modelled) and
  by \<^verbatim>\<open>sc_bv::to_string(SC_HEX)\<close>, a SystemC routine that is the parameter \<open>sc_hex\<close> (width and value).
\<close>

section \<open>Core requests\<close>

datatype hpdcache_req_op_e =
    HPDCACHE_REQ_LOAD
  | HPDCACHE_REQ_STORE
  | HPDCACHE_REQ_AMO_LR
  | HPDCACHE_REQ_AMO_SC
  | HPDCACHE_REQ_AMO_SWAP
  | HPDCACHE_REQ_AMO_ADD
  | HPDCACHE_REQ_AMO_AND
  | HPDCACHE_REQ_AMO_OR
  | HPDCACHE_REQ_AMO_XOR
  | HPDCACHE_REQ_AMO_MAX
  | HPDCACHE_REQ_AMO_MAXU
  | HPDCACHE_REQ_AMO_MIN
  | HPDCACHE_REQ_AMO_MINU
  | HPDCACHE_REQ_CMO_FENCE
  | HPDCACHE_REQ_CMO_PREFETCH
  | HPDCACHE_REQ_CMO_INVAL_NLINE
  | HPDCACHE_REQ_CMO_INVAL_ALL
  | HPDCACHE_REQ_CMO_FLUSH_NLINE
  | HPDCACHE_REQ_CMO_FLUSH_ALL
  | HPDCACHE_REQ_CMO_FLUSH_INVAL_NLINE
  | HPDCACHE_REQ_CMO_FLUSH_INVAL_ALL

primrec op_code :: "hpdcache_req_op_e \<Rightarrow> nat" where
  "op_code HPDCACHE_REQ_LOAD = 0"
| "op_code HPDCACHE_REQ_STORE = 1"
| "op_code HPDCACHE_REQ_AMO_LR = 4"
| "op_code HPDCACHE_REQ_AMO_SC = 5"
| "op_code HPDCACHE_REQ_AMO_SWAP = 6"
| "op_code HPDCACHE_REQ_AMO_ADD = 7"
| "op_code HPDCACHE_REQ_AMO_AND = 8"
| "op_code HPDCACHE_REQ_AMO_OR = 9"
| "op_code HPDCACHE_REQ_AMO_XOR = 10"
| "op_code HPDCACHE_REQ_AMO_MAX = 11"
| "op_code HPDCACHE_REQ_AMO_MAXU = 12"
| "op_code HPDCACHE_REQ_AMO_MIN = 13"
| "op_code HPDCACHE_REQ_AMO_MINU = 14"
| "op_code HPDCACHE_REQ_CMO_FENCE = 16"
| "op_code HPDCACHE_REQ_CMO_PREFETCH = 17"
| "op_code HPDCACHE_REQ_CMO_INVAL_NLINE = 18"
| "op_code HPDCACHE_REQ_CMO_INVAL_ALL = 19"
| "op_code HPDCACHE_REQ_CMO_FLUSH_NLINE = 20"
| "op_code HPDCACHE_REQ_CMO_FLUSH_ALL = 21"
| "op_code HPDCACHE_REQ_CMO_FLUSH_INVAL_NLINE = 22"
| "op_code HPDCACHE_REQ_CMO_FLUSH_INVAL_ALL = 23"

datatype hpdcache_wr_policy_hint_e =
    HPDCACHE_WR_POLICY_AUTO | HPDCACHE_WR_POLICY_WB | HPDCACHE_WR_POLICY_WT

record hpdcache_fault_injection_req =
  fault_valid :: bool
  fault_set :: int
  fault_way :: int
  fault_word :: int
  fault_domain :: domain_e
  fault_mask :: "128 word"

definition fault_injection_req_new :: hpdcache_fault_injection_req where
  "fault_injection_req_new =
     \<lparr>fault_valid = False, fault_set = 0, fault_way = 0, fault_word = 0, fault_domain = CACHE_DIR,
      fault_mask = 0\<rparr>"

record hpdcache_test_transaction_req = transaction +
  req_addr :: addr_bv
  req_wdata :: u64
  req_op :: op_bv
  req_be :: u8
  req_size :: size_bv
  req_sid :: sid_bv
  req_tid :: tid_bv
  req_need_rsp :: bool
  req_phys_indexed :: bool
  req_uncacheable :: bool
  req_io :: bool
  req_wr_policy_hint :: hpdcache_wr_policy_hint_e
  req_abort :: bool
  req_fault :: hpdcache_fault_injection_req

definition transaction_req_new :: hpdcache_test_transaction_req where
  "transaction_req_new =
     \<lparr>trans_id = 0, req_addr = 0, req_wdata = 0, req_op = 0, req_be = 0, req_size = 0, req_sid = 0,
      req_tid = 0, req_need_rsp = False, req_phys_indexed = False, req_uncacheable = False,
      req_io = False, req_wr_policy_hint = HPDCACHE_WR_POLICY_AUTO, req_abort = False,
      req_fault = fault_injection_req_new\<rparr>"

subsection \<open>Classification\<close>

definition get_need_resp :: "hpdcache_test_transaction_req \<Rightarrow> bool" where
  "get_need_resp t = req_need_rsp t"

definition is_aborted :: "hpdcache_test_transaction_req \<Rightarrow> bool" where
  "is_aborted t = req_abort t"

definition is_phys_indexed :: "hpdcache_test_transaction_req \<Rightarrow> bool" where
  "is_phys_indexed t = req_phys_indexed t"

definition is_uncacheable :: "hpdcache_test_transaction_req \<Rightarrow> bool" where
  "is_uncacheable t = req_uncacheable t"

definition is_io :: "hpdcache_test_transaction_req \<Rightarrow> bool" where
  "is_io t = req_io t"

definition is_wr_policy_wb :: "hpdcache_test_transaction_req \<Rightarrow> bool" where
  "is_wr_policy_wb t \<longleftrightarrow> req_wr_policy_hint t = HPDCACHE_WR_POLICY_WB"

definition is_wr_policy_wt :: "hpdcache_test_transaction_req \<Rightarrow> bool" where
  "is_wr_policy_wt t \<longleftrightarrow> req_wr_policy_hint t = HPDCACHE_WR_POLICY_WT"

definition is_wr_policy_auto :: "hpdcache_test_transaction_req \<Rightarrow> bool" where
  "is_wr_policy_auto t \<longleftrightarrow> req_wr_policy_hint t = HPDCACHE_WR_POLICY_AUTO"

definition has_op :: "hpdcache_test_transaction_req \<Rightarrow> hpdcache_req_op_e \<Rightarrow> bool" where
  "has_op t e \<longleftrightarrow> unat (req_op t) = op_code e"

definition is_load :: "hpdcache_test_transaction_req \<Rightarrow> bool" where
  "is_load t \<longleftrightarrow> has_op t HPDCACHE_REQ_LOAD"

definition is_store :: "hpdcache_test_transaction_req \<Rightarrow> bool" where
  "is_store t \<longleftrightarrow> has_op t HPDCACHE_REQ_STORE"

definition is_amo :: "hpdcache_test_transaction_req \<Rightarrow> bool" where
  "is_amo t \<longleftrightarrow>
     has_op t HPDCACHE_REQ_AMO_SWAP \<or>
     has_op t HPDCACHE_REQ_AMO_ADD \<or>
     has_op t HPDCACHE_REQ_AMO_AND \<or>
     has_op t HPDCACHE_REQ_AMO_OR \<or>
     has_op t HPDCACHE_REQ_AMO_XOR \<or>
     has_op t HPDCACHE_REQ_AMO_MAX \<or>
     has_op t HPDCACHE_REQ_AMO_MAXU \<or>
     has_op t HPDCACHE_REQ_AMO_MIN \<or>
     has_op t HPDCACHE_REQ_AMO_MINU"

definition is_amo_lr :: "hpdcache_test_transaction_req \<Rightarrow> bool" where
  "is_amo_lr t \<longleftrightarrow> has_op t HPDCACHE_REQ_AMO_LR"

definition is_amo_sc :: "hpdcache_test_transaction_req \<Rightarrow> bool" where
  "is_amo_sc t \<longleftrightarrow> has_op t HPDCACHE_REQ_AMO_SC"

definition is_cmo :: "hpdcache_test_transaction_req \<Rightarrow> bool" where
  "is_cmo t \<longleftrightarrow>
     has_op t HPDCACHE_REQ_CMO_FENCE \<or>
     has_op t HPDCACHE_REQ_CMO_PREFETCH \<or>
     has_op t HPDCACHE_REQ_CMO_INVAL_NLINE \<or>
     has_op t HPDCACHE_REQ_CMO_INVAL_ALL \<or>
     has_op t HPDCACHE_REQ_CMO_FLUSH_NLINE \<or>
     has_op t HPDCACHE_REQ_CMO_FLUSH_ALL \<or>
     has_op t HPDCACHE_REQ_CMO_FLUSH_INVAL_NLINE \<or>
     has_op t HPDCACHE_REQ_CMO_FLUSH_INVAL_ALL"

definition is_cmo_prefetch :: "hpdcache_test_transaction_req \<Rightarrow> bool" where
  "is_cmo_prefetch t \<longleftrightarrow> has_op t HPDCACHE_REQ_CMO_PREFETCH"

subsection \<open>Address fields\<close>

definition addr_u64 :: "hpdcache_test_transaction_req \<Rightarrow> u64" where
  "addr_u64 t = ucast (req_addr t)"

definition get_cache_tag :: "hpdcache_test_transaction_req \<Rightarrow> u64" where
  "get_cache_tag t = drop_bit (HPDCACHE_CL_OFFSET_WIDTH + HPDCACHE_SET_WIDTH) (addr_u64 t)"

definition get_cache_set :: "hpdcache_test_transaction_req \<Rightarrow> u64" where
  "get_cache_set t = drop_bit HPDCACHE_CL_OFFSET_WIDTH (addr_u64 t) AND (push_bit HPDCACHE_SET_WIDTH 1 - 1)"

definition get_cache_word :: "hpdcache_test_transaction_req \<Rightarrow> u64" where
  "get_cache_word t =
     ((addr_u64 t * 8) div of_nat HPDCACHE_WORD_WIDTH) mod of_nat HPDCACHE_CL_WORDS"

subsection \<open>Text\<close>

definition op_to_string :: "nat \<Rightarrow> string" where
  "op_to_string op =
     (if op = op_code HPDCACHE_REQ_LOAD then ''LOAD''
      else if op = op_code HPDCACHE_REQ_STORE then ''STORE''
      else if op = op_code HPDCACHE_REQ_AMO_LR then ''LR''
      else if op = op_code HPDCACHE_REQ_AMO_SC then ''SC''
      else if op = op_code HPDCACHE_REQ_AMO_SWAP then ''AMO_SWAP''
      else if op = op_code HPDCACHE_REQ_AMO_ADD then ''AMO_ADD''
      else if op = op_code HPDCACHE_REQ_AMO_AND then ''AMO_AND''
      else if op = op_code HPDCACHE_REQ_AMO_OR then ''AMO_OR''
      else if op = op_code HPDCACHE_REQ_AMO_XOR then ''AMO_XOR''
      else if op = op_code HPDCACHE_REQ_AMO_MAX then ''AMO_MAX''
      else if op = op_code HPDCACHE_REQ_AMO_MAXU then ''AMO_MAXU''
      else if op = op_code HPDCACHE_REQ_AMO_MIN then ''AMO_MIN''
      else if op = op_code HPDCACHE_REQ_AMO_MINU then ''AMO_MINU''
      else if op = op_code HPDCACHE_REQ_CMO_FENCE then ''CMO_FENCE''
      else if op = op_code HPDCACHE_REQ_CMO_PREFETCH then ''CMO_PREFETCH''
      else if op = op_code HPDCACHE_REQ_CMO_INVAL_NLINE then ''CMO_INVAL_NLINE''
      else if op = op_code HPDCACHE_REQ_CMO_INVAL_ALL then ''CMO_INVAL_ALL''
      else if op = op_code HPDCACHE_REQ_CMO_FLUSH_NLINE then ''CMO_FLUSH_NLINE''
      else if op = op_code HPDCACHE_REQ_CMO_FLUSH_ALL then ''CMO_FLUSH_ALL''
      else if op = op_code HPDCACHE_REQ_CMO_FLUSH_INVAL_NLINE then ''CMO_FLUSH_INVAL_NLINE''
      else if op = op_code HPDCACHE_REQ_CMO_FLUSH_INVAL_ALL then ''CMO_FLUSH_INVAL_ALL''
      else ''UNKNOWN'')"

definition cmo_to_string :: "nat \<Rightarrow> string" where
  "cmo_to_string cmo =
     (if cmo = op_code HPDCACHE_REQ_CMO_FENCE then ''CMO_FENCE''
      else if cmo = op_code HPDCACHE_REQ_CMO_PREFETCH then ''CMO_PREFETCH''
      else if cmo = op_code HPDCACHE_REQ_CMO_INVAL_NLINE then ''CMO_INVAL_NLINE''
      else if cmo = op_code HPDCACHE_REQ_CMO_INVAL_ALL then ''CMO_INVAL_ALL''
      else if cmo = op_code HPDCACHE_REQ_CMO_FLUSH_NLINE then ''CMO_FLUSH_NLINE''
      else if cmo = op_code HPDCACHE_REQ_CMO_FLUSH_ALL then ''CMO_FLUSH_ALL''
      else if cmo = op_code HPDCACHE_REQ_CMO_FLUSH_INVAL_NLINE then ''CMO_FLUSH_INVAL_NLINE''
      else if cmo = op_code HPDCACHE_REQ_CMO_FLUSH_INVAL_ALL then ''CMO_FLUSH_INVAL_ALL''
      else ''UNKNOWN'')"

primrec wr_policy_to_string :: "hpdcache_wr_policy_hint_e \<Rightarrow> string" where
  "wr_policy_to_string HPDCACHE_WR_POLICY_AUTO = ''WR_POLICY_AUTO''"
| "wr_policy_to_string HPDCACHE_WR_POLICY_WB = ''WR_POLICY_WB''"
| "wr_policy_to_string HPDCACHE_WR_POLICY_WT = ''WR_POLICY_WT''"

text \<open>Numbers as \<^verbatim>\<open>std::hex\<close> and the default decimal format print them.\<close>

definition digit_char :: "nat \<Rightarrow> char" where
  "digit_char d = ''0123456789abcdef'' ! d"

fun digits :: "nat \<Rightarrow> nat \<Rightarrow> string" where
  "digits base n = (if n < base \<or> base < 2 then [digit_char (n mod 16)]
                    else digits base (n div base) @ [digit_char (n mod base)])"

declare digits.simps [simp del]

definition hex :: "nat \<Rightarrow> string" where
  "hex n = digits 16 n"

definition dec :: "int \<Rightarrow> string" where
  "dec i = (if i < 0 then ''-'' @ digits 10 (nat (- i)) else digits 10 (nat i))"

definition contains_data :: "nat \<Rightarrow> bool" where
  "contains_data op \<longleftrightarrow>
     op \<in> op_code ` {HPDCACHE_REQ_STORE, HPDCACHE_REQ_AMO_SC, HPDCACHE_REQ_AMO_SWAP, HPDCACHE_REQ_AMO_ADD,
       HPDCACHE_REQ_AMO_AND, HPDCACHE_REQ_AMO_OR, HPDCACHE_REQ_AMO_XOR, HPDCACHE_REQ_AMO_MAX,
       HPDCACHE_REQ_AMO_MAXU, HPDCACHE_REQ_AMO_MIN, HPDCACHE_REQ_AMO_MINU}"

definition req_to_string :: "(nat \<Rightarrow> nat \<Rightarrow> string) \<Rightarrow> hpdcache_test_transaction_req \<Rightarrow> string" where
  "req_to_string sc_hex t =
     (let op = unat (req_op t) in
      ''CORE_REQ'' @
      '' / @ = '' @ sc_hex 49 (unat (req_addr t)) @ '' / '' @ op_to_string op @
      '' / SET = 0x'' @ hex (unat (get_cache_set t)) @
      '' / WORD = 0x'' @ hex (unat (get_cache_word t)) @
      '' / TAG = 0x'' @ hex (unat (get_cache_tag t)) @
      '' / SID = 0x'' @ hex (unat (req_sid t)) @
      '' / TID = 0x'' @ hex (unat (req_tid t)) @
      '' / WR_POLICY_HINT = '' @ wr_policy_to_string (req_wr_policy_hint t) @
      (if \<not> is_cmo t then
         (if req_uncacheable t then '' / UNCACHED'' else '' / CACHED'') @
         '' / SIZE = '' @ sc_hex 3 (unat (req_size t)) @
         (if req_need_rsp t then '' / NEED_RSP'' else '' / NO NEED_RSP'') @
         (if req_phys_indexed t then '' / PHYS_INDEXED'' else '' / VIRT_INDEXED'') @
         (if contains_data op then
            '' / WDATA = '' @ sc_hex 64 (unat (req_wdata t)) @ '' / BE = '' @ sc_hex 8 (unat (req_be t))
          else '''')
       else '' / '' @ cmo_to_string op) @
      (if fault_valid (req_fault t) then
         '' / FAULT INJECTION / WAY = '' @ dec (fault_way (req_fault t)) @
         (if fault_domain (req_fault t) = CACHE_DIR then '' / CACHE_DIR'' else '''') @
         (if fault_domain (req_fault t) = CACHE_DAT then '' / CACHE_DAT'' else '''')
       else ''''))"

section \<open>Core responses\<close>

record hpdcache_test_transaction_resp = transaction +
  rsp_rdata :: u64
  rsp_sid :: sid_bv
  rsp_tid :: tid_bv
  rsp_error :: bool
  rsp_aborted :: bool

definition transaction_resp_new :: hpdcache_test_transaction_resp where
  "transaction_resp_new =
     \<lparr>trans_id = 0, rsp_rdata = 0, rsp_sid = 0, rsp_tid = 0, rsp_error = False, rsp_aborted = False\<rparr>"

definition resp_to_string :: "(nat \<Rightarrow> nat \<Rightarrow> string) \<Rightarrow> hpdcache_test_transaction_resp \<Rightarrow> string" where
  "resp_to_string sc_hex r =
     ''CORE_RESP / RDATA = '' @ sc_hex 64 (unat (rsp_rdata r)) @
     '' / SID = 0x'' @ hex (unat (rsp_sid r)) @
     '' / TID = 0x'' @ hex (unat (rsp_tid r)) @
     (if rsp_error r then '' / ERROR'' else '''') @
     (if rsp_aborted r then '' / ABORTED'' else '''')"

section \<open>Memory requests and responses\<close>

datatype hpdcache_mem_command_e = HPDCACHE_MEM_READ | HPDCACHE_MEM_WRITE | HPDCACHE_MEM_ATOMIC

primrec command_code :: "hpdcache_mem_command_e \<Rightarrow> u32" where
  "command_code HPDCACHE_MEM_READ = 0"
| "command_code HPDCACHE_MEM_WRITE = 1"
| "command_code HPDCACHE_MEM_ATOMIC = 2"

datatype hpdcache_mem_atomic_e =
    HPDCACHE_MEM_ATOMIC_ADD
  | HPDCACHE_MEM_ATOMIC_CLR
  | HPDCACHE_MEM_ATOMIC_SET
  | HPDCACHE_MEM_ATOMIC_EOR
  | HPDCACHE_MEM_ATOMIC_SMAX
  | HPDCACHE_MEM_ATOMIC_SMIN
  | HPDCACHE_MEM_ATOMIC_UMAX
  | HPDCACHE_MEM_ATOMIC_UMIN
  | HPDCACHE_MEM_ATOMIC_SWAP
  | HPDCACHE_MEM_ATOMIC_LDEX
  | HPDCACHE_MEM_ATOMIC_STEX

primrec atomic_code :: "hpdcache_mem_atomic_e \<Rightarrow> u32" where
  "atomic_code HPDCACHE_MEM_ATOMIC_ADD = 0"
| "atomic_code HPDCACHE_MEM_ATOMIC_CLR = 1"
| "atomic_code HPDCACHE_MEM_ATOMIC_SET = 2"
| "atomic_code HPDCACHE_MEM_ATOMIC_EOR = 3"
| "atomic_code HPDCACHE_MEM_ATOMIC_SMAX = 4"
| "atomic_code HPDCACHE_MEM_ATOMIC_SMIN = 5"
| "atomic_code HPDCACHE_MEM_ATOMIC_UMAX = 6"
| "atomic_code HPDCACHE_MEM_ATOMIC_UMIN = 7"
| "atomic_code HPDCACHE_MEM_ATOMIC_SWAP = 8"
| "atomic_code HPDCACHE_MEM_ATOMIC_LDEX = 12"
| "atomic_code HPDCACHE_MEM_ATOMIC_STEX = 13"

record hpdcache_test_transaction_mem_req =
  mreq_addr :: u64
  mreq_len :: u32
  mreq_size :: u32
  mreq_id :: u32
  mreq_command :: u32
  mreq_atomic :: u32
  mreq_cacheable :: bool

type_synonym hpdcache_test_transaction_mem_read_req = hpdcache_test_transaction_mem_req

record hpdcache_test_transaction_mem_write_req = hpdcache_test_transaction_mem_req +
  wreq_data :: mem_bv
  wreq_be :: u64
  wreq_last :: bool

record hpdcache_test_transaction_mem_read_resp =
  rresp_error :: u32
  rresp_id :: u32
  rresp_data :: mem_bv
  rresp_last :: bool

record hpdcache_test_transaction_mem_write_resp =
  wresp_is_atomic :: bool
  wresp_error :: u32
  wresp_id :: u32

definition mem_req_new :: hpdcache_test_transaction_mem_req where
  "mem_req_new =
     \<lparr>mreq_addr = 0, mreq_len = 0, mreq_size = 0, mreq_id = 0, mreq_command = 0, mreq_atomic = 0,
      mreq_cacheable = False\<rparr>"

definition mem_write_req_new :: hpdcache_test_transaction_mem_write_req where
  "mem_write_req_new =
     \<lparr>mreq_addr = 0, mreq_len = 0, mreq_size = 0, mreq_id = 0, mreq_command = 0, mreq_atomic = 0,
      mreq_cacheable = False, wreq_data = 0, wreq_be = 0, wreq_last = False\<rparr>"

definition mem_read_resp_new :: hpdcache_test_transaction_mem_read_resp where
  "mem_read_resp_new = \<lparr>rresp_error = 0, rresp_id = 0, rresp_data = 0, rresp_last = False\<rparr>"

definition mem_write_resp_new :: hpdcache_test_transaction_mem_write_resp where
  "mem_write_resp_new = \<lparr>wresp_is_atomic = False, wresp_error = 0, wresp_id = 0\<rparr>"

definition mem_is_amo :: "'a hpdcache_test_transaction_mem_req_scheme \<Rightarrow> bool" where
  "mem_is_amo r \<longleftrightarrow> mreq_command r = command_code HPDCACHE_MEM_ATOMIC \<and>
     mreq_atomic r \<noteq> atomic_code HPDCACHE_MEM_ATOMIC_STEX \<and>
     mreq_atomic r \<noteq> atomic_code HPDCACHE_MEM_ATOMIC_LDEX"

definition mem_is_stex :: "'a hpdcache_test_transaction_mem_req_scheme \<Rightarrow> bool" where
  "mem_is_stex r \<longleftrightarrow> mreq_command r = command_code HPDCACHE_MEM_ATOMIC \<and>
     mreq_atomic r = atomic_code HPDCACHE_MEM_ATOMIC_STEX"

definition mem_is_ldex :: "'a hpdcache_test_transaction_mem_req_scheme \<Rightarrow> bool" where
  "mem_is_ldex r \<longleftrightarrow> mreq_command r = command_code HPDCACHE_MEM_ATOMIC \<and>
     mreq_atomic r = atomic_code HPDCACHE_MEM_ATOMIC_LDEX"

definition command_to_string :: "u32 \<Rightarrow> string" where
  "command_to_string c =
     (if c = command_code HPDCACHE_MEM_READ then ''READ''
      else if c = command_code HPDCACHE_MEM_WRITE then ''STORE''
      else if c = command_code HPDCACHE_MEM_ATOMIC then ''ATOMIC''
      else ''UNKNOWN'')"

definition atomic_to_string :: "u32 \<Rightarrow> string" where
  "atomic_to_string a =
     (if a = atomic_code HPDCACHE_MEM_ATOMIC_ADD then ''ATOMIC_ADD''
      else if a = atomic_code HPDCACHE_MEM_ATOMIC_CLR then ''ATOMIC_CLR''
      else if a = atomic_code HPDCACHE_MEM_ATOMIC_SET then ''ATOMIC_SET''
      else if a = atomic_code HPDCACHE_MEM_ATOMIC_EOR then ''ATOMIC_EOR''
      else if a = atomic_code HPDCACHE_MEM_ATOMIC_SMAX then ''ATOMIC_SMAX''
      else if a = atomic_code HPDCACHE_MEM_ATOMIC_SMIN then ''ATOMIC_SMIN''
      else if a = atomic_code HPDCACHE_MEM_ATOMIC_UMAX then ''ATOMIC_UMAX''
      else if a = atomic_code HPDCACHE_MEM_ATOMIC_UMIN then ''ATOMIC_UMIN''
      else if a = atomic_code HPDCACHE_MEM_ATOMIC_SWAP then ''ATOMIC_SWAP''
      else if a = atomic_code HPDCACHE_MEM_ATOMIC_LDEX then ''ATOMIC_LDEX''
      else if a = atomic_code HPDCACHE_MEM_ATOMIC_STEX then ''ATOMIC_STEX''
      else ''UNKNOWN'')"

definition mem_read_req_to_string :: "hpdcache_test_transaction_mem_read_req \<Rightarrow> string" where
  "mem_read_req_to_string r =
     ''MEM_READ_REQ / @ = '' @ hex (unat (mreq_addr r)) @
     '' / CMD = '' @ command_to_string (mreq_command r) @
     '' / LEN = '' @ hex (unat (mreq_len r)) @ '' / SIZE = '' @ hex (unat (mreq_size r)) @
     '' / ID = 0x'' @ hex (unat (mreq_id r)) @
     (if mreq_cacheable r then '' / CACHEABLE'' else '' / UNCACHEABLE'')"

definition mem_write_req_to_string ::
  "(nat \<Rightarrow> nat \<Rightarrow> string) \<Rightarrow> hpdcache_test_transaction_mem_write_req \<Rightarrow> string" where
  "mem_write_req_to_string sc_hex r =
     ''MEM_WRITE_REQ / @ = '' @ hex (unat (mreq_addr r)) @
     '' / COMMAND = '' @ command_to_string (mreq_command r) @
     (if mreq_command r = command_code HPDCACHE_MEM_ATOMIC
      then '' / ATOMIC = '' @ atomic_to_string (mreq_atomic r) else '''') @
     '' / LEN = '' @ hex (unat (mreq_len r)) @ '' / SIZE = '' @ hex (unat (mreq_size r)) @
     '' / ID = 0x'' @ hex (unat (mreq_id r)) @
     '' / DATA = '' @ sc_hex 512 (unat (wreq_data r)) @ '' / BE = '' @ sc_hex 64 (unat (wreq_be r)) @
     (if wreq_last r then '' / LAST'' else '' '') @
     (if mreq_cacheable r then '' / CACHEABLE'' else '' / UNCACHEABLE'')"

definition mem_read_resp_to_string ::
  "(nat \<Rightarrow> nat \<Rightarrow> string) \<Rightarrow> hpdcache_test_transaction_mem_read_resp \<Rightarrow> string" where
  "mem_read_resp_to_string sc_hex r =
     ''MEM_READ_RESP / RDATA = '' @ sc_hex 512 (unat (rresp_data r)) @
     '' / ID = 0x'' @ hex (unat (rresp_id r)) @
     (if rresp_last r then '' / LAST'' else '''') @ (if rresp_error r \<noteq> 0 then '' / ERROR'' else '''')"

definition mem_write_resp_to_string :: "hpdcache_test_transaction_mem_write_resp \<Rightarrow> string" where
  "mem_write_resp_to_string r =
     ''MEM_WRITE_RESP'' @ '' / ID = 0x'' @ hex (unat (wresp_id r)) @
     (if wresp_error r \<noteq> 0 then '' / ERROR'' else '''') @
     (if wresp_is_atomic r then '' / ATOMIC'' else '''')"

section \<open>Classes of operations\<close>

lemmas op_class_defs = is_load_def is_store_def is_amo_def is_amo_lr_def is_amo_sc_def is_cmo_def
  is_cmo_prefetch_def has_op_def

lemma op_code_inj [simp]: "op_code e = op_code e' \<longleftrightarrow> e = e'"
  by (cases e; cases e'; simp)

lemma op_code_less: "op_code e < 32"
  by (cases e) simp_all

lemma has_op_inj: "has_op t e \<Longrightarrow> has_op t e' \<longleftrightarrow> e' = e"
  by (auto simp: has_op_def)

lemma op_to_string_reserved:
  assumes "\<And>e. op \<noteq> op_code e"
  shows "op_to_string op = ''UNKNOWN''"
  by (simp only: op_to_string_def assms if_False)

lemma op_to_string_code: "op_to_string (op_code e) \<noteq> ''UNKNOWN''"
  by (cases e) (simp_all add: op_to_string_def)

definition op_classes :: "hpdcache_test_transaction_req \<Rightarrow> bool list" where
  "op_classes t = [is_load t, is_store t, is_amo t, is_amo_lr t, is_amo_sc t, is_cmo t]"

lemma op_classes_has_op:
  assumes "has_op t e"
  shows "length (filter id (op_classes t)) = 1"
  using assms by (cases e) (simp_all add: op_classes_def op_class_defs)

lemma op_classes_reserved:
  assumes "\<And>e. \<not> has_op t e"
  shows "filter id (op_classes t) = []"
  using assms by (simp add: op_classes_def is_load_def is_store_def is_amo_def is_amo_lr_def is_amo_sc_def
      is_cmo_def)

section \<open>Address arithmetic\<close>

lemma unat_addr_less: "unat (req_addr t) < 2 ^ 49"
  using unsigned_less [of "req_addr t"] by simp

lemma unat_addr_u64 [simp]: "unat (addr_u64 t) = unat (req_addr t)"
proof -
  have "unat (req_addr t) < 2 ^ 64" using unat_addr_less [of t] by simp
  then show ?thesis by (simp add: addr_u64_def unsigned_ucast_eq take_bit_nat_eq_self)
qed

lemma unat_get_cache_tag: "unat (get_cache_tag t) = unat (req_addr t) div 4096"
  by (simp add: get_cache_tag_def drop_bit_eq_div unat_div_distrib)

lemma unat_get_cache_set: "unat (get_cache_set t) = unat (req_addr t) div 64 mod 64"
proof -
  have "(push_bit 6 1 - 1 :: u64) = mask 6" by (simp add: mask_eq_exp_minus_1 push_bit_eq_mult)
  then have "get_cache_set t = take_bit 6 (drop_bit 6 (addr_u64 t))"
    by (simp add: get_cache_set_def take_bit_eq_mask)
  then have "get_cache_set t = addr_u64 t div 64 mod 64"
    by (simp add: take_bit_eq_mod drop_bit_eq_div)
  then show ?thesis by (simp add: unat_div_distrib unat_mod_distrib)
qed

lemma unat_get_cache_word: "unat (get_cache_word t) = unat (req_addr t) div 8 mod 8"
proof -
  have "unat (addr_u64 t * 8) = unat (req_addr t) * 8"
    using unat_addr_less [of t] by (simp add: unat_word_ariths)
  then show ?thesis by (simp add: get_cache_word_def unat_div_distrib unat_mod_distrib)
qed

section \<open>Properties\<close>

text \<open>
  Every 5-bit operation code belongs to at most one of the classes load, store, AMO,
  load-reserved, store-conditional and CMO; it belongs to exactly one when it is a code of the
  enumeration, and to none (and prints as unknown) when it is reserved.
\<close>

theorem op_classes_partition:
  "(if \<exists>e. has_op t e then length (filter id (op_classes t)) = 1 \<and> op_to_string (unat (req_op t)) \<noteq> ''UNKNOWN''
    else filter id (op_classes t) = [] \<and> op_to_string (unat (req_op t)) = ''UNKNOWN'')"
proof (cases "\<exists>e. has_op t e")
  case True
  then obtain e where e: "has_op t e" by blast
  then have "op_to_string (unat (req_op t)) \<noteq> ''UNKNOWN''"
    by (metis has_op_def op_to_string_code)
  with e op_classes_has_op [OF e] show ?thesis by auto
next
  case False
  then have "op_to_string (unat (req_op t)) = ''UNKNOWN''"
    by (intro op_to_string_reserved) (auto simp: has_op_def)
  with False op_classes_reserved [of t] show ?thesis by auto
qed

text \<open>
  The tag, set and word the transaction reports locate its address: the address is rebuilt from
  them and the offset in the word, and set and word are in range for the configuration.
\<close>

theorem addr_fields_recombine:
  "unat (req_addr t) =
     ((unat (get_cache_tag t) * HPDCACHE_SETS + unat (get_cache_set t)) * HPDCACHE_CL_WORDS +
      unat (get_cache_word t)) * 8 + unat (req_addr t) mod 8 \<and>
   unat (get_cache_set t) < HPDCACHE_SETS \<and> unat (get_cache_word t) < HPDCACHE_CL_WORDS"
proof -
  have "a = ((a div 4096 * 64 + a div 64 mod 64) * 8 + a div 8 mod 8) * 8 + a mod 8" for a :: nat
  proof -
    have "a div 4096 = a div 8 div 8 div 64" "a div 64 = a div 8 div 8"
      by (simp_all add: div_mult2_eq [symmetric])
    then show ?thesis by presburger
  qed
  from this [of "unat (req_addr t)"] show ?thesis
    by (simp add: unat_get_cache_tag unat_get_cache_set unat_get_cache_word)
qed

end
