(* ===== verification/Amo.thy ===== *)
theory Amo
  imports Transaction
begin

text \<open>
  \<^verbatim>\<open>hpdcache_test_amo::compute_amo\<close>: the result of an atomic operation on the value read and the
  operand. \<open>None\<close> is the failed assertion for a code that is not an AMO. The specification is the
  RISC-V meaning of the operations at 32 and 64 bits.
\<close>

definition smax_of :: "u64 \<Rightarrow> u64 \<Rightarrow> nat \<Rightarrow> bool" where
  "smax_of ld_data st_data bytes =
     (if bytes = 4
      then sint (ucast ld_data :: u32) > sint (ucast st_data :: u32)
      else sint ld_data > sint st_data)"

definition compute_amo :: "nat \<Rightarrow> u64 \<Rightarrow> u64 \<Rightarrow> nat \<Rightarrow> u64 option" where
  "compute_amo atop ld_data st_data bytes =
     (let umax = ld_data > st_data; smax = smax_of ld_data st_data bytes in
      if atop = op_code HPDCACHE_REQ_AMO_SWAP then Some st_data
      else if atop = op_code HPDCACHE_REQ_AMO_ADD then Some (ld_data + st_data)
      else if atop = op_code HPDCACHE_REQ_AMO_AND then Some (ld_data AND st_data)
      else if atop = op_code HPDCACHE_REQ_AMO_OR then Some (ld_data OR st_data)
      else if atop = op_code HPDCACHE_REQ_AMO_XOR then Some (ld_data XOR st_data)
      else if atop = op_code HPDCACHE_REQ_AMO_MAX then Some (if smax then ld_data else st_data)
      else if atop = op_code HPDCACHE_REQ_AMO_MAXU then Some (if umax then ld_data else st_data)
      else if atop = op_code HPDCACHE_REQ_AMO_MIN then Some (if smax then st_data else ld_data)
      else if atop = op_code HPDCACHE_REQ_AMO_MINU then Some (if umax then st_data else ld_data)
      else None)"

section \<open>Specification\<close>

text \<open>The meaning of an AMO at an arbitrary width.\<close>

fun amo_spec :: "hpdcache_req_op_e \<Rightarrow> 'a::len word \<Rightarrow> 'a word \<Rightarrow> 'a word option" where
  "amo_spec HPDCACHE_REQ_AMO_SWAP l s = Some s"
| "amo_spec HPDCACHE_REQ_AMO_ADD l s = Some (l + s)"
| "amo_spec HPDCACHE_REQ_AMO_AND l s = Some (l AND s)"
| "amo_spec HPDCACHE_REQ_AMO_OR l s = Some (l OR s)"
| "amo_spec HPDCACHE_REQ_AMO_XOR l s = Some (l XOR s)"
| "amo_spec HPDCACHE_REQ_AMO_MAX l s = Some (word_of_int (max (sint l) (sint s)))"
| "amo_spec HPDCACHE_REQ_AMO_MAXU l s = Some (max l s)"
| "amo_spec HPDCACHE_REQ_AMO_MIN l s = Some (word_of_int (min (sint l) (sint s)))"
| "amo_spec HPDCACHE_REQ_AMO_MINU l s = Some (min l s)"
| "amo_spec op l s = None"

lemma ucast_u32_add: "(ucast (l + s :: u64) :: u32) = ucast l + ucast s"
proof -
  have down: "is_down (ucast :: u64 \<Rightarrow> u32)" by (simp add: is_down)
  have e1: "(word_of_int (uint l + uint s) :: u64) = l + s" by simp
  have e2: "(word_of_int (uint l + uint s) :: u32) = ucast l + ucast s" by simp
  show ?thesis using ucast_down_wi [OF down, of "uint l + uint s"] unfolding e1 e2 .
qed

lemma ucast_u32_ops:
  "(ucast (l AND s :: u64) :: u32) = ucast l AND ucast s"
  "(ucast (l OR s :: u64) :: u32) = ucast l OR ucast s"
  "(ucast (l XOR s :: u64) :: u32) = ucast l XOR ucast s"
  by (auto simp: bit_eq_iff bit_simps)

lemma ucast_u32_less:
  "l < 2 ^ 32 \<Longrightarrow> s < 2 ^ 32 \<Longrightarrow> (ucast l :: u32) < ucast s \<longleftrightarrow> l < (s :: u64)"
proof -
  assume "l < 2 ^ 32" "s < 2 ^ 32"
  then have "unat l < 2 ^ 32" "unat s < 2 ^ 32"
    by (simp_all add: word_less_nat_alt)
  then show ?thesis
    by (simp add: word_less_nat_alt unsigned_ucast_eq take_bit_nat_eq_self)
qed

lemma word_of_int_smax: "(word_of_int (max (sint l) (sint s)) :: 'a::len word) = (if sint l > sint s then l else s)"
  by (simp add: max_def)

lemma word_of_int_smin: "(word_of_int (min (sint l) (sint s)) :: 'a::len word) = (if sint l > sint s then s else l)"
  by (simp add: min_def)

lemma max_min_if: "max l s = (if s < l then l else s)" "min l s = (if s < l then s else l)"
  for l s :: "'a::linorder"
  by (auto simp: max_def min_def)

lemma compute_amo_double_spec: "compute_amo (op_code e) ld_data st_data 8 = amo_spec e ld_data st_data"
  by (cases e) (simp_all add: compute_amo_def smax_of_def word_of_int_smax word_of_int_smin max_min_if)

section \<open>Properties\<close>

text \<open>
  On doublewords \<^verbatim>\<open>compute_amo\<close> computes the RISC-V result of every AMO, signed and unsigned
  maxima and minima included, and fails its assertion for every other operation of the enumeration.
\<close>

theorem compute_amo_double:
  "compute_amo (op_code e) ld_data st_data 8 = amo_spec e ld_data st_data"
  by (rule compute_amo_double_spec)

text \<open>
  C38. On words, with both operands zero-extended, the low 32 bits of the result are the RISC-V 32-bit
  result, and the assertion fails for the same operations.
\<close>

theorem compute_amo_word:
  assumes "ld_data < 2 ^ 32" and "st_data < 2 ^ 32"
  shows "map_option ucast (compute_amo (op_code e) ld_data st_data 4) =
         amo_spec e (ucast ld_data :: u32) (ucast st_data)"
  using assms ucast_u32_less [OF assms] ucast_u32_less [OF assms(2,1)]
  by (cases e)
     (simp_all add: compute_amo_def smax_of_def ucast_u32_ops ucast_u32_add word_of_int_smax word_of_int_smin
       max_min_if)

theorem compute_amo_word_witness:
  "map_option ucast (compute_amo (op_code HPDCACHE_REQ_AMO_MAX) 0xffffffff 1 4) = Some (1 :: u32)"
proof -
  have "amo_spec HPDCACHE_REQ_AMO_MAX (ucast (0xffffffff :: u64) :: u32) (ucast (1 :: u64)) = Some 1" by code_simp
  with compute_amo_word [where e = HPDCACHE_REQ_AMO_MAX and ld_data = "0xffffffff" and st_data = 1] show ?thesis
    by (simp add: word_less_nat_alt)
qed

end
