(* ===== verification/Driver.thy ===== *)
theory Driver
  imports Transaction
begin

text \<open>
  \<^verbatim>\<open>hpdcache_test_driver.h\<close>: packing of a request into the bit vector of the core interface,
  unpacking of a response, and the two threads of the driver as step functions, one step per clock
  edge. Channels are lists and writes to them do not block: the scoreboard and the sequence take
  one element per step. A null transaction pointer is \<open>None\<close>.
\<close>

section \<open>Packing and unpacking\<close>

definition core_get_req_tag :: "hpdcache_test_transaction_req \<Rightarrow> u64" where
  "core_get_req_tag t =
     ucast (bv_range (HPDCACHE_PA_WIDTH - 1) HPDCACHE_ADDR_OFFSET_WIDTH (req_addr t) :: 37 word)"

definition core_get_req_pma :: "hpdcache_test_transaction_req \<Rightarrow> u32" where
  "core_get_req_pma t =
     (let ret = 0;
          ret = (if is_wr_policy_auto t then ret OR push_bit 0 1 else ret);
          ret = (if is_wr_policy_wb t then ret OR push_bit 1 1 else ret);
          ret = (if is_wr_policy_wt t then ret OR push_bit 2 1 else ret);
          ret = (if req_io t then ret OR push_bit 3 1 else ret);
          ret = (if req_uncacheable t then ret OR push_bit 4 1 else ret)
      in ret)"

definition bool_bv :: "bool \<Rightarrow> u32" where
  "bool_bv b = (if b then 1 else 0)"

definition core_req_to_bv :: "hpdcache_test_transaction_req \<Rightarrow> 145 word" where
  "core_req_to_bv t =
     (let PMA_POS = 0;
          TAG_POS = PMA_POS + HPDCACHE_REQ_PMA_WIDTH;
          PHYS_INDEXED_POS = TAG_POS + HPDCACHE_TAG_WIDTH;
          NEED_RSP_POS = PHYS_INDEXED_POS + HPDCACHE_REQ_PHYS_INDEXED_WIDTH;
          TRANS_ID_POS = NEED_RSP_POS + HPDCACHE_REQ_NEED_RSP_WIDTH;
          SRC_ID_POS = TRANS_ID_POS + HPDCACHE_REQ_TRANS_ID_WIDTH;
          SIZE_POS = SRC_ID_POS + HPDCACHE_REQ_SRC_ID_WIDTH;
          BE_POS = SIZE_POS + HPDCACHE_REQ_SIZE_WIDTH;
          OP_POS = BE_POS + (HPDCACHE_REQ_DATA_WIDTH div 8);
          WDATA_POS = OP_POS + HPDCACHE_REQ_OP_WIDTH;
          ADDR_POS = WDATA_POS + HPDCACHE_REQ_DATA_WIDTH;
          ret = 0;
          ret = bv_set_range (PMA_POS + HPDCACHE_REQ_PMA_WIDTH - 1) PMA_POS (core_get_req_pma t) ret;
          ret = bv_set_range (TAG_POS + HPDCACHE_TAG_WIDTH - 1) TAG_POS (core_get_req_tag t) ret;
          ret = bv_set_range (PHYS_INDEXED_POS + HPDCACHE_REQ_PHYS_INDEXED_WIDTH - 1) PHYS_INDEXED_POS
                  (bool_bv (req_phys_indexed t)) ret;
          ret = bv_set_range (NEED_RSP_POS + HPDCACHE_REQ_NEED_RSP_WIDTH - 1) NEED_RSP_POS
                  (bool_bv (req_need_rsp t)) ret;
          ret = bv_set_range (TRANS_ID_POS + HPDCACHE_REQ_TRANS_ID_WIDTH - 1) TRANS_ID_POS (req_tid t) ret;
          ret = bv_set_range (SRC_ID_POS + HPDCACHE_REQ_SRC_ID_WIDTH - 1) SRC_ID_POS (req_sid t) ret;
          ret = bv_set_range (SIZE_POS + HPDCACHE_REQ_SIZE_WIDTH - 1) SIZE_POS (req_size t) ret;
          ret = bv_set_range (BE_POS + (HPDCACHE_REQ_DATA_WIDTH div 8) - 1) BE_POS (req_be t) ret;
          ret = bv_set_range (OP_POS + HPDCACHE_REQ_OP_WIDTH - 1) OP_POS (req_op t) ret;
          ret = bv_set_range (WDATA_POS + HPDCACHE_REQ_DATA_WIDTH - 1) WDATA_POS (req_wdata t) ret;
          ret = bv_set_range (ADDR_POS + HPDCACHE_ADDR_OFFSET_WIDTH - 1) ADDR_POS
                  (bv_range HPDCACHE_ADDR_OFFSET_WIDTH 0 (req_addr t) :: 13 word) ret
      in ret)"

definition core_resp_to_struct ::
  "hpdcache_test_transaction_resp \<Rightarrow> 75 word \<Rightarrow> hpdcache_test_transaction_resp" where
  "core_resp_to_struct resp bv =
     (let ABORTED_POS = 0;
          ERROR_POS = ABORTED_POS + HPDCACHE_RSP_ABORTED_WIDTH;
          TRANS_ID_POS = ERROR_POS + HPDCACHE_RSP_ERROR_WIDTH;
          SRC_ID_POS = TRANS_ID_POS + HPDCACHE_REQ_TRANS_ID_WIDTH;
          RDATA_POS = SRC_ID_POS + HPDCACHE_REQ_SRC_ID_WIDTH
      in resp\<lparr>
        rsp_aborted := (bv_range (ABORTED_POS + HPDCACHE_RSP_ABORTED_WIDTH - 1) ABORTED_POS bv :: u32) > 0,
        rsp_error := (bv_range (ERROR_POS + HPDCACHE_RSP_ERROR_WIDTH - 1) ERROR_POS bv :: u32) > 0,
        rsp_tid := bv_range (TRANS_ID_POS + HPDCACHE_REQ_TRANS_ID_WIDTH - 1) TRANS_ID_POS bv,
        rsp_sid := bv_range (SRC_ID_POS + HPDCACHE_REQ_SRC_ID_WIDTH - 1) SRC_ID_POS bv,
        rsp_rdata := bv_range (RDATA_POS + HPDCACHE_REQ_DATA_WIDTH - 1) RDATA_POS bv\<rparr>)"

section \<open>The request thread\<close>

datatype fault_call =
    InjectDirFault int int "64 word"
  | InjectDatFault int int int "72 word"

datatype drive_pc =
    Reading
  | Waiting_ready hpdcache_test_transaction_req
  | Draining
  | Finished

record driver =
  drv_pc :: drive_pc
  transaction_fifo_i :: "hpdcache_test_transaction_req option list"
  transaction_ret_o :: "u64 list"
  sb_core_req_o :: "hpdcache_test_transaction_req list"
  sb_core_resp_o :: "hpdcache_test_transaction_resp list"
  fault_calls :: "fault_call list"
  core_req_valid_o :: bool
  core_req_o :: "145 word"
  core_req_abort_o :: bool
  core_req_tag_o :: "37 word"
  core_req_pma_o :: op_bv
  got_finish :: bool

definition inject_fault :: "hpdcache_test_transaction_req \<Rightarrow> driver \<Rightarrow> driver" where
  "inject_fault t d =
     (let f = req_fault t in
      if fault_valid f then
        (case fault_domain f of
           CACHE_DIR \<Rightarrow>
             d\<lparr>fault_calls := fault_calls d @
                [InjectDirFault (fault_set f) (fault_way f) (bv_range 63 0 (fault_mask f))]\<rparr>
         | CACHE_DAT \<Rightarrow>
             d\<lparr>fault_calls := fault_calls d @
                [InjectDatFault (fault_set f) (fault_way f) (fault_word f) (bv_range 71 0 (fault_mask f))]\<rparr>)
      else d)"

text \<open>Top of the loop: the blocking read, the fault and the presentation of the request.\<close>

definition drive_request_read :: "driver \<Rightarrow> driver" where
  "drive_request_read d =
     (case (drv_pc d, transaction_fifo_i d) of
        (Reading, None # ts) \<Rightarrow> d\<lparr>transaction_fifo_i := ts, drv_pc := Draining\<rparr>
      | (Reading, Some t # ts) \<Rightarrow>
          (let d = inject_fault t (d\<lparr>transaction_fifo_i := ts\<rparr>) in
           d\<lparr>core_req_valid_o := True, core_req_o := core_req_to_bv t, drv_pc := Waiting_ready t\<rparr>)
      | _ \<Rightarrow> d)"

text \<open>After a \<^verbatim>\<open>wait()\<close>: a clock edge with the inputs sampled.\<close>

definition drive_request_edge :: "bool \<Rightarrow> bool \<Rightarrow> driver \<Rightarrow> driver" where
  "drive_request_edge core_req_ready_i no_inflight_requests_i d =
     (case drv_pc d of
        Waiting_ready t \<Rightarrow>
          (if core_req_ready_i then
             d\<lparr>core_req_valid_o := False,
               core_req_tag_o := ucast (core_get_req_tag t),
               core_req_pma_o := ucast (core_get_req_pma t),
               core_req_abort_o := is_aborted t,
               transaction_ret_o := transaction_ret_o d @ [get_id t],
               sb_core_req_o := sb_core_req_o d @ [t],
               drv_pc := Reading\<rparr>
           else d)
      | Draining \<Rightarrow> (if no_inflight_requests_i then d\<lparr>got_finish := True, drv_pc := Finished\<rparr> else d)
      | _ \<Rightarrow> d)"

text \<open>\<^verbatim>\<open>monitor_response\<close>, one falling edge.\<close>

definition monitor_response :: "hpdcache_test_transaction_resp \<Rightarrow> bool \<Rightarrow> 75 word \<Rightarrow> driver \<Rightarrow> driver" where
  "monitor_response junk core_rsp_valid_i core_rsp_i d =
     (if core_rsp_valid_i
      then d\<lparr>sb_core_resp_o := sb_core_resp_o d @ [core_resp_to_struct junk core_rsp_i]\<rparr>
      else d)"

text \<open>One clock cycle: inputs are the transactions the sequence pushed, ready, and the drained flag.\<close>

type_synonym drive_in = "hpdcache_test_transaction_req option list \<times> bool \<times> bool"

definition drive_cycle :: "drive_in \<Rightarrow> driver \<Rightarrow> driver" where
  "drive_cycle i d =
     (let (pushed, ready, drained) = i;
          d = drive_request_edge ready drained d
      in drive_request_read (d\<lparr>transaction_fifo_i := transaction_fifo_i d @ pushed\<rparr>))"

definition drive_run :: "drive_in list \<Rightarrow> driver \<Rightarrow> driver" where
  "drive_run ins d = foldl (\<lambda>d i. drive_cycle i d) d ins"

section \<open>Fields of the packed request\<close>

lemma take_bit_word_full [simp]: "LENGTH('a) \<le> n \<Longrightarrow> take_bit n (w :: 'a::len word) = w"
  by (intro bit_word_eqI) (auto simp: bit_simps)

lemmas pack_simps = core_req_to_bv_def Let_def bv_range_set_same bv_range_set_other

lemma core_req_fields:
  "bv_range 4 0 (core_req_to_bv t) = take_bit 5 (core_get_req_pma t)"
  "bv_range 41 5 (core_req_to_bv t) = take_bit 37 (core_get_req_tag t)"
  "bv_range 42 42 (core_req_to_bv t) = take_bit 1 (bool_bv (req_phys_indexed t))"
  "bv_range 43 43 (core_req_to_bv t) = take_bit 1 (bool_bv (req_need_rsp t))"
  "bv_range 49 44 (core_req_to_bv t) = req_tid t"
  "bv_range 52 50 (core_req_to_bv t) = req_sid t"
  "bv_range 55 53 (core_req_to_bv t) = req_size t"
  "bv_range 63 56 (core_req_to_bv t) = req_be t"
  "bv_range 68 64 (core_req_to_bv t) = req_op t"
  "bv_range 132 69 (core_req_to_bv t) = req_wdata t"
  "bv_range 144 133 (core_req_to_bv t) = (take_bit 12 (bv_range 12 0 (req_addr t)) :: 13 word)"
  by (simp_all add: pack_simps)


lemma bit_set_if:
  "bit (if b then x OR push_bit k 1 else x :: u32) n \<longleftrightarrow> bit x n \<or> b \<and> n = k \<and> k < 32"
  by (auto simp: bit_simps)

lemma bit_word_high [simp]: "LENGTH('a) \<le> n \<Longrightarrow> \<not> bit (w :: 'a::len word) n"
  by (meson bit_imp_le_length leD)

lemma bit_core_get_req_pma:
  "bit (core_get_req_pma t) n \<longleftrightarrow>
     (n = 0 \<and> is_wr_policy_auto t) \<or> (n = 1 \<and> is_wr_policy_wb t) \<or> (n = 2 \<and> is_wr_policy_wt t) \<or>
     (n = 3 \<and> req_io t) \<or> (n = 4 \<and> req_uncacheable t)"
  unfolding core_get_req_pma_def Let_def bit_set_if by auto

lemma bit_core_get_req_tag: "bit (core_get_req_tag t) n \<longleftrightarrow> n < 37 \<and> bit (req_addr t) (12 + n)"
  by (auto simp: core_get_req_tag_def bv_simps bit_simps)

lemma addr_from_tag_offset:
  "push_bit 12 (ucast (take_bit 37 (core_get_req_tag t))) OR
     ucast (take_bit 12 (bv_range 12 0 (req_addr t)) :: 13 word) = req_addr t"
  by (rule bit_word_eqI) (auto simp: bv_simps bit_simps bit_core_get_req_tag)

text \<open>The flags, bit by bit.\<close>

lemma core_req_flags:
  "bit (core_req_to_bv t) 43 = req_need_rsp t" "bit (core_req_to_bv t) 42 = req_phys_indexed t"
  "n < 5 \<Longrightarrow> bit (core_req_to_bv t) n = bit (core_get_req_pma t) n"
proof -
  have "bit (core_req_to_bv t) (l + n) = bit (bv_range h l (core_req_to_bv t) :: u32) n" if "h < 145" "l \<le> h" "n \<le> h - l" "n < 32" for h l n
    using that by (simp add: bv_simps)
  from this [of 43 43 0] this [of 42 42 0] this [of 4 0 n]
  show "bit (core_req_to_bv t) 43 = req_need_rsp t" "bit (core_req_to_bv t) 42 = req_phys_indexed t"
    "n < 5 \<Longrightarrow> bit (core_req_to_bv t) n = bit (core_get_req_pma t) n"
    by (simp_all add: core_req_fields bit_simps bool_bv_def)
qed

section \<open>Codecs\<close>

text \<open>
  A sender and a receiver of a bit vector: decoding returns what the encoding makes visible. The
  response side of the core interface is an instance, the cache as sender and the driver's unpacking
  as receiver.
\<close>

locale codec =
  fixes enc :: "'a \<Rightarrow> 'w" and dec :: "'w \<Rightarrow> 'a" and vis :: "'a \<Rightarrow> 'a"
  assumes dec_enc: "dec (enc x) = vis x"
begin

lemma enc_determines: "enc x = enc y \<Longrightarrow> vis x = vis y"
  by (metis dec_enc)

lemma map_dec_enc: "map dec (map enc xs) = map vis xs"
  by (simp add: dec_enc)

end

text \<open>The response vector as the cache builds it: data, source, transaction, error, aborted.\<close>

definition core_resp_to_bv :: "hpdcache_test_transaction_resp \<Rightarrow> 75 word" where
  "core_resp_to_bv r =
     push_bit 11 (ucast (rsp_rdata r)) OR push_bit 8 (ucast (rsp_sid r)) OR push_bit 2 (ucast (rsp_tid r)) OR
     push_bit 1 (of_bool (rsp_error r)) OR of_bool (rsp_aborted r)"

definition resp_visible ::
  "hpdcache_test_transaction_resp \<Rightarrow> hpdcache_test_transaction_resp \<Rightarrow> hpdcache_test_transaction_resp" where
  "resp_visible junk r =
     r\<lparr>trans_id := trans_id junk\<rparr>"

lemma bit_of_bool_word: "bit (of_bool b :: 'a::len word) n \<longleftrightarrow> b \<and> n = 0"
  by (cases b) (auto simp: bit_1_iff)

lemma bit_core_resp_to_bv:
  "bit (core_resp_to_bv r) n \<longleftrightarrow>
     (11 \<le> n \<and> bit (rsp_rdata r) (n - 11)) \<or> (8 \<le> n \<and> bit (rsp_sid r) (n - 8)) \<or>
     (2 \<le> n \<and> bit (rsp_tid r) (n - 2)) \<or> (n = 1 \<and> rsp_error r) \<or> (n = 0 \<and> rsp_aborted r)"
  by (auto simp: core_resp_to_bv_def bit_simps bit_of_bool_word dest: bit_imp_le_length)

lemma resp_rdata_bits: "(bv_range 74 11 (core_resp_to_bv r) :: u64) = rsp_rdata r"
  by (rule bit_word_eqI) (auto simp: bv_simps bit_core_resp_to_bv)

lemma resp_sid_bits: "(bv_range 10 8 (core_resp_to_bv r) :: sid_bv) = rsp_sid r"
  by (rule bit_word_eqI) (auto simp: bv_simps bit_core_resp_to_bv)

lemma resp_tid_bits: "(bv_range 7 2 (core_resp_to_bv r) :: tid_bv) = rsp_tid r"
  by (rule bit_word_eqI) (auto simp: bv_simps bit_core_resp_to_bv)

lemma word_gt_0_bit: "(0 < (w :: 'a::len word)) \<longleftrightarrow> (\<exists>n. bit w n)"
  by (metis bit_0_eq bit_eq_iff bot_apply bot_bool_def word_neq_0_conv)

lemma resp_flag_bits:
  "(0 < (bv_range 1 1 (core_resp_to_bv r) :: u32)) = rsp_error r"
  "(0 < (bv_range 0 0 (core_resp_to_bv r) :: u32)) = rsp_aborted r"
  by (auto simp: word_gt_0_bit bv_simps bit_core_resp_to_bv intro: exI [of _ 0])

lemma core_resp_to_struct_of_bv: "core_resp_to_struct junk (core_resp_to_bv r) = resp_visible junk r"
  by (simp add: resp_visible_def core_resp_to_struct_def Let_def resp_rdata_bits resp_sid_bits
      resp_tid_bits [unfolded numeral_2_eq_2] resp_flag_bits [unfolded One_nat_def])

interpretation resp_bv: codec core_resp_to_bv "core_resp_to_struct junk" "resp_visible junk" for junk
  by unfold_locales (rule core_resp_to_struct_of_bv)

section \<open>Runs of the request thread\<close>

definition driver_idle :: "145 word \<Rightarrow> 37 word \<Rightarrow> op_bv \<Rightarrow> driver" where
  "driver_idle r0 t0 p0 =
     \<lparr>drv_pc = Reading, transaction_fifo_i = [], transaction_ret_o = [], sb_core_req_o = [],
      sb_core_resp_o = [], fault_calls = [], core_req_valid_o = False, core_req_o = r0,
      core_req_abort_o = False, core_req_tag_o = t0, core_req_pma_o = p0, got_finish = False\<rparr>"

fun pending :: "drive_pc \<Rightarrow> hpdcache_test_transaction_req option list" where
  "pending Reading = []"
| "pending (Waiting_ready t) = [Some t]"
| "pending Draining = [None]"
| "pending Finished = [None]"

definition drv_stream :: "driver \<Rightarrow> hpdcache_test_transaction_req option list" where
  "drv_stream d = map Some (sb_core_req_o d) @ pending (drv_pc d) @ transaction_fifo_i d"

definition drv_ok :: "driver \<Rightarrow> bool" where
  "drv_ok d \<longleftrightarrow> transaction_ret_o d = map get_id (sb_core_req_o d) \<and>
     (case drv_pc d of Waiting_ready t \<Rightarrow> core_req_valid_o d \<and> core_req_o d = core_req_to_bv t
      | _ \<Rightarrow> \<not> core_req_valid_o d)"

lemma inject_fault_frame [simp]:
  "drv_pc (inject_fault t d) = drv_pc d" "transaction_fifo_i (inject_fault t d) = transaction_fifo_i d"
  "transaction_ret_o (inject_fault t d) = transaction_ret_o d" "sb_core_req_o (inject_fault t d) = sb_core_req_o d"
  "core_req_valid_o (inject_fault t d) = core_req_valid_o d"
  by (auto simp: inject_fault_def Let_def split: domain_e.splits)

lemma drive_request_read_keeps:
  "drv_stream (drive_request_read d) = drv_stream d" "drv_ok d \<Longrightarrow> drv_ok (drive_request_read d)"
  by (auto simp: drive_request_read_def drv_stream_def drv_ok_def Let_def split: drive_pc.splits list.splits option.splits)

lemma drive_request_edge_keeps:
  "drv_stream (drive_request_edge r n d) = drv_stream d" "drv_ok d \<Longrightarrow> drv_ok (drive_request_edge r n d)"
  by (auto simp: drive_request_edge_def drv_stream_def drv_ok_def split: drive_pc.splits)

lemma drive_cycle_keeps:
  "drv_stream (drive_cycle (ps, r, n) d) = drv_stream d @ ps" "drv_ok d \<Longrightarrow> drv_ok (drive_cycle (ps, r, n) d)"
proof -
  let ?e = "drive_request_edge r n d"
  have "drv_stream (?e\<lparr>transaction_fifo_i := transaction_fifo_i ?e @ ps\<rparr>) = drv_stream ?e @ ps"
    by (simp add: drv_stream_def)
  then show "drv_stream (drive_cycle (ps, r, n) d) = drv_stream d @ ps"
    by (simp add: drive_cycle_def Let_def drive_request_read_keeps drive_request_edge_keeps)
  have "drv_ok (?e\<lparr>transaction_fifo_i := transaction_fifo_i ?e @ ps\<rparr>) = drv_ok ?e"
    by (simp add: drv_ok_def split: drive_pc.splits)
  then show "drv_ok d \<Longrightarrow> drv_ok (drive_cycle (ps, r, n) d)"
    by (simp add: drive_cycle_def Let_def drive_request_read_keeps drive_request_edge_keeps)
qed

lemma drive_run_keeps:
  "drv_stream (drive_run ins d) = drv_stream d @ concat (map fst ins)" "drv_ok d \<Longrightarrow> drv_ok (drive_run ins d)"
  by (induction ins arbitrary: d) (auto simp: drive_run_def drive_cycle_keeps)

lemma drive_run_ready:
  assumes "drv_pc d = Waiting_ready t" and "transaction_fifo_i d = map Some ts"
  shows "sb_core_req_o (drive_run (replicate (Suc (length ts)) ([], True, b)) d) = sb_core_req_o d @ t # ts"
  using assms
proof (induction ts arbitrary: d t)
  case Nil
  then show ?case
    by (simp add: drive_run_def drive_cycle_def drive_request_edge_def drive_request_read_def)
next
  case (Cons u ts)
  let ?d = "drive_cycle ([], True, b) d"
  have d: "drv_pc ?d = Waiting_ready u" "transaction_fifo_i ?d = map Some ts"
      "sb_core_req_o ?d = sb_core_req_o d @ [t]"
    using Cons.prems by (simp_all add: drive_cycle_def drive_request_edge_def drive_request_read_def Let_def)
  have "drive_run (replicate (Suc (length (u # ts))) ([], True, b)) d =
        drive_run (replicate (Suc (length ts)) ([], True, b)) ?d"
    by (simp add: drive_run_def)
  with Cons.IH [OF d(1,2)] d(3) show ?case by simp
qed

section \<open>Properties\<close>

text \<open>
  C25. The packed request is the packed struct of the cache (\<^verbatim>\<open>HPDCACHE_DECL_REQ_T\<close>), and carries the interface fields of
  the transaction and nothing else: from the most significant bit the page offset, data, operation,
  byte enables, size, source, transaction identifier, the two flags, the page tag and the five PMA
  bits, each at its place, the address being tag and offset put together; and two transactions give
  the same vector exactly when they agree in these fields. The abort flag, the object identifier and the
  fault to inject are not on the vector.
\<close>

theorem core_req_packed:
  fixes t :: hpdcache_test_transaction_req
  defines "v \<equiv> core_req_to_bv t"
  shows "bv_range 132 69 v = req_wdata t \<and> bv_range 68 64 v = req_op t \<and> bv_range 63 56 v = req_be t \<and>
      bv_range 55 53 v = req_size t \<and> bv_range 52 50 v = req_sid t \<and> bv_range 49 44 v = req_tid t \<and>
      push_bit 12 (ucast (bv_range 41 5 v :: u64)) OR ucast (bv_range 144 133 v :: 13 word) = req_addr t \<and>
      bit v 43 = req_need_rsp t \<and> bit v 42 = req_phys_indexed t \<and> bit v 4 = req_uncacheable t \<and> bit v 3 = req_io t \<and>
      bit v 2 = (req_wr_policy_hint t = HPDCACHE_WR_POLICY_WT) \<and> bit v 1 = (req_wr_policy_hint t = HPDCACHE_WR_POLICY_WB) \<and>
      bit v 0 = (req_wr_policy_hint t = HPDCACHE_WR_POLICY_AUTO) \<and>
      (\<forall>t'. v = core_req_to_bv t' \<longleftrightarrow>
         req_addr t = req_addr t' \<and> req_wdata t = req_wdata t' \<and> req_op t = req_op t' \<and> req_be t = req_be t' \<and>
         req_size t = req_size t' \<and> req_sid t = req_sid t' \<and> req_tid t = req_tid t' \<and> req_need_rsp t = req_need_rsp t' \<and>
         req_phys_indexed t = req_phys_indexed t' \<and> req_uncacheable t = req_uncacheable t' \<and> req_io t = req_io t' \<and>
         req_wr_policy_hint t = req_wr_policy_hint t')"
proof -
  have layout: "bv_range 132 69 (core_req_to_bv t) = req_wdata t \<and> bv_range 68 64 (core_req_to_bv t) = req_op t \<and>
      bv_range 63 56 (core_req_to_bv t) = req_be t \<and> bv_range 55 53 (core_req_to_bv t) = req_size t \<and>
      bv_range 52 50 (core_req_to_bv t) = req_sid t \<and> bv_range 49 44 (core_req_to_bv t) = req_tid t \<and>
      push_bit 12 (ucast (bv_range 41 5 (core_req_to_bv t) :: u64)) OR ucast (bv_range 144 133 (core_req_to_bv t) :: 13 word) =
        req_addr t"
    for t
    by (simp add: core_req_fields addr_from_tag_offset)
  have flags: "bit (core_req_to_bv t) 43 = req_need_rsp t \<and> bit (core_req_to_bv t) 42 = req_phys_indexed t \<and>
      bit (core_req_to_bv t) 4 = req_uncacheable t \<and> bit (core_req_to_bv t) 3 = req_io t \<and>
      bit (core_req_to_bv t) 2 = (req_wr_policy_hint t = HPDCACHE_WR_POLICY_WT) \<and>
      bit (core_req_to_bv t) 1 = (req_wr_policy_hint t = HPDCACHE_WR_POLICY_WB) \<and>
      bit (core_req_to_bv t) 0 = (req_wr_policy_hint t = HPDCACHE_WR_POLICY_AUTO)" for t
    by (simp add: core_req_flags bit_core_get_req_pma is_wr_policy_auto_def is_wr_policy_wb_def is_wr_policy_wt_def)
  have same: "core_req_to_bv t = core_req_to_bv t'"
    if "req_addr t = req_addr t'" "req_wdata t = req_wdata t'" "req_op t = req_op t'" "req_be t = req_be t'"
      "req_size t = req_size t'" "req_sid t = req_sid t'" "req_tid t = req_tid t'" "req_need_rsp t = req_need_rsp t'"
      "req_phys_indexed t = req_phys_indexed t'" "req_uncacheable t = req_uncacheable t'" "req_io t = req_io t'"
      "req_wr_policy_hint t = req_wr_policy_hint t'" for t'
    by (simp add: core_req_to_bv_def core_get_req_tag_def core_get_req_pma_def is_wr_policy_auto_def is_wr_policy_wb_def
        is_wr_policy_wt_def that)
  have policy: "p = q" if "(p = HPDCACHE_WR_POLICY_WT) = (q = HPDCACHE_WR_POLICY_WT)"
      "(p = HPDCACHE_WR_POLICY_WB) = (q = HPDCACHE_WR_POLICY_WB)" for p q
    using that by (cases p; cases q) auto
  have "core_req_to_bv t = core_req_to_bv t' \<longleftrightarrow>
         req_addr t = req_addr t' \<and> req_wdata t = req_wdata t' \<and> req_op t = req_op t' \<and> req_be t = req_be t' \<and>
         req_size t = req_size t' \<and> req_sid t = req_sid t' \<and> req_tid t = req_tid t' \<and> req_need_rsp t = req_need_rsp t' \<and>
         req_phys_indexed t = req_phys_indexed t' \<and> req_uncacheable t = req_uncacheable t' \<and> req_io t = req_io t' \<and>
         req_wr_policy_hint t = req_wr_policy_hint t'" for t'
  proof
    assume eq: "core_req_to_bv t = core_req_to_bv t'"
    show "req_addr t = req_addr t' \<and> req_wdata t = req_wdata t' \<and> req_op t = req_op t' \<and> req_be t = req_be t' \<and>
         req_size t = req_size t' \<and> req_sid t = req_sid t' \<and> req_tid t = req_tid t' \<and> req_need_rsp t = req_need_rsp t' \<and>
         req_phys_indexed t = req_phys_indexed t' \<and> req_uncacheable t = req_uncacheable t' \<and> req_io t = req_io t' \<and>
         req_wr_policy_hint t = req_wr_policy_hint t'"
      using layout [of t, unfolded eq] layout [of t'] flags [of t, unfolded eq] flags [of t'] policy by simp
  qed (use same in blast)
  with layout [of t] flags [of t] show ?thesis unfolding v_def by blast
qed

text \<open>
  Unpacking a response returns the fields it was packed from (data, source, transaction
  identifier, error and aborted flags).
\<close>

theorem core_resp_roundtrip:
  "core_resp_to_struct junk (core_resp_to_bv r) = r\<lparr>trans_id := trans_id junk\<rparr>"
  using resp_bv.dec_enc [of junk r] by (simp add: resp_visible_def)

text \<open>
  C26. The request thread neither loses, duplicates nor reorders transactions: at any time, whatever
  the ready signal did, what it handed to the scoreboard, what it is presenting and what is still
  queued is the sequence of transactions it was given; it acknowledged exactly what it handed over,
  and while it presents a request the valid signal is up with that request on the bus.
\<close>

theorem drive_request_in_order:
  "let d = drive_run ins (driver_idle r0 t0 p0) in
     map Some (sb_core_req_o d) @ pending (drv_pc d) @ transaction_fifo_i d = concat (map fst ins) \<and>
     transaction_ret_o d = map get_id (sb_core_req_o d) \<and>
     (case drv_pc d of Waiting_ready t \<Rightarrow> core_req_valid_o d \<and> core_req_o d = core_req_to_bv t
      | _ \<Rightarrow> \<not> core_req_valid_o d)"
proof -
  let ?d0 = "driver_idle r0 t0 p0"
  have "drv_ok ?d0" "drv_stream ?d0 = []" by (simp_all add: drv_ok_def drv_stream_def driver_idle_def)
  with drive_run_keeps [where ins = ins and d = ?d0] show ?thesis
    by (simp add: drv_stream_def drv_ok_def Let_def)
qed

text \<open>
  The thread makes progress: when the cache keeps ready up, each clock cycle hands one queued
  transaction to the scoreboard until the queue is empty.
\<close>

theorem drive_request_progress:
  assumes "drv_pc d = Waiting_ready t" and "transaction_fifo_i d = map Some ts"
  shows "sb_core_req_o (drive_run (replicate (Suc (length ts)) ([], True, b)) d) = sb_core_req_o d @ t # ts"
  by (rule drive_run_ready [OF assms])

theorem drive_request_progress_witness:
  "sb_core_req_o (drive_run (replicate 2 ([], True, False))
     ((driver_idle 0 0 0)\<lparr>drv_pc := Waiting_ready transaction_req_new,
        transaction_fifo_i := [Some (transaction_req_new\<lparr>req_tid := 5\<rparr>)]\<rparr>)) =
   [transaction_req_new, transaction_req_new\<lparr>req_tid := 5\<rparr>]"
  using drive_request_progress [of "(driver_idle 0 0 0)\<lparr>drv_pc := Waiting_ready transaction_req_new,
        transaction_fifo_i := [Some (transaction_req_new\<lparr>req_tid := 5\<rparr>)]\<rparr>" transaction_req_new
        "[transaction_req_new\<lparr>req_tid := 5\<rparr>]" False]
  by (simp add: driver_idle_def numeral_2_eq_2)

end
