(* ===== verification/Test_Sequence.thy ===== *)
theory Test_Sequence
  imports Transaction
begin

text \<open>
  \<^verbatim>\<open>hpdcache_test_sequence.h\<close>: the base class of the test sequences: memory segments, transaction
  identifiers in flight, and sending a transaction to the driver. The result of \<^verbatim>\<open>rand()\<close> is an
  argument. The search for a free identifier is an endless loop in the code; it is a partial
  function here, and shown to return.
\<close>

section \<open>Memory segments\<close>

datatype wr_policy_e = WR_POLICY_AUTO | WR_POLICY_WB | WR_POLICY_WT | WR_POLICY_RANDOM

record hpdcache_test_memory_segment =
  seg_base :: addr_bv
  seg_length :: addr_bv
  seg_uncached :: bool
  seg_amo_supported :: bool
  seg_wr_policy_hint :: wr_policy_e

definition memory_segment_new :: hpdcache_test_memory_segment where
  "memory_segment_new =
     \<lparr>seg_base = 0, seg_length = 0, seg_uncached = False, seg_amo_supported = False,
      seg_wr_policy_hint = WR_POLICY_AUTO\<rparr>"

definition get_base :: "hpdcache_test_memory_segment \<Rightarrow> u64" where
  "get_base s = ucast (seg_base s)"

definition get_length :: "hpdcache_test_memory_segment \<Rightarrow> u64" where
  "get_length s = ucast (seg_length s)"

definition get_end :: "hpdcache_test_memory_segment \<Rightarrow> u64" where
  "get_end s = ucast (seg_base s) + (ucast (seg_length s) - 1)"

definition is_uncached :: "hpdcache_test_memory_segment \<Rightarrow> bool" where
  "is_uncached s = seg_uncached s"

definition is_amo_supported :: "hpdcache_test_memory_segment \<Rightarrow> bool" where
  "is_amo_supported s = seg_amo_supported s"

definition get_wr_policy_hint :: "hpdcache_test_memory_segment \<Rightarrow> wr_policy_e" where
  "get_wr_policy_hint s = seg_wr_policy_hint s"

definition set_base :: "u64 \<Rightarrow> hpdcache_test_memory_segment \<Rightarrow> hpdcache_test_memory_segment" where
  "set_base b s = s\<lparr>seg_base := ucast b\<rparr>"

definition set_length :: "u64 \<Rightarrow> hpdcache_test_memory_segment \<Rightarrow> hpdcache_test_memory_segment" where
  "set_length l s = s\<lparr>seg_length := ucast l\<rparr>"

definition set_uncached :: "bool \<Rightarrow> hpdcache_test_memory_segment \<Rightarrow> hpdcache_test_memory_segment" where
  "set_uncached u s = s\<lparr>seg_uncached := u\<rparr>"

definition set_amo_supported :: "bool \<Rightarrow> hpdcache_test_memory_segment \<Rightarrow> hpdcache_test_memory_segment" where
  "set_amo_supported a s = s\<lparr>seg_amo_supported := a\<rparr>"

definition set_wr_policy_hint ::
  "wr_policy_e \<Rightarrow> hpdcache_test_memory_segment \<Rightarrow> hpdcache_test_memory_segment" where
  "set_wr_policy_hint p s = s\<lparr>seg_wr_policy_hint := p\<rparr>"

lemmas segment_defs = get_base_def get_length_def is_uncached_def is_amo_supported_def
  get_wr_policy_hint_def set_base_def set_length_def set_uncached_def set_amo_supported_def
  set_wr_policy_hint_def memory_segment_new_def

section \<open>Identifiers in flight\<close>

definition HPDCACHE_REQ_MAX_TRANS_ID :: nat where
  "HPDCACHE_REQ_MAX_TRANS_ID = 2 ^ HPDCACHE_REQ_TRANS_ID_WIDTH"

lemma max_trans_id [simp]: "HPDCACHE_REQ_MAX_TRANS_ID = 64"
  by (simp add: HPDCACHE_REQ_MAX_TRANS_ID_def)

definition is_available_id :: "nat list \<Rightarrow> bool" where
  "is_available_id ids \<longleftrightarrow> length ids < HPDCACHE_REQ_MAX_TRANS_ID"

partial_function (option) allocate_loop :: "nat list \<Rightarrow> nat \<Rightarrow> nat option" where
  "allocate_loop ids i =
     (if i \<in> set ids then allocate_loop ids ((i + 1) mod HPDCACHE_REQ_MAX_TRANS_ID) else Some i)"

text \<open>\<^verbatim>\<open>allocate_id\<close>; \<open>None\<close> is the failed assertion or a search that never ends.\<close>

definition allocate_id :: "u32 \<Rightarrow> nat list \<Rightarrow> (nat \<times> nat list) option" where
  "allocate_id rnd ids =
     (if is_available_id ids
      then map_option (\<lambda>i. (i, ids @ [i])) (allocate_loop ids (unat rnd mod HPDCACHE_REQ_MAX_TRANS_ID))
      else None)"

text \<open>\<^verbatim>\<open>deallocate_id\<close>: the new list, and whether the error message is printed.\<close>

definition deallocate_id :: "nat \<Rightarrow> nat list \<Rightarrow> nat list \<times> bool" where
  "deallocate_id i ids = (if i \<in> set ids then (remove1 i ids, False) else (ids, True))"

lemma allocate_loop_finds:
  assumes "(i + k) mod 64 \<notin> set ids" and "i < 64"
  shows "\<exists>v. allocate_loop ids i = Some v \<and> v \<notin> set ids \<and> v < 64"
  using assms
proof (induction k arbitrary: i)
  case 0
  then show ?case by (subst allocate_loop.simps) simp
next
  case (Suc k)
  show ?case
  proof (cases "i \<in> set ids")
    case True
    have "((i + 1) mod 64 + k) mod 64 = (i + Suc k) mod 64" by presburger
    with Suc.prems have "((i + 1) mod 64 + k) mod 64 \<notin> set ids" by simp
    from Suc.IH [OF this] True show ?thesis
      by (subst allocate_loop.simps) simp
  next
    case False
    with Suc.prems show ?thesis by (subst allocate_loop.simps) simp
  qed
qed

lemma free_id_exists:
  fixes ids :: "nat list"
  assumes "length ids < 64"
  shows "\<exists>k. (i + k) mod 64 \<notin> set ids"
proof -
  have "card (set ids) < card {..<64::nat}" using assms card_length [of ids] by simp
  then have "\<not> {..<64} \<subseteq> set ids"
    by (meson List.finite_set card_mono not_less)
  then obtain j where j: "j < 64" "j \<notin> set ids" by auto
  have "i + (64 - i mod 64) = 64 * (i div 64 + 1)" by presburger
  then have "i + (64 - i mod 64 + j) = j + 64 * (i div 64 + 1)" by simp
  then have "(i + (64 - i mod 64 + j)) mod 64 = j" using j(1) by (metis mod_less mod_mult_self2)
  with j show ?thesis by metis
qed

lemma allocate_id_ok:
  assumes "is_available_id ids"
  shows "\<exists>i. allocate_id rnd ids = Some (i, ids @ [i]) \<and> i \<notin> set ids \<and> i < 64"
proof -
  let ?i = "unat rnd mod 64"
  obtain k where "(?i + k) mod 64 \<notin> set ids"
    using free_id_exists [of ids ?i] assms by (auto simp: is_available_id_def)
  from allocate_loop_finds [OF this] obtain v where "allocate_loop ids ?i = Some v" "v \<notin> set ids" "v < 64"
    by auto
  with assms show ?thesis by (auto simp: allocate_id_def)
qed

definition ids_ok :: "nat list \<Rightarrow> bool" where
  "ids_ok ids \<longleftrightarrow> distinct ids \<and> (\<forall>i \<in> set ids. i < 64)"

text \<open>
  The contract of an identifier allocator, as the sequences and the scoreboard use it: an allocation
  gives an identifier that is not in use, a release frees exactly the one given.
\<close>

locale id_allocator =
  fixes used :: "'s \<Rightarrow> nat set"
    and inv :: "'s \<Rightarrow> bool"
    and avail :: "'s \<Rightarrow> bool"
    and alloc :: "'r \<Rightarrow> 's \<Rightarrow> (nat \<times> 's) option"
    and free :: "nat \<Rightarrow> 's \<Rightarrow> 's"
  assumes alloc_ok: "inv s \<Longrightarrow> avail s \<Longrightarrow>
      \<exists>i s'. alloc r s = Some (i, s') \<and> i \<notin> used s \<and> used s' = insert i (used s) \<and> inv s'"
    and free_ok: "inv s \<Longrightarrow> inv (free i s) \<and> used (free i s) = used s - {i}"
begin

lemma alloc_free: "inv s \<Longrightarrow> avail s \<Longrightarrow> alloc r s = Some (i, s') \<Longrightarrow> used (free i s') = used s"
  using alloc_ok [of s r] free_ok [of s' i] by auto

lemma alloc_twice_distinct:
  assumes "inv s" "avail s" "alloc r s = Some (i, s')" "avail s'" "alloc r' s' = Some (j, s'')"
  shows "i \<noteq> j"
  using alloc_ok [OF assms(1,2), of r] alloc_ok [of s' r'] assms by auto

end

lemma ids_ok_remove1: "ids_ok ids \<Longrightarrow> ids_ok (remove1 i ids)"
  by (auto simp: ids_ok_def dest: set_remove1_subset [THEN subsetD])

interpretation tids: id_allocator set ids_ok is_available_id allocate_id "\<lambda>i ids. fst (deallocate_id i ids)"
proof
  show "\<exists>i s'. allocate_id r s = Some (i, s') \<and> i \<notin> set s \<and> set s' = insert i (set s) \<and> ids_ok s'"
    if "ids_ok s" "is_available_id s" for s r
    using allocate_id_ok [OF that(2), of r] that(1) by (auto simp: ids_ok_def)
  show "ids_ok (fst (deallocate_id i s)) \<and> set (fst (deallocate_id i s)) = set s - {i}" if "ids_ok s" for s i
    using that by (auto simp: deallocate_id_def ids_ok_remove1 ids_ok_def set_remove1_eq)
qed

section \<open>Sending a transaction\<close>

record test_sequence =
  seq_ids :: "nat list"
  seq_name :: string
  max_transactions :: nat
  seq_pool :: "hpdcache_test_transaction_req transaction_pool"
  transaction_fifo_o :: "nat option list"
  transaction_ret_i :: "u64 list"
  waits :: nat

definition set_max_transactions :: "nat \<Rightarrow> test_sequence \<Rightarrow> test_sequence" where
  "set_max_transactions n s = s\<lparr>max_transactions := n\<rparr>"

definition get_ids :: "test_sequence \<Rightarrow> nat list" where
  "get_ids s = seq_ids s"

definition ids_size :: "test_sequence \<Rightarrow> nat" where
  "ids_size s = length (seq_ids s)"

text \<open>
  \<^verbatim>\<open>send_transaction\<close> up to the blocking read of the acknowledgement, and from the acknowledgement
  on: the object is released and the thread waits \<^verbatim>\<open>delay\<close> times.
\<close>

definition send_transaction_write :: "nat \<Rightarrow> test_sequence \<Rightarrow> test_sequence" where
  "send_transaction_write t s = s\<lparr>transaction_fifo_o := transaction_fifo_o s @ [Some t]\<rparr>"

definition send_transaction_ack :: "nat \<Rightarrow> int \<Rightarrow> test_sequence \<Rightarrow> test_sequence option" where
  "send_transaction_ack t delay s =
     (case transaction_ret_i s of
        [] \<Rightarrow> None
      | _ # rs \<Rightarrow>
          Some (s\<lparr>transaction_ret_i := rs, seq_pool := sequence_release t (seq_pool s),
                  waits := waits s + nat delay\<rparr>))"

definition sequence_to_string :: "test_sequence \<Rightarrow> string" where
  "sequence_to_string s =
     ''Sequence '' @ seq_name s @ '' / Max Transactions = '' @ digits 10 (max_transactions s) @ [char_of (10 :: nat)]"

section \<open>Properties\<close>

text \<open>
  C28. Whenever fewer identifiers are in flight than exist, the search for a free identifier ends,
  from any random start: it returns an identifier of the 6-bit range that no transaction in flight
  holds, and records it.
\<close>

theorem allocate_id_returns_free:
  assumes "is_available_id ids"
  shows "\<exists>i. allocate_id rnd ids = Some (i, ids @ [i]) \<and> i \<notin> set ids \<and> i < 2 ^ HPDCACHE_REQ_TRANS_ID_WIDTH"
  using allocate_id_ok [OF assms] by simp

theorem allocate_id_returns_free_witness:
  "\<exists>i. allocate_id 63 (63 # [0..<40]) = Some (i, (63 # [0..<40]) @ [i]) \<and> i \<notin> set (63 # [0..<40]) \<and>
     i < 2 ^ HPDCACHE_REQ_TRANS_ID_WIDTH"
  by (rule allocate_id_returns_free) (simp add: is_available_id_def)

text \<open>
  Allocating and releasing identifiers keeps the set in flight exact: over any interleaving the
  list holds no identifier twice and none outside the range, a release of the identifier just
  allocated restores the set in flight, and releasing one that is not in flight changes nothing and
  is reported.
\<close>

theorem ids_in_flight_exact:
  assumes "ids_ok ids" and "allocate_id rnd ids = Some (i, ids')"
  shows "ids_ok ids' \<and> set (fst (deallocate_id i ids')) = set ids \<and> ids_ok (fst (deallocate_id j ids')) \<and>
         (j \<notin> set ids' \<longrightarrow> deallocate_id j ids' = (ids', True))"
proof -
  have av: "is_available_id ids" using assms(2) by (auto simp: allocate_id_def split: if_splits)
  have "ids_ok ids'" using tids.alloc_ok [OF assms(1) av, of rnd] assms(2) by auto
  moreover have "set (fst (deallocate_id i ids')) = set ids"
    by (rule tids.alloc_free [OF assms(1) av assms(2)])
  ultimately show ?thesis using tids.free_ok [of ids' j] by (simp add: deallocate_id_def)
qed

theorem ids_in_flight_exact_witness:
  "\<exists>i ids'. allocate_id 5 [5, 6] = Some (i, ids') \<and> ids_ok ids' \<and> set (fst (deallocate_id i ids')) = {5, 6}"
proof -
  obtain i where a: "allocate_id 5 [5, 6] = Some (i, [5, 6] @ [i])"
    using allocate_id_ok [of "[5, 6]" 5] by (auto simp: is_available_id_def)
  from ids_in_flight_exact [OF _ this, of 0] a show ?thesis by (auto simp: ids_ok_def)
qed

end
