(* ===== verification/Seq_Lib.thy ===== *)
theory Seq_Lib
  imports Test_Sequence
begin

text \<open>
  The sequences of \<^verbatim>\<open>sequence_lib\<close> that generate requests: random, unique set, read and write. The
  constrained-random generators (SCV) are outside the sources: the values one transaction draws are
  the record \<open>draws\<close>, and what the bags and \<^verbatim>\<open>keep_only\<close> constraints of a sequence promise about them
  is a predicate \<open>*_draws\<close> (a value drawn from a bag is one of its elements).
\<close>

record draws =
  d_seg :: nat
  d_addr :: u64
  d_op :: hpdcache_req_op_e
  d_op_amo :: hpdcache_req_op_e
  d_data :: u64
  d_size :: nat
  d_rand :: u32
  d_wr_policy :: hpdcache_wr_policy_hint_e
  d_need_rsp :: bool
  d_fault :: bool
  d_fault_way :: nat
  d_fault_domain :: domain_e
  d_fault_double :: bool

section \<open>Shared pieces\<close>

definition op_bits :: "hpdcache_req_op_e \<Rightarrow> op_bv" where
  "op_bits e = of_nat (op_code e)"

definition bytes_of_size :: "nat \<Rightarrow> u32" where
  "bytes_of_size sz = push_bit sz 1"

definition REQ_DATA_BYTES :: nat where
  "REQ_DATA_BYTES = HPDCACHE_REQ_DATA_WIDTH div 8"

definition LOG2_REQ_DATA_BYTES :: nat where
  "LOG2_REQ_DATA_BYTES = HPDCACHE_TEST_DEFS_LOG2 REQ_DATA_BYTES"

lemma req_data_bytes [simp]: "REQ_DATA_BYTES = 8" "LOG2_REQ_DATA_BYTES = 3"
  by (simp_all add: REQ_DATA_BYTES_def LOG2_REQ_DATA_BYTES_def HPDCACHE_TEST_DEFS_LOG2_def)

definition segment_address :: "hpdcache_test_memory_segment \<Rightarrow> u64 \<Rightarrow> u32 \<Rightarrow> u64" where
  "segment_address sg r bytes = ((get_base sg + (r mod get_length sg)) div ucast bytes) * ucast bytes"

definition align_address :: "u64 \<Rightarrow> u32 \<Rightarrow> u64" where
  "align_address a bytes = (a div ucast bytes) * ucast bytes"

definition address_be :: "u64 \<Rightarrow> u32 \<Rightarrow> u8" where
  "address_be a bytes =
     (let offset = unat (a mod of_nat REQ_DATA_BYTES) in
      ucast (push_bit offset (push_bit (unat bytes) 1 - 1 :: u64)))"

definition req_is_amo :: "hpdcache_test_transaction_req \<Rightarrow> bool" where
  "req_is_amo t \<longleftrightarrow> is_amo t \<or> is_amo_sc t \<or> is_amo_lr t"

text \<open>\<^verbatim>\<open>create_random_size\<close> of the random and unique-set sequences.\<close>

definition create_random_size :: "draws \<Rightarrow> bool \<Rightarrow> nat" where
  "create_random_size dr amo = (if amo then (if d_size dr \<ge> 3 then 3 else 2) else d_size dr)"

definition select_random_wr_policy :: "draws \<Rightarrow> wr_policy_e \<Rightarrow> hpdcache_wr_policy_hint_e" where
  "select_random_wr_policy dr seg_wr_policy =
     (if seg_wr_policy = WR_POLICY_RANDOM then d_wr_policy dr
      else if seg_wr_policy = WR_POLICY_WB then HPDCACHE_WR_POLICY_WB
      else if seg_wr_policy = WR_POLICY_WT then HPDCACHE_WR_POLICY_WT
      else HPDCACHE_WR_POLICY_AUTO)"

text \<open>
  The frame of every \<^verbatim>\<open>create_random_transaction\<close>: wait for an identifier (\<open>None\<close> while none is
  available), acquire a default object from the pool, allocate the identifier, fill the object.
\<close>

definition create_transaction ::
  "(draws \<Rightarrow> tid_bv \<Rightarrow> hpdcache_test_transaction_req) \<Rightarrow> draws \<Rightarrow> test_sequence \<Rightarrow> (nat \<times> test_sequence) option" where
  "create_transaction flds dr s =
     (if \<not> is_available_id (seq_ids s) then None
      else case sequence_acquire transaction_req_new (seq_pool s) of
             None \<Rightarrow> None
           | Some (r, p) \<Rightarrow>
               (case allocate_id (d_rand dr) (seq_ids s) of
                  None \<Rightarrow> None
                | Some (i, ids') \<Rightarrow>
                    Some (r, s\<lparr>seq_pool := p\<lparr>heap := (heap p)(r := flds dr (of_nat i))\<rparr>, seq_ids := ids'\<rparr>)))"

section \<open>The random sequence\<close>

definition mk_segment :: "u64 \<Rightarrow> u64 \<Rightarrow> bool \<Rightarrow> bool \<Rightarrow> wr_policy_e \<Rightarrow> hpdcache_test_memory_segment" where
  "mk_segment b l u a p =
     set_wr_policy_hint p (set_amo_supported a (set_uncached u (set_length l (set_base b memory_segment_new))))"

definition random_segs :: "hpdcache_test_memory_segment list" where
  "random_segs =
     [mk_segment 0x00000000 0x00004000 False True WR_POLICY_RANDOM,
      mk_segment 0x40004000 0x00004000 False True WR_POLICY_WB,
      mk_segment 0x80008000 0x00004000 False True WR_POLICY_WT,
      mk_segment 0xC000C000 0x00004000 True True WR_POLICY_AUTO]"

definition random_seg_distribution :: "(nat \<times> nat) list" where
  "random_seg_distribution = [(0, 33), (1, 33), (2, 33), (3, 1)]"

definition delay_distribution :: "((int \<times> int) \<times> nat) list" where
  "delay_distribution = [((0, 0), 80), ((1, 4), 18), ((5, 20), 2)]"

definition amo_sc_do_distribution :: "(bool \<times> nat) list" where
  "amo_sc_do_distribution = [(False, 25), (True, 75)]"

definition wr_policy_distribution :: "(hpdcache_wr_policy_hint_e \<times> nat) list" where
  "wr_policy_distribution =
     [(HPDCACHE_WR_POLICY_AUTO, 80), (HPDCACHE_WR_POLICY_WB, 10), (HPDCACHE_WR_POLICY_WT, 10)]"

definition op_distribution :: "(hpdcache_req_op_e \<times> nat) list" where
  "op_distribution =
     [(HPDCACHE_REQ_LOAD, 400), (HPDCACHE_REQ_STORE, 350), (HPDCACHE_REQ_CMO_FENCE, 10),
      (HPDCACHE_REQ_CMO_PREFETCH, 10), (HPDCACHE_REQ_CMO_FLUSH_NLINE, 10), (HPDCACHE_REQ_CMO_FLUSH_ALL, 1),
      (HPDCACHE_REQ_CMO_FLUSH_INVAL_NLINE, 10), (HPDCACHE_REQ_CMO_FLUSH_INVAL_ALL, 1)]"

definition amo_ops :: "(hpdcache_req_op_e \<times> nat) list" where
  "amo_ops =
     [(HPDCACHE_REQ_AMO_LR, 4), (HPDCACHE_REQ_AMO_SC, 4), (HPDCACHE_REQ_AMO_SWAP, 4),
      (HPDCACHE_REQ_AMO_ADD, 4), (HPDCACHE_REQ_AMO_AND, 4), (HPDCACHE_REQ_AMO_OR, 4),
      (HPDCACHE_REQ_AMO_XOR, 4), (HPDCACHE_REQ_AMO_MAX, 4), (HPDCACHE_REQ_AMO_MAXU, 4),
      (HPDCACHE_REQ_AMO_MIN, 4), (HPDCACHE_REQ_AMO_MINU, 4)]"

definition random_op_amo_distribution :: "(hpdcache_req_op_e \<times> nat) list" where
  "random_op_amo_distribution =
     [(HPDCACHE_REQ_LOAD, 800), (HPDCACHE_REQ_STORE, 600), (HPDCACHE_REQ_CMO_FENCE, 10),
      (HPDCACHE_REQ_CMO_PREFETCH, 10), (HPDCACHE_REQ_CMO_FLUSH_NLINE, 10), (HPDCACHE_REQ_CMO_FLUSH_ALL, 1),
      (HPDCACHE_REQ_CMO_FLUSH_INVAL_NLINE, 10), (HPDCACHE_REQ_CMO_FLUSH_INVAL_ALL, 1)] @ amo_ops"

definition need_rsp_distribution :: "(bool \<times> nat) list" where
  "need_rsp_distribution = [(False, 5), (True, 95)]"

text \<open>The fault-injection bags, with the three \<^verbatim>\<open>CONF_HPDCACHE_TEST_*FAULT_INJ*\<close> switches as arguments.\<close>

definition fault_inj_dist :: "bool \<Rightarrow> (bool \<times> nat) list" where
  "fault_inj_dist fault_inj = (False, 99) # (if fault_inj then [(True, 1)] else [])"

definition fault_inj_domain_dist :: "bool \<Rightarrow> (domain_e \<times> nat) list" where
  "fault_inj_domain_dist fault_inj_dir = (if fault_inj_dir then [(CACHE_DIR, 20)] else []) @ [(CACHE_DAT, 80)]"

definition fault_inj_double_dist :: "bool \<Rightarrow> (bool \<times> nat) list" where
  "fault_inj_double_dist double_fault_inj = (False, 95) # (if double_fault_inj then [(True, 5)] else [])"

definition fault_inj_way_dist :: "((nat \<times> nat) \<times> nat) list" where
  "fault_inj_way_dist = [((0, HPDCACHE_WAYS - 1), 100)]"

definition in_bag :: "'a \<Rightarrow> ('a \<times> nat) list \<Rightarrow> bool" where
  "in_bag x bag \<longleftrightarrow> (\<exists>p \<in> set bag. fst p = x \<and> 0 < snd p)"

definition in_range_bag :: "nat \<Rightarrow> ((nat \<times> nat) \<times> nat) list \<Rightarrow> bool" where
  "in_range_bag x bag \<longleftrightarrow> (\<exists>p \<in> set bag. fst (fst p) \<le> x \<and> x \<le> snd (fst p) \<and> 0 < snd p)"

definition random_draws :: "bool \<Rightarrow> bool \<Rightarrow> bool \<Rightarrow> draws \<Rightarrow> bool" where
  "random_draws fi fid fi2 dr \<longleftrightarrow>
     in_bag (d_seg dr) random_seg_distribution \<and> in_bag (d_op dr) op_distribution \<and>
     in_bag (d_op_amo dr) random_op_amo_distribution \<and> d_size dr \<le> LOG2_REQ_DATA_BYTES \<and>
     in_bag (d_wr_policy dr) wr_policy_distribution \<and> in_bag (d_need_rsp dr) need_rsp_distribution \<and>
     in_bag (d_fault dr) (fault_inj_dist fi) \<and> in_bag (d_fault_domain dr) (fault_inj_domain_dist fid) \<and>
     in_bag (d_fault_double dr) (fault_inj_double_dist fi2) \<and> in_range_bag (d_fault_way dr) fault_inj_way_dist"

definition random_fault_fields :: "draws \<Rightarrow> hpdcache_test_transaction_req \<Rightarrow> hpdcache_test_transaction_req" where
  "random_fault_fields dr t =
     (if d_fault dr then
        t\<lparr>req_fault := (req_fault t)\<lparr>
            fault_valid := True, fault_set := int (unat (get_cache_set t)), fault_way := int (d_fault_way dr),
            fault_word := int (unat (get_cache_word t)), fault_domain := d_fault_domain dr,
            fault_mask := (if d_fault_double dr then 0xA0 else 0x20)\<rparr>\<rparr>
      else t)"

definition random_fields :: "draws \<Rightarrow> tid_bv \<Rightarrow> hpdcache_test_transaction_req" where
  "random_fields dr tid =
     (let sg = random_segs ! d_seg dr;
          t = transaction_req_new\<lparr>req_op := op_bits (if is_amo_supported sg then d_op_amo dr else d_op dr),
                req_wdata := d_data dr, req_sid := 0, req_tid := tid, req_abort := False,
                req_phys_indexed := False,
                req_wr_policy_hint := select_random_wr_policy dr (get_wr_policy_hint sg)\<rparr>;
          amo = req_is_amo t;
          sz = create_random_size dr amo;
          bytes = bytes_of_size sz;
          address = segment_address sg (d_addr dr) bytes;
          t = t\<lparr>req_addr := ucast address\<rparr>;
          t = (if is_cmo t
               then t\<lparr>req_be := 0, req_size := 0, req_uncacheable := False, req_need_rsp := d_need_rsp dr\<rparr>
               else t\<lparr>req_be := address_be address bytes, req_size := of_nat sz,
                      req_uncacheable := is_uncached sg, req_need_rsp := (amo \<or> d_need_rsp dr)\<rparr>)
      in random_fault_fields dr t)"

text \<open>\<^verbatim>\<open>create_sc_transaction\<close>, the same in the random and the unique-set sequence.\<close>

definition sc_fields :: "u64 \<Rightarrow> bool \<Rightarrow> draws \<Rightarrow> tid_bv \<Rightarrow> hpdcache_test_transaction_req" where
  "sc_fields addr uncacheable dr tid =
     (let sz = create_random_size dr True;
          bytes = bytes_of_size sz;
          address = align_address addr bytes
      in transaction_req_new\<lparr>req_op := op_bits HPDCACHE_REQ_AMO_SC, req_wdata := d_data dr, req_sid := 0,
           req_tid := tid, req_addr := ucast address, req_be := address_be address bytes,
           req_size := of_nat sz, req_uncacheable := uncacheable, req_need_rsp := True\<rparr>)"

section \<open>The unique-set sequence\<close>

text \<open>
  Segment 2 keeps the defaults for AMO support and write policy: the constructor sets those of
  segment 3 instead, and overwrites them when it comes to segment 3.
\<close>

definition unique_set_segs :: "hpdcache_test_memory_segment list" where
  "unique_set_segs =
     (let seg2 = set_uncached False (set_length 0x00004000 (set_base 0x80008000 memory_segment_new));
          seg3 = set_wr_policy_hint WR_POLICY_WT (set_amo_supported True memory_segment_new);
          seg3 = set_wr_policy_hint WR_POLICY_AUTO (set_amo_supported True (set_uncached False
                   (set_length 0x00004000 (set_base 0xC000C000 seg3))))
      in [mk_segment 0x00000000 0x00004000 False True WR_POLICY_RANDOM,
          mk_segment 0x40004000 0x00004000 False True WR_POLICY_WB, seg2, seg3])"

definition unique_set_seg_distribution :: "(nat \<times> nat) list" where
  "unique_set_seg_distribution = [(0, 100 div 4), (1, 100 div 4), (2, 100 div 4), (3, 100 div 4)]"

definition unique_set_op_amo_distribution :: "(hpdcache_req_op_e \<times> nat) list" where
  "unique_set_op_amo_distribution =
     [(HPDCACHE_REQ_LOAD, 400), (HPDCACHE_REQ_STORE, 350), (HPDCACHE_REQ_CMO_FENCE, 10),
      (HPDCACHE_REQ_CMO_PREFETCH, 10), (HPDCACHE_REQ_CMO_FLUSH_NLINE, 10), (HPDCACHE_REQ_CMO_FLUSH_ALL, 1),
      (HPDCACHE_REQ_CMO_FLUSH_INVAL_NLINE, 10), (HPDCACHE_REQ_CMO_FLUSH_INVAL_ALL, 1)] @ amo_ops"

definition unique_set_draws :: "draws \<Rightarrow> bool" where
  "unique_set_draws dr \<longleftrightarrow>
     in_bag (d_seg dr) unique_set_seg_distribution \<and> in_bag (d_op dr) op_distribution \<and>
     in_bag (d_op_amo dr) unique_set_op_amo_distribution \<and> d_size dr \<le> LOG2_REQ_DATA_BYTES \<and>
     in_bag (d_wr_policy dr) wr_policy_distribution \<and> in_bag (d_need_rsp dr) need_rsp_distribution"

definition set_mask :: u64 where
  "set_mask = push_bit HPDCACHE_CL_OFFSET_WIDTH (push_bit HPDCACHE_SET_WIDTH 1 - 1)"

definition create_random_addr :: "u64 \<Rightarrow> hpdcache_test_memory_segment \<Rightarrow> u64 \<Rightarrow> u32 \<Rightarrow> u64" where
  "create_random_addr st sg r bytes =
     (segment_address sg r bytes AND NOT set_mask) OR push_bit HPDCACHE_CL_OFFSET_WIDTH st"

definition unique_set_fields :: "u64 \<Rightarrow> draws \<Rightarrow> tid_bv \<Rightarrow> hpdcache_test_transaction_req" where
  "unique_set_fields st dr tid =
     (let sg = unique_set_segs ! d_seg dr;
          t = transaction_req_new\<lparr>req_op := op_bits (if is_amo_supported sg then d_op_amo dr else d_op dr),
                req_wdata := d_data dr, req_sid := 0, req_tid := tid, req_abort := False,
                req_phys_indexed := False,
                req_wr_policy_hint := select_random_wr_policy dr (get_wr_policy_hint sg)\<rparr>;
          amo = req_is_amo t;
          sz = create_random_size dr amo;
          bytes = bytes_of_size sz;
          address = create_random_addr st sg (d_addr dr) bytes;
          t = t\<lparr>req_addr := ucast address, req_need_rsp := (amo \<or> d_need_rsp dr)\<rparr>
      in if is_cmo t then t\<lparr>req_be := 0, req_size := 0, req_uncacheable := False\<rparr>
         else t\<lparr>req_be := address_be address bytes, req_size := of_nat sz, req_uncacheable := is_uncached sg\<rparr>)"

section \<open>The read and write sequences\<close>

definition read_seg :: hpdcache_test_memory_segment where
  "read_seg = set_uncached False (set_length 0x00080000 (set_base 0x00000000 memory_segment_new))"

definition write_seg :: hpdcache_test_memory_segment where
  "write_seg = set_uncached False (set_length 0x00004000 (set_base 0x00000000 memory_segment_new))"

text \<open>Their \<^verbatim>\<open>create_random_size\<close> constrains the generator: sizes 0 to 3, or 2 to 3 for AMOs.\<close>

definition ranged_size :: "draws \<Rightarrow> bool \<Rightarrow> bool" where
  "ranged_size dr amo \<longleftrightarrow> (if \<not> amo then d_size dr \<le> 3 else 2 \<le> d_size dr \<and> d_size dr \<le> 3)"

definition read_draws :: "draws \<Rightarrow> bool" where
  "read_draws dr \<longleftrightarrow> d_seg dr = 0 \<and> d_op dr = HPDCACHE_REQ_LOAD \<and> ranged_size dr False"

definition write_draws :: "draws \<Rightarrow> bool" where
  "write_draws dr \<longleftrightarrow> d_seg dr = 0 \<and> d_op dr = HPDCACHE_REQ_STORE \<and> ranged_size dr False"

definition read_fields :: "draws \<Rightarrow> tid_bv \<Rightarrow> hpdcache_test_transaction_req" where
  "read_fields dr tid =
     (let t = transaction_req_new\<lparr>req_op := op_bits (d_op dr), req_wdata := 0, req_sid := 0, req_tid := tid,
                req_abort := False, req_phys_indexed := False\<rparr>;
          sz = d_size dr;
          bytes = bytes_of_size sz;
          address = segment_address read_seg (d_addr dr) bytes
      in t\<lparr>req_addr := ucast address, req_be := address_be address bytes, req_size := of_nat sz,
           req_uncacheable := is_uncached read_seg, req_need_rsp := True\<rparr>)"

definition write_fields :: "draws \<Rightarrow> tid_bv \<Rightarrow> hpdcache_test_transaction_req" where
  "write_fields dr tid =
     (let t = transaction_req_new\<lparr>req_op := op_bits (d_op dr), req_wdata := d_data dr, req_sid := 0,
                req_tid := tid, req_abort := False, req_phys_indexed := False\<rparr>;
          sz = d_size dr;
          bytes = bytes_of_size sz;
          address = segment_address write_seg (d_addr dr) bytes
      in t\<lparr>req_addr := ucast address, req_be := address_be address bytes, req_size := of_nat sz,
           req_uncacheable := is_uncached write_seg, req_need_rsp := True\<rparr>)"


section \<open>Runs\<close>

text \<open>
  The \<^verbatim>\<open>run\<close> threads. The environment of a run is the stream of draws and, before each creation,
  the identifiers still in flight (responses free identifiers at any time; the wait ends when one is
  available): \<open>env k ids\<close> is the list of identifiers in flight when the \<open>k\<close>-th transaction is
  created. The output is what is written to the driver, \<open>None\<close> for the final null pointer. A
  transaction sent is recorded by value, as the driver receives it; \<open>k\<close> counts creations.
\<close>

record run_env =
  e_draws :: "nat \<Rightarrow> draws"
  e_ids :: "nat \<Rightarrow> nat list \<Rightarrow> nat list"
  e_sc_do :: "nat \<Rightarrow> bool"
  e_inbetween :: nat

record run_state =
  r_k :: nat
  r_ids :: "nat list"
  r_out :: "hpdcache_test_transaction_req list"

text \<open>Create and send one transaction; \<open>None\<close> when the identifier allocator fails its assertion.\<close>

definition create_and_send ::
  "run_env \<Rightarrow> (draws \<Rightarrow> tid_bv \<Rightarrow> hpdcache_test_transaction_req) \<Rightarrow> run_state \<Rightarrow> run_state option" where
  "create_and_send e flds s =
     (let dr = e_draws e (r_k s) in
      case allocate_id (d_rand dr) (e_ids e (r_k s) (r_ids s)) of
        None \<Rightarrow> None
      | Some (i, ids') \<Rightarrow>
          Some \<lparr>r_k = Suc (r_k s), r_ids = ids', r_out = r_out s @ [flds dr (of_nat i)]\<rparr>)"

fun send_many ::
  "nat \<Rightarrow> run_env \<Rightarrow> (draws \<Rightarrow> tid_bv \<Rightarrow> hpdcache_test_transaction_req) \<Rightarrow> run_state \<Rightarrow> run_state option" where
  "send_many 0 e flds s = Some s"
| "send_many (Suc n) e flds s = Option.bind (create_and_send e flds s) (send_many n e flds)"

text \<open>
  One iteration of the loop of the random and the unique-set sequence: after a load-reserved, with
  the drawn probability, some transactions and a store-conditional to the same address.
\<close>

definition lrsc_iteration ::
  "run_env \<Rightarrow> (draws \<Rightarrow> tid_bv \<Rightarrow> hpdcache_test_transaction_req) \<Rightarrow> run_state \<Rightarrow> run_state option" where
  "lrsc_iteration e flds s =
     (case create_and_send e flds s of
        None \<Rightarrow> None
      | Some s1 \<Rightarrow>
          (let t = last (r_out s1) in
           if is_amo_lr t \<and> e_sc_do e (r_k s) then
             Option.bind (send_many (e_inbetween e) e flds s1)
               (create_and_send e (sc_fields (ucast (req_addr t)) (req_uncacheable t)))
           else Some s1))"

fun iterate_run :: "nat \<Rightarrow> (run_state \<Rightarrow> run_state option) \<Rightarrow> run_state \<Rightarrow> run_state option" where
  "iterate_run 0 f s = Some s"
| "iterate_run (Suc n) f s = Option.bind (f s) (iterate_run n f)"

definition finish_run :: "run_state \<Rightarrow> hpdcache_test_transaction_req option list" where
  "finish_run s = map Some (r_out s) @ [None]"

definition run_start :: run_state where
  "run_start = \<lparr>r_k = 0, r_ids = [], r_out = []\<rparr>"

definition random_run :: "run_env \<Rightarrow> nat \<Rightarrow> hpdcache_test_transaction_req option list option" where
  "random_run e max_trans = map_option finish_run (iterate_run max_trans (lrsc_iteration e random_fields) run_start)"

text \<open>The set is \<^verbatim>\<open>rand() % HPDCACHE_SETS\<close>, drawn once per run.\<close>

definition unique_set_run :: "u32 \<Rightarrow> run_env \<Rightarrow> nat \<Rightarrow> hpdcache_test_transaction_req option list option" where
  "unique_set_run rnd e max_trans =
     (let st = of_nat (unat rnd mod HPDCACHE_SETS) in
      map_option finish_run (iterate_run max_trans (lrsc_iteration e (unique_set_fields st)) run_start))"

definition read_run :: "run_env \<Rightarrow> nat \<Rightarrow> hpdcache_test_transaction_req option list option" where
  "read_run e max_trans = map_option finish_run (iterate_run max_trans (create_and_send e read_fields) run_start)"

definition write_run :: "run_env \<Rightarrow> nat \<Rightarrow> hpdcache_test_transaction_req option list option" where
  "write_run e max_trans = map_option finish_run (iterate_run max_trans (create_and_send e write_fields) run_start)"

section \<open>Well-formed requests\<close>

text \<open>
  What the cache requires of a request: naturally aligned, byte enables that select exactly the
  bytes accessed; no bytes for a cache-maintenance operation; word or doubleword AMOs with a response.
\<close>

definition req_wf :: "hpdcache_test_transaction_req \<Rightarrow> bool" where
  "req_wf t \<longleftrightarrow>
     (if is_cmo t then req_be t = 0 \<and> req_size t = 0
      else let a = unat (req_addr t); n = 2 ^ unat (req_size t) in
           unat (req_size t) \<le> 3 \<and> n dvd a \<and>
           (\<forall>i < 8. bit (req_be t) i \<longleftrightarrow> a mod 8 \<le> i \<and> i < a mod 8 + n)) \<and>
     (req_is_amo t \<longrightarrow> 2 \<le> unat (req_size t) \<and> req_need_rsp t)"

definition in_segment :: "hpdcache_test_memory_segment \<Rightarrow> hpdcache_test_transaction_req \<Rightarrow> bool" where
  "in_segment sg t \<longleftrightarrow>
     unat (seg_base sg) \<le> unat (req_addr t) \<and> unat (req_addr t) < unat (seg_base sg) + unat (seg_length sg)"

subsection \<open>Address arithmetic\<close>

definition seg_ok :: "hpdcache_test_memory_segment \<Rightarrow> bool" where
  "seg_ok sg \<longleftrightarrow> 0 < unat (seg_length sg) \<and> 8 dvd unat (seg_base sg) \<and>
     unat (seg_base sg) + unat (seg_length sg) \<le> 2 ^ 49"

lemma unat_u64_of_49 [simp]: "unat (ucast (w :: addr_bv) :: u64) = unat w"
proof -
  have "unat w < 2 ^ 64" using unat_less_exp [of w] by simp
  then show ?thesis by (simp add: unsigned_ucast_eq take_bit_nat_eq_self)
qed

lemma unat_bytes_of_size: "sz \<le> 3 \<Longrightarrow> unat (bytes_of_size sz) = 2 ^ sz"
proof -
  assume "sz \<le> 3"
  then consider "sz = 0" | "sz = 1" | "sz = 2" | "sz = 3" by linarith
  then show ?thesis by cases (simp_all add: bytes_of_size_def)
qed

lemma unat_bytes_u64: "sz \<le> 3 \<Longrightarrow> unat (ucast (bytes_of_size sz) :: u64) = 2 ^ sz"
proof -
  assume sz: "sz \<le> 3"
  then have "2 ^ sz \<le> (2 :: nat) ^ 3" by (intro power_increasing) simp_all
  with sz show ?thesis
    by (simp add: unsigned_ucast_eq unat_bytes_of_size take_bit_nat_eq_self)
qed

lemma unat_align_address:
  assumes "sz \<le> 3"
  shows "unat (align_address a (bytes_of_size sz)) = unat a div 2 ^ sz * 2 ^ sz"
proof -
  have "unat (a div ucast (bytes_of_size sz)) = unat a div 2 ^ sz"
    using assms by (simp add: unat_div_distrib unat_bytes_u64)
  moreover have lt: "unat a < 2 ^ 64" using unat_less_exp [of a] by simp
  have "unat a div 2 ^ sz * 2 ^ sz < 2 ^ 64" by (rule le_less_trans [OF _ lt]) simp
  ultimately show ?thesis
    using assms by (simp add: align_address_def unat_word_ariths unat_bytes_u64)
qed

lemma segment_address_align:
  "segment_address sg r bytes = align_address (get_base sg + r mod get_length sg) bytes"
  by (simp add: segment_address_def align_address_def)

lemma seg_ok_offset:
  assumes "seg_ok sg"
  shows "unat (get_base sg + r mod get_length sg) = unat (seg_base sg) + unat r mod unat (seg_length sg)"
    and "unat r mod unat (seg_length sg) < unat (seg_length sg)"
proof -
  show lt: "unat r mod unat (seg_length sg) < unat (seg_length sg)" using assms by (simp add: seg_ok_def)
  have "unat (seg_base sg) + unat r mod unat (seg_length sg) < 2 ^ 64"
    using lt assms by (simp add: seg_ok_def)
  then show "unat (get_base sg + r mod get_length sg) = unat (seg_base sg) + unat r mod unat (seg_length sg)"
    by (simp add: unat_word_ariths get_base_def get_length_def)
qed

lemma segment_address_bounds:
  fixes r :: u64
  assumes "seg_ok sg" "sz \<le> 3"
  defines "a \<equiv> unat (segment_address sg r (bytes_of_size sz))"
  shows "2 ^ sz dvd a" "unat (seg_base sg) \<le> a" "a < unat (seg_base sg) + unat (seg_length sg)" "a < 2 ^ 49"
proof -
  let ?x = "unat (seg_base sg) + unat r mod unat (seg_length sg)"
  have a: "a = ?x div 2 ^ sz * 2 ^ sz"
    unfolding a_def segment_address_align by (simp add: unat_align_address assms(2) seg_ok_offset [OF assms(1)])
  then show "2 ^ sz dvd a" by simp
  have "a \<le> ?x" by (simp add: a)
  then show lt: "a < unat (seg_base sg) + unat (seg_length sg)" using seg_ok_offset(2) [OF assms(1), of r] by simp
  then show "a < 2 ^ 49" using assms(1) by (simp add: seg_ok_def)
  have "2 ^ sz dvd (8 :: nat)" using le_imp_power_dvd [OF assms(2), of "2 :: nat"] by simp
  then have "2 ^ sz dvd unat (seg_base sg)" using assms(1) by (auto simp: seg_ok_def intro: dvd_trans)
  then have "unat (seg_base sg) = unat (seg_base sg) div 2 ^ sz * 2 ^ sz" by simp
  also have "\<dots> \<le> a" unfolding a by (intro mult_le_mono1 div_le_mono) simp
  finally show "unat (seg_base sg) \<le> a" .
qed

lemma bit_push_1_minus: "bit (push_bit n 1 - 1 :: u64) i \<longleftrightarrow> i < n \<and> i < 64" if "n < 64"
proof -
  have "(push_bit n 1 - 1 :: u64) = mask n" by (simp add: mask_eq_exp_minus_1 push_bit_eq_mult)
  then show ?thesis by (auto simp: bit_simps)
qed

lemma bit_address_be:
  assumes "sz \<le> 3" "i < 8"
  shows "bit (address_be a (bytes_of_size sz)) i \<longleftrightarrow> unat a mod 8 \<le> i \<and> i < unat a mod 8 + 2 ^ sz"
proof -
  have "(2 :: nat) ^ sz \<le> 2 ^ 3" using assms(1) by (intro power_increasing) simp_all
  then have b: "(2 :: nat) ^ sz < 64" by simp
  have m: "bit (2 ^ 2 ^ sz - 1 :: u64) j \<longleftrightarrow> j < 2 ^ sz \<and> j < 64" for j
    using bit_push_1_minus [OF b, of j] by (simp add: push_bit_eq_mult)
  have off: "unat (a mod 8) = unat a mod 8" by (simp add: unat_mod_distrib)
  have "bit (address_be a (bytes_of_size sz)) i \<longleftrightarrow>
      unat a mod 8 \<le> i \<and> bit (2 ^ 2 ^ sz - 1 :: u64) (i - unat a mod 8)"
    using assms by (simp add: address_be_def bit_simps unat_bytes_of_size Let_def off)
  then show ?thesis unfolding m using assms(2) by auto
qed


subsection \<open>Generated requests are well formed\<close>

lemma unat_op_bits [simp]: "unat (op_bits e) = op_code e"
  unfolding op_bits_def using op_code_less [of e] by (intro unat_of_nat_self) simp

lemma has_op_bits: "req_op t = op_bits e \<Longrightarrow> has_op t e' \<longleftrightarrow> e' = e"
  by (auto simp: has_op_def)

lemma unat_u49_of_u64: "unat a < 2 ^ 49 \<Longrightarrow> unat (ucast (a :: u64) :: addr_bv) = unat a"
  by (simp add: unsigned_ucast_eq take_bit_nat_eq_self)

lemma unat_size_bv: "sz \<le> 3 \<Longrightarrow> unat (of_nat sz :: size_bv) = sz"
  by (intro unat_of_nat_self) simp

lemma req_wf_access:
  assumes "sz \<le> 3" "unat a < 2 ^ 49" "2 ^ sz dvd unat a" "req_addr t = ucast a"
    "req_be t = address_be a (bytes_of_size sz)" "req_size t = of_nat sz" "\<not> is_cmo t"
    "req_is_amo t \<Longrightarrow> 2 \<le> sz \<and> req_need_rsp t"
  shows "req_wf t"
  using assms by (simp add: req_wf_def Let_def unat_u49_of_u64 unat_size_bv bit_address_be)

lemma create_random_size_le: "d_size dr \<le> 3 \<Longrightarrow> create_random_size dr amo \<le> 3"
  by (simp add: create_random_size_def)

lemma create_random_size_amo: "2 \<le> create_random_size dr True"
  by (simp add: create_random_size_def)

lemma req_classes_cong:
  "req_op t = req_op u \<Longrightarrow> is_cmo t = is_cmo u" "req_op t = req_op u \<Longrightarrow> req_is_amo t = req_is_amo u"
  by (simp_all add: is_cmo_def req_is_amo_def is_amo_def is_amo_sc_def is_amo_lr_def has_op_def)

lemma cmo_not_amo: "is_cmo t \<Longrightarrow> \<not> req_is_amo t"
  by (auto simp: is_cmo_def req_is_amo_def is_amo_def is_amo_sc_def is_amo_lr_def has_op_def)

lemma random_segs_ok: "sg \<in> set random_segs \<Longrightarrow> seg_ok sg"
  by (auto simp: random_segs_def seg_ok_def mk_segment_def segment_defs)

lemma random_fault_frame [simp]:
  "req_op (random_fault_fields dr t) = req_op t" "req_addr (random_fault_fields dr t) = req_addr t"
  "req_be (random_fault_fields dr t) = req_be t" "req_size (random_fault_fields dr t) = req_size t"
  "req_need_rsp (random_fault_fields dr t) = req_need_rsp t" "req_tid (random_fault_fields dr t) = req_tid t"
  "req_uncacheable (random_fault_fields dr t) = req_uncacheable t"
  by (simp_all add: random_fault_fields_def)

lemma random_draws_seg: "random_draws fi fid fi2 dr \<Longrightarrow> d_seg dr < 4 \<and> d_size dr \<le> 3"
  by (auto simp: random_draws_def in_bag_def random_seg_distribution_def)

lemma fields_frame_wf:
  assumes "req_op t = req_op u" "req_addr t = req_addr u" "req_be t = req_be u" "req_size t = req_size u"
    "req_need_rsp t = req_need_rsp u"
  shows "req_wf t = req_wf u"
  using assms req_classes_cong [OF assms(1)] by (simp add: req_wf_def)

lemma req_class_upd [simp]:
  "is_cmo (t\<lparr>trans_id := x0\<rparr>) = is_cmo t"
  "is_cmo (t\<lparr>req_addr := x1\<rparr>) = is_cmo t"
  "is_cmo (t\<lparr>req_wdata := x2\<rparr>) = is_cmo t"
  "is_cmo (t\<lparr>req_be := x3\<rparr>) = is_cmo t"
  "is_cmo (t\<lparr>req_size := x4\<rparr>) = is_cmo t"
  "is_cmo (t\<lparr>req_sid := x5\<rparr>) = is_cmo t"
  "is_cmo (t\<lparr>req_tid := x6\<rparr>) = is_cmo t"
  "is_cmo (t\<lparr>req_need_rsp := x7\<rparr>) = is_cmo t"
  "is_cmo (t\<lparr>req_phys_indexed := x8\<rparr>) = is_cmo t"
  "is_cmo (t\<lparr>req_uncacheable := x9\<rparr>) = is_cmo t"
  "is_cmo (t\<lparr>req_io := x10\<rparr>) = is_cmo t"
  "is_cmo (t\<lparr>req_wr_policy_hint := x11\<rparr>) = is_cmo t"
  "is_cmo (t\<lparr>req_abort := x12\<rparr>) = is_cmo t"
  "is_cmo (t\<lparr>req_fault := x13\<rparr>) = is_cmo t"
  "req_is_amo (t\<lparr>trans_id := x0\<rparr>) = req_is_amo t"
  "req_is_amo (t\<lparr>req_addr := x1\<rparr>) = req_is_amo t"
  "req_is_amo (t\<lparr>req_wdata := x2\<rparr>) = req_is_amo t"
  "req_is_amo (t\<lparr>req_be := x3\<rparr>) = req_is_amo t"
  "req_is_amo (t\<lparr>req_size := x4\<rparr>) = req_is_amo t"
  "req_is_amo (t\<lparr>req_sid := x5\<rparr>) = req_is_amo t"
  "req_is_amo (t\<lparr>req_tid := x6\<rparr>) = req_is_amo t"
  "req_is_amo (t\<lparr>req_need_rsp := x7\<rparr>) = req_is_amo t"
  "req_is_amo (t\<lparr>req_phys_indexed := x8\<rparr>) = req_is_amo t"
  "req_is_amo (t\<lparr>req_uncacheable := x9\<rparr>) = req_is_amo t"
  "req_is_amo (t\<lparr>req_io := x10\<rparr>) = req_is_amo t"
  "req_is_amo (t\<lparr>req_wr_policy_hint := x11\<rparr>) = req_is_amo t"
  "req_is_amo (t\<lparr>req_abort := x12\<rparr>) = req_is_amo t"
  "req_is_amo (t\<lparr>req_fault := x13\<rparr>) = req_is_amo t"
  "is_amo_lr (t\<lparr>trans_id := x0\<rparr>) = is_amo_lr t"
  "is_amo_lr (t\<lparr>req_addr := x1\<rparr>) = is_amo_lr t"
  "is_amo_lr (t\<lparr>req_wdata := x2\<rparr>) = is_amo_lr t"
  "is_amo_lr (t\<lparr>req_be := x3\<rparr>) = is_amo_lr t"
  "is_amo_lr (t\<lparr>req_size := x4\<rparr>) = is_amo_lr t"
  "is_amo_lr (t\<lparr>req_sid := x5\<rparr>) = is_amo_lr t"
  "is_amo_lr (t\<lparr>req_tid := x6\<rparr>) = is_amo_lr t"
  "is_amo_lr (t\<lparr>req_need_rsp := x7\<rparr>) = is_amo_lr t"
  "is_amo_lr (t\<lparr>req_phys_indexed := x8\<rparr>) = is_amo_lr t"
  "is_amo_lr (t\<lparr>req_uncacheable := x9\<rparr>) = is_amo_lr t"
  "is_amo_lr (t\<lparr>req_io := x10\<rparr>) = is_amo_lr t"
  "is_amo_lr (t\<lparr>req_wr_policy_hint := x11\<rparr>) = is_amo_lr t"
  "is_amo_lr (t\<lparr>req_abort := x12\<rparr>) = is_amo_lr t"
  "is_amo_lr (t\<lparr>req_fault := x13\<rparr>) = is_amo_lr t"
  by (simp_all add: is_cmo_def req_is_amo_def is_amo_def is_amo_sc_def is_amo_lr_def has_op_def)

lemma req_class_fault [simp]:
  "is_cmo (random_fault_fields dr t) = is_cmo t" "req_is_amo (random_fault_fields dr t) = req_is_amo t"
  by (simp_all add: random_fault_fields_def)

lemma random_fields_wf:
  assumes "random_draws fi fid fi2 dr"
  shows "req_wf (random_fields dr tid)" and "in_segment (random_segs ! d_seg dr) (random_fields dr tid)"
    and "random_segs ! d_seg dr \<in> set random_segs"
proof -
  let ?t = "random_fields dr tid" and ?sg = "random_segs ! d_seg dr"
  have d: "d_seg dr < 4" "d_size dr \<le> 3" using random_draws_seg [OF assms] by auto
  show sg: "?sg \<in> set random_segs" using d by (intro nth_mem) (simp add: random_segs_def)
  define u where "u = transaction_req_new\<lparr>req_op := op_bits (if is_amo_supported ?sg then d_op_amo dr else d_op dr)\<rparr>"
  let ?sz = "create_random_size dr (req_is_amo u)"
  let ?a = "segment_address ?sg (d_addr dr) (bytes_of_size ?sz)"
  have sz: "?sz \<le> 3" using d by (simp add: create_random_size_le)
  have cls: "is_cmo ?t = is_cmo u" "req_is_amo ?t = req_is_amo u" and addr: "req_addr ?t = ucast ?a"
    unfolding random_fields_def Let_def u_def by simp_all
  note b = segment_address_bounds [OF random_segs_ok [OF sg] sz, of "d_addr dr"]
  show "in_segment ?sg ?t" using b by (simp add: in_segment_def addr unat_u49_of_u64)
  show "req_wf ?t"
  proof (cases "is_cmo u")
    case True
    then have "req_be ?t = 0" "req_size ?t = 0" unfolding random_fields_def Let_def u_def by simp_all
    with True cmo_not_amo [of ?t] show ?thesis by (simp add: req_wf_def cls)
  next
    case False
    then have "req_be ?t = address_be ?a (bytes_of_size ?sz)" "req_size ?t = of_nat ?sz"
        "req_need_rsp ?t = (req_is_amo u \<or> d_need_rsp dr)"
      unfolding random_fields_def Let_def u_def by simp_all
    with b sz addr False create_random_size_amo [of dr] show ?thesis
      by (intro req_wf_access [of ?sz ?a]) (auto simp: cls)
  qed
qed


subsection \<open>The unique set\<close>

lemma bit_set_mask: "bit set_mask n \<longleftrightarrow> 6 \<le> n \<and> n < 12"
proof -
  have "(push_bit 6 1 - 1 :: u64) = mask 6" by (simp add: mask_eq_exp_minus_1 push_bit_eq_mult)
  then have "set_mask = push_bit 6 (mask 6)" by (simp add: set_mask_def)
  moreover have "bit (push_bit 6 (mask 6 :: u64)) n \<longleftrightarrow> 6 \<le> n \<and> n < 12"
    by (simp only: bit_push_bit_iff bit_mask_iff possible_bit_word) auto
  ultimately show ?thesis by metis
qed

lemma set_address_parts:
  fixes a st :: u64
  assumes "unat st < 64"
  defines "a' \<equiv> (a AND NOT set_mask) OR push_bit 6 st"
  shows "unat a' mod 64 = unat a mod 64" "unat a' div 64 mod 64 = unat st" "unat a' div 4096 = unat a div 4096"
proof -
  have "take_bit 6 st = st" using assms(1) by (intro take_bit_small) simp
  then have st: "\<not> bit st n" if "6 \<le> n" for n
    using that by (metis bit_take_bit_iff not_less)
  have bits: "bit a' n \<longleftrightarrow> n < 64 \<and> (if 6 \<le> n \<and> n < 12 then bit st (n - 6) else bit a n)" for n
  proof (cases "6 \<le> n \<and> 12 \<le> n")
    case True
    then have "\<not> bit st (n - 6)" by (intro st) linarith
    with True show ?thesis by (auto simp: a'_def bit_simps bit_set_mask dest: bit_imp_le_length)
  qed (auto simp: a'_def bit_simps bit_set_mask dest: bit_imp_le_length)
  have "take_bit 6 a' = take_bit 6 a" by (rule bit_word_eqI) (auto simp: bit_simps bits)
  then show "unat a' mod 64 = unat a mod 64"
    using unat_take_bit [of 6 a'] unat_take_bit [of 6 a] by simp
  have "take_bit 6 (drop_bit 6 a') = st"
    by (rule bit_word_eqI) (use st in \<open>auto simp: bit_simps bits not_less\<close>)
  then show "unat a' div 64 mod 64 = unat st"
    using unat_take_bit [of 6 "drop_bit 6 a'"] unat_drop_bit [of 6 a'] by simp
  have "drop_bit 12 a' = drop_bit 12 a"
    by (rule bit_word_eqI) (auto simp: bit_simps bits dest: bit_imp_le_length)
  then show "unat a' div 4096 = unat a div 4096"
    using unat_drop_bit [of 12 a'] unat_drop_bit [of 12 a] by simp
qed


text \<open>A request that stays in its segment when its set is replaced: whole spans of all sets.\<close>

definition seg_span_ok :: "hpdcache_test_memory_segment \<Rightarrow> bool" where
  "seg_span_ok sg \<longleftrightarrow> seg_ok sg \<and> 4096 dvd unat (seg_base sg) \<and> 4096 dvd unat (seg_length sg)"

lemma unique_set_segs_ok: "sg \<in> set unique_set_segs \<Longrightarrow> seg_span_ok sg"
  by (auto simp: unique_set_segs_def seg_span_ok_def seg_ok_def mk_segment_def segment_defs Let_def)

lemma same_span:
  assumes "4096 dvd b" "4096 dvd l" "b \<le> x" "x < b + l" "y div 4096 = x div (4096 :: nat)"
  shows "b \<le> y" "y < b + l"
proof -
  obtain p q where p: "b = 4096 * p" "l = 4096 * q" using assms(1,2) by (auto elim!: dvdE)
  have "p \<le> x div 4096" "x div 4096 < p + q" using assms(3,4) p by linarith+
  with assms(5) p show "b \<le> y" "y < b + l" by linarith+
qed

lemma create_random_addr_bounds:
  fixes r :: u64
  assumes sg: "seg_span_ok sg" and sz: "sz \<le> 3" and st: "unat st < 64"
  defines "a \<equiv> unat (create_random_addr st sg r (bytes_of_size sz))"
  shows "2 ^ sz dvd a" "unat (seg_base sg) \<le> a" "a < unat (seg_base sg) + unat (seg_length sg)" "a < 2 ^ 49"
    "a div 64 mod 64 = unat st"
proof -
  let ?x = "segment_address sg r (bytes_of_size sz)"
  have ok: "seg_ok sg" using sg by (simp add: seg_span_ok_def)
  note b = segment_address_bounds [OF ok sz, of r]
  have parts: "a mod 64 = unat ?x mod 64" "a div 64 mod 64 = unat st" "a div 4096 = unat ?x div 4096"
    using set_address_parts [OF st, of ?x] by (simp_all add: a_def create_random_addr_def)
  show "a div 64 mod 64 = unat st" by (rule parts)
  show "unat (seg_base sg) \<le> a" and lt: "a < unat (seg_base sg) + unat (seg_length sg)"
    using same_span [OF _ _ b(2,3) parts(3)] sg by (auto simp: seg_span_ok_def)
  show "a < 2 ^ 49" using lt ok by (simp add: seg_ok_def)
  have "2 ^ sz dvd (64 :: nat)"
    using le_imp_power_dvd [of sz 6 "2 :: nat"] sz by simp
  then have "2 ^ sz dvd a \<longleftrightarrow> 2 ^ sz dvd a mod 64" "2 ^ sz dvd unat ?x \<longleftrightarrow> 2 ^ sz dvd unat ?x mod 64"
    by (simp_all add: dvd_mod_iff)
  with b(1) parts(1) show "2 ^ sz dvd a" by simp
qed

lemma unique_set_fields_wf:
  assumes "unique_set_draws dr" and st: "unat st < 64"
  shows "req_wf (unique_set_fields st dr tid)"
    and "in_segment (unique_set_segs ! d_seg dr) (unique_set_fields st dr tid)"
    and "unique_set_segs ! d_seg dr \<in> set unique_set_segs"
    and "unat (get_cache_set (unique_set_fields st dr tid)) = unat st"
proof -
  let ?t = "unique_set_fields st dr tid" and ?sg = "unique_set_segs ! d_seg dr"
  have d: "d_seg dr < 4" "d_size dr \<le> 3"
    using assms(1) by (auto simp: unique_set_draws_def in_bag_def unique_set_seg_distribution_def)
  show sg: "?sg \<in> set unique_set_segs" using d by (intro nth_mem) (simp add: unique_set_segs_def Let_def)
  define u where "u = transaction_req_new\<lparr>req_op := op_bits (if is_amo_supported ?sg then d_op_amo dr else d_op dr)\<rparr>"
  let ?sz = "create_random_size dr (req_is_amo u)"
  let ?a = "create_random_addr st ?sg (d_addr dr) (bytes_of_size ?sz)"
  have sz: "?sz \<le> 3" using d by (simp add: create_random_size_le)
  have cls: "is_cmo ?t = is_cmo u" "req_is_amo ?t = req_is_amo u" and addr: "req_addr ?t = ucast ?a"
    and rsp: "req_need_rsp ?t = (req_is_amo u \<or> d_need_rsp dr)"
    unfolding unique_set_fields_def Let_def u_def by simp_all
  note b = create_random_addr_bounds [OF unique_set_segs_ok [OF sg] sz st, of "d_addr dr"]
  show "in_segment ?sg ?t" using b by (simp add: in_segment_def addr unat_u49_of_u64)
  show "unat (get_cache_set ?t) = unat st" using b by (simp add: unat_get_cache_set addr unat_u49_of_u64)
  show "req_wf ?t"
  proof (cases "is_cmo u")
    case True
    then have "req_be ?t = 0" "req_size ?t = 0" unfolding unique_set_fields_def Let_def u_def by simp_all
    with True cmo_not_amo [of ?t] show ?thesis by (simp add: req_wf_def cls)
  next
    case False
    then have "req_be ?t = address_be ?a (bytes_of_size ?sz)" "req_size ?t = of_nat ?sz"
      unfolding unique_set_fields_def Let_def u_def by simp_all
    with b sz addr rsp False create_random_size_amo [of dr] show ?thesis
      by (intro req_wf_access [of ?sz ?a]) (auto simp: cls)
  qed
qed

subsection \<open>Read and write requests\<close>

lemma op_bits_class:
  "req_op t = op_bits HPDCACHE_REQ_LOAD \<Longrightarrow> \<not> is_cmo t \<and> \<not> req_is_amo t \<and> is_load t"
  "req_op t = op_bits HPDCACHE_REQ_STORE \<Longrightarrow> \<not> is_cmo t \<and> \<not> req_is_amo t \<and> is_store t"
  by (simp_all add: is_cmo_def req_is_amo_def is_amo_def is_amo_sc_def is_amo_lr_def is_load_def is_store_def
      has_op_bits)

lemma rw_segs_ok: "seg_ok read_seg" "seg_ok write_seg"
  by (auto simp: read_seg_def write_seg_def seg_ok_def segment_defs)

lemma read_fields_wf:
  assumes "read_draws dr"
  shows "req_wf (read_fields dr tid) \<and> is_load (read_fields dr tid) \<and> in_segment read_seg (read_fields dr tid) \<and>
    req_need_rsp (read_fields dr tid)"
proof -
  let ?t = "read_fields dr tid" and ?a = "segment_address read_seg (d_addr dr) (bytes_of_size (d_size dr))"
  have sz: "d_size dr \<le> 3" and op: "req_op ?t = op_bits HPDCACHE_REQ_LOAD"
    using assms by (auto simp: read_draws_def ranged_size_def read_fields_def Let_def)
  have f: "req_addr ?t = ucast ?a" "req_be ?t = address_be ?a (bytes_of_size (d_size dr))" "req_size ?t = of_nat (d_size dr)"
      "req_need_rsp ?t"
    by (simp_all add: read_fields_def Let_def)
  note b = segment_address_bounds [OF rw_segs_ok(1) sz, of "d_addr dr"]
  have "req_wf ?t" using b f sz op_bits_class(1) [OF op] by (intro req_wf_access [of "d_size dr" ?a]) auto
  with b op_bits_class(1) [OF op] show ?thesis by (simp add: in_segment_def f unat_u49_of_u64)
qed

lemma write_fields_wf:
  assumes "write_draws dr"
  shows "req_wf (write_fields dr tid) \<and> is_store (write_fields dr tid) \<and> in_segment write_seg (write_fields dr tid)"
proof -
  let ?t = "write_fields dr tid" and ?a = "segment_address write_seg (d_addr dr) (bytes_of_size (d_size dr))"
  have sz: "d_size dr \<le> 3" and op: "req_op ?t = op_bits HPDCACHE_REQ_STORE"
    using assms by (auto simp: write_draws_def ranged_size_def write_fields_def Let_def)
  have f: "req_addr ?t = ucast ?a" "req_be ?t = address_be ?a (bytes_of_size (d_size dr))" "req_size ?t = of_nat (d_size dr)"
    by (simp_all add: write_fields_def Let_def)
  note b = segment_address_bounds [OF rw_segs_ok(2) sz, of "d_addr dr"]
  have "req_wf ?t" using b f sz op_bits_class(2) [OF op] by (intro req_wf_access [of "d_size dr" ?a]) auto
  with b op_bits_class(2) [OF op] show ?thesis by (simp add: in_segment_def f unat_u49_of_u64)
qed

subsection \<open>The store-conditional of a pair\<close>

lemma sc_fields_addr:
  assumes "d_size dr \<le> 3"
  shows "unat (req_addr (sc_fields (ucast (req_addr t)) unc dr tid)) =
           unat (req_addr t) div 2 ^ create_random_size dr True * 2 ^ create_random_size dr True"
    and "req_wf (sc_fields (ucast (req_addr t)) unc dr tid)"
proof -
  let ?sz = "create_random_size dr True" and ?t = "sc_fields (ucast (req_addr t)) unc dr tid"
  let ?a = "align_address (ucast (req_addr t)) (bytes_of_size ?sz)"
  have sz: "?sz \<le> 3" using assms by (rule create_random_size_le)
  have ua: "unat ?a = unat (req_addr t) div 2 ^ ?sz * 2 ^ ?sz" by (simp add: unat_align_address sz)
  have lt: "unat ?a < 2 ^ 49" unfolding ua by (rule le_less_trans [OF _ unat_addr_less [of t]]) simp
  have f: "req_addr ?t = ucast ?a" "req_be ?t = address_be ?a (bytes_of_size ?sz)" "req_size ?t = of_nat ?sz"
      "req_need_rsp ?t" "req_op ?t = op_bits HPDCACHE_REQ_AMO_SC"
    by (simp_all add: sc_fields_def Let_def)
  show "unat (req_addr ?t) = unat (req_addr t) div 2 ^ ?sz * 2 ^ ?sz"
    using unat_u49_of_u64 [OF lt] by (simp add: f ua)
  have "\<not> is_cmo ?t" by (simp add: is_cmo_def has_op_bits [OF f(5)])
  with f lt sz create_random_size_amo [of dr] show "req_wf ?t"
    by (intro req_wf_access [of ?sz ?a]) (auto simp: ua)
qed

lemma aligned_down_in_segment:
  assumes "seg_ok sg" "sz \<le> 3" "in_segment sg t" "unat (req_addr u) = unat (req_addr t) div 2 ^ sz * 2 ^ sz"
  shows "in_segment sg u"
proof -
  have "2 ^ sz dvd (8 :: nat)" using le_imp_power_dvd [OF assms(2), of "2 :: nat"] by simp
  then have "2 ^ sz dvd unat (seg_base sg)" using assms(1) by (auto simp: seg_ok_def intro: dvd_trans)
  then have "unat (seg_base sg) = unat (seg_base sg) div 2 ^ sz * 2 ^ sz" by simp
  also have "\<dots> \<le> unat (req_addr u)"
    unfolding assms(4) using assms(3) by (intro mult_le_mono1 div_le_mono) (simp add: in_segment_def)
  finally have "unat (seg_base sg) \<le> unat (req_addr u)" .
  moreover have "unat (req_addr u) \<le> unat (req_addr t)" by (simp add: assms(4))
  ultimately show ?thesis using assms(3) by (simp add: in_segment_def)
qed

lemma aligned_down_same_line:
  assumes "sz \<le> 3"
  shows "(a div 2 ^ sz * 2 ^ sz) div 64 = a div (64 :: nat)"
proof -
  obtain k where k: "(64 :: nat) = 2 ^ sz * k"
    using le_imp_power_dvd [of sz 6 "2 :: nat"] assms by (auto elim!: dvdE)
  have "(a div 2 ^ sz * 2 ^ sz) div (2 ^ sz * k) = (a div 2 ^ sz * 2 ^ sz) div 2 ^ sz div k"
    by (rule div_mult2_eq)
  also have "\<dots> = a div (2 ^ sz * k)" by (simp add: div_mult2_eq)
  finally show ?thesis by (simp add: k)
qed

section \<open>Sources of requests\<close>

text \<open>
  A source fills requests that satisfy a predicate whenever its draws respect their distributions;
  a source for pairs also when it derives the store-conditional. All transactions a run sends then
  satisfy the predicate, whatever the other threads do to the identifiers in flight, and the run
  does not fail: the waiting loop guarantees an identifier.
\<close>

definition env_ok :: "(draws \<Rightarrow> bool) \<Rightarrow> run_env \<Rightarrow> bool" where
  "env_ok ok e \<longleftrightarrow> (\<forall>k. ok (e_draws e k)) \<and> (\<forall>k ids. is_available_id (e_ids e k ids))"

locale request_source =
  fixes flds :: "draws \<Rightarrow> tid_bv \<Rightarrow> hpdcache_test_transaction_req"
    and ok :: "draws \<Rightarrow> bool"
    and good :: "hpdcache_test_transaction_req \<Rightarrow> bool"
  assumes flds_good: "ok dr \<Longrightarrow> good (flds dr tid)"
begin

lemma create_and_send_good:
  assumes "env_ok ok e" "\<forall>t \<in> set (r_out s). good t" "\<And>k tid. good (fl (e_draws e k) tid)"
  shows "\<exists>s'. create_and_send e fl s = Some s' \<and> (\<forall>t \<in> set (r_out s'). good t) \<and>
           length (r_out s') = Suc (length (r_out s))"
proof -
  have "is_available_id (e_ids e (r_k s) (r_ids s))" using assms(1) by (simp add: env_ok_def)
  from allocate_id_ok [OF this, of "d_rand (e_draws e (r_k s))"] show ?thesis
    using assms(2,3) by (auto simp: create_and_send_def)
qed

lemma create_and_send_source:
  assumes "env_ok ok e" "\<forall>t \<in> set (r_out s). good t"
  shows "\<exists>s'. create_and_send e flds s = Some s' \<and> (\<forall>t \<in> set (r_out s'). good t) \<and>
           length (r_out s') = Suc (length (r_out s))"
  by (rule create_and_send_good) (use assms flds_good in \<open>auto simp: env_ok_def\<close>)

lemma send_many_good:
  assumes "env_ok ok e" "\<forall>t \<in> set (r_out s). good t"
  shows "\<exists>s'. send_many n e flds s = Some s' \<and> (\<forall>t \<in> set (r_out s'). good t) \<and>
           length (r_out s') = length (r_out s) + n"
  using assms(2)
proof (induction n arbitrary: s)
  case 0
  then show ?case by simp
next
  case (Suc n)
  from create_and_send_source [OF assms(1) Suc.prems] obtain s1
    where s1: "create_and_send e flds s = Some s1" "\<forall>t \<in> set (r_out s1). good t"
      "length (r_out s1) = Suc (length (r_out s))" by blast
  from Suc.IH [OF s1(2)] s1 show ?case by auto
qed

lemma iterate_good:
  assumes "\<And>s. \<forall>t \<in> set (r_out s). good t \<Longrightarrow>
      \<exists>s'. f s = Some s' \<and> (\<forall>t \<in> set (r_out s'). good t) \<and> Suc (length (r_out s)) \<le> length (r_out s')"
    and "\<forall>t \<in> set (r_out s). good t"
  shows "\<exists>s'. iterate_run n f s = Some s' \<and> (\<forall>t \<in> set (r_out s'). good t) \<and>
           length (r_out s) + n \<le> length (r_out s')"
  using assms(2)
proof (induction n arbitrary: s)
  case 0
  then show ?case by simp
next
  case (Suc n)
  from assms(1) [OF Suc.prems] obtain s1
    where s1: "f s = Some s1" "\<forall>t \<in> set (r_out s1). good t" "Suc (length (r_out s)) \<le> length (r_out s1)" by blast
  from Suc.IH [OF s1(2)] s1 show ?case by fastforce
qed

lemma plain_run_good:
  assumes "env_ok ok e"
  shows "\<exists>out. map_option finish_run (iterate_run n (create_and_send e flds) run_start) =
               Some (map Some out @ [None]) \<and> n \<le> length out \<and> (\<forall>t \<in> set out. good t)"
proof -
  obtain s' where "iterate_run n (create_and_send e flds) run_start = Some s'"
      "\<forall>t \<in> set (r_out s'). good t" "length (r_out run_start) + n \<le> length (r_out s')"
    using iterate_good [of "create_and_send e flds" run_start n] create_and_send_source [OF assms]
    by (fastforce simp: run_start_def)
  then show ?thesis by (auto simp: finish_run_def run_start_def)
qed

end

locale lrsc_source = request_source +
  assumes sc_good: "good t \<Longrightarrow> ok dr \<Longrightarrow> good (sc_fields (ucast (req_addr t)) (req_uncacheable t) dr tid)"
begin

lemma lrsc_iteration_good:
  assumes e: "env_ok ok e" and s: "\<forall>t \<in> set (r_out s). good t"
  shows "\<exists>s'. lrsc_iteration e flds s = Some s' \<and> (\<forall>t \<in> set (r_out s'). good t) \<and>
           Suc (length (r_out s)) \<le> length (r_out s')"
proof -
  obtain s1 where s1: "create_and_send e flds s = Some s1" "\<forall>t \<in> set (r_out s1). good t"
      "length (r_out s1) = Suc (length (r_out s))"
    using create_and_send_source [OF e s] by blast
  let ?t = "last (r_out s1)"
  have t: "good ?t" using s1(2,3) by (metis last_in_set length_0_conv nat.distinct(1))
  obtain s2 where s2: "send_many (e_inbetween e) e flds s1 = Some s2" "\<forall>t \<in> set (r_out s2). good t"
      "length (r_out s2) = length (r_out s1) + e_inbetween e"
    using send_many_good [OF e s1(2)] by blast
  let ?fl = "sc_fields (ucast (req_addr ?t)) (req_uncacheable ?t)"
  have "\<And>k tid. good (?fl (e_draws e k) tid)" using e t by (auto simp: env_ok_def intro: sc_good)
  from create_and_send_good [OF e s2(2), of ?fl, OF this] s1 s2 show ?thesis
    by (auto simp: lrsc_iteration_def Let_def)
qed

lemma lrsc_run_good:
  assumes "env_ok ok e"
  shows "\<exists>out. map_option finish_run (iterate_run n (lrsc_iteration e flds) run_start) =
               Some (map Some out @ [None]) \<and> n \<le> length out \<and> (\<forall>t \<in> set out. good t)"
proof -
  obtain s' where "iterate_run n (lrsc_iteration e flds) run_start = Some s'"
      "\<forall>t \<in> set (r_out s'). good t" "length (r_out run_start) + n \<le> length (r_out s')"
    using iterate_good [OF lrsc_iteration_good [OF assms], of run_start n] by (auto simp: run_start_def)
  then show ?thesis by (auto simp: finish_run_def run_start_def)
qed

end


section \<open>The four sequences are sources\<close>

definition req_in :: "hpdcache_test_memory_segment list \<Rightarrow> hpdcache_test_transaction_req \<Rightarrow> bool" where
  "req_in segs t \<longleftrightarrow> req_wf t \<and> (\<exists>sg \<in> set segs. in_segment sg t)"

lemma sc_in_segments:
  assumes "d_size dr \<le> 3" "\<And>sg. sg \<in> set segs \<Longrightarrow> seg_ok sg" "req_in segs t"
  shows "req_in segs (sc_fields (ucast (req_addr t)) unc dr tid)"
proof -
  obtain sg where sg: "sg \<in> set segs" "in_segment sg t" using assms(3) by (auto simp: req_in_def)
  from aligned_down_in_segment [OF assms(2) [OF sg(1)] create_random_size_le [OF assms(1)] sg(2)
      sc_fields_addr(1) [OF assms(1)]]
  show ?thesis using sg(1) sc_fields_addr(2) [OF assms(1)] by (auto simp: req_in_def)
qed

lemma sc_same_set:
  assumes "d_size dr \<le> 3"
  shows "unat (get_cache_set (sc_fields (ucast (req_addr t)) unc dr tid)) = unat (get_cache_set t)"
  unfolding unat_get_cache_set sc_fields_addr(1) [OF assms]
  by (simp add: aligned_down_same_line [OF create_random_size_le [OF assms]])

interpretation random_src: lrsc_source random_fields "random_draws fi fid fi2" "req_in random_segs" for fi fid fi2
proof
  show "req_in random_segs (random_fields dr tid)" if "random_draws fi fid fi2 dr" for dr tid
    using random_fields_wf [OF that] by (auto simp: req_in_def)
  show "req_in random_segs (sc_fields (ucast (req_addr t)) (req_uncacheable t) dr tid)"
    if "req_in random_segs t" "random_draws fi fid fi2 dr" for t dr tid
    using sc_in_segments [OF _ random_segs_ok that(1)] random_draws_seg [OF that(2)] by simp
qed

definition in_unique_set :: "u32 \<Rightarrow> hpdcache_test_transaction_req \<Rightarrow> bool" where
  "in_unique_set rnd t \<longleftrightarrow> req_in unique_set_segs t \<and> unat (get_cache_set t) = unat rnd mod HPDCACHE_SETS"

lemma unat_unique_set: "unat (of_nat (unat (rnd :: u32) mod 64) :: u64) = unat rnd mod 64"
  by (intro unat_of_nat_self) (simp add: less_trans [OF mod_less_divisor])

interpretation unique_src: lrsc_source "unique_set_fields (of_nat (unat rnd mod HPDCACHE_SETS))" unique_set_draws
  "in_unique_set rnd" for rnd
proof
  have st: "unat (of_nat (unat rnd mod HPDCACHE_SETS) :: u64) < 64" by (simp add: unat_unique_set)
  show "in_unique_set rnd (unique_set_fields (of_nat (unat rnd mod HPDCACHE_SETS)) dr tid)"
    if "unique_set_draws dr" for dr tid
    using unique_set_fields_wf [OF that st] by (auto simp: in_unique_set_def req_in_def unat_unique_set)
  show "in_unique_set rnd (sc_fields (ucast (req_addr t)) (req_uncacheable t) dr tid)"
    if "in_unique_set rnd t" "unique_set_draws dr" for t dr tid
  proof -
    have sz: "d_size dr \<le> 3" using that(2) by (simp add: unique_set_draws_def)
    with that(1) sc_in_segments [OF sz, of unique_set_segs] unique_set_segs_ok sc_same_set [OF sz] show ?thesis
      by (simp add: in_unique_set_def seg_span_ok_def)
  qed
qed

interpretation read_src: request_source read_fields read_draws
    "\<lambda>t. req_wf t \<and> is_load t \<and> in_segment read_seg t \<and> req_need_rsp t"
  by unfold_locales (rule read_fields_wf)

interpretation write_src: request_source write_fields write_draws "\<lambda>t. req_wf t \<and> is_store t \<and> in_segment write_seg t"
  by unfold_locales (rule write_fields_wf)

section \<open>Properties\<close>

text \<open>
  C23. A run of the random sequence completes for any number of transactions, ends with exactly one
  null pointer, and every request it sends is well formed (aligned, byte enables that cover exactly
  the bytes accessed, AMOs of word or doubleword size with a response, no bytes for a cache
  operation) and lies in one of the four segments, the store-conditionals included.
\<close>

theorem random_run_wellformed:
  assumes "env_ok (random_draws fi fid fi2) e"
  shows "\<exists>out. random_run e n = Some (map Some out @ [None]) \<and> n \<le> length out \<and>
           (\<forall>t \<in> set out. req_wf t \<and> (\<exists>sg \<in> set random_segs. in_segment sg t))"
  using random_src.lrsc_run_good [OF assms, of n] by (simp add: random_run_def req_in_def)

definition draws_w :: draws where
  "draws_w = \<lparr>d_seg = 1, d_addr = 0x12345, d_op = HPDCACHE_REQ_LOAD, d_op_amo = HPDCACHE_REQ_AMO_LR, d_data = 7,
     d_size = 2, d_rand = 5, d_wr_policy = HPDCACHE_WR_POLICY_AUTO, d_need_rsp = True, d_fault = False,
     d_fault_way = 0, d_fault_domain = CACHE_DAT, d_fault_double = False\<rparr>"

definition env_w :: "draws \<Rightarrow> run_env" where
  "env_w dr = \<lparr>e_draws = (\<lambda>_. dr), e_ids = (\<lambda>k ids. take 10 ids), e_sc_do = (\<lambda>_. True), e_inbetween = 2\<rparr>"

lemma env_w_ok: "ok dr \<Longrightarrow> env_ok ok (env_w dr)"
  by (simp add: env_ok_def env_w_def is_available_id_def min.strict_coboundedI2)

lemma random_draws_w: "random_draws False False False draws_w"
  by code_simp

theorem random_run_wellformed_witness:
  "\<exists>out. random_run (env_w draws_w) 3 = Some (map Some out @ [None]) \<and> 3 \<le> length out \<and>
     (\<forall>t \<in> set out. req_wf t \<and> (\<exists>sg \<in> set random_segs. in_segment sg t))"
  by (rule random_run_wellformed [OF env_w_ok [where ok = "random_draws False False False", OF random_draws_w]])

text \<open>
  C24. The unique-set sequence lives up to its name: every request of a run, store-conditionals
  included, is well formed, lies in a segment of the sequence and falls into the one cache set drawn
  at the start of the run.
\<close>

theorem unique_set_run_single_set:
  assumes "env_ok unique_set_draws e"
  shows "\<exists>out. unique_set_run rnd e n = Some (map Some out @ [None]) \<and> n \<le> length out \<and>
           (\<forall>t \<in> set out. req_wf t \<and> (\<exists>sg \<in> set unique_set_segs. in_segment sg t) \<and>
                          unat (get_cache_set t) = unat rnd mod HPDCACHE_SETS)"
  using unique_src.lrsc_run_good [OF assms, where n = n and rnd = rnd]
  by (simp add: unique_set_run_def in_unique_set_def req_in_def Let_def)

theorem unique_set_run_single_set_witness:
  "\<exists>out. unique_set_run 77 (env_w draws_w) 3 = Some (map Some out @ [None]) \<and> 3 \<le> length out \<and>
     (\<forall>t \<in> set out. unat (get_cache_set t) = 13)"
proof -
  have "unique_set_draws draws_w" by code_simp
  from unique_set_run_single_set [OF env_w_ok [where ok = unique_set_draws, OF this], of 77 3] show ?thesis by auto
qed

text \<open>
  The read and write sequences send only well-formed loads that expect a response, respectively
  stores, inside their segment, then the null pointer.
\<close>

theorem read_write_runs:
  assumes "env_ok read_draws e" and "env_ok write_draws e'"
  shows "(\<exists>out. read_run e n = Some (map Some out @ [None]) \<and> n \<le> length out \<and>
            (\<forall>t \<in> set out. req_wf t \<and> is_load t \<and> in_segment read_seg t \<and> req_need_rsp t)) \<and>
         (\<exists>out. write_run e' n = Some (map Some out @ [None]) \<and> n \<le> length out \<and>
            (\<forall>t \<in> set out. req_wf t \<and> is_store t \<and> in_segment write_seg t))"
  using read_src.plain_run_good [OF assms(1), of n] write_src.plain_run_good [OF assms(2), of n]
  by (simp add: read_run_def write_run_def)

theorem read_write_runs_witness:
  "\<exists>out. read_run (env_w (draws_w\<lparr>d_seg := 0\<rparr>)) 2 = Some (map Some out @ [None]) \<and> (\<forall>t \<in> set out. is_load t)"
proof -
  have "read_draws (draws_w\<lparr>d_seg := 0\<rparr>)" "write_draws (draws_w\<lparr>d_seg := 0, d_op := HPDCACHE_REQ_STORE\<rparr>)" by code_simp+
  from read_write_runs [OF env_w_ok [where ok = read_draws, OF this(1)] env_w_ok [where ok = write_draws, OF this(2)], of 2]
  show ?thesis by auto
qed


text \<open>
  Creating a transaction works from any state of the pool and the identifiers in which one is
  available: it returns an object nobody holds, filled as the sequence prescribes, and carrying an
  identifier that is not in flight, which is then recorded.
\<close>

theorem create_transaction_object:
  assumes "pool_run transaction_req_new (seq_pool s) out" and "is_available_id (seq_ids s)"
  shows "\<exists>r i s'. create_transaction flds dr s = Some (r, s') \<and> r \<notin> set out \<and>
           heap (seq_pool s') r = flds dr (of_nat i) \<and> i \<notin> set (seq_ids s) \<and> i < 64 \<and>
           seq_ids s' = seq_ids s @ [i]"
proof -
  obtain i where i: "allocate_id (d_rand dr) (seq_ids s) = Some (i, seq_ids s @ [i])" "i \<notin> set (seq_ids s)" "i < 64"
    using allocate_id_ok [OF assms(2)] by blast
  obtain r p where "pool_acquire transaction_req_new (seq_pool s) = Some (r, p)" "r \<notin> set out"
    using pool_acquire_inv [OF pool_run_inv [OF assms(1)]] by blast
  with i assms(2) show ?thesis by (auto simp: create_transaction_def sequence_acquire_def)
qed

theorem create_transaction_object_witness:
  "\<exists>r s'. create_transaction read_fields draws_w
      \<lparr>seq_ids = [5], seq_name = ''s'', max_transactions = 1,
       seq_pool = transaction_pool_new (\<lambda>_. transaction_req_new) 10, transaction_fifo_o = [],
       transaction_ret_i = [], waits = 0\<rparr> = Some (r, s') \<and> length (seq_ids s') = 2"
proof -
  let ?s = "\<lparr>seq_ids = [5], seq_name = ''s'', max_transactions = 1,
       seq_pool = transaction_pool_new (\<lambda>_. transaction_req_new) 10, transaction_fifo_o = [],
       transaction_ret_i = [], waits = 0\<rparr>"
  have "pool_run transaction_req_new (seq_pool ?s) []" by (simp add: pool_run.start)
  from create_transaction_object [OF this, of read_fields draws_w] show ?thesis
    by (auto simp: is_available_id_def)
qed

end
