(* ===== verification/Mem_Resp.thy ===== *)
theory Mem_Resp
  imports Mem_Model Amo
begin

text \<open>
  \<^verbatim>\<open>hpdcache_test_mem_resp_model_base.h\<close> and \<^verbatim>\<open>hpdcache_test_mem_resp_model.h\<close>: the memory behind the
  cache. The read and write operations are functions on the memory, the error segments and the
  exclusive reservations; the threads are a step relation in which every point where a thread can be
  suspended (a \<^verbatim>\<open>wait()\<close>) separates two steps, so that reads and writes interleave as they do in the
  simulator. An access outside a bit vector and a failed assertion are \<open>None\<close>.
\<close>

section \<open>The base class\<close>

record segment_t =
  base_addr :: u64
  end_addr :: u64
  seg_error :: bool

record excl_reservation_buf_t =
  excl_valid :: bool
  excl_base_addr :: u64
  excl_end_addr :: u64

definition MEM_NOC_DATA_WORDS :: nat where
  "MEM_NOC_DATA_WORDS = HPDCACHE_MEM_DATA_WIDTH div 64"

lemma mem_noc_data_words [simp]: "MEM_NOC_DATA_WORDS = 8"
  by (simp add: MEM_NOC_DATA_WORDS_def)

definition within_region :: "u64 \<Rightarrow> u64 \<Rightarrow> u64 \<Rightarrow> u64 \<Rightarrow> bool" where
  "within_region base0 end0 base1 end1 =
     (if end0 \<le> base1 then False else if base0 \<ge> end1 then False else True)"

fun within_error_region :: "segment_t list \<Rightarrow> u64 \<Rightarrow> u64 \<Rightarrow> bool" where
  "within_error_region [] b e = False"
| "within_error_region (s # ss) b e =
     (if within_region (base_addr s) (end_addr s) b e then seg_error s else within_error_region ss b e)"

definition mem_compute_amo :: "u32 \<Rightarrow> u64 \<Rightarrow> u64 \<Rightarrow> nat \<Rightarrow> u64 option" where
  "mem_compute_amo atop ld_data st_data bytes =
     (let umax = ld_data > st_data;
          smax = (if bytes = 4 then sint (ucast ld_data :: u32) > sint (ucast st_data :: u32)
                  else sint ld_data > sint st_data) in
      if atop = atomic_code HPDCACHE_MEM_ATOMIC_ADD then Some (ld_data + st_data)
      else if atop = atomic_code HPDCACHE_MEM_ATOMIC_CLR then Some (ld_data AND NOT st_data)
      else if atop = atomic_code HPDCACHE_MEM_ATOMIC_SET then Some (ld_data OR st_data)
      else if atop = atomic_code HPDCACHE_MEM_ATOMIC_EOR then Some (ld_data XOR st_data)
      else if atop = atomic_code HPDCACHE_MEM_ATOMIC_SMAX then Some (if smax then ld_data else st_data)
      else if atop = atomic_code HPDCACHE_MEM_ATOMIC_UMAX then Some (if umax then ld_data else st_data)
      else if atop = atomic_code HPDCACHE_MEM_ATOMIC_SMIN then Some (if smax then st_data else ld_data)
      else if atop = atomic_code HPDCACHE_MEM_ATOMIC_UMIN then Some (if umax then st_data else ld_data)
      else if atop = atomic_code HPDCACHE_MEM_ATOMIC_SWAP then Some st_data
      else None)"

record mem_write_req_data_flit_t =
  flit_data :: mem_bv
  flit_be :: u64
  flit_last :: bool

type_synonym mem_write_req_flit_t = hpdcache_test_transaction_mem_req

text \<open>Their texts; \<open>sc_bits\<close> is the output operator of \<^verbatim>\<open>sc_bv\<close> (width and value).\<close>

definition write_flit_to_string :: "mem_write_req_flit_t \<Rightarrow> string" where
  "write_flit_to_string r =
     ''MEM_WRITE'' @ '' / ADDR = 0x'' @ hex (unat (mreq_addr r)) @ '' / LEN = 0d'' @ digits 10 (unat (mreq_len r)) @
     '' / ID = 0x'' @ hex (unat (mreq_id r))"

definition write_data_flit_to_string :: "(nat \<Rightarrow> nat \<Rightarrow> string) \<Rightarrow> mem_write_req_data_flit_t \<Rightarrow> string" where
  "write_data_flit_to_string sc_bits r =
     ''MEM_WRITE_DATA'' @ '' / DATA = 0x'' @ sc_bits HPDCACHE_MEM_DATA_WIDTH (unat (flit_data r)) @
     '' / BE = 0x'' @ sc_bits (HPDCACHE_MEM_DATA_WIDTH div 8) (unat (flit_be r)) @ (if flit_last r then '' / LAST'' else '''')"

text \<open>The delay distributions the constructor installs: (range of delays, weight).\<close>

definition ready_delay_distribution :: "((int \<times> int) \<times> nat) list" where
  "ready_delay_distribution = [((0, 2), 90), ((3, 8), 8), ((9, 32), 2)]"

definition valid_delay_distribution :: "((int \<times> int) \<times> nat) list" where
  "valid_delay_distribution = [((0, 2), 8), ((3, 8), 90), ((9, 64), 2)]"

record mem_resp =
  errorsegs :: "segment_t list"
  memory_m :: mem_model
  excl_buf_m :: "nat \<Rightarrow> excl_reservation_buf_t"
  ra_ready_delay :: "((int \<times> int) \<times> nat) list"
  rd_valid_delay :: "((int \<times> int) \<times> nat) list"
  wa_ready_delay :: "((int \<times> int) \<times> nat) list"
  wd_ready_delay :: "((int \<times> int) \<times> nat) list"
  wb_valid_delay :: "((int \<times> int) \<times> nat) list"

text \<open>The constructor; the reservation buffers are not initialised.\<close>

definition mem_resp_new :: "(nat \<Rightarrow> excl_reservation_buf_t) \<Rightarrow> mem_resp" where
  "mem_resp_new junk =
     \<lparr>errorsegs = [], memory_m = mem_model_new MEM_MODEL_INIT_RANDOM 0, excl_buf_m = junk,
      ra_ready_delay = ready_delay_distribution, rd_valid_delay = valid_delay_distribution,
      wa_ready_delay = ready_delay_distribution, wd_ready_delay = ready_delay_distribution,
      wb_valid_delay = valid_delay_distribution\<rparr>"

definition add_error_segment :: "segment_t \<Rightarrow> mem_resp \<Rightarrow> mem_resp" where
  "add_error_segment s m = m\<lparr>errorsegs := errorsegs m @ [s]\<rparr>"

definition set_ra_ready_delay_distribution :: "((int \<times> int) \<times> nat) list \<Rightarrow> mem_resp \<Rightarrow> mem_resp" where
  "set_ra_ready_delay_distribution d m = m\<lparr>ra_ready_delay := d\<rparr>"

definition set_rd_valid_delay_distribution :: "((int \<times> int) \<times> nat) list \<Rightarrow> mem_resp \<Rightarrow> mem_resp" where
  "set_rd_valid_delay_distribution d m = m\<lparr>rd_valid_delay := d\<rparr>"

definition set_wa_ready_delay_distribution :: "((int \<times> int) \<times> nat) list \<Rightarrow> mem_resp \<Rightarrow> mem_resp" where
  "set_wa_ready_delay_distribution d m = m\<lparr>wa_ready_delay := d\<rparr>"

definition set_wd_ready_delay_distribution :: "((int \<times> int) \<times> nat) list \<Rightarrow> mem_resp \<Rightarrow> mem_resp" where
  "set_wd_ready_delay_distribution d m = m\<lparr>wd_ready_delay := d\<rparr>"

definition set_wb_valid_delay_distribution :: "((int \<times> int) \<times> nat) list \<Rightarrow> mem_resp \<Rightarrow> mem_resp" where
  "set_wb_valid_delay_distribution d m = m\<lparr>wb_valid_delay := d\<rparr>"

section \<open>Reading\<close>

text \<open>
  The request as it is sampled from the ports: the 64-bit address is read with \<^verbatim>\<open>to_uint()\<close>, which
  keeps its low 32 bits.
\<close>

definition sample_req ::
  "u64 \<Rightarrow> 8 word \<Rightarrow> 3 word \<Rightarrow> 4 word \<Rightarrow> 2 word \<Rightarrow> 4 word \<Rightarrow> bool \<Rightarrow> hpdcache_test_transaction_mem_req" where
  "sample_req addr_i len_i size_i id_i command_i atomic_i cacheable_i =
     \<lparr>mreq_addr = ucast (ucast addr_i :: u32), mreq_len = ucast len_i, mreq_size = ucast size_i,
      mreq_id = ucast id_i, mreq_command = ucast command_i, mreq_atomic = ucast atomic_i,
      mreq_cacheable = cacheable_i\<rparr>"

definition req_bytes :: "'a hpdcache_test_transaction_mem_req_scheme \<Rightarrow> nat" where
  "req_bytes r = 2 ^ unat (mreq_size r)"

definition req_words :: "'a hpdcache_test_transaction_mem_req_scheme \<Rightarrow> nat" where
  "req_words r = (let words = req_bytes r div 8 in if words = 0 then 1 else words)"

definition read_in_error :: "mem_resp \<Rightarrow> hpdcache_test_transaction_mem_req \<Rightarrow> bool" where
  "read_in_error m req = within_error_region (errorsegs m) (mreq_addr req) (mreq_addr req + of_nat (req_bytes req))"

text \<open>A load-exclusive takes the reservation of its identifier.\<close>

definition take_reservation :: "hpdcache_test_transaction_mem_req \<Rightarrow> mem_resp \<Rightarrow> mem_resp" where
  "take_reservation req m =
     (if mem_is_ldex req then
        m\<lparr>excl_buf_m := (excl_buf_m m)(unat (mreq_id req) :=
            \<lparr>excl_valid = True, excl_base_addr = mreq_addr req,
             excl_end_addr = mreq_addr req + of_nat (req_bytes req)\<rparr>)\<rparr>
      else m)"

text \<open>The words of one beat, into the response data.\<close>

fun read_words :: "rand_src \<Rightarrow> u64 \<Rightarrow> nat \<Rightarrow> nat \<Rightarrow> mem_model \<Rightarrow> mem_bv \<Rightarrow> mem_bv \<times> mem_model" where
  "read_words rand addr w 0 mm data = (data, mm)"
| "read_words rand addr w (Suc n) mm data =
     (let word_addr = drop_bit 3 addr + of_nat w;
          (ld_data, mm') = readMemory rand mm word_addr;
          r = unat word_addr mod MEM_NOC_DATA_WORDS
      in read_words rand addr (Suc w) n mm' (bv_set_range ((r + 1) * 64 - 1) (r * 64) ld_data data))"

definition read_beat ::
  "rand_src \<Rightarrow> hpdcache_test_transaction_mem_req \<Rightarrow> nat \<Rightarrow> u64 \<Rightarrow> mem_bv \<Rightarrow> mem_model \<Rightarrow>
   hpdcache_test_transaction_mem_read_resp \<times> u64 \<times> mem_model" where
  "read_beat rand req i addr data mm =
     (let words = req_words req;
          (data', mm') = read_words rand addr 0 words mm data
      in (\<lparr>rresp_error = 0, rresp_id = mreq_id req, rresp_data = data', rresp_last = (i = unat (mreq_len req))\<rparr>,
          push_bit 3 (drop_bit 3 addr + of_nat words), mm'))"

definition read_error_beat :: "hpdcache_test_transaction_mem_req \<Rightarrow> nat \<Rightarrow> hpdcache_test_transaction_mem_read_resp" where
  "read_error_beat req i =
     mem_read_resp_new\<lparr>rresp_error := 1, rresp_id := mreq_id req, rresp_last := (i = unat (mreq_len req))\<rparr>"

section \<open>Writing\<close>

definition write_is_amo :: "hpdcache_test_transaction_mem_write_req \<Rightarrow> bool" where
  "write_is_amo req \<longleftrightarrow> mreq_command req = command_code HPDCACHE_MEM_ATOMIC \<and>
     mreq_atomic req \<noteq> atomic_code HPDCACHE_MEM_ATOMIC_STEX"

text \<open>The exclusive check of a store-conditional; a valid reservation is consumed.\<close>

definition check_exclusive :: "hpdcache_test_transaction_mem_write_req \<Rightarrow> mem_resp \<Rightarrow> bool \<times> mem_resp" where
  "check_exclusive req m =
     (let e = excl_buf_m m (unat (mreq_id req)) in
      if mem_is_stex req \<and> excl_valid e then
        (within_region (mreq_addr req) (mreq_addr req + of_nat (req_bytes req)) (excl_base_addr e) (excl_end_addr e),
         m\<lparr>excl_buf_m := (excl_buf_m m)(unat (mreq_id req) := e\<lparr>excl_valid := False\<rparr>)\<rparr>)
      else (False, m))"

text \<open>The value loaded (as sent back) and the value to store; \<open>None\<close> for an unknown operation.\<close>

definition amo_values ::
  "rand_src \<Rightarrow> hpdcache_test_transaction_mem_write_req \<Rightarrow> mem_model \<Rightarrow> (u64 \<times> u64 \<times> mem_model) option" where
  "amo_values rand req mm =
     (let addr = mreq_addr req;
          word_addr = drop_bit 3 addr;
          word = unat word_addr mod MEM_NOC_DATA_WORDS;
          offset = (unat addr mod 8) * 8;
          bytes = req_bytes req;
          (ld_data, mm') = readMemory rand mm word_addr;
          st_data = bv_range ((word + 1) * 64 - 1) (word * 64) (wreq_data req) :: u64;
          ld_data = (if bytes = 4 then ucast (ucast (drop_bit offset ld_data) :: u32) else ld_data);
          st_data = (if bytes = 4 then ucast (ucast (drop_bit offset st_data) :: u32) else st_data)
      in case mem_compute_amo (mreq_atomic req) ld_data st_data bytes of
           None \<Rightarrow> None
         | Some res \<Rightarrow>
             Some (if offset \<noteq> 0 then push_bit offset ld_data else ld_data,
                   if offset \<noteq> 0 then push_bit offset res else res, mm'))"

text \<open>The loop over the words written; a word outside the data vector is \<open>None\<close>.\<close>

fun write_words ::
  "rand_src \<Rightarrow> hpdcache_test_transaction_mem_write_req \<Rightarrow> u64 option \<Rightarrow> nat \<Rightarrow> nat \<Rightarrow> mem_model \<Rightarrow> mem_model option" where
  "write_words rand req amo_result w 0 mm = Some mm"
| "write_words rand req amo_result w (Suc n) mm =
     (let word_addr = drop_bit 3 (mreq_addr req);
          i = unat word_addr mod MEM_NOC_DATA_WORDS + w
      in if i < MEM_NOC_DATA_WORDS then
           (let be = bv_range ((i + 1) * 8 - 1) (i * 8) (wreq_be req) :: u8 in
            if be = 0 then write_words rand req amo_result (Suc w) n mm
            else (let st_data = (case amo_result of
                                   Some res \<Rightarrow> res
                                 | None \<Rightarrow> bv_range ((i + 1) * 64 - 1) (i * 64) (wreq_data req))
                  in write_words rand req amo_result (Suc w) n
                       (writeMemory rand mm (word_addr + of_nat w) st_data (beToMask be))))
         else None)"

record write_result =
  wr_state :: mem_resp
  wr_read_resps :: "hpdcache_test_transaction_mem_read_resp list"
  wr_write_resp :: hpdcache_test_transaction_mem_write_resp

definition write_error_result :: "hpdcache_test_transaction_mem_write_req \<Rightarrow> mem_resp \<Rightarrow> write_result" where
  "write_error_result req m =
     \<lparr>wr_state = m,
      wr_read_resps = (if write_is_amo req
        then [\<lparr>rresp_error = 0, rresp_id = mreq_id req, rresp_data = 0, rresp_last = True\<rparr>] else []),
      wr_write_resp = \<lparr>wresp_is_atomic = False, wresp_error = 1, wresp_id = mreq_id req\<rparr>\<rparr>"

definition amo_read_resp :: "hpdcache_test_transaction_mem_write_req \<Rightarrow> u64 \<Rightarrow> hpdcache_test_transaction_mem_read_resp" where
  "amo_read_resp req ld_data =
     (let word = unat (drop_bit 3 (mreq_addr req)) mod MEM_NOC_DATA_WORDS
      in \<lparr>rresp_error = 0, rresp_id = mreq_id req,
          rresp_data = bv_set_range ((word + 1) * 64 - 1) (word * 64) ld_data 0, rresp_last = True\<rparr>)"

definition writeOperation ::
  "rand_src \<Rightarrow> hpdcache_test_transaction_mem_write_req \<Rightarrow> mem_resp \<Rightarrow> write_result option" where
  "writeOperation rand req m =
     (if within_error_region (errorsegs m) (mreq_addr req) (mreq_addr req + of_nat (req_bytes req))
      then Some (write_error_result req m)
      else
        (let (excl_ok, m) = check_exclusive req m;
             ack = \<lparr>wresp_is_atomic = (mem_is_stex req \<and> excl_ok), wresp_error = 0, wresp_id = mreq_id req\<rparr>
         in if write_is_amo req then
              (case amo_values rand req (memory_m m) of
                 None \<Rightarrow> None
               | Some (ld_data, res, mm) \<Rightarrow>
                   (case write_words rand req (Some res) 0 (req_words req) mm of
                      None \<Rightarrow> None
                    | Some mm \<Rightarrow>
                        Some \<lparr>wr_state = m\<lparr>memory_m := mm\<rparr>, wr_read_resps = [amo_read_resp req ld_data],
                              wr_write_resp = ack\<rparr>))
            else if \<not> mem_is_stex req \<or> excl_ok then
              (case write_words rand req None 0 (req_words req) (memory_m m) of
                 None \<Rightarrow> None
               | Some mm \<Rightarrow> Some \<lparr>wr_state = m\<lparr>memory_m := mm\<rparr>, wr_read_resps = [], wr_write_resp = ack\<rparr>)
            else Some \<lparr>wr_state = m, wr_read_resps = [], wr_write_resp = ack\<rparr>))"


section \<open>The threads\<close>

text \<open>
  Where each thread can be suspended. The read thread: idle, in the ready delay, before a beat of an
  error response, before a beat of data (beat number, running address, response data so far). The
  write thread: waiting for a request, for its data, before the operation, pushing its responses.
  The two response threads: waiting for a response, in the delay, waiting for ready.
\<close>

datatype read_pc =
    Rd_idle
  | Rd_delay hpdcache_test_transaction_mem_req
  | Rd_error hpdcache_test_transaction_mem_req nat
  | Rd_data hpdcache_test_transaction_mem_req nat u64 mem_bv

datatype write_pc =
    Wr_idle
  | Wr_meta mem_write_req_flit_t
  | Wr_both mem_write_req_flit_t mem_write_req_data_flit_t
  | Wr_push "hpdcache_test_transaction_mem_read_resp list" hpdcache_test_transaction_mem_write_resp

datatype 'r resp_pc = Rs_idle | Rs_delay 'r | Rs_ready

record mem_sys =
  sys :: mem_resp
  rd_pc :: read_pc
  wr_pc :: write_pc
  rr_pc :: "hpdcache_test_transaction_mem_read_resp resp_pc"
  wb_pc :: "hpdcache_test_transaction_mem_write_resp resp_pc"
  read_resp_fifo :: "hpdcache_test_transaction_mem_read_resp list"
  write_req_fifo :: "mem_write_req_flit_t list"
  write_req_data_fifo :: "mem_write_req_data_flit_t list"
  write_resp_fifo :: "hpdcache_test_transaction_mem_write_resp list"
  sb_mem_read_req_o :: "hpdcache_test_transaction_mem_req list"
  sb_mem_read_resp_o :: "hpdcache_test_transaction_mem_read_resp list"
  sb_mem_write_req_o :: "hpdcache_test_transaction_mem_write_req list"
  sb_mem_write_resp_o :: "hpdcache_test_transaction_mem_write_resp list"

definition mem_sys_new :: "mem_resp \<Rightarrow> mem_sys" where
  "mem_sys_new m =
     \<lparr>sys = m, rd_pc = Rd_idle, wr_pc = Wr_idle, rr_pc = Rs_idle, wb_pc = Rs_idle, read_resp_fifo = [],
      write_req_fifo = [], write_req_data_fifo = [], write_resp_fifo = [], sb_mem_read_req_o = [],
      sb_mem_read_resp_o = [], sb_mem_write_req_o = [], sb_mem_write_resp_o = []\<rparr>"

definition resp_fifo_cap :: nat where "resp_fifo_cap = 2"
definition req_fifo_cap :: nat where "req_fifo_cap = 16"

text \<open>\<^verbatim>\<open>write_process\<close>: the request put together from its two halves.\<close>

definition join_flits :: "mem_write_req_flit_t \<Rightarrow> mem_write_req_data_flit_t \<Rightarrow> hpdcache_test_transaction_mem_write_req" where
  "join_flits r d =
     \<lparr>mreq_addr = mreq_addr r, mreq_len = mreq_len r, mreq_size = mreq_size r, mreq_id = mreq_id r,
      mreq_command = mreq_command r, mreq_atomic = mreq_atomic r, mreq_cacheable = mreq_cacheable r,
      wreq_data = flit_data d, wreq_be = flit_be d, wreq_last = flit_last d\<rparr>"

definition push_read :: "hpdcache_test_transaction_mem_read_resp \<Rightarrow> mem_sys \<Rightarrow> mem_sys" where
  "push_read r s = s\<lparr>read_resp_fifo := read_resp_fifo s @ [r]\<rparr>"

inductive mem_step :: "rand_src \<Rightarrow> mem_sys \<Rightarrow> mem_sys \<Rightarrow> bool" for rand where
  read_accept: "rd_pc s = Rd_idle \<Longrightarrow> req = sample_req a l sz i c at ca \<Longrightarrow>
    mem_step rand s (s\<lparr>rd_pc := Rd_delay req, sb_mem_read_req_o := sb_mem_read_req_o s @ [req]\<rparr>)"
| read_start_error: "rd_pc s = Rd_delay req \<Longrightarrow> read_in_error (sys s) req \<Longrightarrow>
    mem_step rand s (s\<lparr>rd_pc := Rd_error req 0\<rparr>)"
| read_start: "rd_pc s = Rd_delay req \<Longrightarrow> \<not> read_in_error (sys s) req \<Longrightarrow>
    mem_step rand s (s\<lparr>rd_pc := Rd_data req 0 (mreq_addr req) 0, sys := take_reservation req (sys s)\<rparr>)"
| read_error: "rd_pc s = Rd_error req n \<Longrightarrow> length (read_resp_fifo s) < resp_fifo_cap \<Longrightarrow>
    mem_step rand s ((push_read (read_error_beat req n) s)\<lparr>
      rd_pc := (if n < unat (mreq_len req) then Rd_error req (Suc n) else Rd_idle)\<rparr>)"
| read_data: "rd_pc s = Rd_data req n a d \<Longrightarrow> length (read_resp_fifo s) < resp_fifo_cap \<Longrightarrow>
    read_beat rand req n a d (memory_m (sys s)) = (r, a', mm) \<Longrightarrow>
    mem_step rand s ((push_read r s)\<lparr>
      rd_pc := (if n < unat (mreq_len req) then Rd_data req (Suc n) a' (rresp_data r) else Rd_idle),
      sys := (sys s)\<lparr>memory_m := mm\<rparr>\<rparr>)"
| write_address: "length (write_req_fifo s) < req_fifo_cap \<Longrightarrow> req = sample_req a l sz i c at ca \<Longrightarrow>
    mem_step rand s (s\<lparr>write_req_fifo := write_req_fifo s @ [req]\<rparr>)"
| write_data: "length (write_req_data_fifo s) < req_fifo_cap \<Longrightarrow>
    mem_step rand s (s\<lparr>write_req_data_fifo := write_req_data_fifo s @ [fl]\<rparr>)"
| write_meta: "wr_pc s = Wr_idle \<Longrightarrow> write_req_fifo s = req # rs \<Longrightarrow>
    mem_step rand s (s\<lparr>write_req_fifo := rs, wr_pc := Wr_meta req\<rparr>)"
| write_both: "wr_pc s = Wr_meta req \<Longrightarrow> write_req_data_fifo s = fl # fls \<Longrightarrow>
    mem_step rand s (s\<lparr>write_req_data_fifo := fls, wr_pc := Wr_both req fl\<rparr>)"
| write_operation: "wr_pc s = Wr_both req fl \<Longrightarrow> writeOperation rand (join_flits req fl) (sys s) = Some res \<Longrightarrow>
    mem_step rand s (s\<lparr>sys := wr_state res, sb_mem_write_req_o := sb_mem_write_req_o s @ [join_flits req fl],
      wr_pc := Wr_push (wr_read_resps res) (wr_write_resp res)\<rparr>)"
| write_push_read: "wr_pc s = Wr_push (r # rs) w \<Longrightarrow> length (read_resp_fifo s) < resp_fifo_cap \<Longrightarrow>
    mem_step rand s ((push_read r s)\<lparr>wr_pc := Wr_push rs w\<rparr>)"
| write_push: "wr_pc s = Wr_push [] w \<Longrightarrow> length (write_resp_fifo s) < resp_fifo_cap \<Longrightarrow>
    mem_step rand s (s\<lparr>write_resp_fifo := write_resp_fifo s @ [w], wr_pc := Wr_idle\<rparr>)"
| read_resp_take: "rr_pc s = Rs_idle \<Longrightarrow> read_resp_fifo s = r # rs \<Longrightarrow>
    mem_step rand s (s\<lparr>read_resp_fifo := rs, rr_pc := Rs_delay r\<rparr>)"
| read_resp_send: "rr_pc s = Rs_delay r \<Longrightarrow>
    mem_step rand s (s\<lparr>sb_mem_read_resp_o := sb_mem_read_resp_o s @ [r], rr_pc := Rs_ready\<rparr>)"
| read_resp_done: "rr_pc s = Rs_ready \<Longrightarrow> mem_step rand s (s\<lparr>rr_pc := Rs_idle\<rparr>)"
| write_resp_take: "wb_pc s = Rs_idle \<Longrightarrow> write_resp_fifo s = w # ws \<Longrightarrow>
    mem_step rand s (s\<lparr>write_resp_fifo := ws, wb_pc := Rs_delay w\<rparr>)"
| write_resp_send: "wb_pc s = Rs_delay w \<Longrightarrow>
    mem_step rand s (s\<lparr>sb_mem_write_resp_o := sb_mem_write_resp_o s @ [w], wb_pc := Rs_ready\<rparr>)"
| write_resp_done: "wb_pc s = Rs_ready \<Longrightarrow> mem_step rand s (s\<lparr>wb_pc := Rs_idle\<rparr>)"

inductive mem_reach :: "rand_src \<Rightarrow> mem_resp \<Rightarrow> mem_sys \<Rightarrow> bool" for rand m where
  init: "mem_reach rand m (mem_sys_new m)"
| step: "mem_reach rand m s \<Longrightarrow> mem_step rand s s' \<Longrightarrow> mem_reach rand m s'"

section \<open>Regions\<close>

lemma within_region_iff:
  assumes "b0 < e0" "b1 < e1"
  shows "within_region b0 e0 b1 e1 \<longleftrightarrow> (\<exists>x. b0 \<le> x \<and> x < e0 \<and> b1 \<le> x \<and> x < e1)"
proof
  assume "within_region b0 e0 b1 e1"
  then have "b1 < e0" "b0 < e1" by (simp_all add: within_region_def not_le split: if_splits)
  with assms show "\<exists>x. b0 \<le> x \<and> x < e0 \<and> b1 \<le> x \<and> x < e1"
    by (intro exI [of _ "max b0 b1"]) (auto simp: max_def)
next
  assume "\<exists>x. b0 \<le> x \<and> x < e0 \<and> b1 \<le> x \<and> x < e1"
  then show "within_region b0 e0 b1 e1" by (auto simp: within_region_def)
qed

lemma within_error_region_iff:
  assumes "\<And>s. s \<in> set ss \<Longrightarrow> seg_error s"
  shows "within_error_region ss b e \<longleftrightarrow> (\<exists>s \<in> set ss. within_region (base_addr s) (end_addr s) b e)"
  using assms by (induction ss) auto

section \<open>Responses on their way\<close>

text \<open>
  What a response thread holds, the read responses a suspended write still has to push, and the
  acknowledgement it still has to give.
\<close>

fun resp_pending :: "'r resp_pc \<Rightarrow> 'r list" where
  "resp_pending (Rs_delay r) = [r]"
| "resp_pending _ = []"

fun wr_reads :: "write_pc \<Rightarrow> hpdcache_test_transaction_mem_read_resp list" where
  "wr_reads (Wr_push rs w) = rs"
| "wr_reads _ = []"

fun wr_pending :: "write_pc \<Rightarrow> hpdcache_test_transaction_mem_write_resp list" where
  "wr_pending (Wr_push rs w) = [w]"
| "wr_pending _ = []"

text \<open>The read responses in the order the scoreboard gets them: sent, held by the thread, in the fifo.\<close>

definition read_stream :: "mem_sys \<Rightarrow> hpdcache_test_transaction_mem_read_resp list" where
  "read_stream s = sb_mem_read_resp_o s @ resp_pending (rr_pc s) @ read_resp_fifo s"

text \<open>
  What a response tells: identifier, last, error. A read of length \<open>len\<close> owes \<open>len + 1\<close> responses, an
  AMO one.
\<close>

definition shape_of :: "hpdcache_test_transaction_mem_read_resp \<Rightarrow> u32 \<times> bool \<times> bool" where
  "shape_of r = (rresp_id r, rresp_last r, rresp_error r \<noteq> 0)"

definition resp_shape :: "mem_resp \<Rightarrow> hpdcache_test_transaction_mem_req \<Rightarrow> (u32 \<times> bool \<times> bool) list" where
  "resp_shape m req =
     map (\<lambda>i. (mreq_id req, i = unat (mreq_len req), read_in_error m req)) [0..<Suc (unat (mreq_len req))]"

definition amo_shape :: "hpdcache_test_transaction_mem_write_req \<Rightarrow> u32 \<times> bool \<times> bool" where
  "amo_shape req = (mreq_id req, True, False)"

lemma snoc_shuffles:
  "zs \<in> shuffles xs ys \<Longrightarrow> zs @ [x] \<in> shuffles (xs @ [x]) ys"
  "zs \<in> shuffles xs ys \<Longrightarrow> zs @ [y] \<in> shuffles xs (ys @ [y])"
proof -
  show left: "zs \<in> shuffles xs ys \<Longrightarrow> zs @ [x] \<in> shuffles (xs @ [x]) ys" for zs xs ys :: "'a list" and x
  proof (induction zs arbitrary: xs ys)
    case Nil
    then show ?case by simp
  next
    case (Cons z zs)
    then show ?case by (auto simp: Cons_in_shuffles_iff neq_Nil_conv)
  qed
  show "zs \<in> shuffles xs ys \<Longrightarrow> zs @ [y] \<in> shuffles xs (ys @ [y])"
    using left [of zs ys xs y] by (simp add: shuffles_commutes)
qed

section \<open>The error segments do not move\<close>

lemma errorsegs_frame:
  "errorsegs (take_reservation req m) = errorsegs m"
  "writeOperation rand wreq m = Some res \<Longrightarrow> errorsegs (wr_state res) = errorsegs m"
  by (auto simp: take_reservation_def writeOperation_def write_error_result_def check_exclusive_def Let_def
      split: if_splits option.splits prod.splits)

lemma mem_step_errorsegs: "mem_step rand s s' \<Longrightarrow> errorsegs (sys s') = errorsegs (sys s)"
  by (induction rule: mem_step.induct) (auto simp: errorsegs_frame push_read_def)

lemma mem_reach_errorsegs: "mem_reach rand m s \<Longrightarrow> errorsegs (sys s) = errorsegs m"
  by (induction rule: mem_reach.induct) (simp_all add: mem_sys_new_def mem_step_errorsegs)

lemma read_in_error_cong: "errorsegs m = errorsegs m' \<Longrightarrow> read_in_error m req = read_in_error m' req"
  by (simp add: read_in_error_def)

section \<open>Shape of the responses to reads\<close>

text \<open>
  How much of the current request has been answered, which request it is, and that the read thread
  is on the branch that the error segments ask for.
\<close>

fun rd_done :: "read_pc \<Rightarrow> nat" where
  "rd_done (Rd_error req n) = n"
| "rd_done (Rd_data req n a d) = n"
| "rd_done _ = 0"

fun rd_cur :: "read_pc \<Rightarrow> hpdcache_test_transaction_mem_req option" where
  "rd_cur Rd_idle = None"
| "rd_cur (Rd_delay req) = Some req"
| "rd_cur (Rd_error req n) = Some req"
| "rd_cur (Rd_data req n a d) = Some req"

fun rd_branch :: "mem_resp \<Rightarrow> read_pc \<Rightarrow> bool" where
  "rd_branch m (Rd_error req n) = read_in_error m req"
| "rd_branch m (Rd_data req n a d) = (\<not> read_in_error m req)"
| "rd_branch m _ = True"

text \<open>The responses to the reads accepted so far, and the AMOs that have sent theirs.\<close>

definition reads_done :: "mem_resp \<Rightarrow> read_pc \<Rightarrow> hpdcache_test_transaction_mem_req list \<Rightarrow> (u32 \<times> bool \<times> bool) list \<Rightarrow> bool" where
  "reads_done m pc reqs sh \<longleftrightarrow> rd_branch m pc \<and>
     (case rd_cur pc of
        None \<Rightarrow> sh = concat (map (resp_shape m) reqs)
      | Some req \<Rightarrow>
          (\<exists>rs. reqs = rs @ [req] \<and> rd_done pc \<le> unat (mreq_len req) \<and>
             sh = concat (map (resp_shape m) rs) @ take (rd_done pc) (resp_shape m req)))"

definition amos_done :: "write_pc \<Rightarrow> hpdcache_test_transaction_mem_write_req list \<Rightarrow> (u32 \<times> bool \<times> bool) list \<Rightarrow> bool" where
  "amos_done pc reqs sh \<longleftrightarrow> sh @ map shape_of (wr_reads pc) = map amo_shape (filter write_is_amo reqs)"

definition read_inv :: "mem_resp \<Rightarrow> mem_sys \<Rightarrow> bool" where
  "read_inv m s \<longleftrightarrow>
     (\<exists>reads amos. read_stream s \<in> shuffles reads amos \<and>
        reads_done m (rd_pc s) (sb_mem_read_req_o s) (map shape_of reads) \<and>
        amos_done (wr_pc s) (sb_mem_write_req_o s) (map shape_of amos))"

lemma take_Suc_shape:
  "n \<le> unat (mreq_len req) \<Longrightarrow>
   take (Suc n) (resp_shape m req) =
   take n (resp_shape m req) @ [(mreq_id req, n = unat (mreq_len req), read_in_error m req)]"
  by (simp add: resp_shape_def take_Suc_conv_app_nth del: upt_Suc)

lemma take_all_shape: "take (Suc (unat (mreq_len req))) (resp_shape m req) = resp_shape m req"
  by (simp add: resp_shape_def)

lemma shape_beats:
  "shape_of (read_error_beat req n) = (mreq_id req, n = unat (mreq_len req), True)"
  "read_beat rand req n a d mm = (r, a', mm') \<Longrightarrow> shape_of r = (mreq_id req, n = unat (mreq_len req), False)"
  by (auto simp: shape_of_def read_error_beat_def read_beat_def Let_def split: prod.splits)

lemma writeOperation_reads:
  "writeOperation rand req m = Some res \<Longrightarrow>
   map shape_of (wr_read_resps res) = (if write_is_amo req then [amo_shape req] else [])"
  by (auto simp: writeOperation_def write_error_result_def amo_read_resp_def shape_of_def amo_shape_def Let_def
      split: if_splits option.splits prod.splits)

lemma amos_done_step:
  "amos_done pc reqs sh \<Longrightarrow> wr_reads pc = [] \<Longrightarrow> writeOperation rand req m = Some res \<Longrightarrow>
   amos_done (Wr_push (wr_read_resps res) w) (reqs @ [req]) sh"
  by (simp add: amos_done_def writeOperation_reads)

text \<open>A beat of the current request, data or error, and what the thread does after it.\<close>

lemma reads_done_beat:
  assumes rd: "reads_done m pc reqs sh" and cur: "rd_cur pc = Some req"
    and next_pc: "if rd_done pc < unat (mreq_len req)
          then rd_cur pc' = Some req \<and> rd_done pc' = Suc (rd_done pc) \<and> rd_branch m pc' else pc' = Rd_idle"
  shows "reads_done m pc' reqs (sh @ [(mreq_id req, rd_done pc = unat (mreq_len req), read_in_error m req)])"
proof -
  obtain rs where rs: "reqs = rs @ [req]" "rd_done pc \<le> unat (mreq_len req)"
      "sh = concat (map (resp_shape m) rs) @ take (rd_done pc) (resp_shape m req)"
    using rd cur by (auto simp: reads_done_def)
  then show ?thesis
    using next_pc take_Suc_shape [OF rs(2), of m] take_all_shape [of req m]
    by (auto simp: reads_done_def split: if_splits)
qed

lemma read_inv_beat:
  assumes inv: "read_inv m s" and cur: "rd_cur (rd_pc s) = Some req"
    and sh: "shape_of r = (mreq_id req, rd_done (rd_pc s) = unat (mreq_len req), read_in_error m req)"
    and next_pc: "if rd_done (rd_pc s) < unat (mreq_len req)
          then rd_cur (rd_pc s') = Some req \<and> rd_done (rd_pc s') = Suc (rd_done (rd_pc s)) \<and> rd_branch m (rd_pc s')
          else rd_pc s' = Rd_idle"
    and frame: "read_stream s' = read_stream s @ [r]" "sb_mem_read_req_o s' = sb_mem_read_req_o s" "wr_pc s' = wr_pc s"
      "sb_mem_write_req_o s' = sb_mem_write_req_o s"
  shows "read_inv m s'"
proof -
  obtain reads amos where "read_stream s \<in> shuffles reads amos"
      "reads_done m (rd_pc s) (sb_mem_read_req_o s) (map shape_of reads)"
      "amos_done (wr_pc s) (sb_mem_write_req_o s) (map shape_of amos)"
    using inv by (auto simp: read_inv_def)
  then have "read_stream s' \<in> shuffles (reads @ [r]) amos"
      "reads_done m (rd_pc s') (sb_mem_read_req_o s') (map shape_of (reads @ [r]))"
      "amos_done (wr_pc s') (sb_mem_write_req_o s') (map shape_of amos)"
    using reads_done_beat [OF _ cur next_pc] snoc_shuffles(1) by (simp_all add: frame sh)
  then show ?thesis unfolding read_inv_def by blast
qed

text \<open>The response of an AMO, and the steps that leave the stream alone.\<close>

lemma read_inv_amo:
  assumes inv: "read_inv m s" and pc: "wr_pc s = Wr_push (r # rs) w" "wr_pc s' = Wr_push rs w"
    and frame: "read_stream s' = read_stream s @ [r]" "sb_mem_read_req_o s' = sb_mem_read_req_o s" "rd_pc s' = rd_pc s"
      "sb_mem_write_req_o s' = sb_mem_write_req_o s"
  shows "read_inv m s'"
proof -
  obtain reads amos where "read_stream s \<in> shuffles reads amos"
      "reads_done m (rd_pc s) (sb_mem_read_req_o s) (map shape_of reads)"
      "amos_done (wr_pc s) (sb_mem_write_req_o s) (map shape_of amos)"
    using inv by (auto simp: read_inv_def)
  then have "read_stream s' \<in> shuffles reads (amos @ [r])"
      "reads_done m (rd_pc s') (sb_mem_read_req_o s') (map shape_of reads)"
      "amos_done (wr_pc s') (sb_mem_write_req_o s') (map shape_of (amos @ [r]))"
    using snoc_shuffles(2) by (simp_all add: frame pc amos_done_def)
  then show ?thesis unfolding read_inv_def by blast
qed

lemma read_inv_frame:
  assumes "read_inv m s" and "read_stream s' = read_stream s"
    and "\<And>sh. reads_done m (rd_pc s) (sb_mem_read_req_o s) sh \<Longrightarrow> reads_done m (rd_pc s') (sb_mem_read_req_o s') sh"
    and "\<And>sh. amos_done (wr_pc s) (sb_mem_write_req_o s) sh \<Longrightarrow> amos_done (wr_pc s') (sb_mem_write_req_o s') sh"
  shows "read_inv m s'"
  using assms unfolding read_inv_def by metis

lemmas read_frame_simps = read_stream_def push_read_def reads_done_def amos_done_def

lemma read_inv_step:
  "mem_step rand s s' \<Longrightarrow> errorsegs (sys s) = errorsegs m \<Longrightarrow> read_inv m s \<Longrightarrow> read_inv m s'"
proof (induction rule: mem_step.induct)
  case (read_accept s req a l sz i c at ca)
  show ?case by (rule read_inv_frame [OF read_accept.prems(2)]) (use read_accept.hyps in \<open>simp_all add: read_frame_simps\<close>)
next
  case (read_start_error s req)
  note err = read_in_error_cong [OF read_start_error.prems(1)]
  show ?case
    by (rule read_inv_frame [OF read_start_error.prems(2)]) (use read_start_error.hyps err in \<open>simp_all add: read_frame_simps\<close>)
next
  case (read_start s req)
  note err = read_in_error_cong [OF read_start.prems(1)]
  show ?case
    by (rule read_inv_frame [OF read_start.prems(2)]) (use read_start.hyps err in \<open>simp_all add: read_frame_simps\<close>)
next
  case (read_error s req n)
  have br: "read_in_error m req" using read_error.prems(2) read_error.hyps(1) by (auto simp: read_inv_def reads_done_def)
  show ?case
    by (rule read_inv_beat [OF read_error.prems(2), of req "read_error_beat req n"])
       (use read_error.hyps br in \<open>simp_all add: shape_beats push_read_def read_stream_def\<close>)
next
  case (read_data s req n a d r a' mm)
  have br: "\<not> read_in_error m req" using read_data.prems(2) read_data.hyps(1) by (auto simp: read_inv_def reads_done_def)
  show ?case
    by (rule read_inv_beat [OF read_data.prems(2), of req r])
       (use read_data.hyps br in \<open>simp_all add: shape_beats(2) [OF read_data.hyps(3)] push_read_def read_stream_def\<close>)
next
  case (write_operation s req fl res)
  show ?case
    by (rule read_inv_frame [OF write_operation.prems(2)])
       (use write_operation.hyps amos_done_step [OF _ _ write_operation.hyps(2)] in \<open>simp_all add: read_stream_def\<close>)
next
  case (write_push_read s r rs w)
  show ?case
    by (rule read_inv_amo [OF write_push_read.prems(2), of r rs w])
       (use write_push_read.hyps in \<open>simp_all add: push_read_def read_stream_def\<close>)
qed (erule read_inv_frame; simp add: read_frame_simps)+

lemma read_inv_reach: "mem_reach rand m s \<Longrightarrow> read_inv m s"
proof (induction rule: mem_reach.induct)
  case init
  then show ?case by (simp add: read_inv_def mem_sys_new_def read_frame_simps)
next
  case (step s s')
  then show ?case using read_inv_step mem_reach_errorsegs by blast
qed

section \<open>Acknowledgement of writes\<close>

definition write_inv :: "mem_sys \<Rightarrow> bool" where
  "write_inv s \<longleftrightarrow>
     map wresp_id (sb_mem_write_resp_o s @ resp_pending (wb_pc s) @ write_resp_fifo s @ wr_pending (wr_pc s)) =
     map mreq_id (sb_mem_write_req_o s)"

lemma writeOperation_id:
  "writeOperation rand req m = Some res \<Longrightarrow> wresp_id (wr_write_resp res) = mreq_id req"
  by (auto simp: writeOperation_def write_error_result_def Let_def split: if_splits option.splits prod.splits)

lemma write_inv_step: "mem_step rand s s' \<Longrightarrow> write_inv s \<Longrightarrow> write_inv s'"
proof (induction rule: mem_step.induct)
  case (write_operation s req fl res)
  then show ?case by (simp add: write_inv_def writeOperation_id join_flits_def)
qed (simp_all add: write_inv_def push_read_def)

lemma write_inv_reach: "mem_reach rand m s \<Longrightarrow> write_inv s"
proof (induction rule: mem_reach.induct)
  case init
  then show ?case by (simp add: write_inv_def mem_sys_new_def)
next
  case (step s s')
  then show ?case using write_inv_step by blast
qed

section \<open>Words and bytes of a memory transfer\<close>

definition data_word :: "mem_bv \<Rightarrow> nat \<Rightarrow> u64" where
  "data_word d r = bv_range ((r + 1) * 64 - 1) (r * 64) d"

definition be_byte :: "u64 \<Rightarrow> nat \<Rightarrow> u8" where
  "be_byte be r = bv_range ((r + 1) * 8 - 1) (r * 8) be"

lemma data_word_set:
  "r < 8 \<Longrightarrow> r' < 8 \<Longrightarrow> data_word (bv_set_range ((r + 1) * 64 - 1) (r * 64) v d) r' = (if r' = r then v else data_word d r')"
  by (rule bit_word_eqI) (auto simp: data_word_def bv_simps)

lemma unat_add_mod_8: "unat (wa + of_nat w :: u64) mod 8 = (unat wa + w) mod 8"
proof -
  have "unat (wa + of_nat w) = (unat wa + w) mod 2 ^ 64"
    by (simp add: unat_word_ariths unsigned_of_nat take_bit_nat_def mod_simps)
  then show ?thesis by (simp add: mod_mod_cancel)
qed

lemma read_words_result:
  assumes "read_words rand addr w n mm data = (data', mm')" and "n \<le> 8"
  defines "wa \<equiv> drop_bit 3 addr"
  shows "(\<forall>k. w \<le> k \<and> k < w + n \<longrightarrow> mem_array_m mm' (wa + of_nat k) = Some (data_word data' ((unat wa + k) mod 8))) \<and>
         (\<forall>x v. mem_array_m mm x = Some v \<longrightarrow> mem_array_m mm' x = Some v) \<and>
         (\<forall>r < 8. (\<forall>k. w \<le> k \<and> k < w + n \<longrightarrow> r \<noteq> (unat wa + k) mod 8) \<longrightarrow> data_word data' r = data_word data r)"
  using assms(1,2)
proof (induction n arbitrary: w mm data)
  case 0
  then show ?case by auto
next
  case (Suc n)
  let ?r = "(unat wa + w) mod 8"
  obtain v mm1 where rd: "readMemory rand mm (wa + of_nat w) = (v, mm1)" by force
  let ?d1 = "bv_set_range ((?r + 1) * 64 - 1) (?r * 64) v data"
  have rest: "read_words rand addr (Suc w) n mm1 ?d1 = (data', mm')"
    using Suc.prems(1) rd by (simp add: wa_def [symmetric] unat_add_mod_8 Let_def)
  have IH: "\<forall>k. Suc w \<le> k \<and> k < Suc w + n \<longrightarrow> mem_array_m mm' (wa + of_nat k) = Some (data_word data' ((unat wa + k) mod 8))"
      "\<forall>x v. mem_array_m mm1 x = Some v \<longrightarrow> mem_array_m mm' x = Some v"
      "\<forall>r < 8. (\<forall>k. Suc w \<le> k \<and> k < Suc w + n \<longrightarrow> r \<noteq> (unat wa + k) mod 8) \<longrightarrow> data_word data' r = data_word ?d1 r"
    using Suc.IH [OF rest] Suc.prems(2) by auto
  have m1: "mem_array_m mm1 = (mem_array_m mm)(wa + of_nat w \<mapsto> v)" using rd by (rule memw.rd_cont)
  have keep: "mem_array_m mm1 x = Some u" if "mem_array_m mm x = Some u" for x u
  proof (cases "x = wa + of_nat w")
    case True
    with that rd memw.rd_present [of mm x u rand] have "u = v" by simp
    with True m1 show ?thesis by simp
  qed (use that m1 in simp)
  have fresh: "?r \<noteq> (unat wa + k) mod 8" if "Suc w \<le> k" "k < Suc w + n" for k
  proof
    assume "?r = (unat wa + k) mod 8"
    then have "8 dvd (unat wa + k) - (unat wa + w)" using that(1)
      by (metis add_le_cancel_left less_imp_le_nat Suc_le_lessD mod_eq_dvd_iff_nat)
    then have "8 dvd k - w" by simp
    moreover have "0 < k - w" "k - w < 8" using that Suc.prems(2) by auto
    ultimately show False by (auto dest: dvd_imp_le)
  qed
  have dw: "data_word data' ?r = v"
    using IH(3) fresh data_word_set [of ?r ?r v data] by simp
  have "mem_array_m mm' (wa + of_nat w) = Some v" using IH(2) m1 by simp
  with IH(1) dw have first: "mem_array_m mm' (wa + of_nat k) = Some (data_word data' ((unat wa + k) mod 8))"
    if "w \<le> k" "k < w + Suc n" for k
    using that by (cases "k = w") auto
  have "data_word data' r = data_word data r"
    if "r < 8" "\<forall>k. w \<le> k \<and> k < w + Suc n \<longrightarrow> r \<noteq> (unat wa + k) mod 8" for r
    using that IH(3) data_word_set [of ?r r v data] by auto
  with first IH(2) keep show ?case by auto
qed


text \<open>What the writing loop does to the memory, word by word and byte by byte.\<close>

lemma of_nat_add_inj: "wa + of_nat k = (wa + of_nat l :: u64) \<longleftrightarrow> k = l" if "k < 16" "l < 16"
proof -
  have "unat (of_nat k :: u64) = k" "unat (of_nat l :: u64) = l"
    using that by (simp_all add: unat_of_nat_self)
  then show ?thesis by (metis add_left_cancel)
qed

definition st_word :: "hpdcache_test_transaction_mem_write_req \<Rightarrow> u64 option \<Rightarrow> nat \<Rightarrow> u64" where
  "st_word req amo_result i = (case amo_result of Some res \<Rightarrow> res | None \<Rightarrow> data_word (wreq_data req) i)"

definition word_written ::
  "hpdcache_test_transaction_mem_write_req \<Rightarrow> u64 option \<Rightarrow> nat \<Rightarrow> u64 option \<Rightarrow> u64 option \<Rightarrow> bool" where
  "word_written req amo_result i old new \<longleftrightarrow>
     (if be_byte (wreq_be req) i = 0 then new = old
      else \<exists>v. new = Some v \<and>
             (\<forall>j < 8. bit (be_byte (wreq_be req) i) j \<longrightarrow> byte_of v j = byte_of (st_word req amo_result i) j) \<and>
             (\<forall>j < 8. \<not> bit (be_byte (wreq_be req) i) j \<longrightarrow> (\<forall>u. old = Some u \<longrightarrow> byte_of v j = byte_of u j)))"

lemma write_words_result:
  fixes req :: hpdcache_test_transaction_mem_write_req
  defines "wa \<equiv> drop_bit 3 (mreq_addr req)"
  assumes "unat wa mod 8 + w + n \<le> 8"
  shows "\<exists>mm'. write_words rand req amo w n mm = Some mm' \<and>
           (\<forall>k. w \<le> k \<and> k < w + n \<longrightarrow>
              word_written req amo (unat wa mod 8 + k) (mem_array_m mm (wa + of_nat k)) (mem_array_m mm' (wa + of_nat k))) \<and>
           (\<forall>x. (\<forall>k. w \<le> k \<and> k < w + n \<longrightarrow> x \<noteq> wa + of_nat k) \<longrightarrow> mem_array_m mm' x = mem_array_m mm x)"
  using assms(2)
proof (induction n arbitrary: w mm)
  case 0
  then show ?case by auto
next
  case (Suc n)
  let ?i = "unat wa mod 8 + w"
  have i: "?i < 8" using Suc.prems by simp
  define mm1 where "mm1 = (if be_byte (wreq_be req) ?i = 0 then mm
    else writeMemory rand mm (wa + of_nat w) (st_word req amo ?i) (beToMask (be_byte (wreq_be req) ?i)))"
  have "write_words rand req amo w (Suc n) mm = write_words rand req amo (Suc w) n mm1"
    using i by (simp add: mm1_def wa_def [symmetric] be_byte_def st_word_def data_word_def split: option.splits)
  with Suc.IH [of "Suc w" mm1] Suc.prems obtain mm'
    where mm': "write_words rand req amo w (Suc n) mm = Some mm'"
      and IH1: "\<And>k. Suc w \<le> k \<Longrightarrow> k < Suc w + n \<Longrightarrow>
        word_written req amo (unat wa mod 8 + k) (mem_array_m mm1 (wa + of_nat k)) (mem_array_m mm' (wa + of_nat k))"
      and IH2: "\<And>x. (\<forall>k. Suc w \<le> k \<and> k < Suc w + n \<longrightarrow> x \<noteq> wa + of_nat k) \<Longrightarrow> mem_array_m mm' x = mem_array_m mm1 x"
    by auto
  have other: "mem_array_m mm1 x = mem_array_m mm x" if "x \<noteq> wa + of_nat w" for x
    using that memw.write_other [of x "wa + of_nat w" rand mm "st_word req amo ?i" "be_byte (wreq_be req) ?i"]
    by (simp add: mm1_def)
  have ww: "word_written req amo ?i (mem_array_m mm (wa + of_nat w)) (mem_array_m mm1 (wa + of_nat w))"
    using memw.wr_cont [of rand mm "wa + of_nat w" "st_word req amo ?i" "be_byte (wreq_be req) ?i"]
    by (auto simp: word_written_def mm1_def)
  have ne: "wa + of_nat w \<noteq> wa + of_nat k" if "Suc w \<le> k" "k < Suc w + n" for k
    using that Suc.prems of_nat_add_inj [of w k wa] by simp
  have "mem_array_m mm' (wa + of_nat w) = mem_array_m mm1 (wa + of_nat w)" using ne by (intro IH2) auto
  with ww have "word_written req amo (unat wa mod 8 + k) (mem_array_m mm (wa + of_nat k)) (mem_array_m mm' (wa + of_nat k))"
    if "w \<le> k" "k < w + Suc n" for k
    using that IH1 [of k] other [of "wa + of_nat k"] ne [of k] by (cases "k = w") auto
  moreover have "mem_array_m mm' x = mem_array_m mm x"
    if "\<forall>k. w \<le> k \<and> k < w + Suc n \<longrightarrow> x \<noteq> wa + of_nat k" for x
    using that IH2 [of x] other [of x] by auto
  ultimately show ?case using mm' by auto
qed

text \<open>Requests that stay inside one transfer.\<close>

definition one_transfer :: "'a hpdcache_test_transaction_mem_req_scheme \<Rightarrow> bool" where
  "one_transfer r \<longleftrightarrow> unat (drop_bit 3 (mreq_addr r)) mod 8 + req_words r \<le> 8"

definition not_in_error :: "mem_resp \<Rightarrow> 'a hpdcache_test_transaction_mem_req_scheme \<Rightarrow> bool" where
  "not_in_error m r \<longleftrightarrow> \<not> within_error_region (errorsegs m) (mreq_addr r) (mreq_addr r + of_nat (req_bytes r))"

lemma plain_write:
  assumes "not_in_error m req" "one_transfer req" "\<not> write_is_amo req" "\<not> mem_is_stex req"
  shows "\<exists>mm'. writeOperation rand req m =
      Some \<lparr>wr_state = m\<lparr>memory_m := mm'\<rparr>, wr_read_resps = [],
            wr_write_resp = \<lparr>wresp_is_atomic = False, wresp_error = 0, wresp_id = mreq_id req\<rparr>\<rparr> \<and>
    (\<forall>k < req_words req. word_written req None (unat (drop_bit 3 (mreq_addr req)) mod 8 + k)
        (mem_array_m (memory_m m) (drop_bit 3 (mreq_addr req) + of_nat k))
        (mem_array_m mm' (drop_bit 3 (mreq_addr req) + of_nat k)))"
  using write_words_result [of req 0 "req_words req" rand None "memory_m m"] assms
  by (auto simp: writeOperation_def not_in_error_def one_transfer_def check_exclusive_def Let_def)

lemma byte_of_data_word: "r < 8 \<Longrightarrow> j < 8 \<Longrightarrow> byte_of (data_word d r) j = bv_range (64 * r + 8 * j + 7) (64 * r + 8 * j) d"
  by (rule bit_word_eqI) (auto simp: data_word_def bv_simps ac_simps)


section \<open>Atomic operations, core side and memory side\<close>

text \<open>
  How the cache forwards a core AMO to the memory: AND becomes a clear of the complement, the others
  keep their operand.
\<close>

fun mem_atomic_of :: "hpdcache_req_op_e \<Rightarrow> hpdcache_mem_atomic_e option" where
  "mem_atomic_of HPDCACHE_REQ_AMO_SWAP = Some HPDCACHE_MEM_ATOMIC_SWAP"
| "mem_atomic_of HPDCACHE_REQ_AMO_ADD = Some HPDCACHE_MEM_ATOMIC_ADD"
| "mem_atomic_of HPDCACHE_REQ_AMO_AND = Some HPDCACHE_MEM_ATOMIC_CLR"
| "mem_atomic_of HPDCACHE_REQ_AMO_OR = Some HPDCACHE_MEM_ATOMIC_SET"
| "mem_atomic_of HPDCACHE_REQ_AMO_XOR = Some HPDCACHE_MEM_ATOMIC_EOR"
| "mem_atomic_of HPDCACHE_REQ_AMO_MAX = Some HPDCACHE_MEM_ATOMIC_SMAX"
| "mem_atomic_of HPDCACHE_REQ_AMO_MAXU = Some HPDCACHE_MEM_ATOMIC_UMAX"
| "mem_atomic_of HPDCACHE_REQ_AMO_MIN = Some HPDCACHE_MEM_ATOMIC_SMIN"
| "mem_atomic_of HPDCACHE_REQ_AMO_MINU = Some HPDCACHE_MEM_ATOMIC_UMIN"
| "mem_atomic_of _ = None"

definition mem_operand :: "hpdcache_req_op_e \<Rightarrow> u64 \<Rightarrow> u64" where
  "mem_operand e st_data = (if e = HPDCACHE_REQ_AMO_AND then NOT st_data else st_data)"

section \<open>Properties\<close>

text \<open>
  C14. The scoreboard and the memory agree on atomics: for every AMO of the core and every size, the
  value the memory model computes for the forwarded operation (with the operand of an AND
  complemented) is the value the scoreboard computes.
\<close>

theorem amo_core_mem_agree:
  "map_option (\<lambda>a. mem_compute_amo (atomic_code a) ld_data (mem_operand e st_data) bytes) (mem_atomic_of e) =
   (if mem_atomic_of e = None then None else Some (compute_amo (op_code e) ld_data st_data bytes))"
  by (cases e) (simp_all add: compute_amo_def mem_compute_amo_def mem_operand_def smax_of_def Let_def)

text \<open>
  C10. A plain write that stays inside one transfer and outside the error segments is acknowledged
  without error, and a later read of the same bytes, of any identifier, returns them: every byte the
  write enabled is in the response of the read, at its place in the data vector.
\<close>

theorem read_after_write:
  assumes "not_in_error m req" "one_transfer req" "\<not> write_is_amo req" "\<not> mem_is_stex req"
    and "writeOperation rand req m = Some res"
    and "mreq_addr rreq = mreq_addr req" "mreq_size rreq = mreq_size req"
    and "read_beat rand' rreq n (mreq_addr rreq) d (memory_m (wr_state res)) = (resp, a', mm')"
  shows "wresp_error (wr_write_resp res) = 0 \<and>
         (\<forall>k < req_words req. \<forall>j < 8.
            let i = unat (drop_bit 3 (mreq_addr req)) mod 8 + k in
            bit (be_byte (wreq_be req) i) j \<longrightarrow>
              byte_of (data_word (rresp_data resp) i) j = byte_of (data_word (wreq_data req) i) j)"
proof -
  let ?wa = "drop_bit 3 (mreq_addr req)"
  obtain mm where res: "writeOperation rand req m = Some \<lparr>wr_state = m\<lparr>memory_m := mm\<rparr>, wr_read_resps = [],
            wr_write_resp = \<lparr>wresp_is_atomic = False, wresp_error = 0, wresp_id = mreq_id req\<rparr>\<rparr>"
    and ww: "\<And>k. k < req_words req \<Longrightarrow> word_written req None (unat ?wa mod 8 + k)
        (mem_array_m (memory_m m) (?wa + of_nat k)) (mem_array_m mm (?wa + of_nat k))"
    using plain_write [OF assms(1-4), of rand] by auto
  have words: "req_words rreq = req_words req" by (simp add: req_words_def req_bytes_def assms(7))
  have le: "unat ?wa mod 8 + req_words req \<le> 8" using assms(2) by (simp add: one_transfer_def)
  have rw: "read_words rand' (mreq_addr req) 0 (req_words req) mm d = (rresp_data resp, mm')"
    using assms(5,6,8) res by (auto simp: read_beat_def words Let_def split: prod.splits)
  note rr = read_words_result [OF rw]
  have "byte_of (data_word (rresp_data resp) (unat ?wa mod 8 + k)) j = byte_of (data_word (wreq_data req) (unat ?wa mod 8 + k)) j"
    if k: "k < req_words req" "j < 8" and b: "bit (be_byte (wreq_be req) (unat ?wa mod 8 + k)) j" for k j
  proof -
    have i: "(unat ?wa + k) mod 8 = unat ?wa mod 8 + k"
    proof -
      have "(unat ?wa + k) mod 8 = (unat ?wa mod 8 + k) mod 8" by (rule mod_add_left_eq [symmetric])
      also have "\<dots> = unat ?wa mod 8 + k" using k le by (intro mod_less) linarith
      finally show ?thesis .
    qed
    from b have "be_byte (wreq_be req) (unat ?wa mod 8 + k) \<noteq> 0" by auto
    with ww [OF k(1)] b k obtain v where v: "mem_array_m mm (?wa + of_nat k) = Some v"
        "byte_of v j = byte_of (data_word (wreq_data req) (unat ?wa mod 8 + k)) j"
      by (auto simp: word_written_def st_word_def)
    with rr le k have "v = data_word (rresp_data resp) ((unat ?wa + k) mod 8)" by fastforce
    with v i show ?thesis by simp
  qed
  then show ?thesis using res assms(5) by (auto simp: Let_def)
qed


definition mem_w :: mem_resp where
  "mem_w = add_error_segment \<lparr>base_addr = 0, end_addr = 0x200, seg_error = True\<rparr>
     (mem_resp_new (\<lambda>_. \<lparr>excl_valid = False, excl_base_addr = 0, excl_end_addr = 0\<rparr>))"

definition wreq_w :: hpdcache_test_transaction_mem_write_req where
  "wreq_w = mem_write_req_new\<lparr>mreq_addr := 0x1008, mreq_size := 3, mreq_id := 2, mreq_command := 1,
     wreq_data := push_bit 64 0x1122334455667788, wreq_be := 0x0f00\<rparr>"

definition rreq_w :: hpdcache_test_transaction_mem_req where
  "rreq_w = mem_req_new\<lparr>mreq_addr := 0x1008, mreq_size := 3, mreq_id := 5\<rparr>"

lemmas wreq_w_simps = mem_w_def add_error_segment_def mem_resp_new_def wreq_w_def mem_write_req_new_def
  rreq_w_def mem_req_new_def

lemma wreq_w_plain:
  "not_in_error mem_w wreq_w" "one_transfer wreq_w" "\<not> write_is_amo wreq_w" "\<not> mem_is_stex wreq_w"
  "mreq_addr rreq_w = mreq_addr wreq_w" "mreq_size rreq_w = mreq_size wreq_w"
  by code_simp+

theorem read_after_write_witness:
  "\<exists>res resp a' mm'. writeOperation (\<lambda>_. 9) wreq_w mem_w = Some res \<and>
     read_beat (\<lambda>_. 3) rreq_w 0 (mreq_addr rreq_w) 0 (memory_m (wr_state res)) = (resp, a', mm') \<and>
     byte_of (data_word (rresp_data resp) 1) 0 = 0x88"
proof -
  obtain res where res: "writeOperation (\<lambda>_. 9) wreq_w mem_w = Some res"
    using plain_write [OF wreq_w_plain(1-4), of "\<lambda>_. 9"] by blast
  obtain resp a' mm' where rd: "read_beat (\<lambda>_. 3) rreq_w 0 (mreq_addr rreq_w) 0 (memory_m (wr_state res)) = (resp, a', mm')"
    by (cases "read_beat (\<lambda>_. 3) rreq_w 0 (mreq_addr rreq_w) 0 (memory_m (wr_state res))") auto
  have idx: "unat (drop_bit 3 (mreq_addr wreq_w)) mod 8 + 0 = 1" "(0::nat) < req_words wreq_w" "(0 :: nat) < 8"
      "bit (be_byte (wreq_be wreq_w) 1) 0" "byte_of (data_word (wreq_data wreq_w) 1) 0 = 0x88"
    by code_simp+
  from read_after_write [OF wreq_w_plain(1-4) res wreq_w_plain(5,6) rd]
  have "\<forall>k < req_words wreq_w. \<forall>j < 8. let i = unat (drop_bit 3 (mreq_addr wreq_w)) mod 8 + k in
      bit (be_byte (wreq_be wreq_w) i) j \<longrightarrow>
        byte_of (data_word (rresp_data resp) i) j = byte_of (data_word (wreq_data wreq_w) i) j" by blast
  from this [rule_format, OF idx(2,3), unfolded Let_def idx(1)] idx(4,5)
  have "byte_of (data_word (rresp_data resp) 1) 0 = 0x88" by simp
  with res rd show ?thesis by blast
qed

text \<open>
  C11. Every read is answered completely and in order on the channel to the scoreboard. In every
  reachable state of the threads, the read responses sent, held by the response thread and in the
  fifo, in this order, are an interleaving of two streams: the beats of the reads, which together
  with the beats the current read still owes are, for each accepted request of length \<open>len\<close> in turn,
  \<open>len + 1\<close> responses with its identifier, the last one alone marked last, all in error exactly when
  the request meets an error segment; and one response for each AMO performed, in order, without error, but for the
  one that a suspended write is about to push.
\<close>

theorem read_responses_complete:
  assumes "mem_reach rand m s"
  shows "\<exists>reads amos.
     sb_mem_read_resp_o s @ resp_pending (rr_pc s) @ read_resp_fifo s \<in> shuffles reads amos \<and>
     map shape_of reads @
       (case rd_cur (rd_pc s) of None \<Rightarrow> [] | Some req \<Rightarrow> drop (rd_done (rd_pc s)) (resp_shape m req)) =
       concat (map (resp_shape m) (sb_mem_read_req_o s)) \<and>
     map shape_of amos @ map shape_of (wr_reads (wr_pc s)) =
       map amo_shape (filter write_is_amo (sb_mem_write_req_o s))"
proof -
  obtain reads amos where "read_stream s \<in> shuffles reads amos"
      "reads_done m (rd_pc s) (sb_mem_read_req_o s) (map shape_of reads)"
      "amos_done (wr_pc s) (sb_mem_write_req_o s) (map shape_of amos)"
    using read_inv_reach [OF assms] by (auto simp: read_inv_def)
  then show ?thesis
    by (intro exI [of _ reads] exI [of _ amos]) (auto simp: read_stream_def reads_done_def amos_done_def split: option.splits)
qed

text \<open>
  A run of the threads: a read of two beats and an AMO, both on the error segment of \<open>mem_w\<close>, the
  response of the AMO between the beats; then the AMO is acknowledged.
\<close>

definition run_read :: hpdcache_test_transaction_mem_req where
  "run_read = sample_req 0x40 1 3 3 0 0 True"

definition run_amo :: mem_write_req_flit_t where
  "run_amo = sample_req 0x80 0 3 5 2 0 False"

definition run_data :: mem_write_req_data_flit_t where
  "run_data = \<lparr>flit_data = 7, flit_be = 0xff, flit_last = True\<rparr>"

definition run_resp :: hpdcache_test_transaction_mem_read_resp where
  "run_resp = \<lparr>rresp_error = 0, rresp_id = 5, rresp_data = 0, rresp_last = True\<rparr>"

definition run_ack :: hpdcache_test_transaction_mem_write_resp where
  "run_ack = \<lparr>wresp_is_atomic = False, wresp_error = 1, wresp_id = 5\<rparr>"

lemma run_facts:
  "read_in_error mem_w run_read" "mreq_id run_read = 3" "mreq_len run_read = 1"
  "writeOperation rand (join_flits run_amo run_data) mem_w =
     Some \<lparr>wr_state = mem_w, wr_read_resps = [run_resp], wr_write_resp = run_ack\<rparr>"
  "write_is_amo (join_flits run_amo run_data)" "mreq_id (join_flits run_amo run_data) = 5"
proof -
  show "read_in_error mem_w run_read" "mreq_id run_read = 3" "mreq_len run_read = 1"
    and amo: "write_is_amo (join_flits run_amo run_data)" and id: "mreq_id (join_flits run_amo run_data) = 5"
    by code_simp+
  have "within_error_region (errorsegs mem_w) (mreq_addr (join_flits run_amo run_data))
      (mreq_addr (join_flits run_amo run_data) + of_nat (req_bytes (join_flits run_amo run_data)))"
    by code_simp
  then show "writeOperation rand (join_flits run_amo run_data) mem_w =
     Some \<lparr>wr_state = mem_w, wr_read_resps = [run_resp], wr_write_resp = run_ack\<rparr>"
    by (simp add: writeOperation_def write_error_result_def amo id run_resp_def run_ack_def)
qed

definition run_end :: mem_sys where
  "run_end = (mem_sys_new mem_w)\<lparr>
     rr_pc := Rs_ready, wb_pc := Rs_ready, read_resp_fifo := [read_error_beat run_read 1],
     sb_mem_read_req_o := [run_read], sb_mem_read_resp_o := [read_error_beat run_read 0, run_resp],
     sb_mem_write_req_o := [join_flits run_amo run_data], sb_mem_write_resp_o := [run_ack]\<rparr>"

lemma run_step: "mem_reach rand m s \<Longrightarrow> mem_step rand s s' \<Longrightarrow> s' = t \<Longrightarrow> mem_reach rand m t"
  using mem_reach.step by simp

lemma run_reach: "mem_reach (\<lambda>_. 0) mem_w run_end"
proof -
  let ?b = "read_error_beat run_read" and ?w = "join_flits run_amo run_data" and ?i = "mem_sys_new mem_w"
  let ?c = "?i\<lparr>sb_mem_read_req_o := [run_read]\<rparr>"
  let ?d = "?c\<lparr>rd_pc := Rd_error run_read 1\<rparr>"
  let ?e = "?c\<lparr>sb_mem_write_req_o := [?w], wr_pc := Wr_push [] run_ack\<rparr>"
  note defs = mem_sys_new_def push_read_def resp_fifo_cap_def req_fifo_cap_def run_facts
  have "mem_reach (\<lambda>_. 0) mem_w (?c\<lparr>rd_pc := Rd_delay run_read\<rparr>)"
    by (rule run_step [OF mem_reach.init mem_step.read_accept [OF _ run_read_def]]) (simp_all add: defs)
  then have "mem_reach (\<lambda>_. 0) mem_w (?c\<lparr>rd_pc := Rd_error run_read 0\<rparr>)"
    by (rule run_step [OF _ mem_step.read_start_error]) (simp_all add: defs)
  then have "mem_reach (\<lambda>_. 0) mem_w (?d\<lparr>read_resp_fifo := [?b 0]\<rparr>)"
    by (rule run_step [OF _ mem_step.read_error [where req = run_read and n = 0]]) (simp_all add: defs)
  then have "mem_reach (\<lambda>_. 0) mem_w (?d\<lparr>read_resp_fifo := [?b 0], write_req_fifo := [run_amo]\<rparr>)"
    by (rule run_step [OF _ mem_step.write_address [OF _ run_amo_def]]) (simp_all add: defs)
  then have "mem_reach (\<lambda>_. 0) mem_w (?d\<lparr>read_resp_fifo := [?b 0], write_req_fifo := [run_amo], write_req_data_fifo := [run_data]\<rparr>)"
    by (rule run_step [OF _ mem_step.write_data [where fl = run_data]]) (simp_all add: defs)
  then have "mem_reach (\<lambda>_. 0) mem_w (?d\<lparr>read_resp_fifo := [?b 0], write_req_data_fifo := [run_data], wr_pc := Wr_meta run_amo\<rparr>)"
    by (rule run_step [OF _ mem_step.write_meta]) (simp_all add: defs)
  then have "mem_reach (\<lambda>_. 0) mem_w (?d\<lparr>read_resp_fifo := [?b 0], wr_pc := Wr_both run_amo run_data\<rparr>)"
    by (rule run_step [OF _ mem_step.write_both]) (simp_all add: defs)
  then have "mem_reach (\<lambda>_. 0) mem_w
      (?d\<lparr>read_resp_fifo := [?b 0], wr_pc := Wr_push [run_resp] run_ack, sb_mem_write_req_o := [?w]\<rparr>)"
    by (rule run_step [OF _ mem_step.write_operation [where req = run_amo and fl = run_data
      and res = "\<lparr>wr_state = mem_w, wr_read_resps = [run_resp], wr_write_resp = run_ack\<rparr>"]]) (simp_all add: defs)
  then have "mem_reach (\<lambda>_. 0) mem_w (?e\<lparr>rd_pc := Rd_error run_read 1, read_resp_fifo := [?b 0, run_resp]\<rparr>)"
    by (rule run_step [OF _ mem_step.write_push_read]) (simp_all add: defs)
  then have "mem_reach (\<lambda>_. 0) mem_w
      (?e\<lparr>rd_pc := Rd_error run_read 1, read_resp_fifo := [run_resp], rr_pc := Rs_delay (?b 0)\<rparr>)"
    by (rule run_step [OF _ mem_step.read_resp_take]) (simp_all add: defs)
  then have "mem_reach (\<lambda>_. 0) mem_w (?e\<lparr>read_resp_fifo := [run_resp, ?b 1], rr_pc := Rs_delay (?b 0)\<rparr>)"
    by (rule run_step [OF _ mem_step.read_error [where req = run_read and n = 1]]) (simp_all add: defs)
  then have "mem_reach (\<lambda>_. 0) mem_w
      (?e\<lparr>read_resp_fifo := [run_resp, ?b 1], rr_pc := Rs_ready, sb_mem_read_resp_o := [?b 0]\<rparr>)"
    by (rule run_step [OF _ mem_step.read_resp_send]) (simp_all add: defs)
  then have "mem_reach (\<lambda>_. 0) mem_w (?e\<lparr>read_resp_fifo := [run_resp, ?b 1], sb_mem_read_resp_o := [?b 0]\<rparr>)"
    by (rule run_step [OF _ mem_step.read_resp_done]) (simp_all add: defs)
  then have "mem_reach (\<lambda>_. 0) mem_w
      (?e\<lparr>read_resp_fifo := [?b 1], rr_pc := Rs_delay run_resp, sb_mem_read_resp_o := [?b 0]\<rparr>)"
    by (rule run_step [OF _ mem_step.read_resp_take]) (simp_all add: defs)
  then have "mem_reach (\<lambda>_. 0) mem_w
      (?e\<lparr>read_resp_fifo := [?b 1], rr_pc := Rs_ready, sb_mem_read_resp_o := [?b 0, run_resp]\<rparr>)"
    by (rule run_step [OF _ mem_step.read_resp_send]) (simp_all add: defs)
  then have "mem_reach (\<lambda>_. 0) mem_w (?c\<lparr>read_resp_fifo := [?b 1], rr_pc := Rs_ready, sb_mem_read_resp_o := [?b 0, run_resp],
      sb_mem_write_req_o := [?w], write_resp_fifo := [run_ack]\<rparr>)"
    by (rule run_step [OF _ mem_step.write_push]) (simp_all add: defs)
  then have "mem_reach (\<lambda>_. 0) mem_w (?c\<lparr>read_resp_fifo := [?b 1], rr_pc := Rs_ready, sb_mem_read_resp_o := [?b 0, run_resp],
      sb_mem_write_req_o := [?w], wb_pc := Rs_delay run_ack\<rparr>)"
    by (rule run_step [OF _ mem_step.write_resp_take]) (simp_all add: defs)
  then show ?thesis
    by (rule run_step [OF _ mem_step.write_resp_send]) (simp_all add: defs run_end_def)
qed

lemmas run_end_simps = run_end_def mem_sys_new_def run_facts

theorem read_responses_complete_witness:
  "mem_reach (\<lambda>_. 0) mem_w run_end \<and> length (sb_mem_read_resp_o run_end) = 2 \<and>
   (\<exists>reads amos. sb_mem_read_resp_o run_end @ [read_error_beat run_read 1] \<in> shuffles reads amos \<and>
      map shape_of reads = [(3, False, True), (3, True, True)] \<and> map shape_of amos = [(5, True, False)])"
proof -
  have shapes: "concat (map (resp_shape mem_w) (sb_mem_read_req_o run_end)) = [(3, False, True), (3, True, True)]"
      "map amo_shape (filter write_is_amo (sb_mem_write_req_o run_end)) = [(5, True, False)]"
    by (simp_all add: run_end_simps resp_shape_def amo_shape_def)
  show ?thesis using read_responses_complete [OF run_reach] run_reach
    unfolding shapes by (simp add: run_end_simps)
qed

text \<open>
  C12. Every write is acknowledged once and in order: in every reachable state, the identifiers of the
  write responses sent to the scoreboard, followed by those still on their way, are the identifiers
  of the write requests that were performed.
\<close>

theorem write_acks_in_order:
  assumes "mem_reach rand m s"
  shows "map wresp_id (sb_mem_write_resp_o s @ resp_pending (wb_pc s) @ write_resp_fifo s @ wr_pending (wr_pc s)) =
         map mreq_id (sb_mem_write_req_o s)"
  using write_inv_reach [OF assms] by (simp add: write_inv_def)

theorem write_acks_in_order_witness:
  "mem_reach (\<lambda>_. 0) mem_w run_end \<and> length (sb_mem_write_resp_o run_end) = 1 \<and>
   map wresp_id (sb_mem_write_resp_o run_end) = [5] \<and> map mreq_id (sb_mem_write_req_o run_end) = [5]"
  using write_acks_in_order [OF run_reach] run_reach by (simp add: run_end_simps)

text \<open>
  C13. A reservation is used at most once: whatever a store-conditional does outside the error
  segments, the reservation of its identifier is invalid afterwards, so that a second
  store-conditional with that identifier writes nothing and reports failure.
\<close>

theorem store_conditional_once:
  assumes "mem_is_stex req" "not_in_error m req" "writeOperation rand req m = Some res"
    and "mem_is_stex req'" "mreq_id req' = mreq_id req" "not_in_error (wr_state res) req'"
  shows "writeOperation rand' req' (wr_state res) =
         Some \<lparr>wr_state = wr_state res, wr_read_resps = [],
               wr_write_resp = \<lparr>wresp_is_atomic = False, wresp_error = 0, wresp_id = mreq_id req'\<rparr>\<rparr>"
proof -
  have namo: "\<not> write_is_amo r" if "mem_is_stex r" for r using that by (simp add: write_is_amo_def mem_is_stex_def)
  have "\<not> excl_valid (excl_buf_m (wr_state res) (unat (mreq_id req)))"
    using assms(1-3) namo [OF assms(1)]
    by (auto simp: writeOperation_def not_in_error_def check_exclusive_def Let_def split: if_splits option.splits)
  then show ?thesis using assms(4-6) namo [OF assms(4)]
    by (simp add: writeOperation_def not_in_error_def check_exclusive_def Let_def)
qed

definition stex_w :: hpdcache_test_transaction_mem_write_req where
  "stex_w = wreq_w\<lparr>mreq_command := 2, mreq_atomic := 0xd\<rparr>"

theorem store_conditional_once_witness:
  "\<exists>res. writeOperation (\<lambda>_. 0) stex_w (take_reservation (mem_req_new\<lparr>mreq_addr := 0x1008, mreq_size := 3, mreq_id := 2,
        mreq_command := 2, mreq_atomic := 0xc\<rparr>) mem_w) = Some res \<and>
     wresp_is_atomic (wr_write_resp res) \<and>
     map_option (\<lambda>r. wresp_is_atomic (wr_write_resp r)) (writeOperation (\<lambda>_. 0) stex_w (wr_state res)) = Some False"
proof -
  let ?m = "take_reservation (mem_req_new\<lparr>mreq_addr := 0x1008, mreq_size := 3, mreq_id := 2,
        mreq_command := 2, mreq_atomic := 0xc\<rparr>) mem_w"
  have x: "mem_is_stex stex_w" "not_in_error ?m stex_w" by code_simp+
  have ok: "map_option (\<lambda>r. (wresp_is_atomic (wr_write_resp r), not_in_error (wr_state r) stex_w))
      (writeOperation (\<lambda>_. 0) stex_w ?m) = Some (True, True)" by code_simp
  then obtain res where res: "writeOperation (\<lambda>_. 0) stex_w ?m = Some res" "wresp_is_atomic (wr_write_resp res)"
      "not_in_error (wr_state res) stex_w" by auto
  from store_conditional_once [OF x res(1) x(1) refl res(3), of "\<lambda>_. 0"] res show ?thesis by simp
qed

text \<open>
  An access is answered with an error exactly when it overlaps an error segment: for segments
  that all mark errors, the scan over the segments decides whether some address lies both in the
  access and in a segment.
\<close>

theorem error_region_overlap:
  assumes "\<And>s. s \<in> set ss \<Longrightarrow> seg_error s \<and> base_addr s < end_addr s" and "b < e"
  shows "within_error_region ss b e \<longleftrightarrow>
         (\<exists>s \<in> set ss. \<exists>x. base_addr s \<le> x \<and> x < end_addr s \<and> b \<le> x \<and> x < e)"
  using within_error_region_iff [of ss b e] within_region_iff assms by auto

theorem error_region_overlap_witness:
  "within_error_region (errorsegs mem_w) 0x1f8 0x200 \<and> \<not> within_error_region (errorsegs mem_w) 0x200 0x240"
proof -
  have e: "errorsegs mem_w = [\<lparr>base_addr = 0, end_addr = 0x200, seg_error = True\<rparr>]"
    by (simp add: mem_w_def add_error_segment_def mem_resp_new_def)
  show ?thesis unfolding e
    using error_region_overlap [of "[\<lparr>base_addr = 0, end_addr = 0x200, seg_error = True\<rparr>]" "0x1f8" "0x200"]
      error_region_overlap [of "[\<lparr>base_addr = 0, end_addr = 0x200, seg_error = True\<rparr>]" "0x200" "0x240"]
    by (auto intro!: exI [of _ "0x1f8"])
qed

text \<open>
  The memory model only ever sees 32-bit addresses: a request sampled from the 64-bit address
  port is performed at the address modulo 4 GiB, so two requests that differ in their upper half are
  the same request to it.
\<close>

theorem sample_req_truncates:
  "unat (mreq_addr (sample_req addr_i l sz i c at ca)) = unat addr_i mod 2 ^ 32 \<and>
   sample_req addr_i l sz i c at ca = sample_req (take_bit 32 addr_i) l sz i c at ca"
proof
  have eq: "(ucast (ucast addr_i :: u32) :: u64) = take_bit 32 addr_i" for addr_i :: u64
    by (rule bit_word_eqI) (auto simp: bit_simps)
  show "unat (mreq_addr (sample_req addr_i l sz i c at ca)) = unat addr_i mod 2 ^ 32"
    by (simp add: sample_req_def eq unat_take_bit)
  show "sample_req addr_i l sz i c at ca = sample_req (take_bit 32 addr_i) l sz i c at ca"
    by (simp add: sample_req_def eq)
qed

end
