(* ===== verification/Scoreboard.thy ===== *)
theory Scoreboard
  imports Ram_Model Mem_Resp Test_Sequence
begin

text \<open>
  \<^verbatim>\<open>hpdcache_test_scoreboard.h\<close>: the reference model that judges the responses of the cache. Each of
  the six threads is an endless loop around one blocking read of a fifo, with no other point of
  suspension, so one iteration is one atomic handler and an execution is a sequence of events in any
  order. An error is printed and counted; reaching the limit ends the process (\<open>Exit 1\<close>). What the
  C++ leaves undefined (an index outside an array, a shift count outside the width, a null pointer)
  is \<open>Undefined\<close>; a failed assertion is \<open>Exit 134\<close>. Local variables and members the code does not
  initialise take their value from an argument named \<open>junk\<close>. The messages printed only at a higher
  verbosity are left out. The directory checks are disabled in the source (\<^verbatim>\<open>ENABLE_CACHE_DIR_VERIF\<close>).
\<close>

section \<open>Data\<close>

definition CORE_REQ_WORDS :: nat where "CORE_REQ_WORDS = HPDCACHE_REQ_WORDS"
definition CORE_REQ_WORD_BYTES :: nat where "CORE_REQ_WORD_BYTES = HPDCACHE_WORD_WIDTH div 8"
definition CORE_REQ_BYTES :: nat where "CORE_REQ_BYTES = CORE_REQ_WORDS * CORE_REQ_WORD_BYTES"

lemma core_req_consts [simp]: "CORE_REQ_WORDS = 1" "CORE_REQ_WORD_BYTES = 8" "CORE_REQ_BYTES = 8"
  by (simp_all add: CORE_REQ_WORDS_def CORE_REQ_WORD_BYTES_def CORE_REQ_BYTES_def)

record inflight_entry_t =
  e_time :: u64
  e_tid :: u32
  e_addr :: u64
  e_need_rsp :: bool
  e_hit :: bool
  e_is_read :: bool
  e_is_write :: bool
  e_is_amo :: bool
  e_is_amo_sc :: bool
  e_is_amo_lr :: bool
  e_is_atomic :: bool
  e_is_error :: bool
  e_op :: nat
  e_is_uncacheable :: bool
  e_bytes :: u8
  e_wdata :: "u64 list"
  e_be :: "u8 list"
  e_rdata :: "u64 list"
  e_rv :: "u8 list"

definition entry_to_string :: "inflight_entry_t \<Rightarrow> string" where
  "entry_to_string e =
     ''@0x'' @ hex (unat (e_addr e)) @ (if e_hit e then '' / hit'' else '' / miss'') @
     (if e_is_read e then '' / read''
      else if e_is_write e then '' / write''
      else if e_is_amo e then '' / amo''
      else if e_is_amo_sc e then '' / sc''
      else if e_is_amo_lr e then '' / lr''
      else '''') @
     '' / '' @ op_to_string (e_op e) @
     (if e_is_uncacheable e then '' / uncacheable'' else '''') @ '' / bytes = '' @ dec (uint (e_bytes e))"

text \<open>The pointer to the core request is the key of the entry it points to.\<close>

record inflight_mem_entry_t =
  me_addr :: u64
  me_bytes :: u8
  me_is_uncacheable :: bool
  me_is_error :: bool
  me_core_req_ptr :: "u32 option"

record lrsc_reservation_buf_t =
  rsv_valid :: bool
  rsv_base_addr :: u64
  rsv_end_addr :: u64
  rsv_is_atomic :: bool

definition sb_within_region :: "u64 \<Rightarrow> u64 \<Rightarrow> u64 \<Rightarrow> bool" where
  "sb_within_region addr base end' =
     (if addr < base then False else if addr > end' then False else True)"

definition get_nline :: "u64 \<Rightarrow> u64" where
  "get_nline addr = drop_bit HPDCACHE_CL_OFFSET_WIDTH addr"

definition get_offset :: "u64 \<Rightarrow> u64" where
  "get_offset addr = addr AND (push_bit HPDCACHE_CL_OFFSET_WIDTH 1 - 1)"

definition align_to :: "u64 \<Rightarrow> u64 \<Rightarrow> u64" where
  "align_to val align = (val div align) * align"

text \<open>The errors, one constructor for each message, and their texts.\<close>

datatype sb_error =
    Core_req_id_inflight u32
  | Amo_fifo_full
  | Core_resp_no_match u32
  | Unexpected_error_flag
  | Shall_be_sc_success
  | Shall_be_sc_failure
  | Wrong_data u64 u8 u8
  | Mem_read_id_inflight u32
  | Not_single_atomic
  | Unexpected_ldex
  | Mem_read_resp_no_match u32
  | Mem_write_id_inflight u32
  | Unexpected_amo
  | Amo_no_core_req
  | Unexpected_stex
  | Stex_no_reservation
  | Stex_no_core_req
  | Mem_write_resp_no_match u32
  | Responses_differ u64 u64
  | Too_many_write_misses u64 u64
  | Too_many_read_misses u64 u64
  | Unresponded_ids "nat list"

definition w_hex :: "'a::len word \<Rightarrow> string" where "w_hex w = hex (unat w)"
definition w_dec :: "'a::len word \<Rightarrow> string" where "w_dec w = dec (uint w)"

fun sb_error_text :: "sb_error \<Rightarrow> string" where
  "sb_error_text (Core_req_id_inflight i) = ''core request ID 0x'' @ w_hex i @ '' matches an inflight request''"
| "sb_error_text Amo_fifo_full = ''inflight AMO request fifo is full''"
| "sb_error_text (Core_resp_no_match i) =
     ''core response ID 0x'' @ w_hex i @ '' does not match any inflight request''"
| "sb_error_text Unexpected_error_flag = ''unexpected value in the error flag of the response''"
| "sb_error_text Shall_be_sc_success = ''response shall be SC_SUCCESS''"
| "sb_error_text Shall_be_sc_failure = ''response shall be SC_FAILURE''"
| "sb_error_text (Wrong_data a recv expc) =
     ''response data is wrong / @0x'' @ w_hex a @ '' / actual = 0x'' @ w_hex recv @ '' / expected = 0x'' @ w_hex expc"
| "sb_error_text (Mem_read_id_inflight i) = ''memory read request ID 0x'' @ w_hex i @ '' matches an inflight request''"
| "sb_error_text Not_single_atomic = ''there shall be a single inflight atomic operation''"
| "sb_error_text Unexpected_ldex = ''unexpected load-exclusive request''"
| "sb_error_text (Mem_read_resp_no_match i) =
     ''memory read response ID 0x'' @ w_hex i @ '' does not match any inflight request''"
| "sb_error_text (Mem_write_id_inflight i) = ''memory write request ID 0x'' @ w_hex i @ '' matches an inflight request''"
| "sb_error_text Unexpected_amo = ''unexpected AMO request''"
| "sb_error_text Amo_no_core_req = ''memory AMO request with no associated core request''"
| "sb_error_text Unexpected_stex = ''unexpected store-exclusive request''"
| "sb_error_text Stex_no_reservation = ''store exclusive access with no valid reservation''"
| "sb_error_text Stex_no_core_req = ''memory store-conditional request with no associated core request''"
| "sb_error_text (Mem_write_resp_no_match i) =
     ''memory write response ID 0x'' @ w_hex i @ '' does not match any inflight request''"
| "sb_error_text (Responses_differ n m) =
     ''number of responses ('' @ w_dec n @ '') is different than the number of requests ('' @ w_dec m @ '')''"
| "sb_error_text (Too_many_write_misses n m) =
     ''number of write misses ('' @ w_dec n @ '') is bigger than the number of write requests ('' @ w_dec m @ '')''"
| "sb_error_text (Too_many_read_misses n m) =
     ''number of read misses ('' @ w_dec n @ '') is bigger than the number of read requests ('' @ w_dec m @ '')''"
| "sb_error_text (Unresponded_ids ids) = ''unresponded ids:'' @ concat (map (\<lambda>i. '' 0x'' @ hex i) ids)"

text \<open>The sixteen performance events, as input signals and as counters.\<close>

datatype perf_event =
    Evt_cache_write_miss | Evt_cache_read_miss | Evt_cache_dir_unc_err | Evt_cache_dir_cor_err
  | Evt_cache_dat_unc_err | Evt_cache_dat_cor_err | Evt_scrub_complete | Evt_uncached_req | Evt_cmo_req
  | Evt_write_req | Evt_read_req | Evt_prefetch_req | Evt_req_on_hold | Evt_rtab_rollback
  | Evt_stall_refill | Evt_stall

record scoreboard =
  nb_cycles :: u64
  nb_cycles_effective :: u64
  nb_core_req :: u64
  nb_core_req_need_rsp :: u64
  nb_core_resp :: u64
  nb_mem_read_req :: u64
  nb_mem_read_resp :: u64
  nb_mem_write_req :: u64
  nb_mem_write_resp :: u64
  nb_error :: u64
  sb_error_limit_m :: u64
  evt_count :: "perf_event \<Rightarrow> u64"
  sb_seq :: "nat list option"
  sb_mem_resp_model :: "segment_t list option"
  inflight_m :: "(u32, inflight_entry_t) smap"
  inflight_mem_read_m :: "(u64, inflight_mem_entry_t) smap"
  inflight_mem_write_m :: "(u64, inflight_mem_entry_t) smap"
  lrsc_buf_m :: lrsc_reservation_buf_t
  ram_m :: ram
  inflight_amo_req_m :: "inflight_entry_t list"
  sc_is_atomic :: bool
  no_inflight_requests_o :: bool
  sb_errors :: "sb_error list"

text \<open>
  \<open>sb_seq\<close> and \<open>sb_mem_resp_model\<close> are the two pointers, with the part of the object the scoreboard
  uses: the identifiers in flight, the error segments. \<open>sb_errors\<close> is what has been printed.
\<close>

definition scoreboard_new :: "lrsc_reservation_buf_t \<Rightarrow> scoreboard" where
  "scoreboard_new junk =
     \<lparr>nb_cycles = 0, nb_cycles_effective = 0, nb_core_req = 0, nb_core_req_need_rsp = 0, nb_core_resp = 0,
      nb_mem_read_req = 0, nb_mem_read_resp = 0, nb_mem_write_req = 0, nb_mem_write_resp = 0, nb_error = 0,
      sb_error_limit_m = 0, evt_count = (\<lambda>_. 0), sb_seq = None, sb_mem_resp_model = None, inflight_m = [],
      inflight_mem_read_m = [], inflight_mem_write_m = [], lrsc_buf_m = junk,
      ram_m = ram_init SCOREBOARD_RAM_SIZE, inflight_amo_req_m = [], sc_is_atomic = False,
      no_inflight_requests_o = False, sb_errors = []\<rparr>"

definition set_sequence :: "nat list \<Rightarrow> scoreboard \<Rightarrow> scoreboard" where
  "set_sequence ids s = s\<lparr>sb_seq := Some ids\<rparr>"

definition set_mem_resp_model :: "segment_t list \<Rightarrow> scoreboard \<Rightarrow> scoreboard" where
  "set_mem_resp_model segs s = s\<lparr>sb_mem_resp_model := Some segs\<rparr>"

definition set_error_limit :: "u64 \<Rightarrow> scoreboard \<Rightarrow> scoreboard" where
  "set_error_limit n s = s\<lparr>sb_error_limit_m := n\<rparr>"

definition perf_events_process :: "(perf_event \<Rightarrow> bool) \<Rightarrow> scoreboard \<Rightarrow> scoreboard" where
  "perf_events_process sig s =
     s\<lparr>nb_cycles := nb_cycles s + 1, evt_count := (\<lambda>v. if sig v then evt_count s v + 1 else evt_count s v)\<rparr>"

definition check_inflight_requests :: "scoreboard \<Rightarrow> scoreboard" where
  "check_inflight_requests s =
     s\<lparr>no_inflight_requests_o :=
         (inflight_mem_write_m s = [] \<and> inflight_mem_read_m s = [] \<and> inflight_m s = [])\<rparr>"

definition print_error :: "sb_error \<Rightarrow> scoreboard \<Rightarrow> scoreboard outcome" where
  "print_error msg s =
     (let s = s\<lparr>sb_errors := sb_errors s @ [msg], nb_error := nb_error s + 1\<rparr> in
      if sb_error_limit_m s > 0 \<and> nb_error s \<ge> sb_error_limit_m s then Exit 1 s else Next s)"

text \<open>\<^verbatim>\<open>seq->deallocate_id\<close>.\<close>

definition release_id :: "u32 \<Rightarrow> scoreboard \<Rightarrow> scoreboard outcome" where
  "release_id i s =
     (case sb_seq s of None \<Rightarrow> Undefined
      | Some ids \<Rightarrow> Next (s\<lparr>sb_seq := Some (fst (deallocate_id (unat i) ids))\<rparr>))"

section \<open>Core requests\<close>

definition core_entry :: "inflight_entry_t \<Rightarrow> hpdcache_test_transaction_req \<Rightarrow> u64 \<Rightarrow> inflight_entry_t" where
  "core_entry junk req now =
     (let e = junk\<lparr>e_time := now, e_tid := ucast (req_tid req), e_addr := ucast (req_addr req),
              e_need_rsp := req_need_rsp req, e_hit := False, e_is_read := is_load req,
              e_is_write := is_store req, e_is_amo := is_amo req, e_is_amo_lr := is_amo_lr req,
              e_is_amo_sc := is_amo_sc req, e_is_uncacheable := req_uncacheable req,
              e_is_error := False, e_bytes := push_bit (unat (req_size req)) 1,
              e_op := unat (req_op req)\<rparr>
      in if is_store req \<or> is_amo_sc req \<or> is_amo req then
           e\<lparr>e_wdata := map (\<lambda>i. bv_range ((i + 1) * HPDCACHE_WORD_WIDTH - 1) (i * HPDCACHE_WORD_WIDTH)
                                   (req_wdata req)) [0..<CORE_REQ_WORDS],
             e_be := map (\<lambda>i. bv_range ((i + 1) * CORE_REQ_WORD_BYTES - 1) (i * CORE_REQ_WORD_BYTES)
                                   (req_be req)) [0..<CORE_REQ_WORDS]\<rparr>
         else e)"

definition check_error_segments ::
  "segment_t list option \<Rightarrow> hpdcache_test_transaction_req \<Rightarrow> inflight_entry_t \<Rightarrow> inflight_entry_t" where
  "check_error_segments segs req e =
     (case segs of
        None \<Rightarrow> e
      | Some segs \<Rightarrow>
          if \<not> is_cmo req \<or> is_cmo_prefetch req
          then e\<lparr>e_is_error := within_error_region segs (e_addr e) (e_addr e + ucast (e_bytes e))\<rparr>
          else e)"

fun words_of_bytes :: "u8 list \<Rightarrow> u64 list" where
  "words_of_bytes [] = []"
| "words_of_bytes (b # bs) = word_of_bytes (take 8 (b # bs)) # words_of_bytes (drop 7 bs)"

definition req_aligned_addr :: "hpdcache_test_transaction_req \<Rightarrow> u64" where
  "req_aligned_addr req = align_to (ucast (req_addr req)) (of_nat (HPDCACHE_REQ_DATA_WIDTH div 8))"

definition expected_data ::
  "ram \<Rightarrow> hpdcache_test_transaction_req \<Rightarrow> inflight_entry_t \<Rightarrow> inflight_entry_t option" where
  "expected_data r req e =
     (if \<not> e_is_error e \<and> (is_load req \<or> is_amo_lr req \<or> is_amo req) then
        (case ram_read r (HPDCACHE_REQ_DATA_WIDTH div 8) (req_aligned_addr req) True of
           Some (bs, Some v) \<Rightarrow> Some (e\<lparr>e_rdata := words_of_bytes bs, e_rv := v\<rparr>)
         | _ \<Rightarrow> None)
      else Some e)"

definition make_reservation ::
  "hpdcache_test_transaction_req \<Rightarrow> inflight_entry_t \<Rightarrow> lrsc_reservation_buf_t \<Rightarrow> lrsc_reservation_buf_t" where
  "make_reservation req e b =
     (if is_amo_lr req then
        (if \<not> e_is_error e
         then b\<lparr>rsv_valid := True, rsv_base_addr := e_addr e, rsv_end_addr := e_addr e + 8, rsv_is_atomic := False\<rparr>
         else b\<lparr>rsv_valid := False\<rparr>)
      else b)"

definition addr_match :: "inflight_entry_t \<Rightarrow> lrsc_reservation_buf_t \<Rightarrow> bool" where
  "addr_match e b =
     (let lrsc_rsrv_nline = get_nline (rsv_base_addr b);
          lrsc_rsrv_word = drop_bit 3 (get_offset (rsv_base_addr b));
          lrsc_entry_nline = get_nline (e_addr e);
          lrsc_entry_words = (if e_bytes e < 8 then 1 else ucast (drop_bit 3 (e_bytes e))) :: u64;
          lrsc_entry_base = drop_bit 3 (get_offset (e_addr e));
          lrsc_entry_end = lrsc_entry_base + lrsc_entry_words
      in rsv_valid b \<and> lrsc_rsrv_nline = lrsc_entry_nline \<and> lrsc_rsrv_word \<ge> lrsc_entry_base \<and>
         lrsc_rsrv_word < lrsc_entry_end)"

definition invalidate_reservation ::
  "hpdcache_test_transaction_req \<Rightarrow> inflight_entry_t \<Rightarrow> lrsc_reservation_buf_t \<Rightarrow>
   inflight_entry_t \<times> lrsc_reservation_buf_t" where
  "invalidate_reservation req e b =
     (if is_amo req \<or> is_amo_sc req \<or> is_store req then
        (let m = addr_match e b;
             e = (if is_amo_sc req then e\<lparr>e_is_error := (e_is_error e \<and> m), e_is_atomic := m\<rparr> else e)
         in (e, if m \<or> is_amo_sc req then b\<lparr>rsv_valid := False\<rparr> else b))
      else (e, b))"

definition AMO_FIFO_SIZE :: nat where "AMO_FIFO_SIZE = 16"

text \<open>From the point where the atomic operation has been shared: the store, then the table.\<close>

definition record_store ::
  "hpdcache_test_transaction_req \<Rightarrow> inflight_entry_t \<Rightarrow> scoreboard \<Rightarrow> scoreboard outcome" where
  "record_store req e s =
     (if is_store req \<and> \<not> e_is_error e then
        (case ram_write (ram_m s) (concat (map bytes8 (e_wdata e))) (e_be e) (HPDCACHE_REQ_DATA_WIDTH div 8)
                (req_aligned_addr req) of
           None \<Rightarrow> Undefined
         | Some r \<Rightarrow> Next (s\<lparr>ram_m := r\<rparr>))
      else Next s)"

definition track_request ::
  "hpdcache_test_transaction_req \<Rightarrow> inflight_entry_t \<Rightarrow> scoreboard \<Rightarrow> scoreboard outcome" where
  "track_request req e s =
     (if req_need_rsp req
      then Next (s\<lparr>inflight_m := smap_insert (ucast (req_tid req)) e (inflight_m s)\<rparr>)
      else release_id (ucast (req_tid req)) s)"

definition share_atomic ::
  "hpdcache_test_transaction_req \<Rightarrow> inflight_entry_t \<Rightarrow> scoreboard \<Rightarrow> scoreboard outcome" where
  "share_atomic req e s =
     (let go = (\<lambda>s. seq_out (record_store req e s) (track_request req e)) in
      if is_amo req \<or> is_amo_lr req \<or> (is_amo_sc req \<and> e_is_atomic e) then
        (if length (inflight_amo_req_m s) < AMO_FIFO_SIZE
         then go (s\<lparr>inflight_amo_req_m := inflight_amo_req_m s @ [e]\<rparr>)
         else print_error Amo_fifo_full s)
      else go s)"

definition core_req_process ::
  "inflight_entry_t \<Rightarrow> hpdcache_test_transaction_req \<Rightarrow> scoreboard \<Rightarrow> scoreboard outcome" where
  "core_req_process junk req s =
     (let s = s\<lparr>nb_core_req := nb_core_req s + 1,
                nb_core_req_need_rsp := nb_core_req_need_rsp s + (if req_need_rsp req then 1 else 0)\<rparr>;
          req_id = ucast (req_tid req) :: u32
      in if smap_find (inflight_m s) req_id \<noteq> None then print_error (Core_req_id_inflight req_id) s
         else if is_cmo req \<and> \<not> req_need_rsp req then release_id req_id s
         else
           (case expected_data (ram_m s) req
                   (check_error_segments (sb_mem_resp_model s) req (core_entry junk req (nb_cycles s))) of
              None \<Rightarrow> Undefined
            | Some e \<Rightarrow>
                (let (e, b) = invalidate_reservation req e (make_reservation req e (lrsc_buf_m s))
                 in share_atomic req e (s\<lparr>lrsc_buf_m := b\<rparr>))))"

section \<open>Core responses\<close>

text \<open>The check of the received bytes: \<open>i\<close> is the loop counter, then the iterations left.\<close>

fun check_bytes ::
  "u64 \<Rightarrow> u8 list \<Rightarrow> u8 list \<Rightarrow> u8 list \<Rightarrow> nat \<Rightarrow> nat \<Rightarrow> scoreboard \<Rightarrow> scoreboard outcome" where
  "check_bytes aligned recv expc rv i 0 s = Next s"
| "check_bytes aligned recv expc rv i (Suc n) s =
     (if i < length recv \<and> i < length expc \<and> i div CORE_REQ_WORD_BYTES < length rv then
        seq_out
          (if drop_bit (i mod CORE_REQ_WORD_BYTES) (rv ! (i div CORE_REQ_WORD_BYTES)) AND 1 \<noteq> 0 \<and> recv ! i \<noteq> expc ! i
           then print_error (Wrong_data (aligned + of_nat i) (recv ! i) (expc ! i)) s
           else Next s)
          (check_bytes aligned recv expc rv (Suc i) n)
      else Undefined)"

definition resp_words :: "hpdcache_test_transaction_resp \<Rightarrow> u64 list" where
  "resp_words resp =
     map (\<lambda>i. bv_range ((i + 1) * HPDCACHE_WORD_WIDTH - 1) (i * HPDCACHE_WORD_WIDTH) (rsp_rdata resp))
       [0..<CORE_REQ_WORDS]"

definition resp_word :: "inflight_entry_t \<Rightarrow> nat" where
  "resp_word e = (unat (e_addr e) div CORE_REQ_WORD_BYTES) mod CORE_REQ_WORDS"

definition check_sc :: "hpdcache_test_transaction_resp \<Rightarrow> inflight_entry_t \<Rightarrow> scoreboard \<Rightarrow> scoreboard outcome" where
  "check_sc resp e s =
     (if e_is_amo_sc e then
        (let w = resp_word e;
             sc_resp = resp_words resp ! w;
             sc_resp = (if e_bytes e = 4 then ucast (ucast sc_resp :: u32) else sc_resp)
         in if e_is_atomic e \<and> sc_is_atomic s then
              (case ram_write (ram_m s) (bytes8 (e_wdata e ! w)) [e_be e ! w] CORE_REQ_WORD_BYTES
                      (align_to (e_addr e) (of_nat CORE_REQ_WORD_BYTES)) of
                 None \<Rightarrow> Undefined
               | Some r \<Rightarrow>
                   (let s = s\<lparr>ram_m := r\<rparr>
                    in if sc_resp \<noteq> 0 then print_error Shall_be_sc_success s else Next s))
            else if sc_resp \<noteq> 1 then print_error Shall_be_sc_failure s
            else Next s)
      else Next s)"

definition check_data :: "hpdcache_test_transaction_resp \<Rightarrow> inflight_entry_t \<Rightarrow> scoreboard \<Rightarrow> scoreboard outcome" where
  "check_data resp e s =
     (if e_is_read e \<or> e_is_amo e \<or> e_is_amo_lr e then
        check_bytes (align_to (e_addr e) (of_nat CORE_REQ_BYTES)) (concat (map bytes8 (resp_words resp)))
          (concat (map bytes8 (e_rdata e))) (e_rv e) (unat (e_addr e) mod CORE_REQ_BYTES) (unat (e_bytes e)) s
      else Next s)"

definition update_amo :: "hpdcache_test_transaction_resp \<Rightarrow> inflight_entry_t \<Rightarrow> scoreboard \<Rightarrow> scoreboard outcome" where
  "update_amo resp e s =
     (if e_is_amo e then
        (let w = resp_word e;
             offset = (unat (e_addr e) mod CORE_REQ_WORD_BYTES) * CORE_REQ_WORD_BYTES;
             amo_new = e_wdata e ! w;
             amo_old = resp_words resp ! w;
             amo_new = (if e_bytes e = 4 then ucast (ucast (drop_bit offset amo_new) :: u32) else amo_new);
             amo_old = (if e_bytes e = 4 then ucast (ucast (drop_bit offset amo_old) :: u32) else amo_old)
         in case compute_amo (e_op e) amo_old amo_new (unat (e_bytes e)) of
              None \<Rightarrow> Exit 134 s
            | Some amo_res \<Rightarrow>
                (case ram_write (ram_m s) (bytes8 (push_bit offset amo_res)) [e_be e ! w] CORE_REQ_WORD_BYTES
                        (align_to (e_addr e) (of_nat CORE_REQ_WORD_BYTES)) of
                   None \<Rightarrow> Undefined
                 | Some r \<Rightarrow> Next (s\<lparr>ram_m := r\<rparr>)))
      else Next s)"

definition core_resp_process :: "hpdcache_test_transaction_resp \<Rightarrow> scoreboard \<Rightarrow> scoreboard outcome" where
  "core_resp_process resp s =
     (let s = s\<lparr>nb_core_resp := nb_core_resp s + 1, nb_cycles_effective := nb_cycles s\<rparr>;
          resp_id = ucast (rsp_tid resp) :: u32
      in case smap_find (inflight_m s) resp_id of
           None \<Rightarrow> print_error (Core_resp_no_match resp_id) s
         | Some e \<Rightarrow>
             if \<not> e_is_write e \<and> rsp_error resp \<noteq> e_is_error e then print_error Unexpected_error_flag s
             else
               seq_out
                 (if \<not> e_is_error e
                  then seq_out (seq_out (check_sc resp e s) (check_data resp e)) (update_amo resp e)
                  else Next s)
                 (\<lambda>s. release_id resp_id (s\<lparr>inflight_m := smap_erase resp_id (inflight_m s)\<rparr>)))"

section \<open>The memory interface\<close>

text \<open>The first of the oldest core requests on a cache line, in the order of the identifiers.\<close>

fun find_core_req ::
  "u64 \<Rightarrow> (u32, inflight_entry_t) smap \<Rightarrow> (u32 \<times> inflight_entry_t) option \<Rightarrow> (u32 \<times> inflight_entry_t) option" where
  "find_core_req addr [] acc = acc"
| "find_core_req addr ((k, cr) # m) acc =
     (if get_nline (e_addr cr) = get_nline addr then
        (case acc of
           None \<Rightarrow> find_core_req addr m (Some (k, cr))
         | Some (k', cr') \<Rightarrow>
             if e_time cr < e_time cr' then find_core_req addr m (Some (k, cr))
             else find_core_req addr m acc)
      else find_core_req addr m acc)"

text \<open>The entry of a memory request; \<open>None\<close> for an oversized shift or a missing memory model.\<close>

definition mem_entry ::
  "'a hpdcache_test_transaction_mem_req_scheme \<Rightarrow> scoreboard \<Rightarrow> inflight_mem_entry_t option" where
  "mem_entry req s =
     (if unat (mreq_size req) < 64 then
        (let bytes = push_bit (unat (mreq_size req)) 1 :: u64 in
         case sb_mem_resp_model s of
           None \<Rightarrow> None
         | Some segs \<Rightarrow>
             Some \<lparr>me_addr = mreq_addr req, me_bytes = ucast bytes, me_is_uncacheable = (\<not> mreq_cacheable req),
                   me_is_error = within_error_region segs (mreq_addr req) (mreq_addr req + bytes),
                   me_core_req_ptr = map_option fst (find_core_req (mreq_addr req) (inflight_m s) None)\<rparr>)
      else None)"

definition check_single_atomic :: "scoreboard \<Rightarrow> scoreboard outcome" where
  "check_single_atomic s =
     (if length (inflight_amo_req_m s) > 1 then print_error Not_single_atomic s else Next s)"

definition mem_read_req_process ::
  "hpdcache_test_transaction_mem_read_req \<Rightarrow> scoreboard \<Rightarrow> scoreboard outcome" where
  "mem_read_req_process req s =
     (let s = s\<lparr>nb_mem_read_req := nb_mem_read_req s + 1\<rparr>;
          req_id = ucast (mreq_id req) :: u64
      in if smap_find (inflight_mem_read_m s) req_id \<noteq> None then print_error (Mem_read_id_inflight (mreq_id req)) s
         else
           (case mem_entry req s of
              None \<Rightarrow> Undefined
            | Some e \<Rightarrow>
                (let s = s\<lparr>inflight_mem_read_m := smap_insert req_id e (inflight_mem_read_m s)\<rparr>
                 in if mem_is_ldex req then
                      seq_out (check_single_atomic s)
                        (\<lambda>s. case inflight_amo_req_m s of
                               [] \<Rightarrow> print_error Unexpected_ldex s
                             | _ # q \<Rightarrow> Next (s\<lparr>inflight_amo_req_m := q\<rparr>))
                    else Next s)))"

text \<open>The bytes of the line that the scoreboard does not know yet.\<close>

definition MEM_WORDS :: nat where "MEM_WORDS = HPDCACHE_MEM_DATA_WIDTH div 64"
definition MEM_BYTES :: nat where "MEM_BYTES = HPDCACHE_MEM_DATA_WIDTH div 8"

lemma mem_line_consts [simp]: "MEM_WORDS = 8" "MEM_BYTES = 64"
  by (simp_all add: MEM_WORDS_def MEM_BYTES_def)

fun unset_loop :: "ram \<Rightarrow> u64 \<Rightarrow> nat \<Rightarrow> nat \<Rightarrow> u8 list \<Rightarrow> u8 list option" where
  "unset_loop r aligned i 0 unset = Some unset"
| "unset_loop r aligned i (Suc n) unset =
     (case getBmap r (unat (aligned + of_nat i)) of
        None \<Rightarrow> None
      | Some b \<Rightarrow>
          unset_loop r aligned (Suc i) n
            (unset[i div 8 := unset ! (i div 8) OR push_bit (i mod 8) (if b then 0 else 1)]))"

text \<open>
  The byte enables of a refill. \<open>None\<close> stands for the shifts \<^verbatim>\<open>1UL << bytes\<close> and
  \<^verbatim>\<open>... << (_byte - i * 8)\<close> with a count outside 0 to 63, and for \<^verbatim>\<open>be[i]\<close> outside the array.
\<close>

function be_loop :: "int \<Rightarrow> u8 list \<Rightarrow> nat \<Rightarrow> int \<Rightarrow> u8 list \<Rightarrow> u8 list option" where
  "be_loop byte unset i bytes be =
     (if bytes > 0 then
        (let sh = byte - int i * 8 in
         if bytes < 64 \<and> 0 \<le> sh \<and> sh < 64 \<and> i < length be \<and> i < length unset then
           (let m = ucast (push_bit (nat sh) (push_bit (nat bytes) 1 - 1 :: u64)) :: u8
            in be_loop byte unset (Suc i) (bytes - 8) (be[i := m AND unset ! i]))
         else None)
      else Some be)"
  by pat_completeness auto
termination by (relation "measure (\<lambda>(_, _, _, bytes, _). nat bytes)") auto

declare be_loop.simps [simp del]

definition refill :: "hpdcache_test_transaction_mem_read_resp \<Rightarrow> inflight_mem_entry_t \<Rightarrow> ram \<Rightarrow> ram option" where
  "refill resp e r =
     (let aligned_addr = align_to (me_addr e) (of_nat MEM_BYTES);
          w = (unat (me_addr e) div MEM_BYTES) mod MEM_WORDS;
          byte = unat (me_addr e) mod MEM_BYTES;
          rdata = map (\<lambda>i. bv_range ((i + 1) * 64 - 1) (i * 64) (rresp_data resp) :: u64) [0..<MEM_WORDS]
      in case unset_loop r aligned_addr 0 MEM_BYTES (replicate MEM_WORDS 0) of
           None \<Rightarrow> None
         | Some unset \<Rightarrow>
             (case be_loop (int byte) unset w (uint (me_bytes e)) (replicate MEM_WORDS 0) of
                None \<Rightarrow> None
              | Some be \<Rightarrow> ram_write r (concat (map bytes8 rdata)) be MEM_BYTES aligned_addr))"

definition mem_read_resp_process ::
  "hpdcache_test_transaction_mem_read_resp \<Rightarrow> scoreboard \<Rightarrow> scoreboard outcome" where
  "mem_read_resp_process resp s =
     (let s = s\<lparr>nb_mem_read_resp := nb_mem_read_resp s + 1\<rparr>;
          resp_id = ucast (rresp_id resp) :: u64
      in case smap_find (inflight_mem_read_m s) resp_id of
           None \<Rightarrow> print_error (Mem_read_resp_no_match (rresp_id resp)) s
         | Some e \<Rightarrow>
             seq_out
               (if rresp_error resp = 0 then
                  (case refill resp e (ram_m s) of None \<Rightarrow> Undefined | Some r \<Rightarrow> Next (s\<lparr>ram_m := r\<rparr>))
                else Next s)
               (\<lambda>s. Next (if rresp_last resp
                          then s\<lparr>inflight_mem_read_m := smap_erase resp_id (inflight_mem_read_m s)\<rparr> else s)))"

definition mem_write_amo :: "u64 \<Rightarrow> inflight_mem_entry_t \<Rightarrow> scoreboard \<Rightarrow> scoreboard outcome" where
  "mem_write_amo req_id e s =
     seq_out (check_single_atomic s)
       (\<lambda>s. case inflight_amo_req_m s of
              [] \<Rightarrow> print_error Unexpected_amo s
            | _ # q \<Rightarrow>
                (let s = s\<lparr>inflight_amo_req_m := q\<rparr> in
                 seq_out (if me_core_req_ptr e = None then print_error Amo_no_core_req s else Next s)
                   (\<lambda>s. Next (s\<lparr>inflight_mem_read_m := smap_insert req_id e (inflight_mem_read_m s)\<rparr>))))"

definition mem_write_stex :: "inflight_mem_entry_t \<Rightarrow> scoreboard \<Rightarrow> scoreboard outcome" where
  "mem_write_stex e s =
     seq_out (check_single_atomic s)
       (\<lambda>s. case inflight_amo_req_m s of
              [] \<Rightarrow> print_error Unexpected_stex s
            | ret # q \<Rightarrow>
                (let s = s\<lparr>inflight_amo_req_m := q\<rparr> in
                 if \<not> e_is_atomic ret then print_error Stex_no_reservation s
                 else if me_core_req_ptr e = None then print_error Stex_no_core_req s
                 else Next s))"

text \<open>A request is never both an AMO and a store-exclusive, so an early \<^verbatim>\<open>continue\<close> skips nothing else.\<close>

definition mem_write_req_process ::
  "hpdcache_test_transaction_mem_write_req \<Rightarrow> scoreboard \<Rightarrow> scoreboard outcome" where
  "mem_write_req_process req s =
     (let s = s\<lparr>nb_mem_write_req := nb_mem_write_req s + 1\<rparr>;
          req_id = ucast (mreq_id req) :: u64
      in if unat (mreq_size req) \<ge> 64 then Undefined
         else if smap_find (inflight_mem_write_m s) req_id \<noteq> None
         then print_error (Mem_write_id_inflight (mreq_id req)) s
         else
           (case mem_entry req s of
              None \<Rightarrow> Undefined
            | Some e \<Rightarrow>
                (let s = s\<lparr>inflight_mem_write_m := smap_insert req_id e (inflight_mem_write_m s)\<rparr>
                 in seq_out (if mem_is_amo req then mem_write_amo req_id e s else Next s)
                      (\<lambda>s. if mem_is_stex req then mem_write_stex e s else Next s))))"

definition mem_write_resp_process ::
  "hpdcache_test_transaction_mem_write_resp \<Rightarrow> scoreboard \<Rightarrow> scoreboard outcome" where
  "mem_write_resp_process resp s =
     (let s = s\<lparr>nb_mem_write_resp := nb_mem_write_resp s + 1\<rparr>;
          resp_id = ucast (wresp_id resp) :: u64
      in if smap_find (inflight_mem_write_m s) resp_id = None
         then print_error (Mem_write_resp_no_match (wresp_id resp)) s
         else Next (s\<lparr>sc_is_atomic := wresp_is_atomic resp,
                       inflight_mem_write_m := smap_erase resp_id (inflight_mem_write_m s)\<rparr>))"

section \<open>The end of the simulation\<close>

definition final_checks :: "scoreboard \<Rightarrow> scoreboard outcome" where
  "final_checks s =
     seq_out (seq_out (seq_out
       (if nb_core_resp s \<noteq> nb_core_req_need_rsp s
        then print_error (Responses_differ (nb_core_resp s) (nb_core_req_need_rsp s)) s else Next s)
       (\<lambda>s. if evt_count s Evt_cache_write_miss > evt_count s Evt_write_req
            then print_error (Too_many_write_misses (evt_count s Evt_cache_write_miss) (evt_count s Evt_write_req)) s
            else Next s))
       (\<lambda>s. if evt_count s Evt_cache_read_miss > evt_count s Evt_read_req
            then print_error (Too_many_read_misses (evt_count s Evt_cache_read_miss) (evt_count s Evt_read_req)) s
            else Next s))
       (\<lambda>s. case sb_seq s of
              None \<Rightarrow> Undefined
            | Some ids \<Rightarrow> if length ids > 0 then print_error (Unresponded_ids ids) s else Next s)"

text \<open>The counters of the statistics table (the three ratios, floating point, are left out).\<close>

definition statistics :: "scoreboard \<Rightarrow> (string \<times> u64) list" where
  "statistics s =
     [(''SB.NB_ERROR'', nb_error s),
      (''SB.NB_CYCLES'', nb_cycles_effective s),
      (''SB.NB_CORE_REQ'', nb_core_req s),
      (''SB.NB_CORE_RESP'', nb_core_resp s),
      (''SB.NB_MEM_READ_REQ'', nb_mem_read_req s),
      (''SB.NB_MEM_READ_RESP'', nb_mem_read_resp s),
      (''SB.NB_MEM_WRITE_REQ'', nb_mem_write_req s),
      (''SB.NB_MEM_WRITE_RESP'', nb_mem_write_resp s),
      (''CACHE.WRITE_MISSES'', evt_count s Evt_cache_write_miss),
      (''CACHE.READ_MISSES'', evt_count s Evt_cache_read_miss),
      (''CACHE.DIR_UNC_ERRORS'', evt_count s Evt_cache_dir_unc_err),
      (''CACHE.DIR_COR_ERRORS'', evt_count s Evt_cache_dir_cor_err),
      (''CACHE.DAT_UNC_ERRORS'', evt_count s Evt_cache_dat_unc_err),
      (''CACHE.DAT_COR_ERRORS'', evt_count s Evt_cache_dat_cor_err),
      (''CACHE.SCRUBBER_COMPLETE'', evt_count s Evt_scrub_complete),
      (''CACHE.UNCACHED_REQUESTS'', evt_count s Evt_uncached_req),
      (''CACHE.CMO_REQUESTS'', evt_count s Evt_cmo_req),
      (''CACHE.WRITE_REQUESTS'', evt_count s Evt_write_req),
      (''CACHE.READ_REQUESTS'', evt_count s Evt_read_req),
      (''CACHE.PREFETCH_REQUESTS'', evt_count s Evt_prefetch_req),
      (''CACHE.ON_HOLD_REQUESTS'', evt_count s Evt_req_on_hold),
      (''CACHE.RTAB_ROLLBACK'', evt_count s Evt_rtab_rollback),
      (''CACHE.STALL_REFILL'', evt_count s Evt_stall_refill),
      (''CACHE.STALL'', evt_count s Evt_stall)]"

section \<open>Executions\<close>

datatype sb_event =
    Core_req inflight_entry_t hpdcache_test_transaction_req
  | Core_resp hpdcache_test_transaction_resp
  | Mem_read_req hpdcache_test_transaction_mem_read_req
  | Mem_read_resp hpdcache_test_transaction_mem_read_resp
  | Mem_write_req hpdcache_test_transaction_mem_write_req
  | Mem_write_resp hpdcache_test_transaction_mem_write_resp
  | Clk_pos "perf_event \<Rightarrow> bool"
  | Clk_neg
  | Seq_allocate u32

text \<open>The sequence allocates identifiers in the same object; its random number is the argument.\<close>

definition seq_allocate :: "u32 \<Rightarrow> scoreboard \<Rightarrow> scoreboard outcome" where
  "seq_allocate rnd s =
     (case sb_seq s of
        None \<Rightarrow> Undefined
      | Some ids \<Rightarrow>
          (case allocate_id rnd ids of
             None \<Rightarrow> Exit 134 s
           | Some (i, ids') \<Rightarrow> Next (s\<lparr>sb_seq := Some ids'\<rparr>)))"

fun sb_handle :: "sb_event \<Rightarrow> scoreboard \<Rightarrow> scoreboard outcome" where
  "sb_handle (Core_req junk req) s = core_req_process junk req s"
| "sb_handle (Core_resp resp) s = core_resp_process resp s"
| "sb_handle (Mem_read_req req) s = mem_read_req_process req s"
| "sb_handle (Mem_read_resp resp) s = mem_read_resp_process resp s"
| "sb_handle (Mem_write_req req) s = mem_write_req_process req s"
| "sb_handle (Mem_write_resp resp) s = mem_write_resp_process resp s"
| "sb_handle (Clk_pos sig) s = Next (perf_events_process sig s)"
| "sb_handle Clk_neg s = Next (check_inflight_requests s)"
| "sb_handle (Seq_allocate rnd) s = seq_allocate rnd s"

fun sb_run :: "sb_event list \<Rightarrow> scoreboard \<Rightarrow> scoreboard outcome" where
  "sb_run [] s = Next s"
| "sb_run (v # vs) s = seq_out (sb_handle v s) (sb_run vs)"

end
