(* ===== verification/Scoreboard_Inv.thy ===== *)
theory Scoreboard_Inv
  imports Scoreboard
begin

text \<open>
  The invariant of the scoreboard and its preservation by every handler: the tables are sorted maps
  with well-formed entries, the RAM is well formed, the number of errors is the number of messages
  and below the limit, and as long as no error was found the responses still owed are exactly the
  entries of the table.
\<close>

section \<open>Outcomes that continue or exit\<close>

text \<open>\<open>out_all P Q r\<close>: \<open>P\<close> holds if \<open>r\<close> continues, \<open>Q\<close> of the exit status and the state if it exits.\<close>

fun out_all :: "('s \<Rightarrow> bool) \<Rightarrow> (int \<Rightarrow> 's \<Rightarrow> bool) \<Rightarrow> 's outcome \<Rightarrow> bool" where
  "out_all P Q (Next s) = P s"
| "out_all P Q (Exit c s) = Q c s"
| "out_all P Q Undefined = True"

lemma out_all_seq:
  "out_all P Q r \<Longrightarrow> (\<And>s. P s \<Longrightarrow> out_all P' Q (f s)) \<Longrightarrow> out_all P' Q (seq_out r f)"
  by (cases r) auto

lemma out_all_mono:
  "out_all P Q r \<Longrightarrow> (\<And>s. P s \<Longrightarrow> P' s) \<Longrightarrow> (\<And>c s. Q c s \<Longrightarrow> Q' c s) \<Longrightarrow> out_all P' Q' r"
  by (cases r) auto

section \<open>The invariant\<close>

definition entry_ok :: "u32 \<Rightarrow> inflight_entry_t \<Rightarrow> bool" where
  "entry_ok k e \<longleftrightarrow> e_tid e = k \<and> e_need_rsp e \<and>
     (e_is_write e \<or> e_is_amo e \<or> e_is_amo_sc e \<longrightarrow> length (e_wdata e) = 1 \<and> length (e_be e) = 1) \<and>
     (\<not> e_is_error e \<and> (e_is_read e \<or> e_is_amo e \<or> e_is_amo_lr e) \<longrightarrow>
        length (e_rdata e) = 1 \<and> length (e_rv e) = 1)"

text \<open>The part that holds in the middle of a handler too, and the balance of requests and responses.\<close>

definition sb_wf :: "scoreboard \<Rightarrow> bool" where
  "sb_wf s \<longleftrightarrow>
     smap_ok (inflight_m s) \<and> smap_ok (inflight_mem_read_m s) \<and> smap_ok (inflight_mem_write_m s) \<and>
     ram_ok (ram_m s) \<and> ram_N (ram_m s) = SCOREBOARD_RAM_SIZE \<and>
     (\<forall>(k, e) \<in> set (inflight_m s). entry_ok k e) \<and> length (inflight_amo_req_m s) \<le> AMO_FIFO_SIZE \<and>
     nb_error s = of_nat (length (sb_errors s)) \<and>
     (sb_error_limit_m s > 0 \<longrightarrow> length (sb_errors s) < unat (sb_error_limit_m s))"

definition balanced :: "scoreboard \<Rightarrow> bool" where
  "balanced s \<longleftrightarrow> (sb_errors s = [] \<longrightarrow>
     nb_core_req_need_rsp s = nb_core_resp s + of_nat (length (inflight_m s)))"

definition sb_inv :: "scoreboard \<Rightarrow> bool" where
  "sb_inv s \<longleftrightarrow> sb_wf s \<and> balanced s"

text \<open>How an execution may end: at the error limit, or at a failed assertion.\<close>

definition sb_exit :: "int \<Rightarrow> scoreboard \<Rightarrow> bool" where
  "sb_exit c s \<longleftrightarrow> nb_error s = of_nat (length (sb_errors s)) \<and>
     (c = 134 \<and> (sb_error_limit_m s > 0 \<longrightarrow> length (sb_errors s) < unat (sb_error_limit_m s)) \<or>
      c = 1 \<and> sb_error_limit_m s > 0 \<and> length (sb_errors s) = unat (sb_error_limit_m s))"

lemma limit_reached:
  assumes "sb_wf s" "0 < sb_error_limit_m s"
  shows "sb_error_limit_m s \<le> nb_error s + 1 \<longleftrightarrow> Suc (length (sb_errors s)) = unat (sb_error_limit_m s)"
proof -
  have len: "length (sb_errors s) < unat (sb_error_limit_m s)" and nb: "nb_error s + 1 = of_nat (Suc (length (sb_errors s)))"
    using assms by (simp_all add: sb_wf_def add.commute)
  from len have "Suc (length (sb_errors s)) < 2 ^ 64" using unat_less_exp [of "sb_error_limit_m s"] by simp
  then have "unat (nb_error s + 1) = Suc (length (sb_errors s))" unfolding nb
    by (intro unat_of_nat_self) simp
  with len show ?thesis unfolding word_le_nat_alt by linarith
qed

lemma print_error_inv:
  assumes "sb_wf s"
  shows "out_all sb_inv sb_exit (print_error m s)"
  using assms limit_reached [OF assms]
  by (auto simp: print_error_def Let_def sb_inv_def sb_wf_def balanced_def sb_exit_def)

lemma unat_align_to:
  assumes "0 < n" "n < 2 ^ 64"
  shows "unat (align_to a (of_nat n)) = unat a div n * n"
proof -
  have "unat a div n * n < 2 ^ 64"
    by (rule le_less_trans [OF div_times_less_eq_dividend]) (use unat_less_exp [of a] in simp)
  moreover have "unat a div n < 2 ^ 64"
    by (rule le_less_trans [OF div_le_dividend]) (use unat_less_exp [of a] in simp)
  ultimately show ?thesis
    using assms by (simp add: align_to_def unat_word_ariths unat_div unat_of_nat_self)
qed

lemma aligned_fits:
  assumes "0 < n" "n dvd N" "0 < N"
  shows "(k * n) mod N + n \<le> (N::nat)"
proof -
  obtain q where N: "N = n * q" using assms(2) by blast
  have "k mod q < q" using assms N by (cases q) auto
  then have "Suc (k mod q) * n \<le> q * n" by (intro mult_right_mono) auto
  moreover have "(k * n) mod N = n * (k mod q)" unfolding N mult.commute [of k n] by (rule mult_mod_right [symmetric])
  ultimately show ?thesis unfolding N by (simp add: mult.commute)
qed

lemma sb_ram_write:
  assumes "ram_ok r" "ram_N r = SCOREBOARD_RAM_SIZE" "n dvd SCOREBOARD_RAM_SIZE" "0 < n" "n < 2 ^ 64"
    "n \<le> length buf" "n \<le> 8 * length be"
  obtains r' where "ram_write r buf be n (align_to a (of_nat n)) = Some r'" "ram_ok r'"
    "ram_N r' = SCOREBOARD_RAM_SIZE"
    "ram_abs r' = upd_bytes buf be (unat (align_to a (of_nat n)) mod SCOREBOARD_RAM_SIZE) 0 n (ram_abs r)"
proof -
  have "unat (align_to a (of_nat n)) mod ram_N r + n \<le> ram_N r"
    unfolding unat_align_to [OF assms(4,5)] assms(2) by (rule aligned_fits [OF assms(4,3)]) simp
  from ram.wr_ok [OF assms(1) this assms(6,7)] that assms(2) show thesis by auto
qed

lemmas sb_ram_write8 = sb_ram_write [where n = 8, simplified]
lemmas sb_ram_write64 = sb_ram_write [where n = 64, simplified]

lemma sb_ram_read8:
  assumes "ram_ok r" "ram_N r = SCOREBOARD_RAM_SIZE"
  obtains bs v where "ram_read r 8 (align_to a 8) True = Some (bs, Some v)" "length bs = 8" "length v = 1"
    "\<And>j. j < 8 \<Longrightarrow> bit (v ! 0) j \<longleftrightarrow> ram_abs r (unat (align_to a 8) mod SCOREBOARD_RAM_SIZE + j) \<noteq> None"
    "\<And>j b. j < 8 \<Longrightarrow> ram_abs r (unat (align_to a 8) mod SCOREBOARD_RAM_SIZE + j) = Some b \<Longrightarrow> bs ! j = b"
proof -
  have "unat (align_to a (of_nat 8)) mod ram_N r + 8 \<le> ram_N r"
    by (subst unat_align_to) (use aligned_fits [of 8 SCOREBOARD_RAM_SIZE "unat a div 8"] assms in simp_all)
  then show thesis
    using ram.rd_ok [OF assms(1), of "align_to a 8" 8] that assms(2) by (auto simp: be_bit_def)
qed

lemma words_of_bytes_8: "length bs = 8 \<Longrightarrow> words_of_bytes bs = [word_of_bytes bs]"
  by (cases bs) simp_all

section \<open>Every handler keeps the invariant\<close>

lemma core_entry_fields [simp]:
  "e_tid (core_entry j req t) = ucast (req_tid req)" "e_need_rsp (core_entry j req t) = req_need_rsp req"
  "e_addr (core_entry j req t) = ucast (req_addr req)" "e_is_read (core_entry j req t) = is_load req"
  "e_is_write (core_entry j req t) = is_store req" "e_is_amo (core_entry j req t) = is_amo req"
  "e_is_amo_sc (core_entry j req t) = is_amo_sc req" "e_is_amo_lr (core_entry j req t) = is_amo_lr req"
  "e_bytes (core_entry j req t) = push_bit (unat (req_size req)) 1" "e_time (core_entry j req t) = t"
  "e_op (core_entry j req t) = unat (req_op req)" "e_is_error (core_entry j req t) = False"
  by (simp_all add: core_entry_def Let_def)

lemma core_entry_data:
  "is_store req \<or> is_amo_sc req \<or> is_amo req \<Longrightarrow>
     e_wdata (core_entry j req t) = [req_wdata req] \<and> e_be (core_entry j req t) = [req_be req]"
  by (auto simp: core_entry_def Let_def bv_range_def take_bit_word_eq_self)

lemma sc_exclusive: "is_amo_sc req \<Longrightarrow> \<not> is_load req \<and> \<not> is_amo req \<and> \<not> is_amo_lr req \<and> \<not> is_store req"
  by (simp add: is_amo_sc_def is_load_def is_amo_def is_amo_lr_def is_store_def has_op_def)

lemma store_exclusive: "is_store req \<Longrightarrow> \<not> is_load req \<and> \<not> is_amo req \<and> \<not> is_amo_lr req \<and> \<not> is_amo_sc req \<and> \<not> is_cmo req"
  by (simp add: is_amo_sc_def is_load_def is_amo_def is_amo_lr_def is_store_def is_cmo_def has_op_def)

lemma load_exclusive: "is_load req \<Longrightarrow> \<not> is_store req \<and> \<not> is_amo req \<and> \<not> is_amo_lr req \<and> \<not> is_amo_sc req \<and> \<not> is_cmo req"
  by (simp add: is_amo_sc_def is_load_def is_amo_def is_amo_lr_def is_store_def is_cmo_def has_op_def)

lemma check_error_segments_eq:
  obtains b where "check_error_segments segs req e = e\<lparr>e_is_error := b\<rparr>"
  by (rule that [of "e_is_error (check_error_segments segs req e)"])
     (simp add: check_error_segments_def split: option.split)

lemma req_aligned_8 [simp]: "req_aligned_addr req = align_to (ucast (req_addr req)) 8"
  by (simp add: req_aligned_addr_def)

lemma expected_data_eq:
  assumes "ram_ok r" "ram_N r = SCOREBOARD_RAM_SIZE"
  obtains rd rv where "expected_data r req e = Some (e\<lparr>e_rdata := rd, e_rv := rv\<rparr>)"
    "\<not> e_is_error e \<and> (is_load req \<or> is_amo_lr req \<or> is_amo req) \<Longrightarrow> length rd = 1 \<and> length rv = 1 \<and>
       (\<forall>j < 8. bit (rv ! 0) j \<longleftrightarrow> ram_abs r (unat (align_to (ucast (req_addr req)) 8) mod SCOREBOARD_RAM_SIZE + j) \<noteq> None) \<and>
       (\<forall>j < 8. \<forall>b. ram_abs r (unat (align_to (ucast (req_addr req)) 8) mod SCOREBOARD_RAM_SIZE + j) = Some b \<longrightarrow>
          byte_of (rd ! 0) j = b)"
proof (cases "\<not> e_is_error e \<and> (is_load req \<or> is_amo_lr req \<or> is_amo req)")
  case True
  obtain bs v where bs: "ram_read r 8 (align_to (ucast (req_addr req)) 8) True = Some (bs, Some v)"
      "length bs = 8" "length v = 1"
    and v: "\<And>j. j < 8 \<Longrightarrow> bit (v ! 0) j \<longleftrightarrow>
        ram_abs r (unat (align_to (ucast (req_addr req)) 8) mod SCOREBOARD_RAM_SIZE + j) \<noteq> None"
      "\<And>j b. j < 8 \<Longrightarrow> ram_abs r (unat (align_to (ucast (req_addr req)) 8) mod SCOREBOARD_RAM_SIZE + j) = Some b
        \<Longrightarrow> bs ! j = b"
    by (rule sb_ram_read8 [OF assms]) blast
  have "byte_of (word_of_bytes bs) j = bs ! j" if "j < 8" for j
    using that bs(2) by (intro bit_word_eqI) (auto simp: bv_simps bit_word_of_bytes)
  with that [where rd = "[word_of_bytes bs]" and rv = v] True bs v show thesis
    by (simp add: expected_data_def words_of_bytes_8)
next
  case False
  with that [where rd = "e_rdata e" and rv = "e_rv e"] show thesis by (auto simp: expected_data_def)
qed

lemma invalidate_reservation_eq:
  obtains a b' c where "invalidate_reservation req e b = (e\<lparr>e_is_error := c, e_is_atomic := a\<rparr>, b\<lparr>rsv_valid := b'\<rparr>)"
    "\<not> is_amo_sc req \<Longrightarrow> c = e_is_error e \<and> a = e_is_atomic e" "is_amo_sc req \<Longrightarrow> a = addr_match e b \<and> \<not> b'"
proof -
  let ?r = "invalidate_reservation req e b"
  have "?r = (e\<lparr>e_is_error := e_is_error (fst ?r), e_is_atomic := e_is_atomic (fst ?r)\<rparr>, b\<lparr>rsv_valid := rsv_valid (snd ?r)\<rparr>)"
    by (simp add: invalidate_reservation_def Let_def)
  then show thesis by (rule that) (simp_all add: invalidate_reservation_def Let_def)
qed

text \<open>A core request passes through four stages to an entry with the fields of the request.\<close>

lemma core_req_stages:
  assumes "sb_wf s"
  obtains e b where
    "\<And>P. (case expected_data (ram_m s) req (check_error_segments (sb_mem_resp_model s) req (core_entry junk req (nb_cycles s))) of
        None \<Rightarrow> Undefined
      | Some e \<Rightarrow> (let (e, b) = invalidate_reservation req e (make_reservation req e (lrsc_buf_m s)) in P e b)) = P e b"
    "e_tid e = ucast (req_tid req)" "e_need_rsp e = req_need_rsp req" "e_is_write e = is_store req"
    "req_need_rsp req \<Longrightarrow> entry_ok (ucast (req_tid req)) e"
    "is_store req \<or> is_amo_sc req \<or> is_amo req \<Longrightarrow> e_wdata e = [req_wdata req] \<and> e_be e = [req_be req]"
    "e_is_read e = is_load req" "e_is_amo e = is_amo req" "e_is_amo_lr e = is_amo_lr req"
    "e_addr e = ucast (req_addr req)" "e_bytes e = push_bit (unat (req_size req)) 1"
proof -
  have ram: "ram_ok (ram_m s)" "ram_N (ram_m s) = SCOREBOARD_RAM_SIZE" using assms by (simp_all add: sb_wf_def)
  let ?e0 = "core_entry junk req (nb_cycles s)"
  obtain er where er: "check_error_segments (sb_mem_resp_model s) req ?e0 = ?e0\<lparr>e_is_error := er\<rparr>"
    by (rule check_error_segments_eq)
  obtain rd rv where ed: "expected_data (ram_m s) req (?e0\<lparr>e_is_error := er\<rparr>) = Some (?e0\<lparr>e_is_error := er, e_rdata := rd, e_rv := rv\<rparr>)"
    and rd: "\<not> er \<and> (is_load req \<or> is_amo_lr req \<or> is_amo req) \<Longrightarrow> length rd = 1 \<and> length rv = 1"
    by (rule expected_data_eq [OF ram, of req "?e0\<lparr>e_is_error := er\<rparr>"]) auto
  let ?e2 = "?e0\<lparr>e_is_error := er, e_rdata := rd, e_rv := rv\<rparr>"
  obtain a b' c where iv: "invalidate_reservation req ?e2 (make_reservation req ?e2 (lrsc_buf_m s)) =
        (?e2\<lparr>e_is_error := c, e_is_atomic := a\<rparr>, (make_reservation req ?e2 (lrsc_buf_m s))\<lparr>rsv_valid := b'\<rparr>)"
      "\<not> is_amo_sc req \<Longrightarrow> c = e_is_error ?e2 \<and> a = e_is_atomic ?e2"
    by (rule invalidate_reservation_eq [of req ?e2]) auto
  show thesis
    by (rule that [of "?e2\<lparr>e_is_error := c, e_is_atomic := a\<rparr>" "(make_reservation req ?e2 (lrsc_buf_m s))\<lparr>rsv_valid := b'\<rparr>"])
       (use rd iv(2) sc_exclusive [of req] core_entry_data [of req junk "nb_cycles s"]
        in \<open>auto simp: er ed iv(1) entry_ok_def\<close>)
qed

lemma concat_bytes8 [simp]: "concat (map bytes8 [w]) = bytes8 w"
  by simp

lemma record_store_eq:
  assumes "ram_ok (ram_m s)" "ram_N (ram_m s) = SCOREBOARD_RAM_SIZE"
    and "is_store req \<Longrightarrow> e_wdata e = [req_wdata req] \<and> e_be e = [req_be req]"
  obtains r where "record_store req e s = Next (s\<lparr>ram_m := r\<rparr>)" "ram_ok r" "ram_N r = SCOREBOARD_RAM_SIZE"
    "ram_abs r = (if is_store req \<and> \<not> e_is_error e
       then upd_bytes (bytes8 (req_wdata req)) [req_be req]
              (unat (align_to (ucast (req_addr req)) 8) mod SCOREBOARD_RAM_SIZE) 0 8 (ram_abs (ram_m s))
       else ram_abs (ram_m s))"
proof (cases "is_store req \<and> \<not> e_is_error e")
  case True
  obtain r where "ram_write (ram_m s) (bytes8 (req_wdata req)) [req_be req] 8 (align_to (ucast (req_addr req)) 8) = Some r"
      "ram_ok r" "ram_N r = SCOREBOARD_RAM_SIZE"
      "ram_abs r = upd_bytes (bytes8 (req_wdata req)) [req_be req]
         (unat (align_to (ucast (req_addr req)) 8) mod SCOREBOARD_RAM_SIZE) 0 8 (ram_abs (ram_m s))"
    by (rule sb_ram_write8 [of "ram_m s" "bytes8 (req_wdata req)" "[req_be req]" "ucast (req_addr req)"])
       (use assms in auto)
  with True assms(3) that show thesis by (auto simp: record_store_def)
next
  case False
  with that [of "ram_m s"] assms(1,2) show thesis by (auto simp: record_store_def)
qed

lemma release_id_inv: "sb_inv s \<Longrightarrow> out_all sb_inv sb_exit (release_id i s)"
  by (auto simp: release_id_def sb_inv_def sb_wf_def balanced_def split: option.split)

text \<open>\<open>expecting\<close>: a response is counted as needed whose entry is not in the table yet.\<close>

definition expecting :: "bool \<Rightarrow> scoreboard \<Rightarrow> bool" where
  "expecting need s \<longleftrightarrow> sb_wf s \<and> (sb_errors s = [] \<longrightarrow>
     nb_core_req_need_rsp s = nb_core_resp s + of_nat (length (inflight_m s)) + (if need then 1 else 0))"

lemma track_request_inv:
  assumes "expecting (req_need_rsp req) s" "smap_find (inflight_m s) (ucast (req_tid req)) = None"
    and "req_need_rsp req \<Longrightarrow> entry_ok (ucast (req_tid req)) e"
  shows "out_all sb_inv sb_exit (track_request req e s)"
proof (cases "req_need_rsp req")
  case True
  have wf: "smap_ok (inflight_m s)" "\<forall>(k, e) \<in> set (inflight_m s). entry_ok k e"
    using assms(1) by (auto simp: expecting_def sb_wf_def)
  have "\<forall>(k, e) \<in> set (smap_insert (ucast (req_tid req)) e (inflight_m s)). entry_ok k e"
    using wf(2) assms(3) [OF True] set_smap_insert by fastforce
  with True assms(1) length_smap_insert [OF wf(1) assms(2), of e] show ?thesis
    by (auto simp: track_request_def expecting_def sb_inv_def balanced_def sb_wf_def)
next
  case False
  have "sb_inv s" using assms(1) False by (simp add: expecting_def sb_inv_def balanced_def)
  from release_id_inv [OF this] False show ?thesis by (simp add: track_request_def)
qed

lemma share_atomic_inv:
  assumes "expecting (req_need_rsp req) s" "smap_find (inflight_m s) (ucast (req_tid req)) = None"
    and "req_need_rsp req \<Longrightarrow> entry_ok (ucast (req_tid req)) e"
    and "is_store req \<Longrightarrow> e_wdata e = [req_wdata req] \<and> e_be e = [req_be req]"
  shows "out_all sb_inv sb_exit (share_atomic req e s)"
proof -
  have go: "out_all sb_inv sb_exit (seq_out (record_store req e t) (track_request req e))"
    if t: "expecting (req_need_rsp req) t" "inflight_m t = inflight_m s" for t
  proof -
    obtain r where r: "record_store req e t = Next (t\<lparr>ram_m := r\<rparr>)" "ram_ok r" "ram_N r = SCOREBOARD_RAM_SIZE"
      by (rule record_store_eq [of t req e]) (use t(1) assms(4) in \<open>auto simp: expecting_def sb_wf_def\<close>)
    have "expecting (req_need_rsp req) (t\<lparr>ram_m := r\<rparr>)" using t(1) r by (auto simp: expecting_def sb_wf_def)
    from track_request_inv [OF this] assms(2,3) t(2) r(1) show ?thesis by simp
  qed
  have wf: "sb_wf s" using assms(1) by (simp add: expecting_def)
  have push: "expecting (req_need_rsp req) (s\<lparr>inflight_amo_req_m := inflight_amo_req_m s @ [e]\<rparr>)"
    if "length (inflight_amo_req_m s) < AMO_FIFO_SIZE"
    using assms(1) that by (auto simp: expecting_def sb_wf_def)
  show ?thesis
    using go [OF assms(1) refl] go [OF push] print_error_inv [OF wf]
    by (simp add: share_atomic_def Let_def)
qed

lemma core_req_inv:
  assumes "sb_inv s"
  shows "out_all sb_inv sb_exit (core_req_process junk req s)"
proof -
  let ?s = "s\<lparr>nb_core_req := nb_core_req s + 1,
              nb_core_req_need_rsp := nb_core_req_need_rsp s + (if req_need_rsp req then 1 else 0)\<rparr>"
  let ?id = "ucast (req_tid req) :: u32"
  have wf: "sb_wf ?s" and ex: "expecting (req_need_rsp req) (?s\<lparr>lrsc_buf_m := b\<rparr>)" for b
    using assms by (auto simp: sb_inv_def sb_wf_def balanced_def expecting_def)
  obtain e b where st: "\<And>P :: inflight_entry_t \<Rightarrow> lrsc_reservation_buf_t \<Rightarrow> scoreboard outcome. (case expected_data (ram_m ?s) req
          (check_error_segments (sb_mem_resp_model ?s) req (core_entry junk req (nb_cycles ?s))) of
        None \<Rightarrow> Undefined
      | Some e \<Rightarrow> (let (e, b) = invalidate_reservation req e (make_reservation req e (lrsc_buf_m ?s)) in P e b)) = P e b"
      "req_need_rsp req \<Longrightarrow> entry_ok ?id e"
      "is_store req \<or> is_amo_sc req \<or> is_amo req \<Longrightarrow> e_wdata e = [req_wdata req] \<and> e_be e = [req_be req]"
    by (rule core_req_stages [OF wf, of req junk]) blast
  have "out_all sb_inv sb_exit (share_atomic req e (?s\<lparr>lrsc_buf_m := b\<rparr>))"
    if "smap_find (inflight_m s) ?id = None"
    by (rule share_atomic_inv [OF ex]) (use that st(2,3) in auto)
  moreover have "sb_inv ?s" if "\<not> req_need_rsp req"
    using assms that by (auto simp: sb_inv_def sb_wf_def balanced_def)
  ultimately show ?thesis
    using print_error_inv [OF wf] release_id_inv [of ?s]
    unfolding core_req_process_def Let_def [of ?s] Let_def [of ?id] st(1) by auto
qed

text \<open>\<open>pending\<close>: a response has been counted whose entry is still in the table.\<close>

definition pending :: "u32 \<Rightarrow> scoreboard \<Rightarrow> bool" where
  "pending k s \<longleftrightarrow> sb_wf s \<and> smap_find (inflight_m s) k \<noteq> None \<and>
     (sb_errors s = [] \<longrightarrow> nb_core_req_need_rsp s + 1 = nb_core_resp s + of_nat (length (inflight_m s)))"

lemma print_error_pending: "pending k s \<Longrightarrow> out_all (pending k) sb_exit (print_error m s)"
  using print_error_inv [of s m] by (auto simp: pending_def print_error_def Let_def sb_inv_def)

lemma pending_ram: "pending k s \<Longrightarrow> ram_ok r \<Longrightarrow> ram_N r = SCOREBOARD_RAM_SIZE \<Longrightarrow> pending k (s\<lparr>ram_m := r\<rparr>)"
  by (auto simp: pending_def sb_wf_def)

lemma word_write:
  assumes "ram_ok (ram_m s)" "ram_N (ram_m s) = SCOREBOARD_RAM_SIZE"
  obtains r where "ram_write (ram_m s) (bytes8 w) [b] 8 (align_to a 8) = Some r" "ram_ok r" "ram_N r = SCOREBOARD_RAM_SIZE"
    "ram_abs r = upd_bytes (bytes8 w) [b] (unat (align_to a 8) mod SCOREBOARD_RAM_SIZE) 0 8 (ram_abs (ram_m s))"
  by (rule sb_ram_write8 [of "ram_m s" "bytes8 w" "[b]" a]) (use assms that in auto)

lemma check_sc_pending:
  assumes "pending k s"
  shows "out_all (pending k) sb_exit (check_sc resp e s)"
proof -
  obtain r where "ram_write (ram_m s) (bytes8 (e_wdata e ! 0)) [e_be e ! 0] 8 (align_to (e_addr e) 8) = Some r"
      "ram_ok r" "ram_N r = SCOREBOARD_RAM_SIZE"
    by (rule word_write [of s]) (use assms in \<open>auto simp: pending_def sb_wf_def\<close>)
  with pending_ram [OF assms] assms show ?thesis
    by (simp add: check_sc_def Let_def resp_word_def print_error_pending)
qed

lemma check_bytes_pending: "pending k s \<Longrightarrow> out_all (pending k) sb_exit (check_bytes a recv expc rv i n s)"
proof (induction n arbitrary: i s)
  case (Suc n)
  have "out_all (pending k) sb_exit (seq_out (print_error m s) (check_bytes a recv expc rv (Suc i) n))" for m
    by (rule out_all_seq [OF print_error_pending [OF Suc.prems]]) (rule Suc.IH)
  with Suc show ?case by simp
qed simp

lemma update_amo_pending:
  assumes "pending k s"
  shows "out_all (pending k) sb_exit (update_amo resp e s)"
proof -
  have "\<exists>r. ram_write (ram_m s) (bytes8 w) [e_be e ! 0] 8 (align_to (e_addr e) 8) = Some r \<and> pending k (s\<lparr>ram_m := r\<rparr>)" for w
    by (rule word_write [of s w "e_be e ! 0" "e_addr e"])
       (use assms pending_ram in \<open>auto simp: pending_def sb_wf_def\<close>)
  then have "out_all (pending k) sb_exit
      (case ram_write (ram_m s) (bytes8 w) [e_be e ! 0] 8 (align_to (e_addr e) 8) of
         None \<Rightarrow> Undefined | Some r \<Rightarrow> Next (s\<lparr>ram_m := r\<rparr>))" for w
    by (metis option.simps(5) out_all.simps(1))
  with assms show ?thesis
    by (simp add: update_amo_def Let_def resp_word_def sb_exit_def pending_def sb_wf_def split: option.split)
qed

lemma erase_release_inv:
  assumes "pending k s"
  shows "out_all sb_inv sb_exit (release_id k (s\<lparr>inflight_m := smap_erase k (inflight_m s)\<rparr>))"
proof (rule release_id_inv)
  obtain e where e: "smap_find (inflight_m s) k = Some e" and wf: "sb_wf s" using assms by (auto simp: pending_def)
  then have "Suc (length (smap_erase k (inflight_m s))) = length (inflight_m s)"
    by (intro length_smap_erase) (auto simp: sb_wf_def)
  then have "(of_nat (length (inflight_m s)) :: u64) = of_nat (length (smap_erase k (inflight_m s))) + 1"
    by (metis of_nat_Suc add.commute)
  with assms wf show "sb_inv (s\<lparr>inflight_m := smap_erase k (inflight_m s)\<rparr>)"
    by (auto simp: pending_def sb_inv_def balanced_def sb_wf_def set_smap_erase)
qed

lemma core_resp_inv:
  assumes "sb_inv s"
  shows "out_all sb_inv sb_exit (core_resp_process resp s)"
proof -
  let ?s = "s\<lparr>nb_core_resp := nb_core_resp s + 1, nb_cycles_effective := nb_cycles s\<rparr>"
  let ?id = "ucast (rsp_tid resp) :: u32"
  have wf: "sb_wf ?s" using assms by (auto simp: sb_inv_def sb_wf_def)
  show ?thesis
  proof (cases "smap_find (inflight_m s) ?id")
    case None
    then show ?thesis using print_error_inv [OF wf] by (simp add: core_resp_process_def Let_def)
  next
    case (Some e)
    have p: "pending ?id ?s" using wf assms Some by (auto simp: pending_def sb_inv_def balanced_def)
    have "out_all (pending ?id) sb_exit (seq_out (seq_out (check_sc resp e ?s) (check_data resp e)) (update_amo resp e))"
      by (intro out_all_seq [of "pending ?id"] check_sc_pending p update_amo_pending)
         (simp_all add: check_data_def check_bytes_pending)
    then have "out_all sb_inv sb_exit (seq_out
        (if \<not> e_is_error e then seq_out (seq_out (check_sc resp e ?s) (check_data resp e)) (update_amo resp e) else Next ?s)
        (\<lambda>s. release_id ?id (s\<lparr>inflight_m := smap_erase ?id (inflight_m s)\<rparr>)))"
      by (intro out_all_seq [of "pending ?id"] erase_release_inv) (use p in auto)
    with Some print_error_inv [OF wf] show ?thesis by (simp add: core_resp_process_def Let_def)
  qed
qed

section \<open>Refills\<close>

definition line_base :: "u64 \<Rightarrow> nat" where
  "line_base a = unat (align_to a (of_nat MEM_BYTES)) mod SCOREBOARD_RAM_SIZE"

lemma line_base_fits: "line_base a + 64 \<le> SCOREBOARD_RAM_SIZE"
proof -
  have "unat (align_to a (of_nat 64)) = unat a div 64 * 64" by (rule unat_align_to) simp_all
  with aligned_fits [of 64 SCOREBOARD_RAM_SIZE "unat a div 64"] show ?thesis by (simp add: line_base_def)
qed

lemma getBmap_line:
  assumes "ram_ok r" "ram_N r = SCOREBOARD_RAM_SIZE" "i < 64"
  shows "getBmap r (unat (align_to a 64 + of_nat i)) = Some (ram_abs r (line_base a + i) \<noteq> None)"
proof -
  let ?al = "unat (align_to a 64)"
  have al: "?al = unat a div 64 * 64" using unat_align_to [of 64 a] by simp
  have i: "unat (of_nat i :: u64) = i" using assms(3) by (simp add: unat_of_nat_self)
  have "unat a div 64 < 2 ^ 58" using unat_less_exp [of a] by (simp add: div_less_iff_less_mult)
  then have "?al + i < 2 ^ 64" using assms(3) unfolding al by simp
  then have "unat (align_to a 64 + of_nat i) = ?al + i" by (simp add: unat_word_ariths i)
  moreover have fits: "?al mod SCOREBOARD_RAM_SIZE + i < SCOREBOARD_RAM_SIZE"
    using line_base_fits [of a] assms(3) by (simp add: line_base_def)
  then have "(?al + i) mod SCOREBOARD_RAM_SIZE = ?al mod SCOREBOARD_RAM_SIZE + i"
    by (metis mod_add_left_eq mod_less)
  moreover have "getBmap r n = getBmap r (n mod ram_N r)" for n by (simp add: getBmap_def)
  ultimately have "getBmap r (unat (align_to a 64 + of_nat i)) = getBmap r (?al mod SCOREBOARD_RAM_SIZE + i)"
    using assms(2) by metis
  also have "\<dots> = Some (ram_abs r (?al mod SCOREBOARD_RAM_SIZE + i) \<noteq> None)"
    by (rule getBmap_ok [OF assms(1)]) (use fits assms(2) in simp)
  finally show ?thesis by (simp add: line_base_def)
qed

lemma unset_loop_ok:
  assumes "ram_ok r" "ram_N r = SCOREBOARD_RAM_SIZE" "i + n \<le> 64" "length u = 8"
  shows "\<exists>u'. unset_loop r (align_to a 64) i n u = Some u' \<and> length u' = 8 \<and>
     (\<forall>j < 64. be_bit u' j \<longleftrightarrow> be_bit u j \<or> (i \<le> j \<and> j < i + n \<and> ram_abs r (line_base a + j) = None))"
  using assms(3,4)
proof (induction n arbitrary: i u)
  case (Suc n)
  let ?k = "ram_abs r (line_base a + i) \<noteq> None"
  define v where "v = u[i div 8 := u ! (i div 8) OR push_bit (i mod 8) (if ?k then 0 else 1)]"
  from Suc.prems have lt: "i < 64" and "i div 8 < 8" by auto
  have len: "length v = 8" using Suc.prems by (simp add: v_def)
  have step: "unset_loop r (align_to a 64) i (Suc n) u = unset_loop r (align_to a 64) (Suc i) n v"
    by (simp add: getBmap_line [OF assms(1,2) lt] v_def)
  have bits: "be_bit v j \<longleftrightarrow> be_bit u j \<or> (j = i \<and> \<not> ?k)" if "j < 64" for j
    using that Suc.prems \<open>i div 8 < 8\<close>
    by (auto simp: v_def be_bit_def nth_list_update bit_simps dest: div_mod_8_eq)
  obtain u' where u': "unset_loop r (align_to a 64) (Suc i) n v = Some u'" "length u' = 8"
     "\<forall>j < 64. be_bit u' j \<longleftrightarrow> be_bit v j \<or> (Suc i \<le> j \<and> j < Suc i + n \<and> ram_abs r (line_base a + j) = None)"
    using Suc.IH [of "Suc i" v] Suc.prems len by auto
  then have "be_bit u' j \<longleftrightarrow> be_bit u j \<or> (i \<le> j \<and> j < i + Suc n \<and> ram_abs r (line_base a + j) = None)"
    if "j < 64" for j
    using that bits [OF that] by (auto simp: le_less)
  with u' step show ?case by auto
qed auto

text \<open>One iteration of the loop that computes the byte enables.\<close>

definition be_mask :: "int \<Rightarrow> nat \<Rightarrow> int \<Rightarrow> u8" where
  "be_mask byte i bytes = ucast (push_bit (nat (byte - int i * 8)) (push_bit (nat bytes) 1 - 1 :: u64))"

definition be_defined :: "int \<Rightarrow> u8 list \<Rightarrow> nat \<Rightarrow> int \<Rightarrow> u8 list \<Rightarrow> bool" where
  "be_defined byte unset i bytes be \<longleftrightarrow>
     bytes < 64 \<and> 0 \<le> byte - int i * 8 \<and> byte - int i * 8 < 64 \<and> i < length be \<and> i < length unset"

lemma be_loop_unfold:
  "be_loop byte unset i bytes be =
     (if bytes > 0 then
        if be_defined byte unset i bytes be
        then be_loop byte unset (Suc i) (bytes - 8) (be[i := be_mask byte i bytes AND unset ! i])
        else None
      else Some be)"
  by (subst be_loop.simps) (simp only: Let_def be_defined_def be_mask_def)

lemma be_loop_length: "be_loop byte unset i bytes be = Some be' \<Longrightarrow> length be' = length be"
proof (induction "nat bytes" arbitrary: i bytes be rule: less_induct)
  case less
  note eq = less.prems [unfolded be_loop_unfold [of byte unset i bytes be]]
  show ?case
  proof (cases "bytes > 0")
    case True
    with eq have "be_loop byte unset (Suc i) (bytes - 8) (be[i := be_mask byte i bytes AND unset ! i]) = Some be'"
      by (simp split: if_splits)
    from less.hyps [OF _ this] True show ?thesis by simp
  qed (use eq in simp)
qed

lemma be_loop_only_unset:
  "be_loop byte unset i bytes be = Some be' \<Longrightarrow> j div 8 < length be \<Longrightarrow> be_bit be' j \<Longrightarrow>
   be_bit be j \<or> be_bit unset j"
proof (induction "nat bytes" arbitrary: i bytes be rule: less_induct)
  case less
  note eq = less.prems(1) [unfolded be_loop_unfold [of byte unset i bytes be]]
  show ?case
  proof (cases "bytes > 0")
    case True
    let ?be = "be[i := be_mask byte i bytes AND unset ! i]"
    from eq True have "be_loop byte unset (Suc i) (bytes - 8) ?be = Some be'"
      by (simp split: if_splits)
    from less.hyps [OF _ this] True less.prems(2,3) have "be_bit ?be j \<or> be_bit unset j" by simp
    then show ?thesis
      by (cases "j div 8 = i") (use less.prems(2) in \<open>auto simp: be_bit_def bit_and_iff\<close>)
  qed (use eq less.prems in simp)
qed

lemma be_bit_replicate0: "j < 8 * n \<Longrightarrow> \<not> be_bit (replicate n 0) j"
  by (rule be_bit_replicate)

definition line_bytes :: "hpdcache_test_transaction_mem_read_resp \<Rightarrow> u8 list" where
  "line_bytes resp = concat (map bytes8 (map (\<lambda>i. bv_range ((i + 1) * 64 - 1) (i * 64) (rresp_data resp)) [0..<8]))"

lemma length_line_bytes [simp]: "length (line_bytes resp) = 64"
  by (simp add: line_bytes_def length_concat o_def sum_list_triv)

text \<open>A refill enables a subset of the unknown bytes of its line, or is undefined.\<close>

definition refill_be :: "u8 list \<Rightarrow> inflight_mem_entry_t \<Rightarrow> u8 list option" where
  "refill_be u e =
     be_loop (int (unat (me_addr e) mod 64)) u (unat (me_addr e) div 64 mod 8) (uint (me_bytes e)) (replicate 8 0)"

definition refill_spec :: "ram \<Rightarrow> hpdcache_test_transaction_mem_read_resp \<Rightarrow> inflight_mem_entry_t \<Rightarrow> u8 list \<Rightarrow> bool" where
  "refill_spec r resp e u \<longleftrightarrow>
     length u = 8 \<and> (\<forall>j < 64. be_bit u j \<longleftrightarrow> ram_abs r (line_base (me_addr e) + j) = None) \<and>
     (case refill_be u e of
        None \<Rightarrow> refill resp e r = None
      | Some be \<Rightarrow> length be = 8 \<and> (\<exists>r'. refill resp e r = Some r' \<and> ram_ok r' \<and> ram_N r' = SCOREBOARD_RAM_SIZE \<and>
             ram_abs r' = upd_bytes (line_bytes resp) be (line_base (me_addr e)) 0 64 (ram_abs r)))"

lemma refill_cases:
  assumes "ram_ok r" "ram_N r = SCOREBOARD_RAM_SIZE"
  shows "\<exists>u. refill_spec r resp e u"
proof -
  obtain u where u: "unset_loop r (align_to (me_addr e) 64) 0 64 (replicate 8 0) = Some u" "length u = 8"
      "\<forall>j < 64. be_bit u j \<longleftrightarrow> be_bit (replicate 8 0) j \<or> (0 \<le> j \<and> j < 0 + 64 \<and> ram_abs r (line_base (me_addr e) + j) = None)"
    using unset_loop_ok [OF assms, of 0 64 "replicate 8 0" "me_addr e"] by auto
  have wr: "\<exists>r'. ram_write r (line_bytes resp) be 64 (align_to (me_addr e) 64) = Some r' \<and> ram_ok r' \<and>
        ram_N r' = SCOREBOARD_RAM_SIZE \<and>
        ram_abs r' = upd_bytes (line_bytes resp) be (line_base (me_addr e)) 0 64 (ram_abs r)" if "length be = 8" for be
    by (rule sb_ram_write64 [of r "line_bytes resp" be "me_addr e"])
       (use assms that in \<open>auto simp: line_base_def\<close>)
  have eq: "refill resp e r = (case refill_be u e of None \<Rightarrow> None
      | Some be \<Rightarrow> ram_write r (line_bytes resp) be 64 (align_to (me_addr e) 64))"
    using u(1) by (simp add: refill_def Let_def line_bytes_def refill_be_def o_def split: option.split)
  have "length be = 8" if "refill_be u e = Some be" for be
    using be_loop_length [OF that [unfolded refill_be_def]] by simp
  with u wr eq show ?thesis
    by (intro exI [of _ u]) (auto simp: refill_spec_def be_bit_replicate0 split: option.split)
qed

section \<open>The memory handlers keep the invariant\<close>

lemma refill_ok:
  assumes "ram_ok r" "ram_N r = SCOREBOARD_RAM_SIZE" "refill resp e r = Some r'"
  shows "ram_ok r' \<and> ram_N r' = SCOREBOARD_RAM_SIZE \<and>
         (\<forall>a b. ram_abs r a = Some b \<longrightarrow> ram_abs r' a = Some b)"
proof -
  let ?l = "line_base (me_addr e)"
  obtain u where spec: "refill_spec r resp e u" using refill_cases [OF assms(1,2)] by blast
  then have u: "\<forall>j < 64. be_bit u j \<longleftrightarrow> ram_abs r (?l + j) = None" by (simp add: refill_spec_def)
  obtain be where be: "refill_be u e = Some be"
    using spec assms(3) by (cases "refill_be u e") (auto simp: refill_spec_def)
  with spec assms(3) have r': "ram_ok r'" "ram_N r' = SCOREBOARD_RAM_SIZE"
      "ram_abs r' = upd_bytes (line_bytes resp) be ?l 0 64 (ram_abs r)" by (auto simp: refill_spec_def)
  have "ram_abs r' a = Some b" if "ram_abs r a = Some b" for a b
  proof (cases "?l \<le> a \<and> a < ?l + 64")
    case True
    let ?j = "a - ?l"
    have j: "?j < 64" "?j div 8 < length (replicate 8 (0::u8))" "?l + ?j = a" using True by auto
    have "\<not> be_bit u ?j" using u j that by simp
    then have "\<not> be_bit be ?j"
      using be_loop_only_unset [OF be [unfolded refill_be_def] j(2)] be_bit_replicate0 [of ?j 8] j(1) by auto
    with that show ?thesis by (simp add: r'(3) upd_bytes_def)
  next
    case False
    with that show ?thesis by (auto simp: r'(3) upd_bytes_def)
  qed
  with r' show ?thesis by blast
qed

lemma check_single_atomic_inv: "sb_inv s \<Longrightarrow> out_all sb_inv sb_exit (check_single_atomic s)"
  using print_error_inv [of s] by (simp add: check_single_atomic_def sb_inv_def)

lemma sb_inv_wf: "sb_inv s \<Longrightarrow> sb_wf s"
  by (simp add: sb_inv_def)

lemma pop_amo_inv: "sb_inv s \<Longrightarrow> inflight_amo_req_m s = x # q \<Longrightarrow> sb_inv (s\<lparr>inflight_amo_req_m := q\<rparr>)"
  by (auto simp: sb_inv_def sb_wf_def balanced_def)

lemma insert_read_inv: "sb_inv s \<Longrightarrow> sb_inv (s\<lparr>inflight_mem_read_m := smap_insert k e (inflight_mem_read_m s)\<rparr>)"
  by (auto simp: sb_inv_def sb_wf_def balanced_def)

lemma mem_read_req_inv:
  assumes "sb_inv s"
  shows "out_all sb_inv sb_exit (mem_read_req_process req s)"
proof -
  let ?s = "s\<lparr>nb_mem_read_req := nb_mem_read_req s + 1\<rparr>"
  have inv: "sb_inv ?s" using assms by (auto simp: sb_inv_def sb_wf_def balanced_def)
  have pop: "out_all sb_inv sb_exit (case inflight_amo_req_m t of [] \<Rightarrow> print_error Unexpected_ldex t
        | _ # q \<Rightarrow> Next (t\<lparr>inflight_amo_req_m := q\<rparr>))" if "sb_inv t" for t
    using that pop_amo_inv [OF that] print_error_inv [OF sb_inv_wf [OF that]] by (simp split: list.split)
  show ?thesis
    using insert_read_inv [OF inv] print_error_inv [OF sb_inv_wf [OF inv]]
    by (auto simp: mem_read_req_process_def Let_def split: option.split
        intro!: out_all_seq [OF check_single_atomic_inv] pop)
qed

lemma mem_read_resp_inv:
  assumes "sb_inv s"
  shows "out_all sb_inv sb_exit (mem_read_resp_process resp s)"
proof -
  let ?s = "s\<lparr>nb_mem_read_resp := nb_mem_read_resp s + 1\<rparr>"
  have inv: "sb_inv ?s" using assms by (auto simp: sb_inv_def sb_wf_def balanced_def)
  have ram: "sb_inv (?s\<lparr>ram_m := r\<rparr>)" if "refill resp e (ram_m s) = Some r" for e r
    using inv refill_ok [OF _ _ that] by (auto simp: sb_inv_def sb_wf_def balanced_def)
  have er: "sb_inv (t\<lparr>inflight_mem_read_m := smap_erase k (inflight_mem_read_m t)\<rparr>)" if "sb_inv t" for t k
    using that by (auto simp: sb_inv_def sb_wf_def balanced_def)
  show ?thesis
  proof (cases "smap_find (inflight_mem_read_m s) (ucast (rresp_id resp))")
    case None
    then show ?thesis using print_error_inv [OF sb_inv_wf [OF inv]] by (simp add: mem_read_resp_process_def Let_def)
  next
    case (Some e)
    have "out_all sb_inv sb_exit (if rresp_error resp = 0
        then (case refill resp e (ram_m ?s) of None \<Rightarrow> Undefined | Some r \<Rightarrow> Next (?s\<lparr>ram_m := r\<rparr>)) else Next ?s)"
      using inv ram by (simp split: option.split)
    then have "out_all sb_inv sb_exit (seq_out (if rresp_error resp = 0
        then (case refill resp e (ram_m ?s) of None \<Rightarrow> Undefined | Some r \<Rightarrow> Next (?s\<lparr>ram_m := r\<rparr>)) else Next ?s)
        (\<lambda>s. Next (if rresp_last resp
                   then s\<lparr>inflight_mem_read_m := smap_erase (ucast (rresp_id resp)) (inflight_mem_read_m s)\<rparr> else s)))"
      by (rule out_all_seq) (use er in simp)
    with Some show ?thesis by (simp add: mem_read_resp_process_def Let_def)
  qed
qed

lemma mem_write_amo_inv: "sb_inv s \<Longrightarrow> out_all sb_inv sb_exit (mem_write_amo k e s)"
  unfolding mem_write_amo_def
proof (rule out_all_seq [OF check_single_atomic_inv])
  fix t assume t: "sb_inv t"
  have "out_all sb_inv sb_exit (seq_out (if me_core_req_ptr e = None then print_error Amo_no_core_req u else Next u)
      (\<lambda>s. Next (s\<lparr>inflight_mem_read_m := smap_insert k e (inflight_mem_read_m s)\<rparr>)))" if "sb_inv u" for u
    by (rule out_all_seq [of sb_inv]) (use that print_error_inv [OF sb_inv_wf [OF that]] insert_read_inv in auto)
  with t pop_amo_inv [OF t] print_error_inv [OF sb_inv_wf [OF t]]
  show "out_all sb_inv sb_exit (case inflight_amo_req_m t of [] \<Rightarrow> print_error Unexpected_amo t
     | _ # q \<Rightarrow> (let s = t\<lparr>inflight_amo_req_m := q\<rparr> in
         seq_out (if me_core_req_ptr e = None then print_error Amo_no_core_req s else Next s)
           (\<lambda>s. Next (s\<lparr>inflight_mem_read_m := smap_insert k e (inflight_mem_read_m s)\<rparr>))))"
    by (simp add: Let_def split: list.split)
qed

lemma mem_write_stex_inv: "sb_inv s \<Longrightarrow> out_all sb_inv sb_exit (mem_write_stex e s)"
  unfolding mem_write_stex_def
proof (rule out_all_seq [OF check_single_atomic_inv])
  fix t assume t: "sb_inv t"
  then show "out_all sb_inv sb_exit (case inflight_amo_req_m t of [] \<Rightarrow> print_error Unexpected_stex t
     | ret # q \<Rightarrow> (let s = t\<lparr>inflight_amo_req_m := q\<rparr> in
         if \<not> e_is_atomic ret then print_error Stex_no_reservation s
         else if me_core_req_ptr e = None then print_error Stex_no_core_req s else Next s))"
    using pop_amo_inv [OF t] print_error_inv [OF sb_inv_wf]
    by (simp add: Let_def split: list.split)
qed

lemma mem_write_req_inv:
  assumes "sb_inv s"
  shows "out_all sb_inv sb_exit (mem_write_req_process req s)"
proof -
  let ?s = "s\<lparr>nb_mem_write_req := nb_mem_write_req s + 1\<rparr>"
  let ?id = "ucast (mreq_id req) :: u64"
  have inv: "sb_inv ?s" and ins: "sb_inv (?s\<lparr>inflight_mem_write_m := smap_insert ?id e (inflight_mem_write_m ?s)\<rparr>)" for e
    using assms by (auto simp: sb_inv_def sb_wf_def balanced_def)
  have "out_all sb_inv sb_exit (seq_out (if mem_is_amo req then mem_write_amo ?id e t else Next t)
      (\<lambda>s. if mem_is_stex req then mem_write_stex e s else Next s))" if "sb_inv t" for e t
    by (rule out_all_seq [of sb_inv]) (use that in \<open>auto intro: mem_write_amo_inv mem_write_stex_inv\<close>)
  then show ?thesis
    using ins print_error_inv [OF sb_inv_wf [OF inv]]
    by (simp add: mem_write_req_process_def Let_def split: option.split)
qed

lemma mem_write_resp_inv:
  assumes "sb_inv s"
  shows "out_all sb_inv sb_exit (mem_write_resp_process resp s)"
proof -
  have wf: "sb_wf (s\<lparr>nb_mem_write_resp := nb_mem_write_resp s + 1\<rparr>)"
    using assms by (auto simp: sb_inv_def sb_wf_def)
  then show ?thesis
    using assms print_error_inv [OF wf]
    by (auto simp: mem_write_resp_process_def Let_def sb_inv_def sb_wf_def balanced_def)
qed

lemma sb_handle_inv: "sb_inv s \<Longrightarrow> out_all sb_inv sb_exit (sb_handle v s)"
proof (cases v)
  case (Clk_pos sig)
  assume "sb_inv s"
  with Clk_pos show ?thesis by (auto simp: perf_events_process_def sb_inv_def sb_wf_def balanced_def)
next
  case Clk_neg
  assume "sb_inv s"
  with Clk_neg show ?thesis by (auto simp: check_inflight_requests_def sb_inv_def sb_wf_def balanced_def)
next
  case (Seq_allocate rnd)
  assume "sb_inv s"
  with Seq_allocate show ?thesis
    by (auto simp: seq_allocate_def sb_inv_def sb_wf_def balanced_def sb_exit_def split: option.split)
qed (simp_all add: core_req_inv core_resp_inv mem_read_req_inv mem_read_resp_inv mem_write_req_inv mem_write_resp_inv)

lemma sb_run_inv: "sb_inv s \<Longrightarrow> out_all sb_inv sb_exit (sb_run vs s)"
proof (induction vs arbitrary: s)
  case (Cons v vs)
  show ?case using out_all_seq [OF sb_handle_inv [OF Cons.prems] Cons.IH] by simp
qed simp

text \<open>The scoreboard of a test: connected to a sequence and a memory model, with an error limit.\<close>

definition sb_start :: "lrsc_reservation_buf_t \<Rightarrow> nat list \<Rightarrow> segment_t list \<Rightarrow> u64 \<Rightarrow> scoreboard" where
  "sb_start junk ids segs limit =
     set_error_limit limit (set_mem_resp_model segs (set_sequence ids (scoreboard_new junk)))"

lemmas sb_start_defs = sb_start_def set_error_limit_def set_mem_resp_model_def set_sequence_def scoreboard_new_def

lemma sb_start_inv: "sb_inv (sb_start junk ids segs limit)"
  by (simp add: sb_start_defs sb_inv_def sb_wf_def balanced_def smap_ok_def ram_ok_def ram_init_def word_less_nat_alt)

end
