(* ===== verification/Scoreboard_Exec.thy ===== *)
theory Scoreboard_Exec
  imports Scoreboard_Inv Seq_Lib
begin

text \<open>
  Executions of the scoreboard: what stays fixed during a run, the exact effect of a refill, of stores,
  of loads and of their responses, the search for the oldest request on a line, and which handlers
  can be undefined.
\<close>

section \<open>Runs\<close>

lemma sb_run_Next_inv: "sb_run vs (sb_start junk ids segs limit) = Next s \<Longrightarrow> sb_inv s"
  using sb_run_inv [OF sb_start_inv, of vs junk ids segs limit] by simp

lemma sb_run_append: "sb_run (us @ vs) s = seq_out (sb_run us s) (sb_run vs)"
proof (induction us arbitrary: s)
  case (Cons u us)
  have "sb_run (us @ vs) = (\<lambda>s. seq_out (sb_run us s) (sb_run vs))" by (rule ext) (rule Cons.IH)
  then show ?case by (simp add: seq_out_assoc)
qed simp

text \<open>What does not change during a run: the error limit and the two connections.\<close>

definition setup_is :: "u64 \<Rightarrow> segment_t list option \<Rightarrow> scoreboard \<Rightarrow> bool" where
  [simp]: "setup_is n m s \<longleftrightarrow> sb_error_limit_m s = n \<and> sb_mem_resp_model s = m \<and> sb_seq s \<noteq> None"

definition setup_out :: "u64 \<Rightarrow> segment_t list option \<Rightarrow> scoreboard outcome \<Rightarrow> bool" where
  "setup_out n m = out_all (\<lambda>s. setup_is n m s) (\<lambda>_ s. setup_is n m s)"

lemma setup_out_simps [simp]:
  "setup_out n m (Next s) \<longleftrightarrow> setup_is n m s" "setup_out n m Undefined"
  "setup_out n m (Exit c s) \<longleftrightarrow> setup_is n m s"
  "setup_out n m (print_error msg s) \<longleftrightarrow> setup_is n m s"
  "setup_is n m s \<Longrightarrow> setup_out n m (release_id i s)"
  "setup_is n m s \<Longrightarrow> setup_out n m (check_single_atomic s)"
  by (simp_all add: setup_out_def print_error_def Let_def release_id_def check_single_atomic_def split: option.split)

lemma setup_out_seq [intro]:
  "setup_out n m r \<Longrightarrow> (\<And>s. setup_is n m s \<Longrightarrow> setup_out n m (f s)) \<Longrightarrow> setup_out n m (seq_out r f)"
  unfolding setup_out_def by (rule out_all_seq)

lemma setup_out_check_bytes: "setup_is n m s \<Longrightarrow> setup_out n m (check_bytes a recv expc rv i k s)"
  by (induction k arbitrary: i s) (auto intro!: setup_out_seq)

lemma setup_out_record_store: "setup_is n m s \<Longrightarrow> setup_out n m (record_store req e s)"
  by (simp add: record_store_def split: option.split)

lemma setup_out_track: "setup_is n m s \<Longrightarrow> setup_out n m (track_request req e s)"
  by (simp add: track_request_def)

lemma setup_out_go: "setup_is n m s \<Longrightarrow> setup_out n m (seq_out (record_store req e s) (track_request req e))"
  by (rule setup_out_seq [OF setup_out_record_store setup_out_track])

lemma setup_out_share: "setup_is n m s \<Longrightarrow> setup_out n m (share_atomic req e s)"
  using setup_out_go [of n m s] setup_out_go [of n m "s\<lparr>inflight_amo_req_m := inflight_amo_req_m s @ [e]\<rparr>"]
  by (simp add: share_atomic_def Let_def)

lemma setup_out_if: "setup_out n m r \<Longrightarrow> setup_out n m r' \<Longrightarrow> setup_out n m (if b then r else r')"
  by simp

lemma setup_out_option: "(\<And>x. setup_out n m (f x)) \<Longrightarrow> setup_out n m (case v of None \<Rightarrow> Undefined | Some x \<Rightarrow> f x)"
  by (simp split: option.split)

lemma setup_out_prod: "(\<And>x y. setup_out n m (f x y)) \<Longrightarrow> setup_out n m (let (x, y) = p in f x y)"
  by (simp split: prod.split)

lemma setup_out_core_req: "setup_is n m s \<Longrightarrow> setup_out n m (core_req_process junk req s)"
  unfolding core_req_process_def Let_def [of "s\<lparr>nb_core_req := v, nb_core_req_need_rsp := w\<rparr>" for v w]
    Let_def [of "ucast (req_tid req)"]
  by (intro setup_out_if setup_out_option setup_out_prod setup_out_share) simp_all

lemma setup_out_check_sc: "setup_is n m s \<Longrightarrow> setup_out n m (check_sc resp e s)"
  unfolding check_sc_def Let_def by (intro setup_out_if setup_out_option) simp_all

lemma setup_out_check_data: "setup_is n m s \<Longrightarrow> setup_out n m (check_data resp e s)"
  by (simp add: check_data_def setup_out_check_bytes)

lemma setup_out_update_amo: "setup_is n m s \<Longrightarrow> setup_out n m (update_amo resp e s)"
  by (simp add: update_amo_def Let_def split: option.split)

lemma setup_out_checks:
  "setup_is n m s \<Longrightarrow>
   setup_out n m (seq_out (if b then seq_out (seq_out (check_sc resp e s) (check_data resp e)) (update_amo resp e) else Next s)
     (\<lambda>s. release_id i (s\<lparr>inflight_m := smap_erase i (inflight_m s)\<rparr>)))"
  by (intro setup_out_seq setup_out_if setup_out_check_sc setup_out_check_data setup_out_update_amo) simp_all

lemma setup_out_core_resp: "setup_is n m s \<Longrightarrow> setup_out n m (core_resp_process resp s)"
  by (simp add: core_resp_process_def Let_def setup_out_checks [of n m _ True, simplified]
      setup_out_checks [of n m _ False, simplified] split: option.split)

lemma setup_out_handle: "setup_is n m s \<Longrightarrow> setup_out n m (sb_handle v s)"
proof (cases v)
  case (Mem_read_req r)
  assume "setup_is n m s"
  with Mem_read_req show ?thesis
    by (auto simp: mem_read_req_process_def Let_def split: option.split list.split intro!: setup_out_seq)
next
  case (Mem_read_resp r)
  assume "setup_is n m s"
  with Mem_read_resp show ?thesis
    by (auto simp: mem_read_resp_process_def Let_def split: option.split intro!: setup_out_seq)
next
  case (Mem_write_req r)
  assume "setup_is n m s"
  with Mem_write_req show ?thesis
    by (auto simp: mem_write_req_process_def mem_write_amo_def mem_write_stex_def Let_def
        split: option.split list.split intro!: setup_out_seq)
qed (simp_all add: setup_out_core_req setup_out_core_resp mem_write_resp_process_def Let_def perf_events_process_def
      check_inflight_requests_def seq_allocate_def split: option.split)

lemma setup_out_run: "setup_is n m s \<Longrightarrow> setup_out n m (sb_run vs s)"
  by (induction vs arbitrary: s) (auto intro!: setup_out_seq setup_out_handle)

section \<open>Refills and the memory table\<close>

lemma be_loop_64: "be_loop byte unset i 64 be = None"
  by (simp add: be_loop_unfold be_defined_def)

lemma refill_64_undefined:
  assumes "ram_ok r" "ram_N r = SCOREBOARD_RAM_SIZE" "me_bytes e = 64"
  shows "refill resp e r = None"
proof -
  obtain u where "refill_spec r resp e u" using refill_cases [OF assms(1,2)] by blast
  with assms(3) show ?thesis by (simp add: refill_spec_def refill_be_def be_loop_64)
qed

text \<open>A transfer of at most a word takes one iteration.\<close>

lemma bit_be_mask:
  assumes "0 \<le> byte - int i * 8" "0 < bytes" "bytes \<le> 8" "k < 8"
  shows "bit (be_mask byte i bytes) k \<longleftrightarrow> byte - int i * 8 \<le> int k \<and> int k < byte - int i * 8 + bytes"
proof -
  have "push_bit (nat bytes) 1 - 1 = (mask (nat bytes) :: u64)" by (simp add: mask_eq_exp_minus_1)
  then have "bit (be_mask byte i bytes) k \<longleftrightarrow> nat (byte - int i * 8) \<le> k \<and> k - nat (byte - int i * 8) < nat bytes"
    using assms by (auto simp: be_mask_def bit_simps)
  with assms show ?thesis by linarith
qed

lemma refill_be_small:
  assumes "length u = 8" "0 < uint (me_bytes e)" "uint (me_bytes e) \<le> 8"
  shows "refill_be u e =
     (if unat (me_addr e) div 64 mod 8 * 8 \<le> unat (me_addr e) mod 64
      then Some ((replicate 8 0)[unat (me_addr e) div 64 mod 8 :=
             be_mask (int (unat (me_addr e) mod 64)) (unat (me_addr e) div 64 mod 8) (uint (me_bytes e)) AND
             u ! (unat (me_addr e) div 64 mod 8)])
      else None)"
proof -
  let ?w = "unat (me_addr e) div 64 mod 8" and ?b = "unat (me_addr e) mod 64"
  have "be_defined (int ?b) u ?w (uint (me_bytes e)) (replicate 8 0) \<longleftrightarrow> ?w * 8 \<le> ?b"
    using assms by (auto simp: be_defined_def)
  moreover have "be_loop (int ?b) u (Suc ?w) (uint (me_bytes e) - 8) be = Some be" for be
    using assms(3) by (simp add: be_loop_unfold)
  ultimately show ?thesis
    unfolding refill_be_def by (subst be_loop_unfold) (use assms in simp)
qed

lemma word_window_parts:
  fixes w q t p s n :: nat
  assumes "t < 8" "s < 8" "t + n \<le> 8" "w \<le> q"
  shows "p = w \<and> 8 * q + t - w * 8 \<le> s \<and> s < 8 * q + t - w * 8 + n \<longleftrightarrow>
         q = w \<and> 8 * q + t \<le> 8 * p + s \<and> 8 * p + s < 8 * q + t + n"
proof (cases "q = w")
  case True
  show ?thesis
  proof
    assume "p = w \<and> 8 * q + t - w * 8 \<le> s \<and> s < 8 * q + t - w * 8 + n"
    with True show "q = w \<and> 8 * q + t \<le> 8 * p + s \<and> 8 * p + s < 8 * q + t + n" by auto
  next
    assume r: "q = w \<and> 8 * q + t \<le> 8 * p + s \<and> 8 * p + s < 8 * q + t + n"
    with assms have "p < Suc q" "q < Suc p" by linarith+
    then have "p = q" by simp
    with r show "p = w \<and> 8 * q + t - w * 8 \<le> s \<and> s < 8 * q + t - w * 8 + n" by auto
  qed
next
  case False
  with assms have "s < 8 * q + t - w * 8" by linarith
  with False show ?thesis by linarith
qed

lemma word_window:
  fixes w b j n :: nat
  assumes "w * 8 \<le> b" "b mod 8 + n \<le> 8"
  shows "j div 8 = w \<and> b - w * 8 \<le> j mod 8 \<and> j mod 8 < b - w * 8 + n \<longleftrightarrow> b div 8 = w \<and> b \<le> j \<and> j < b + n"
proof -
  have "w \<le> b div 8" using assms(1) by (simp add: less_eq_div_iff_mult_less_eq)
  from word_window_parts [OF _ _ assms(2) this, of "j mod 8" "j div 8"]
  show ?thesis unfolding mult_div_mod_eq by simp
qed

lemma refill_small:
  assumes "ram_ok r" "ram_N r = SCOREBOARD_RAM_SIZE" "0 < unat (me_bytes e)" "unat (me_bytes e) \<le> 8"
    and b: "b = unat (me_addr e) mod 64" and w: "w = unat (me_addr e) div 64 mod 8"
    and word: "b mod 8 + unat (me_bytes e) \<le> 8" and "w \<le> b div 8"
  shows "\<exists>r'. refill resp e r = Some r' \<and> (\<forall>a. ram_abs r' a =
     (case ram_abs r a of
        Some v \<Rightarrow> Some v
      | None \<Rightarrow> if b div 8 = w \<and> line_base (me_addr e) + b \<le> a \<and> a < line_base (me_addr e) + b + unat (me_bytes e)
                then Some (line_bytes resp ! (a - line_base (me_addr e))) else None))"
proof -
  let ?l = "line_base (me_addr e)" and ?n = "unat (me_bytes e)"
  obtain u where spec: "refill_spec r resp e u" using refill_cases [OF assms(1,2)] by blast
  then have u: "length u = 8" "\<And>j. j < 64 \<Longrightarrow> be_bit u j \<longleftrightarrow> ram_abs r (?l + j) = None" by (simp_all add: refill_spec_def)
  define be where "be = (replicate 8 0)[w := be_mask (int b) w (int ?n) AND u ! w]"
  have le: "w * 8 \<le> b" using assms(8) by (simp add: less_eq_div_iff_mult_less_eq)
  have n: "uint (me_bytes e) = int ?n" by simp
  have pos: "0 < int ?n" "int ?n \<le> 8" using assms(3,4) by linarith+
  have "refill_be u e = Some be"
    using refill_be_small [OF u(1), of e] pos le unfolding n b [symmetric] w [symmetric] be_def by (simp only: if_True)
  with spec obtain r' where r': "refill resp e r = Some r'"
      "ram_abs r' = upd_bytes (line_bytes resp) be ?l 0 64 (ram_abs r)" by (auto simp: refill_spec_def)
  have w8: "w < 8" and b64: "b < 64" by (simp_all add: w b)
  have bits: "be_bit be j \<longleftrightarrow> ram_abs r (?l + j) = None \<and> b div 8 = w \<and> b \<le> j \<and> j < b + ?n" if "j < 64" for j
  proof -
    have m: "bit (be_mask (int b) w (int ?n)) (j mod 8) \<longleftrightarrow>
        int b - int w * 8 \<le> int (j mod 8) \<and> int (j mod 8) < int b - int w * 8 + int ?n"
      by (rule bit_be_mask [OF _ pos]) (use le in simp_all)
    have "be_bit be j \<longleftrightarrow> j div 8 = w \<and> bit (be_mask (int b) w (int ?n)) (j mod 8) \<and> be_bit u j"
      using that w8 by (cases "j div 8 = w") (auto simp: be_def be_bit_def bit_and_iff)
    also have "bit (be_mask (int b) w (int ?n)) (j mod 8) \<longleftrightarrow> b - w * 8 \<le> j mod 8 \<and> j mod 8 < b - w * 8 + ?n"
      unfolding m using le by linarith
    finally show ?thesis using u(2) [OF that] word_window [OF le word, of j] by blast
  qed
  have "ram_abs r' a = (case ram_abs r a of Some v \<Rightarrow> Some v
      | None \<Rightarrow> if b div 8 = w \<and> ?l + b \<le> a \<and> a < ?l + b + ?n then Some (line_bytes resp ! (a - ?l)) else None)" for a
  proof (cases "?l \<le> a \<and> a < ?l + 64")
    case True
    then have j: "a - ?l < 64" "?l + (a - ?l) = a" by auto
    show ?thesis using bits [OF j(1)] True by (auto simp: r'(2) upd_bytes_def split: option.split)
  next
    case False
    have "b + ?n \<le> 64" using word b64 by presburger
    with False show ?thesis by (auto simp: r'(2) upd_bytes_def split: option.split)
  qed
  with r'(1) show ?thesis by blast
qed

text \<open>The search for the oldest request on a line, over the whole table.\<close>

definition oldest :: "u64 \<Rightarrow> (u32 \<times> inflight_entry_t) set \<Rightarrow> (u32 \<times> inflight_entry_t) option \<Rightarrow> bool" where
  "oldest addr es r \<longleftrightarrow>
     (case r of
        None \<Rightarrow> \<forall>p \<in> es. get_nline (e_addr (snd p)) \<noteq> get_nline addr
      | Some p \<Rightarrow> p \<in> es \<and> get_nline (e_addr (snd p)) = get_nline addr \<and>
          (\<forall>p' \<in> es. get_nline (e_addr (snd p')) = get_nline addr \<longrightarrow> e_time (snd p) \<le> e_time (snd p')))"

lemma oldest_younger:
  assumes "oldest addr (insert p es) r" "get_nline (e_addr (snd p)) = get_nline addr" "e_time (snd p) \<le> e_time (snd q)"
  shows "oldest addr (insert q (insert p es)) r"
  using assms by (cases r) (auto simp: oldest_def intro: order_trans)

lemma oldest_other_line:
  assumes "oldest addr es r" "get_nline (e_addr (snd q)) \<noteq> get_nline addr"
  shows "oldest addr (insert q es) r"
  using assms by (cases r) (auto simp: oldest_def)

lemma find_core_req_oldest:
  "(\<And>p. acc = Some p \<Longrightarrow> get_nline (e_addr (snd p)) = get_nline addr) \<Longrightarrow>
   oldest addr (set m \<union> set_option acc) (find_core_req addr m acc)"
proof (induction m arbitrary: acc)
  case Nil
  then show ?case by (cases acc) (auto simp: oldest_def)
next
  case (Cons p m)
  obtain k e where p: "p = (k, e)" by force
  show ?case
  proof (cases "get_nline (e_addr e) = get_nline addr")
    case False
    with Cons oldest_other_line [OF Cons.IH, of acc p] p show ?thesis by auto
  next
    case line: True
    have new: "oldest addr (insert p (set m)) (find_core_req addr m (Some p))"
      using Cons.IH [of "Some p"] line p by auto
    show ?thesis
    proof (cases acc)
      case None
      with new line p show ?thesis by simp
    next
      case (Some q)
      have old: "oldest addr (insert q (set m)) (find_core_req addr m (Some q))"
        using Cons.IH [of "Some q"] Cons.prems [OF Some] by auto
      show ?thesis
        using line Some p oldest_younger [OF new, of q] oldest_younger [OF old Cons.prems [OF Some], of p]
        by (cases q) (auto simp: insert_commute not_less)
    qed
  qed
qed

section \<open>Stores and loads\<close>

definition req_in_error :: "segment_t list option \<Rightarrow> hpdcache_test_transaction_req \<Rightarrow> bool" where
  "req_in_error segs req \<longleftrightarrow>
     (case segs of None \<Rightarrow> False
      | Some ss \<Rightarrow> within_error_region ss (ucast (req_addr req))
                    (ucast (req_addr req) + ucast (push_bit (unat (req_size req)) 1 :: u8)))"

lemma check_error_segments_data:
  "\<not> is_cmo req \<Longrightarrow>
   check_error_segments segs req (core_entry j req t) = (core_entry j req t)\<lparr>e_is_error := req_in_error segs req\<rparr>"
  by (simp add: check_error_segments_def req_in_error_def split: option.split)

definition word_base :: "hpdcache_test_transaction_req \<Rightarrow> nat" where
  "word_base req = unat (align_to (ucast (req_addr req)) 8) mod SCOREBOARD_RAM_SIZE"

definition counted :: "hpdcache_test_transaction_req \<Rightarrow> scoreboard \<Rightarrow> scoreboard" where
  "counted req s = s\<lparr>nb_core_req := nb_core_req s + 1,
     nb_core_req_need_rsp := nb_core_req_need_rsp s + (if req_need_rsp req then 1 else 0)\<rparr>"

lemma core_req_unfold:
  "core_req_process junk req s =
     (if smap_find (inflight_m s) (ucast (req_tid req)) \<noteq> None
      then print_error (Core_req_id_inflight (ucast (req_tid req))) (counted req s)
      else if is_cmo req \<and> \<not> req_need_rsp req then release_id (ucast (req_tid req)) (counted req s)
      else
        (case expected_data (ram_m s) req
                (check_error_segments (sb_mem_resp_model s) req (core_entry junk req (nb_cycles s))) of
           None \<Rightarrow> Undefined
         | Some e \<Rightarrow>
             (let (e, b) = invalidate_reservation req e (make_reservation req e (lrsc_buf_m s))
              in share_atomic req e ((counted req s)\<lparr>lrsc_buf_m := b\<rparr>))))"
proof -
  have c: "inflight_m (counted req s) = inflight_m s" "ram_m (counted req s) = ram_m s"
    "sb_mem_resp_model (counted req s) = sb_mem_resp_model s" "nb_cycles (counted req s) = nb_cycles s"
    "lrsc_buf_m (counted req s) = lrsc_buf_m s"
    by (simp_all add: counted_def)
  show ?thesis
    unfolding core_req_process_def Let_def [of "s\<lparr>nb_core_req := v, nb_core_req_need_rsp := w\<rparr>" for v w]
      Let_def [of "ucast (req_tid req) :: u32"]
    unfolding counted_def [symmetric] c ..
qed

text \<open>A store outside the error segments changes exactly the enabled bytes of its word.\<close>

lemma core_req_store:
  assumes "sb_wf s" "sb_seq s \<noteq> None" "is_store req" "\<not> req_in_error (sb_mem_resp_model s) req"
    and "smap_find (inflight_m s) (ucast (req_tid req)) = None"
  shows "\<exists>t. core_req_process junk req s = Next t \<and> sb_errors t = sb_errors s \<and>
     ram_abs (ram_m t) = upd_bytes (bytes8 (req_wdata req)) [req_be req] (word_base req) 0 8 (ram_abs (ram_m s)) \<and>
     (\<forall>k. k \<noteq> ucast (req_tid req) \<longrightarrow> smap_find (inflight_m t) k = smap_find (inflight_m s) k) \<and>
     inflight_mem_read_m t = inflight_mem_read_m s"
proof -
  let ?e = "core_entry junk req (nb_cycles s)"
  have ex: "\<not> is_load req" "\<not> is_amo req" "\<not> is_amo_lr req" "\<not> is_amo_sc req" "\<not> is_cmo req"
    using store_exclusive [OF assms(3)] by auto
  have er: "check_error_segments (sb_mem_resp_model s) req ?e = ?e\<lparr>e_is_error := False\<rparr>"
    using check_error_segments_data [OF ex(5)] assms(4) by simp
  define e where "e = ?e\<lparr>e_is_error := False\<rparr>"
  define b where "b = snd (invalidate_reservation req e (lrsc_buf_m s))"
  have iv: "invalidate_reservation req e (lrsc_buf_m s) = (e, b)"
    using ex by (simp add: b_def invalidate_reservation_def Let_def)
  have data: "e_wdata e = [req_wdata req]" "e_be e = [req_be req]" "\<not> e_is_error e"
    using core_entry_data [of req junk "nb_cycles s"] assms(3) by (simp_all add: e_def)
  let ?s = "(counted req s)\<lparr>lrsc_buf_m := b\<rparr>"
  have ram: "ram_ok (ram_m ?s)" "ram_N (ram_m ?s) = SCOREBOARD_RAM_SIZE" "smap_ok (inflight_m s)"
    using assms(1) by (simp_all add: sb_wf_def counted_def)
  obtain r where r: "record_store req e ?s = Next (?s\<lparr>ram_m := r\<rparr>)"
      "ram_abs r = upd_bytes (bytes8 (req_wdata req)) [req_be req] (word_base req) 0 8 (ram_abs (ram_m s))"
    by (rule record_store_eq [OF ram(1,2), of req e]) (use data assms(3) in \<open>auto simp: word_base_def counted_def\<close>)
  have "core_req_process junk req s = track_request req e (?s\<lparr>ram_m := r\<rparr>)"
    using assms(5) ex iv r(1)
    by (simp add: core_req_unfold er e_def [symmetric] expected_data_def make_reservation_def share_atomic_def)
  with assms(2) r(2) ram(3) show ?thesis
    by (auto simp: track_request_def release_id_def counted_def)
qed

text \<open>A load outside the error segments enters the table with the known bytes of its word.\<close>

definition load_entry :: "hpdcache_test_transaction_req \<Rightarrow> ram \<Rightarrow> inflight_entry_t \<Rightarrow> bool" where
  "load_entry req r e \<longleftrightarrow> e_is_read e \<and> \<not> e_is_write e \<and> \<not> e_is_amo e \<and> \<not> e_is_amo_sc e \<and> \<not> e_is_error e \<and>
     e_addr e = ucast (req_addr req) \<and> e_bytes e = push_bit (unat (req_size req)) 1 \<and>
     (\<exists>rd rv. e_rdata e = [rd] \<and> e_rv e = [rv] \<and>
        (\<forall>j < 8. bit rv j \<longleftrightarrow> ram_abs r (word_base req + j) \<noteq> None) \<and>
        (\<forall>j < 8. \<forall>b. ram_abs r (word_base req + j) = Some b \<longrightarrow> byte_of rd j = b))"

lemma core_req_load:
  assumes "sb_wf s" "is_load req" "req_need_rsp req" "\<not> req_in_error (sb_mem_resp_model s) req"
    and "smap_find (inflight_m s) (ucast (req_tid req)) = None"
  shows "\<exists>t e. core_req_process junk req s = Next t \<and> sb_errors t = sb_errors s \<and> ram_m t = ram_m s \<and>
     smap_find (inflight_m t) (ucast (req_tid req)) = Some e \<and> load_entry req (ram_m s) e"
proof -
  let ?e = "core_entry junk req (nb_cycles s)"
  have ex: "\<not> is_store req" "\<not> is_amo req" "\<not> is_amo_lr req" "\<not> is_amo_sc req" "\<not> is_cmo req"
    using load_exclusive [OF assms(2)] by auto
  have er: "check_error_segments (sb_mem_resp_model s) req ?e = ?e\<lparr>e_is_error := False\<rparr>"
    using check_error_segments_data [OF ex(5)] assms(4) by simp
  have ram: "ram_ok (ram_m s)" "ram_N (ram_m s) = SCOREBOARD_RAM_SIZE" "smap_ok (inflight_m s)"
    using assms(1) by (simp_all add: sb_wf_def)
  define e where "e = ?e\<lparr>e_is_error := False\<rparr>"
  obtain rd rv where ed: "expected_data (ram_m s) req e = Some (e\<lparr>e_rdata := rd, e_rv := rv\<rparr>)"
    and len: "length rd = 1" "length rv = 1"
    and v: "\<forall>j < 8. bit (rv ! 0) j \<longleftrightarrow> ram_abs (ram_m s) (word_base req + j) \<noteq> None"
      "\<forall>j < 8. \<forall>b. ram_abs (ram_m s) (word_base req + j) = Some b \<longrightarrow> byte_of (rd ! 0) j = b"
    by (rule expected_data_eq [OF ram(1,2), of req e]) (use assms(2) in \<open>auto simp: e_def word_base_def\<close>)
  let ?f = "e\<lparr>e_rdata := rd, e_rv := rv\<rparr>"
  have le: "load_entry req (ram_m s) ?f"
    using len v ex assms(2) by (auto simp: load_entry_def e_def length_Suc_conv)
  have "core_req_process junk req s =
      Next ((counted req s)\<lparr>lrsc_buf_m := lrsc_buf_m s, inflight_m := smap_insert (ucast (req_tid req)) ?f (inflight_m s)\<rparr>)"
    using assms(3,5) ex ed
    by (simp add: core_req_unfold er e_def [symmetric] make_reservation_def invalidate_reservation_def share_atomic_def
        record_store_def track_request_def counted_def)
  with le assms(5) ram(3) show ?thesis by (simp add: counted_def)
qed

lemma ucast_ucast_id_tid: "ucast (ucast (x :: tid_bv) :: u32) = x"
  by (rule bit_word_eqI) (simp add: bit_simps)

lemma ucast_up_inj_tid: "(ucast (x :: tid_bv) :: u32) = ucast y \<Longrightarrow> x = y"
  by (metis ucast_ucast_id_tid)

text \<open>Without a limit, the check of a response reports every wrong byte, in order, and goes on.\<close>

definition report :: "sb_error list \<Rightarrow> scoreboard \<Rightarrow> scoreboard" where
  "report ms s = s\<lparr>sb_errors := sb_errors s @ ms, nb_error := nb_error s + of_nat (length ms)\<rparr>"

lemma report_Nil [simp]: "report [] s = s"
  by (simp add: report_def)

lemma report_fields [simp]:
  "sb_errors (report ms s) = sb_errors s @ ms" "sb_error_limit_m (report ms s) = sb_error_limit_m s"
  "inflight_m (report ms s) = inflight_m s" "ram_m (report ms s) = ram_m s" "sb_seq (report ms s) = sb_seq s"
  by (simp_all add: report_def)

lemma print_error_no_limit: "sb_error_limit_m s = 0 \<Longrightarrow> print_error m s = Next (report [m] s)"
  by (simp add: print_error_def report_def)

lemma check_bytes_word:
  assumes "sb_error_limit_m s = 0" "i + n \<le> 8"
  shows "check_bytes al (bytes8 recv) (bytes8 expc) [rv] i n s =
     Next (report (map (\<lambda>j. Wrong_data (al + of_nat j) (byte_of recv j) (byte_of expc j))
       (filter (\<lambda>j. bit rv j \<and> byte_of recv j \<noteq> byte_of expc j) [i..<i + n])) s)"
  using assms
proof (induction n arbitrary: i s)
  case (Suc n)
  have upt: "[i..<i + Suc n] = i # [Suc i..<Suc i + n]" by (simp add: upt_conv_Cons)
  let ?wrong = "bit rv i \<and> byte_of recv i \<noteq> byte_of expc i"
  let ?s = "if ?wrong then report [Wrong_data (al + of_nat i) (byte_of recv i) (byte_of expc i)] s else s"
  have i8: "i < 8" using Suc.prems by simp
  have "check_bytes al (bytes8 recv) (bytes8 expc) [rv] i (Suc n) s =
      check_bytes al (bytes8 recv) (bytes8 expc) [rv] (Suc i) n ?s"
    using i8 Suc.prems by (simp add: print_error_no_limit)
  also have "\<dots> = Next (report (map (\<lambda>j. Wrong_data (al + of_nat j) (byte_of recv j) (byte_of expc j))
       (filter (\<lambda>j. bit rv j \<and> byte_of recv j \<noteq> byte_of expc j) [Suc i..<Suc i + n])) ?s)"
    by (rule Suc.IH) (use Suc.prems in auto)
  finally show ?case
    unfolding upt by (cases ?wrong) (simp_all add: report_def add.assoc)
qed simp

definition access_bytes :: "hpdcache_test_transaction_req \<Rightarrow> nat list" where
  "access_bytes req = [unat (req_addr req) mod 8..<unat (req_addr req) mod 8 + 2 ^ unat (req_size req)]"

lemma resp_words_1: "resp_words resp = [rsp_rdata resp]"
  by (simp add: resp_words_def bv_range_def take_bit_word_eq_self)

lemma unat_size_byte: "unat (2 ^ unat (z :: size_bv) :: u8) = 2 ^ unat z"
proof -
  have "unat z < 8" using unat_less_exp [of z] by simp
  then have "(2::nat) ^ unat z < 2 ^ 8" by (intro power_strict_increasing) simp_all
  then have "unat (of_nat (2 ^ unat z) :: u8) = 2 ^ unat z" by (intro unat_of_nat_self) simp
  then show ?thesis by simp
qed

lemma core_resp_load:
  assumes "sb_error_limit_m s = 0" "sb_seq s \<noteq> None" "smap_find (inflight_m s) (ucast (rsp_tid resp)) = Some e"
    and "load_entry req r e" "\<not> rsp_error resp" "unat (req_addr req) mod 8 + 2 ^ unat (req_size req) \<le> 8"
    and known: "\<And>j. j \<in> set (access_bytes req) \<Longrightarrow> ram_abs r (word_base req + j) = Some (v j)"
  shows "\<exists>t. core_resp_process resp s = Next t \<and> smap_find (inflight_m t) (ucast (rsp_tid resp)) = None \<and>
     ram_m t = ram_m s \<and>
     sb_errors t = sb_errors s @ map (\<lambda>j. Wrong_data (align_to (ucast (req_addr req)) 8 + of_nat j)
        (byte_of (rsp_rdata resp) j) (v j)) (filter (\<lambda>j. byte_of (rsp_rdata resp) j \<noteq> v j) (access_bytes req))"
proof -
  obtain rd rv where rd: "e_rdata e = [rd]" "e_rv e = [rv]"
      "\<forall>j < 8. bit rv j \<longleftrightarrow> ram_abs r (word_base req + j) \<noteq> None"
      "\<forall>j < 8. \<forall>b. ram_abs r (word_base req + j) = Some b \<longrightarrow> byte_of rd j = b"
    using assms(4) by (auto simp: load_entry_def)
  have e: "e_is_read e" "\<not> e_is_amo e" "\<not> e_is_amo_sc e" "\<not> e_is_error e" "\<not> e_is_write e" "e_addr e = ucast (req_addr req)"
    "unat (e_bytes e) = 2 ^ unat (req_size req)"
    using assms(4) by (simp_all add: load_entry_def unat_size_byte)
  have acc: "j < 8 \<and> bit rv j \<and> byte_of rd j = v j" if "j \<in> set (access_bytes req)" for j
  proof -
    have "j < 8" using that assms(6) by (auto simp: access_bytes_def)
    with known [OF that] rd(3,4) show ?thesis by auto
  qed
  let ?s = "s\<lparr>nb_core_resp := nb_core_resp s + 1, nb_cycles_effective := nb_cycles s\<rparr>"
  let ?al = "align_to (ucast (req_addr req)) 8 :: u64"
  define ms where "ms = map (\<lambda>j. Wrong_data (?al + of_nat j) (byte_of (rsp_rdata resp) j) (byte_of rd j))
       (filter (\<lambda>j. bit rv j \<and> byte_of (rsp_rdata resp) j \<noteq> byte_of rd j) (access_bytes req))"
  have chk: "check_data resp e ?s = Next (report ms ?s)"
    using e rd check_bytes_word [of ?s "unat (req_addr req) mod 8" "2 ^ unat (req_size req)" ?al "rsp_rdata resp" rd rv]
      assms(1,6) by (simp add: check_data_def resp_words_1 ms_def access_bytes_def)
  have "ms = map (\<lambda>j. Wrong_data (?al + of_nat j) (byte_of (rsp_rdata resp) j) (v j))
       (filter (\<lambda>j. byte_of (rsp_rdata resp) j \<noteq> v j) (access_bytes req))"
    unfolding ms_def using acc by (intro map_cong filter_cong) auto
  moreover have "core_resp_process resp s =
      release_id (ucast (rsp_tid resp)) ((report ms ?s)\<lparr>inflight_m := smap_erase (ucast (rsp_tid resp)) (inflight_m s)\<rparr>)"
    using assms(3,5) e chk
    by (simp add: core_resp_process_def Let_def check_sc_def update_amo_def)
  ultimately show ?thesis using assms(2) by (auto simp: release_id_def)
qed

section \<open>Definedness\<close>

text \<open>\<open>out_def P r\<close>: \<open>r\<close> is not undefined, and \<open>P\<close> holds if it continues.\<close>

fun out_def :: "('s \<Rightarrow> bool) \<Rightarrow> 's outcome \<Rightarrow> bool" where
  "out_def P (Next s) = P s"
| "out_def P (Exit c s) = True"
| "out_def P Undefined = False"

lemma out_def_seq: "out_def P r \<Longrightarrow> (\<And>s. P s \<Longrightarrow> out_def Q (f s)) \<Longrightarrow> out_def Q (seq_out r f)"
  by (cases r) auto

lemma out_def_all: "out_def (\<lambda>_. True) r \<Longrightarrow> out_all P Q r \<Longrightarrow> out_def P r"
  by (cases r) auto

definition entry_fits :: "inflight_entry_t \<Rightarrow> bool" where
  "entry_fits e \<longleftrightarrow> (e_is_read e \<or> e_is_amo e \<or> e_is_amo_lr e \<longrightarrow> unat (e_addr e) mod 8 + unat (e_bytes e) \<le> 8)"

definition fits_table :: "scoreboard \<Rightarrow> bool" where
  "fits_table s \<longleftrightarrow> (\<forall>(k, e) \<in> set (inflight_m s). entry_fits e)"

definition sb_safe :: "scoreboard \<Rightarrow> bool" where
  "sb_safe s \<longleftrightarrow> sb_inv s \<and> sb_seq s \<noteq> None \<and> sb_mem_resp_model s \<noteq> None \<and> fits_table s"

lemma print_error_defined: "out_def (\<lambda>_. True) (print_error m s)"
  by (simp add: print_error_def Let_def)

lemma release_id_defined: "sb_seq s \<noteq> None \<Longrightarrow> out_def (\<lambda>_. True) (release_id i s)"
  by (auto simp: release_id_def)

text \<open>The part of the state a handler leaves alone.\<close>

definition frame :: "scoreboard \<Rightarrow> scoreboard \<Rightarrow> bool" where
  "frame s t \<longleftrightarrow> ram_ok (ram_m t) \<and> ram_N (ram_m t) = SCOREBOARD_RAM_SIZE \<and> sb_seq t = sb_seq s \<and> inflight_m t = inflight_m s"

lemma frame_print_error: "frame s t \<Longrightarrow> out_def (frame s) (print_error m t)"
  by (simp add: print_error_def Let_def frame_def)

lemma frame_check_bytes:
  assumes "frame s t" "i + n \<le> 8" "length recv = 8" "length expc = 8" "length rv = 1"
  shows "out_def (frame s) (check_bytes al recv expc rv i n t)"
  using assms(1,2)
proof (induction n arbitrary: i t)
  case (Suc n)
  have "out_def (frame s) (seq_out (if b then print_error m t else Next t) (check_bytes al recv expc rv (Suc i) n))" for b m
    by (rule out_def_seq [of "frame s"]) (use Suc frame_print_error [OF Suc.prems(1)] in auto)
  with Suc.prems assms(3-5) show ?case by simp
qed simp

lemma frame_check_data:
  assumes "frame s t" "entry_ok k e" "entry_fits e" "\<not> e_is_error e"
  shows "out_def (frame s) (check_data resp e t)"
proof (cases "e_is_read e \<or> e_is_amo e \<or> e_is_amo_lr e")
  case True
  then obtain rd rv where "e_rdata e = [rd]" "e_rv e = [rv]"
    using assms(2,4) by (auto simp: entry_ok_def length_Suc_conv)
  with True assms(1,3) show ?thesis
    by (auto simp: check_data_def resp_words_1 entry_fits_def intro!: frame_check_bytes)
next
  case False
  with assms(1) show ?thesis by (simp add: check_data_def)
qed

lemma frame_word_write:
  assumes "frame s t"
  obtains r where "ram_write (ram_m t) (bytes8 w) [b] 8 (align_to a 8) = Some r" "frame s (t\<lparr>ram_m := r\<rparr>)"
  by (rule word_write [of t w b a]) (use assms that in \<open>auto simp: frame_def\<close>)

lemma frame_check_sc:
  assumes "frame s t"
  shows "out_def (frame s) (check_sc resp e t)"
proof -
  obtain r where "ram_write (ram_m t) (bytes8 (e_wdata e ! 0)) [e_be e ! 0] 8 (align_to (e_addr e) 8) = Some r"
      "frame s (t\<lparr>ram_m := r\<rparr>)"
    by (rule frame_word_write [OF assms])
  with assms show ?thesis by (simp add: check_sc_def Let_def resp_word_def frame_print_error)
qed

lemma frame_update_amo:
  assumes "frame s t"
  shows "out_def (frame s) (update_amo resp e t)"
proof -
  have "out_def (frame s) (case ram_write (ram_m t) (bytes8 w) [e_be e ! 0] 8 (align_to (e_addr e) 8) of
      None \<Rightarrow> Undefined | Some r \<Rightarrow> Next (t\<lparr>ram_m := r\<rparr>))" for w
    by (rule frame_word_write [OF assms, of w "e_be e ! 0" "e_addr e"]) simp
  with assms show ?thesis by (simp add: update_amo_def Let_def resp_word_def split: option.split)
qed

lemma core_resp_defined:
  assumes "sb_safe s"
  shows "out_def (\<lambda>t. set (inflight_m t) \<subseteq> set (inflight_m s)) (core_resp_process resp s)"
proof -
  let ?s = "s\<lparr>nb_core_resp := nb_core_resp s + 1, nb_cycles_effective := nb_cycles s\<rparr>"
  let ?id = "ucast (rsp_tid resp) :: u32"
  have fr: "frame s ?s" using assms by (simp add: sb_safe_def sb_inv_def sb_wf_def frame_def)
  have pe: "out_def (\<lambda>t. set (inflight_m t) \<subseteq> set (inflight_m s)) (print_error m ?s)" for m
    by (simp add: print_error_def Let_def)
  show ?thesis
  proof (cases "smap_find (inflight_m s) ?id")
    case None
    with pe show ?thesis by (simp add: core_resp_process_def Let_def)
  next
    case (Some e)
    then have e: "entry_ok ?id e" "entry_fits e"
      using assms smap_find_in_set [OF Some] by (auto simp: sb_safe_def sb_inv_def sb_wf_def fits_table_def)
    let ?c = "if \<not> e_is_error e then seq_out (seq_out (check_sc resp e ?s) (check_data resp e)) (update_amo resp e) else Next ?s"
    have "out_def (frame s) (seq_out (seq_out (check_sc resp e ?s) (check_data resp e)) (update_amo resp e))" if "\<not> e_is_error e"
      by (intro out_def_seq [of "frame s"] frame_check_sc frame_update_amo fr frame_check_data [OF _ e that])
    then have "out_def (frame s) ?c" using fr by simp
    then have "out_def (\<lambda>t. set (inflight_m t) \<subseteq> set (inflight_m s))
        (seq_out ?c (\<lambda>s. release_id ?id (s\<lparr>inflight_m := smap_erase ?id (inflight_m s)\<rparr>)))"
      by (rule out_def_seq) (use assms in \<open>auto simp: release_id_def frame_def sb_safe_def set_smap_erase\<close>)
    with Some pe show ?thesis by (simp add: core_resp_process_def Let_def)
  qed
qed

definition req_fits :: "hpdcache_test_transaction_req \<Rightarrow> bool" where
  "req_fits req \<longleftrightarrow> (is_load req \<or> is_amo req \<or> is_amo_lr req \<longrightarrow>
     unat (req_addr req) mod 8 + 2 ^ unat (req_size req) \<le> 8)"

text \<open>The requests of the sequences fit in their word.\<close>

lemma aligned_fits_word:
  assumes "z \<le> 3" "2 ^ z dvd (a :: nat)"
  shows "a mod 8 + 2 ^ z \<le> 8"
proof -
  have "z \<in> {0, 1, 2, 3}" using assms(1) by auto
  moreover have "2 dvd a \<Longrightarrow> a mod 8 + 2 \<le> 8" "4 dvd a \<Longrightarrow> a mod 8 + 4 \<le> 8" by presburger+
  ultimately show ?thesis using assms(2) by (auto simp: Suc_leI)
qed

lemma req_wf_fits: "req_wf req \<Longrightarrow> req_fits req"
proof (cases "is_cmo req")
  case True
  then have "\<not> is_load req" "\<not> is_amo req" "\<not> is_amo_lr req"
    by (auto simp: is_cmo_def is_load_def is_amo_def is_amo_lr_def has_op_def)
  then show ?thesis by (simp add: req_fits_def)
next
  case False
  assume "req_wf req"
  with False have "unat (req_size req) \<le> 3" "2 ^ unat (req_size req) dvd unat (req_addr req)"
    by (simp_all add: req_wf_def Let_def)
  from aligned_fits_word [OF this] show ?thesis by (simp add: req_fits_def)
qed

lemma share_atomic_defined:
  assumes "ram_ok (ram_m s)" "ram_N (ram_m s) = SCOREBOARD_RAM_SIZE" "sb_seq s \<noteq> None"
    and "is_store req \<Longrightarrow> e_wdata e = [req_wdata req] \<and> e_be e = [req_be req]"
  shows "out_def (\<lambda>t. set (inflight_m t) \<subseteq> insert (ucast (req_tid req), e) (set (inflight_m s))) (share_atomic req e s)"
proof -
  have go: "out_def (\<lambda>t. set (inflight_m t) \<subseteq> insert (ucast (req_tid req), e) (set (inflight_m s)))
      (seq_out (record_store req e u) (track_request req e))"
    if u: "ram_m u = ram_m s" "sb_seq u = sb_seq s" "inflight_m u = inflight_m s" for u
  proof -
    obtain r where "record_store req e u = Next (u\<lparr>ram_m := r\<rparr>)"
      by (rule record_store_eq [of u req e]) (use assms u in auto)
    with assms(3) u set_smap_insert [of "ucast (req_tid req)" e "inflight_m s"] show ?thesis
      by (auto simp: track_request_def release_id_def)
  qed
  show ?thesis
    using go [of s] go [of "s\<lparr>inflight_amo_req_m := inflight_amo_req_m s @ [e]\<rparr>"]
    by (auto simp: share_atomic_def Let_def print_error_def)
qed

lemma core_req_defined:
  assumes "sb_safe s" "req_fits req"
  shows "out_def fits_table (core_req_process junk req s)"
proof -
  have safe: "sb_wf s" "sb_seq s \<noteq> None" "fits_table s" using assms(1) by (auto simp: sb_safe_def sb_inv_def)
  obtain e b where st: "\<And>P :: inflight_entry_t \<Rightarrow> lrsc_reservation_buf_t \<Rightarrow> scoreboard outcome.
      (case expected_data (ram_m s) req (check_error_segments (sb_mem_resp_model s) req (core_entry junk req (nb_cycles s))) of
        None \<Rightarrow> Undefined
      | Some e \<Rightarrow> (let (e, b) = invalidate_reservation req e (make_reservation req e (lrsc_buf_m s)) in P e b)) = P e b"
      "is_store req \<or> is_amo_sc req \<or> is_amo req \<Longrightarrow> e_wdata e = [req_wdata req] \<and> e_be e = [req_be req]"
      "e_is_read e = is_load req" "e_is_amo e = is_amo req" "e_is_amo_lr e = is_amo_lr req"
      "e_addr e = ucast (req_addr req)" "e_bytes e = push_bit (unat (req_size req)) 1"
    by (rule core_req_stages [OF safe(1), of req junk]) blast
  have fits: "entry_fits e" using assms(2) st(3-7) by (simp add: entry_fits_def req_fits_def unat_size_byte)
  let ?s = "(counted req s)\<lparr>lrsc_buf_m := b\<rparr>"
  have "out_def (\<lambda>t. set (inflight_m t) \<subseteq> insert (ucast (req_tid req), e) (set (inflight_m ?s))) (share_atomic req e ?s)"
    by (rule share_atomic_defined) (use safe st(2) in \<open>auto simp: sb_wf_def counted_def\<close>)
  then have "out_def fits_table (share_atomic req e ?s)"
    using fits safe(3) by (cases "share_atomic req e ?s") (auto simp: fits_table_def counted_def)
  then show ?thesis
    using safe unfolding core_req_unfold st(1)
    by (auto simp: print_error_def release_id_def counted_def fits_table_def Let_def)
qed

text \<open>The memory handlers leave the table of core requests alone.\<close>

definition keeps_table :: "scoreboard \<Rightarrow> scoreboard outcome \<Rightarrow> bool" where
  "keeps_table s = out_def (\<lambda>t. inflight_m t = inflight_m s)"

lemma keeps_table_simps [simp]:
  "keeps_table s (Next t) \<longleftrightarrow> inflight_m t = inflight_m s" "keeps_table s (Exit c t)"
  "inflight_m t = inflight_m s \<Longrightarrow> keeps_table s (print_error m t)"
  "inflight_m t = inflight_m s \<Longrightarrow> keeps_table s (check_single_atomic t)"
  by (simp_all add: keeps_table_def print_error_def check_single_atomic_def Let_def)

lemma keeps_table_seq:
  "keeps_table s r \<Longrightarrow> (\<And>t. inflight_m t = inflight_m s \<Longrightarrow> keeps_table s (f t)) \<Longrightarrow> keeps_table s (seq_out r f)"
  unfolding keeps_table_def by (rule out_def_seq)

lemma mem_entry_defined:
  "sb_mem_resp_model s \<noteq> None \<Longrightarrow> unat (mreq_size req) < 64 \<Longrightarrow> \<exists>e. mem_entry req s = Some e"
  by (auto simp: mem_entry_def Let_def)

lemma mem_read_req_defined:
  assumes "sb_mem_resp_model s \<noteq> None" "unat (mreq_size req) < 64"
  shows "keeps_table s (mem_read_req_process req s)"
proof -
  obtain e where "mem_entry req (s\<lparr>nb_mem_read_req := nb_mem_read_req s + 1\<rparr>) = Some e"
    using mem_entry_defined [OF _ assms(2)] assms(1) by fastforce
  then show ?thesis
    by (auto simp: mem_read_req_process_def Let_def split: list.split intro!: keeps_table_seq)
qed

lemma mem_write_req_defined:
  assumes "sb_mem_resp_model s \<noteq> None" "unat (mreq_size req) < 64"
  shows "keeps_table s (mem_write_req_process req s)"
proof -
  obtain e where "mem_entry req (s\<lparr>nb_mem_write_req := nb_mem_write_req s + 1\<rparr>) = Some e"
    using mem_entry_defined [OF _ assms(2)] assms(1) by fastforce
  with assms(2) show ?thesis
    by (auto simp: mem_write_req_process_def mem_write_amo_def mem_write_stex_def Let_def split: list.split
        intro!: keeps_table_seq)
qed

text \<open>Well-formed traffic, and the one place where it can go wrong.\<close>

fun event_ok :: "sb_event \<Rightarrow> bool" where
  "event_ok (Core_req junk req) = req_wf req"
| "event_ok (Mem_read_req req) = (unat (mreq_size req) < 64)"
| "event_ok (Mem_write_req req) = (unat (mreq_size req) < 64)"
| "event_ok v = True"

definition bad_refill :: "scoreboard \<Rightarrow> sb_event \<Rightarrow> bool" where
  "bad_refill s v \<longleftrightarrow>
     (\<exists>resp e. v = Mem_read_resp resp \<and> rresp_error resp = 0 \<and>
        smap_find (inflight_mem_read_m s) (ucast (rresp_id resp)) = Some e \<and> refill resp e (ram_m s) = None)"

lemma mem_read_resp_defined:
  assumes "\<not> bad_refill s (Mem_read_resp resp)"
  shows "keeps_table s (mem_read_resp_process resp s)"
  using assms by (auto simp: mem_read_resp_process_def bad_refill_def Let_def split: option.split)

lemma sb_handle_defined:
  assumes "sb_safe s" "event_ok v" "\<not> bad_refill s v"
  shows "out_def sb_safe (sb_handle v s)"
proof -
  have safe: "sb_inv s" "sb_seq s \<noteq> None" "sb_mem_resp_model s \<noteq> None" "fits_table s"
    using assms(1) by (auto simp: sb_safe_def)
  have eq: "out_def fits_table r" if "keeps_table s r" for r
    using that safe(4) by (cases r) (auto simp: keeps_table_def fits_table_def)
  have "out_def fits_table (sb_handle v s)"
  proof (cases v)
    case (Core_req junk req)
    then show ?thesis using core_req_defined [OF assms(1) req_wf_fits] assms(2) by simp
  next
    case (Core_resp resp)
    have "out_def fits_table (core_resp_process resp s)"
      using core_resp_defined [OF assms(1), of resp] safe(4)
      by (cases "core_resp_process resp s") (auto simp: fits_table_def)
    with Core_resp show ?thesis by simp
  next
    case (Seq_allocate rnd)
    then show ?thesis using safe(2,4) by (auto simp: seq_allocate_def fits_table_def split: option.split)
  qed (use assms(2,3) safe in \<open>auto intro!: eq mem_read_req_defined mem_write_req_defined mem_read_resp_defined
         simp: mem_write_resp_process_def Let_def perf_events_process_def check_inflight_requests_def fits_table_def\<close>)
  then show ?thesis
    using sb_handle_inv [OF safe(1), of v] setup_out_handle [of _ _ s v, OF setup_is_def [THEN iffD2]] safe(2,3)
    by (cases "sb_handle v s") (auto simp: sb_safe_def)
qed

lemma sb_run_defined:
  assumes "sb_safe s" "\<forall>v \<in> set vs. event_ok v" "sb_run vs s = Undefined"
  shows "\<exists>us v ws t. vs = us @ v # ws \<and> sb_run us s = Next t \<and> bad_refill t v"
  using assms
proof (induction vs arbitrary: s)
  case (Cons v vs)
  show ?case
  proof (cases "bad_refill s v")
    case True
    then show ?thesis by (intro exI [of _ "[]"] exI [of _ v] exI [of _ vs] exI [of _ s]) simp
  next
    case False
    with Cons.prems have "out_def sb_safe (sb_handle v s)" by (intro sb_handle_defined) auto
    with Cons.prems(3) obtain t where t: "sb_handle v s = Next t" "sb_safe t" "sb_run vs t = Undefined"
      by (cases "sb_handle v s") auto
    from Cons.IH [OF t(2) _ t(3)] Cons.prems(2) obtain us w ws u
      where "vs = us @ w # ws" "sb_run us t = Next u" "bad_refill u w" by auto
    with t(1) show ?thesis by (intro exI [of _ "v # us"] exI [of _ w] exI [of _ ws] exI [of _ u]) simp
  qed
qed simp

end
