(* ===== verification/Seq_Setup.thy ===== *)
theory Seq_Setup
  imports Seq_Lib Mem_Resp Scoreboard_Exec
begin

text \<open>
  What the sequences do before and between their requests: the preambles of the \<^verbatim>\<open>run\<close> threads, which
  install error segments and delays in the memory model (\<^verbatim>\<open>TB/sequence_lib\<close>, with the getters of
  \<^verbatim>\<open>hpdcache_test_mem_resp_model_base.h\<close>), the \<^verbatim>\<open>send_transaction\<close> of the read and the write sequence,
  and the members the unique-set sequence repeats from the random one. The scoreboard, which reaches the
  memory model through a pointer, decides from the address of a request whether an error is due; the
  memory decides from the address of the transfer that serves it. For segments of whole cache lines the
  two agree, and so they do for the segments of the random sequence.
\<close>

section \<open>The delays of the memory model\<close>

definition get_ra_ready_delay_distribution :: "mem_resp \<Rightarrow> ((int \<times> int) \<times> nat) list" where
  "get_ra_ready_delay_distribution m = ra_ready_delay m"

definition get_rd_valid_delay_distribution :: "mem_resp \<Rightarrow> ((int \<times> int) \<times> nat) list" where
  "get_rd_valid_delay_distribution m = rd_valid_delay m"

definition get_wa_ready_delay_distribution :: "mem_resp \<Rightarrow> ((int \<times> int) \<times> nat) list" where
  "get_wa_ready_delay_distribution m = wa_ready_delay m"

definition get_wd_ready_delay_distribution :: "mem_resp \<Rightarrow> ((int \<times> int) \<times> nat) list" where
  "get_wd_ready_delay_distribution m = wd_ready_delay m"

definition get_wb_valid_delay_distribution :: "mem_resp \<Rightarrow> ((int \<times> int) \<times> nat) list" where
  "get_wb_valid_delay_distribution m = wb_valid_delay m"

text \<open>The bag of the single range 0 to 0.\<close>

definition no_delay :: "((int \<times> int) \<times> nat) list" where
  "no_delay = [((0, 0), 100)]"

text \<open>The preamble of the read sequence: the memory answers at once on all five channels.\<close>

definition read_run_setup :: "mem_resp \<Rightarrow> mem_resp" where
  "read_run_setup m =
     (let ra_delay_distribution = no_delay; rd_delay_distribution = no_delay;
          wa_delay_distribution = no_delay; wb_delay_distribution = no_delay;
          m = set_ra_ready_delay_distribution ra_delay_distribution m;
          m = set_rd_valid_delay_distribution rd_delay_distribution m;
          m = set_wa_ready_delay_distribution wa_delay_distribution m;
          m = set_wd_ready_delay_distribution wa_delay_distribution m
      in set_wb_valid_delay_distribution wb_delay_distribution m)"

text \<open>
  The preamble of the write sequence. It restricts the two generators of the read channels in place,
  through the pointers the getters return; \<open>keep_only\<close> is the operation of the SCV library.
\<close>

definition write_run_setup ::
  "(int \<Rightarrow> ((int \<times> int) \<times> nat) list \<Rightarrow> ((int \<times> int) \<times> nat) list) \<Rightarrow> mem_resp \<Rightarrow> mem_resp" where
  "write_run_setup keep_only m =
     (let wa_delay_distribution = no_delay; wb_delay_distribution = no_delay;
          m = m\<lparr>ra_ready_delay := keep_only 0 (get_ra_ready_delay_distribution m)\<rparr>;
          m = m\<lparr>rd_valid_delay := keep_only 16 (get_rd_valid_delay_distribution m)\<rparr>;
          m = set_wa_ready_delay_distribution wa_delay_distribution m;
          m = set_wd_ready_delay_distribution wa_delay_distribution m
      in set_wb_valid_delay_distribution wb_delay_distribution m)"

section \<open>The error segments of the random sequence\<close>

text \<open>
  With \<^verbatim>\<open>HPDCACHE_TEST_SEQUENCE_ENABLE_ERROR_SEGMENTS\<close>, as the file defines it, and a memory model, the
  first 512 bytes of three of the four segments answer with an error.
\<close>

definition error_segment :: "u64 \<Rightarrow> u64 \<Rightarrow> segment_t" where
  "error_segment b e = \<lparr>base_addr = b, end_addr = e, seg_error = True\<rparr>"

definition random_run_setup :: "mem_resp option \<Rightarrow> mem_resp option" where
  "random_run_setup mem_resp_model =
     (case mem_resp_model of
        None \<Rightarrow> None
      | Some m \<Rightarrow>
          Some (add_error_segment (error_segment 0xC000C000 0xC000C200)
            (add_error_segment (error_segment 0x40004000 0x40004200)
              (add_error_segment (error_segment 0x00000000 0x00000200) m))))"

section \<open>Members of the other sequences\<close>

text \<open>
  The read and the write sequence send for themselves: up to the blocking read of the acknowledgement,
  and from it on, with the delay of the sequence's own generator.
\<close>

definition read_send_write :: "nat \<Rightarrow> test_sequence \<Rightarrow> test_sequence" where
  "read_send_write t s = s\<lparr>transaction_fifo_o := transaction_fifo_o s @ [Some t]\<rparr>"

definition read_send_ack :: "nat \<Rightarrow> int \<Rightarrow> test_sequence \<Rightarrow> test_sequence option" where
  "read_send_ack t delay s =
     (case transaction_ret_i s of
        [] \<Rightarrow> None
      | _ # rs \<Rightarrow>
          Some (s\<lparr>transaction_ret_i := rs, seq_pool := sequence_release t (seq_pool s), waits := waits s + nat delay\<rparr>))"

definition write_send_write :: "nat \<Rightarrow> test_sequence \<Rightarrow> test_sequence" where
  "write_send_write t s = s\<lparr>transaction_fifo_o := transaction_fifo_o s @ [Some t]\<rparr>"

definition write_send_ack :: "nat \<Rightarrow> int \<Rightarrow> test_sequence \<Rightarrow> test_sequence option" where
  "write_send_ack t delay s =
     (case transaction_ret_i s of
        [] \<Rightarrow> None
      | _ # rs \<Rightarrow>
          Some (s\<lparr>transaction_ret_i := rs, seq_pool := sequence_release t (seq_pool s), waits := waits s + nat delay\<rparr>))"

text \<open>The draws of data, and what the unique-set sequence repeats.\<close>

definition create_random_data :: "draws \<Rightarrow> u64" where
  "create_random_data dr = d_data dr"

definition unique_set_random_data :: "draws \<Rightarrow> u64" where
  "unique_set_random_data dr = d_data dr"

definition write_random_data :: "draws \<Rightarrow> u64" where
  "write_random_data dr = d_data dr"

definition unique_set_random_size :: "draws \<Rightarrow> bool \<Rightarrow> nat" where
  "unique_set_random_size dr amo = (let ret = d_size dr in if amo then (if ret \<ge> 3 then 3 else 2) else ret)"

definition unique_set_sc_fields :: "u64 \<Rightarrow> bool \<Rightarrow> draws \<Rightarrow> tid_bv \<Rightarrow> hpdcache_test_transaction_req" where
  "unique_set_sc_fields addr uncacheable dr tid =
     (let sz = unique_set_random_size dr True;
          bytes = bytes_of_size sz;
          address = align_address addr bytes
      in transaction_req_new\<lparr>req_op := op_bits HPDCACHE_REQ_AMO_SC, req_wdata := unique_set_random_data dr, req_sid := 0,
           req_tid := tid, req_addr := ucast address, req_be := address_be address bytes, req_size := of_nat sz,
           req_uncacheable := uncacheable, req_need_rsp := True\<rparr>)"


text \<open>The members repeated are those of the random sequence.\<close>

lemma unique_set_members:
  "unique_set_random_data = create_random_data" "unique_set_random_size = create_random_size"
  "unique_set_sc_fields = sc_fields"
  by (simp_all add: fun_eq_iff unique_set_random_data_def create_random_data_def unique_set_random_size_def
      create_random_size_def unique_set_sc_fields_def sc_fields_def Let_def)

section \<open>Errors on the two sides\<close>

text \<open>A segment of whole cache lines, and the transfers that serve a request: inside its line.\<close>

definition whole_lines :: "segment_t \<Rightarrow> bool" where
  "whole_lines s \<longleftrightarrow> 64 dvd unat (base_addr s) \<and> 64 dvd unat (end_addr s)"

definition serves :: "'a hpdcache_test_transaction_mem_req_scheme \<Rightarrow> hpdcache_test_transaction_req \<Rightarrow> bool" where
  "serves r t \<longleftrightarrow> unat (mreq_addr r) div 64 = unat (req_addr t) div 64 \<and> unat (mreq_addr r) mod 64 + req_bytes r \<le> 64"

text \<open>Inside a line, an interval meets such a segment exactly when the line lies in it.\<close>

lemma within_region_line:
  assumes "64 dvd unat b0" "64 dvd unat e0" and "64 * l \<le> unat b" "unat b < unat e" "unat e \<le> 64 * l + 64"
  shows "within_region b0 e0 b e \<longleftrightarrow> unat b0 \<le> 64 * l \<and> 64 * l < unat e0"
proof -
  obtain i j where ij: "unat b0 = 64 * i" "unat e0 = 64 * j" using assms(1,2) by (auto elim!: dvdE)
  have "within_region b0 e0 b e \<longleftrightarrow> unat b < 64 * j \<and> 64 * i < unat e"
    unfolding within_region_def word_le_nat_alt ij by auto
  also have "\<dots> \<longleftrightarrow> i \<le> l \<and> l < j" using assms(3-5) by linarith
  finally show ?thesis by (simp add: ij)
qed

lemma within_error_line:
  assumes "\<forall>s \<in> set ss. whole_lines s" and "64 * l \<le> unat b" "unat b < unat e" "unat e \<le> 64 * l + 64"
    and "64 * l \<le> unat b'" "unat b' < unat e'" "unat e' \<le> 64 * l + 64"
  shows "within_error_region ss b e = within_error_region ss b' e'"
  using assms(1)
  by (induction ss) (simp_all add: whole_lines_def within_region_line [OF _ _ assms(2-4)] within_region_line [OF _ _ assms(5-7)])

lemma unat_add_small: "unat (a :: u64) + n < 0x10000000000000000 \<Longrightarrow> unat (a + of_nat n) = unat a + n"
  by (simp add: unat_word_ariths unat_of_nat)

lemma serves_interval:
  assumes "serves r t"
  shows "64 * (unat (req_addr t) div 64) \<le> unat (mreq_addr r)"
    "unat (mreq_addr r) < unat (mreq_addr r + of_nat (req_bytes r))"
    "unat (mreq_addr r + of_nat (req_bytes r)) \<le> 64 * (unat (req_addr t) div 64) + 64"
proof -
  let ?a = "unat (mreq_addr r)" and ?l = "unat (req_addr t) div 64"
  have a: "?a = 64 * ?l + ?a mod 64" "?a mod 64 + req_bytes r \<le> 64" "0 < req_bytes r"
    using assms mult_div_mod_eq [of 64 ?a] by (simp_all add: serves_def req_bytes_def)
  have "unat (req_addr t) < 0x2000000000000" using unat_less_exp [of "req_addr t"] by simp
  then have "?l < 0x2000000000000" using div_le_dividend [of "unat (req_addr t)" 64] by linarith
  then have "?a + req_bytes r < 0x10000000000000000" using a by linarith
  from unat_add_small [OF this] a show "64 * ?l \<le> ?a" "?a < unat (mreq_addr r + of_nat (req_bytes r))"
    "unat (mreq_addr r + of_nat (req_bytes r)) \<le> 64 * ?l + 64" by linarith+
qed

lemma req_interval:
  assumes "req_wf t"
  defines "b \<equiv> ucast (req_addr t) :: u64" and "e \<equiv> ucast (req_addr t) + ucast (push_bit (unat (req_size t)) 1 :: u8) :: u64"
  shows "64 * (unat (req_addr t) div 64) \<le> unat b" "unat b < unat e" "unat e \<le> 64 * (unat (req_addr t) div 64) + 64"
proof -
  let ?n = "2 ^ unat (req_size t) :: nat" and ?a = "unat (req_addr t)"
  have n: "unat (req_size t) \<le> 3" "?n dvd ?a" using assms(1) by (auto simp: req_wf_def Let_def split: if_splits)
  then consider "unat (req_size t) = 0" | "unat (req_size t) = 1" | "unat (req_size t) = 2" | "unat (req_size t) = 3" by linarith
  then have f: "unat (ucast (push_bit (unat (req_size t)) 1 :: u8) :: u64) = ?n \<and> 0 < ?n \<and> ?a + ?n \<le> 64 * (?a div 64) + 64"
    using n(2) by cases (simp_all, presburger+)
  moreover have "?a < 0x2000000000000" using unat_less_exp [of "req_addr t"] by simp
  moreover have "unat b = ?a" by (simp add: b_def)
  moreover have "64 * (?a div 64) \<le> ?a" by simp
  ultimately have "unat b + ?n < 0x10000000000000000" by linarith
  from unat_add_small [OF this] f have "unat e = ?a + ?n"
    by (metis \<open>unat b = ?a\<close> b_def e_def of_nat_unat ucast_id)
  with f show "64 * (unat (req_addr t) div 64) \<le> unat b" "unat b < unat e" "unat e \<le> 64 * (unat (req_addr t) div 64) + 64"
    by (simp_all add: b_def)
qed


text \<open>What a write answers.\<close>

lemma write_error_flag:
  "writeOperation rand w m = Some res \<Longrightarrow>
   wresp_error (wr_write_resp res) =
     (if within_error_region (errorsegs m) (mreq_addr w) (mreq_addr w + of_nat (req_bytes w)) then 1 else 0)"
  by (auto simp: writeOperation_def write_error_result_def Let_def split: if_splits option.splits prod.splits)

text \<open>For segments of whole lines, the address of the request decides for every transfer that serves it.\<close>

lemma errors_agree:
  assumes "req_wf t" and "serves r t" and "\<forall>sg \<in> set ss. whole_lines sg"
  shows "within_error_region ss (mreq_addr r) (mreq_addr r + of_nat (req_bytes r)) = req_in_error (Some ss) t"
  unfolding req_in_error_def option.case
  by (rule within_error_line [OF assms(3) serves_interval [OF assms(2)] req_interval [OF assms(1)]])

definition random_error_part :: "nat \<Rightarrow> bool" where
  "random_error_part a \<longleftrightarrow>
     a < 0x200 \<or> (0x40004000 \<le> a \<and> a < 0x40004200) \<or> (0xC000C000 \<le> a \<and> a < 0xC000C200)"

lemma random_error_segments:
  assumes "random_run_setup (Some (mem_resp_new junk)) = Some m"
  shows "errorsegs m = [error_segment 0 0x200, error_segment 0x40004000 0x40004200, error_segment 0xC000C000 0xC000C200]"
  using assms by (auto simp: random_run_setup_def add_error_segment_def mem_resp_new_def)

lemma random_error_decided:
  assumes "req_wf t"
  shows "req_in_error (Some [error_segment 0 0x200, error_segment 0x40004000 0x40004200, error_segment 0xC000C000 0xC000C200]) t
    \<longleftrightarrow> random_error_part (unat (req_addr t))"
proof -
  let ?b = "ucast (req_addr t) :: u64" and ?e = "ucast (req_addr t) + ucast (push_bit (unat (req_size t)) 1 :: u8) :: u64"
  have d: "64 * i \<le> 64 * (a div 64) \<and> 64 * (a div 64) < 64 * j \<longleftrightarrow> 64 * i \<le> a \<and> a < 64 * j" for a i j :: nat
    by (simp add: less_eq_div_iff_mult_less_eq div_less_iff_less_mult mult.commute)
  have w: "within_region x y ?b ?e \<longleftrightarrow> 64 * i \<le> unat (req_addr t) \<and> unat (req_addr t) < 64 * j"
    if "unat x = 64 * i" "unat y = 64 * j" for x y i j
    using within_region_line [OF _ _ req_interval [OF assms], of x y] unfolding that d by simp
  have "within_region 0 0x200 ?b ?e \<longleftrightarrow> unat (req_addr t) < 0x200"
    "within_region 0x40004000 0x40004200 ?b ?e \<longleftrightarrow> 0x40004000 \<le> unat (req_addr t) \<and> unat (req_addr t) < 0x40004200"
    "within_region 0xC000C000 0xC000C200 ?b ?e \<longleftrightarrow> 0xC000C000 \<le> unat (req_addr t) \<and> unat (req_addr t) < 0xC000C200"
    using w [where x = "0" and i = "0" and y = "0x200" and j = "8"]
      w [where x = "0x40004000" and i = "0x1000100" and y = "0x40004200" and j = "0x1000108"]
      w [where x = "0xC000C000" and i = "0x3000300" and y = "0xC000C200" and j = "0x3000308"]
    by simp_all
  then show ?thesis
    unfolding req_in_error_def option.case within_error_region.simps error_segment_def segment_t.simps random_error_part_def
    by metis
qed

section \<open>Properties\<close>

text \<open>
  C22. In the random sequence both sides agree on errors: whatever the memory threads have done since the
  preamble installed the segments, a well-formed request lies in the first 512 bytes of the first, the
  second or the fourth segment exactly when every read transfer inside its cache line is answered with
  errors, exactly when every write transfer there is acknowledged with an error, and exactly when the
  scoreboard expects an error of it, cache maintenance other than a prefetch excepted.
\<close>

theorem random_errors_agree:
  assumes "random_run_setup (Some (mem_resp_new junk)) = Some m" and "mem_reach rand m s"
    and "req_wf t" and "serves r t" and "serves w t"
  shows "(read_in_error (sys s) r \<longleftrightarrow> random_error_part (unat (req_addr t))) \<and>
    (\<forall>res. writeOperation rand w (sys s) = Some res \<longrightarrow>
       (wresp_error (wr_write_resp res) = 1 \<longleftrightarrow> random_error_part (unat (req_addr t)))) \<and>
    (e_is_error (check_error_segments (Some (errorsegs (sys s))) t (core_entry entry t now)) \<longleftrightarrow>
       (is_cmo t \<longrightarrow> is_cmo_prefetch t) \<and> random_error_part (unat (req_addr t)))"
proof -
  let ?ss = "[error_segment 0 0x200, error_segment 0x40004000 0x40004200, error_segment 0xC000C000 0xC000C200]"
  have ss: "errorsegs (sys s) = ?ss" using mem_reach_errorsegs [OF assms(2)] random_error_segments [OF assms(1)] by simp
  have wl: "\<forall>sg \<in> set ?ss. whole_lines sg" by (simp add: whole_lines_def error_segment_def)
  note agree = errors_agree [OF assms(3) _ wl, unfolded random_error_decided [OF assms(3)]]
  have "e_is_error (check_error_segments (Some ?ss) t (core_entry entry t now)) \<longleftrightarrow>
      (is_cmo t \<longrightarrow> is_cmo_prefetch t) \<and> req_in_error (Some ?ss) t"
    by (auto simp: check_error_segments_def req_in_error_def core_entry_def Let_def)
  then show ?thesis
    using agree [OF assms(4)] agree [OF assms(5)] write_error_flag [of rand w "sys s"]
    unfolding ss random_error_decided [OF assms(3)] by (simp add: read_in_error_def ss)
qed


definition load_err_w :: hpdcache_test_transaction_req where
  "load_err_w = transaction_req_new\<lparr>req_addr := 0x40004008, req_be := 0xff, req_size := 3, req_need_rsp := True\<rparr>"

lemma load_err_w_wf: "req_wf load_err_w"
proof -
  have "\<not> is_cmo load_err_w" "\<not> req_is_amo load_err_w"
    by (simp_all add: load_err_w_def transaction_req_new_def is_cmo_def req_is_amo_def is_amo_def is_amo_sc_def is_amo_lr_def has_op_def)
  moreover have "bit (0xff :: u8) i" if "i < 8" for i
    using that bit_0xff [where 'a = 8, of i] by simp
  ultimately show ?thesis by (auto simp: req_wf_def Let_def) (simp_all add: load_err_w_def transaction_req_new_def)
qed

definition line_read_w :: hpdcache_test_transaction_mem_req where
  "line_read_w = mem_req_new\<lparr>mreq_addr := 0x40004000, mreq_size := 6\<rparr>"

definition word_write_w :: hpdcache_test_transaction_mem_write_req where
  "word_write_w = mem_write_req_new\<lparr>mreq_addr := 0x40004008, mreq_size := 3\<rparr>"

theorem random_errors_agree_witness:
  "\<exists>m. random_run_setup (Some (mem_resp_new (\<lambda>_. \<lparr>excl_valid = False, excl_base_addr = 0, excl_end_addr = 0\<rparr>))) = Some m \<and>
     read_in_error m line_read_w \<and> random_error_part 0x40004008"
proof -
  obtain m where m: "random_run_setup (Some (mem_resp_new (\<lambda>_. \<lparr>excl_valid = False, excl_base_addr = 0, excl_end_addr = 0\<rparr>))) = Some m"
    by (auto simp: random_run_setup_def)
  have t: "req_wf load_err_w" "serves line_read_w load_err_w" "serves word_write_w load_err_w"
    by (fact load_err_w_wf, simp_all add: serves_def req_bytes_def load_err_w_def line_read_w_def word_write_w_def
        mem_req_new_def mem_write_req_new_def transaction_req_new_def)
  have a: "unat (req_addr load_err_w) = 0x40004008" by (simp add: load_err_w_def)
  have "read_in_error (sys (mem_sys_new m)) line_read_w"
    using random_errors_agree [OF m mem_reach.init t] unfolding a by (simp add: random_error_part_def)
  with m show ?thesis by (simp add: mem_sys_new_def random_error_part_def)
qed

end
