(* ===== verification/Scoreboard_Props.thy ===== *)
theory Scoreboard_Props
  imports Scoreboard_Exec
begin

text \<open>
  What the scoreboard guarantees: responses and requests balance, the error limit is exact, what the
  scoreboard knows of the memory is not overwritten by refills, a load after a store is checked against
  the stored bytes, atomics update the memory as RISC-V prescribes, reservations follow an abstract
  specification, and well-formed traffic never leads the core handlers into undefined behaviour.
\<close>

section \<open>Reservations\<close>

text \<open>
  The specification: at most one doubleword is reserved; a load-reserved reserves its doubleword (or
  drops the reservation when it is in error), a store-conditional drops it, a store or an AMO drops it
  when it accesses that doubleword.
\<close>

definition rsv_abs :: "lrsc_reservation_buf_t \<Rightarrow> nat option" where
  "rsv_abs b = (if rsv_valid b then Some (unat (rsv_base_addr b) div 8) else None)"

definition rsv_spec :: "segment_t list option \<Rightarrow> hpdcache_test_transaction_req \<Rightarrow> nat option \<Rightarrow> nat option" where
  "rsv_spec segs req r =
     (if is_amo_lr req then (if req_in_error segs req then None else Some (unat (req_addr req) div 8))
      else if is_amo_sc req then None
      else if (is_store req \<or> is_amo req) \<and> r = Some (unat (req_addr req) div 8) then None
      else r)"

lemma unat_get_nline: "unat (get_nline a) = unat a div 64"
  by (simp add: get_nline_def unat_drop_bit)

lemma unat_get_offset_word: "unat (drop_bit 3 (get_offset a)) = unat a mod 64 div 8"
proof -
  have "get_offset a = take_bit 6 a" by (simp add: get_offset_def take_bit_eq_mask mask_eq_exp_minus_1)
  then show ?thesis by (simp add: unat_drop_bit unat_take_bit)
qed

lemma word_split: "(a :: nat) div 8 = b div 8 \<longleftrightarrow> a div 64 = b div 64 \<and> a mod 64 div 8 = b mod 64 div 8"
proof -
  have "n div 64 = n div 8 div 8" "n mod 64 div 8 = n div 8 mod 8" for n :: nat
    using div_exp_mod_exp_eq [of n 3 3] by (simp_all flip: div_mult2_eq)
  then show ?thesis by (metis div_mult_mod_eq)
qed

lemma addr_match_word:
  assumes "unat (e_bytes e) \<le> 8"
  shows "addr_match e b \<longleftrightarrow> rsv_abs b = Some (unat (e_addr e) div 8)"
proof -
  let ?x = "drop_bit 3 (get_offset (rsv_base_addr b))" and ?y = "drop_bit 3 (get_offset (e_addr e))"
  have one: "(if e_bytes e < 8 then 1 else ucast (drop_bit 3 (e_bytes e))) = (1 :: u64)"
  proof (cases "e_bytes e < 8")
    case False
    then have "e_bytes e = 8" using assms by (simp add: word_less_nat_alt word_unat_eq_iff)
    then show ?thesis by simp
  qed simp
  have "unat (?y + 1) = unat ?y + 1"
    by (subst unat_word_ariths) (simp add: unat_get_offset_word)
  then have "?x \<ge> ?y \<and> ?x < ?y + 1 \<longleftrightarrow> unat ?x = unat ?y" by (auto simp: word_le_nat_alt word_less_nat_alt)
  then show ?thesis
    unfolding addr_match_def Let_def one
    by (auto simp: rsv_abs_def word_split [of "unat (rsv_base_addr b)" "unat (e_addr e)"] unat_get_offset_word
        word_unat_eq_iff unat_get_nline)
qed

lemma rsv_abs_simps [simp]:
  "rsv_abs (b\<lparr>rsv_valid := False\<rparr>) = None"
  "rsv_abs (b\<lparr>rsv_valid := True, rsv_base_addr := a, rsv_end_addr := a', rsv_is_atomic := c\<rparr>) = Some (unat a div 8)"
  by (simp_all add: rsv_abs_def)

lemma lr_exclusive: "is_amo_lr req \<Longrightarrow> \<not> is_load req \<and> \<not> is_amo req \<and> \<not> is_amo_sc req \<and> \<not> is_store req \<and> \<not> is_cmo req"
  by (simp add: is_amo_sc_def is_load_def is_amo_def is_amo_lr_def is_store_def is_cmo_def has_op_def)

lemma amo_exclusive: "is_amo req \<Longrightarrow> \<not> is_load req \<and> \<not> is_amo_lr req \<and> \<not> is_amo_sc req \<and> \<not> is_store req \<and> \<not> is_cmo req"
  by (auto simp: is_amo_sc_def is_load_def is_amo_def is_amo_lr_def is_store_def is_cmo_def has_op_def)

lemma unat_req_addr [simp]: "unat (ucast (req_addr req) :: u64) = unat (req_addr req)"
  by (rule unat_u64_of_49)

lemma reservation_step:
  assumes "e_addr e = ucast (req_addr req)" "unat (e_bytes e) \<le> 8"
    and "is_amo_lr req \<Longrightarrow> e_is_error e = req_in_error segs req"
    and "invalidate_reservation req e (make_reservation req e b) = (e', b')"
  shows "rsv_abs b' = rsv_spec segs req (rsv_abs b)"
    and "is_amo_sc req \<Longrightarrow> e_is_atomic e' \<longleftrightarrow> rsv_abs b = Some (unat (req_addr req) div 8)"
proof -
  have m: "addr_match e c \<longleftrightarrow> rsv_abs c = Some (unat (req_addr req) div 8)" for c
    using addr_match_word [OF assms(2)] assms(1) by simp
  show "rsv_abs b' = rsv_spec segs req (rsv_abs b)"
  proof (cases "is_amo_lr req")
    case True
    with assms(1,3,4) lr_exclusive [OF True] show ?thesis
      by (cases "e_is_error e") (auto simp: invalidate_reservation_def make_reservation_def rsv_spec_def)
  next
    case lr: False
    then have mk: "make_reservation req e b = b" by (simp add: make_reservation_def)
    show ?thesis
    proof (cases "is_amo_sc req")
      case True
      with lr assms(4) show ?thesis by (auto simp: invalidate_reservation_def mk rsv_spec_def Let_def)
    next
      case False
      with lr assms(4) m [of b] show ?thesis
        by (cases "is_amo req \<or> is_store req") (auto simp: invalidate_reservation_def mk rsv_spec_def Let_def)
    qed
  qed
  show "e_is_atomic e' \<longleftrightarrow> rsv_abs b = Some (unat (req_addr req) div 8)" if "is_amo_sc req"
    using assms(4) that sc_exclusive [OF that] m [of b]
    by (auto simp: invalidate_reservation_def make_reservation_def Let_def split: if_splits)
qed

lemma share_atomic_result:
  assumes "share_atomic req e s = Next t" "smap_ok (inflight_m s)" "smap_find (inflight_m s) (ucast (req_tid req)) = None"
  shows "lrsc_buf_m t = lrsc_buf_m s"
    and "sb_errors t = sb_errors s \<Longrightarrow> req_need_rsp req \<Longrightarrow> smap_find (inflight_m t) (ucast (req_tid req)) = Some e"
proof -
  have go: "lrsc_buf_m t = lrsc_buf_m u \<and>
      (req_need_rsp req \<longrightarrow> smap_find (inflight_m t) (ucast (req_tid req)) = Some e)"
    if "seq_out (record_store req e u) (track_request req e) = Next t" "inflight_m u = inflight_m s" for u
    using that assms(2,3)
    by (cases "req_need_rsp req")
       (auto simp: seq_out_Next_iff record_store_def track_request_def release_id_def split: if_splits option.splits)
  have cases: "(\<exists>u. seq_out (record_store req e u) (track_request req e) = Next t \<and> inflight_m u = inflight_m s \<and>
        lrsc_buf_m u = lrsc_buf_m s) \<or> print_error Amo_fifo_full s = Next t"
  proof (cases "is_amo req \<or> is_amo_lr req \<or> is_amo_sc req \<and> e_is_atomic e")
    case True
    with assms(1) show ?thesis
      by (cases "length (inflight_amo_req_m s) < AMO_FIFO_SIZE")
         (auto simp: share_atomic_def Let_def intro!: exI [of _ "s\<lparr>inflight_amo_req_m := inflight_amo_req_m s @ [e]\<rparr>"])
  next
    case False
    with assms(1) have "seq_out (record_store req e s) (track_request req e) = Next t"
      by (auto simp: share_atomic_def Let_def)
    then show ?thesis by blast
  qed
  have pe: "lrsc_buf_m t = lrsc_buf_m s \<and> sb_errors t \<noteq> sb_errors s" if "print_error Amo_fifo_full s = Next t"
    using that by (auto simp: print_error_def Let_def split: if_splits)
  show "lrsc_buf_m t = lrsc_buf_m s" using cases go pe by metis
  show "smap_find (inflight_m t) (ucast (req_tid req)) = Some e" if "sb_errors t = sb_errors s" "req_need_rsp req"
    using cases go pe that by metis
qed

lemma req_wf_size: "req_wf req \<Longrightarrow> unat (2 ^ unat (req_size req) :: u8) \<le> 8"
proof -
  assume "req_wf req"
  then have "unat (req_size req) \<le> 3" by (auto simp: req_wf_def Let_def split: if_splits)
  then have "(2::nat) ^ unat (req_size req) \<le> 2 ^ 3" by (intro power_increasing) auto
  then show ?thesis by (simp add: unat_size_byte)
qed

section \<open>Atomics\<close>

text \<open>What the table holds for a doubleword AMO, and what its response does to the memory.\<close>

definition amo_entry :: "hpdcache_test_transaction_req \<Rightarrow> inflight_entry_t \<Rightarrow> bool" where
  "amo_entry req e \<longleftrightarrow> e_is_amo e \<and> \<not> e_is_amo_sc e \<and> \<not> e_is_error e \<and> \<not> e_is_write e \<and>
     e_addr e = ucast (req_addr req) \<and> e_bytes e = push_bit (unat (req_size req)) 1 \<and>
     e_wdata e = [req_wdata req] \<and> e_be e = [req_be req] \<and> e_op e = unat (req_op req) \<and>
     (\<exists>rd rv. e_rdata e = [rd] \<and> e_rv e = [rv])"

lemma core_req_amo:
  assumes "sb_wf s" "is_amo req" "req_need_rsp req" "\<not> req_in_error (sb_mem_resp_model s) req"
    and "smap_find (inflight_m s) (ucast (req_tid req)) = None" "length (inflight_amo_req_m s) < AMO_FIFO_SIZE"
  shows "\<exists>t e. core_req_process junk req s = Next t \<and> smap_find (inflight_m t) (ucast (req_tid req)) = Some e \<and>
     amo_entry req e \<and> ram_m t = ram_m s"
proof -
  let ?e = "core_entry junk req (nb_cycles s)"
  have ex: "\<not> is_store req" "\<not> is_load req" "\<not> is_amo_lr req" "\<not> is_amo_sc req" "\<not> is_cmo req"
    using amo_exclusive [OF assms(2)] by auto
  have er: "check_error_segments (sb_mem_resp_model s) req ?e = ?e\<lparr>e_is_error := False\<rparr>"
    using check_error_segments_data [OF ex(5)] assms(4) by simp
  have ram: "ram_ok (ram_m s)" "ram_N (ram_m s) = SCOREBOARD_RAM_SIZE" "smap_ok (inflight_m s)"
    using assms(1) by (simp_all add: sb_wf_def)
  define e where "e = ?e\<lparr>e_is_error := False\<rparr>"
  obtain rd rv where ed: "expected_data (ram_m s) req e = Some (e\<lparr>e_rdata := rd, e_rv := rv\<rparr>)"
      "length rd = 1" "length rv = 1"
    by (rule expected_data_eq [OF ram(1,2), of req e]) (use assms(2) in \<open>auto simp: e_def\<close>)
  let ?f = "e\<lparr>e_rdata := rd, e_rv := rv\<rparr>"
  have ae: "amo_entry req ?f"
    using ed(2,3) ex assms(2) core_entry_data [of req junk "nb_cycles s"]
    by (auto simp: amo_entry_def e_def length_Suc_conv)
  define b where "b = snd (invalidate_reservation req ?f (lrsc_buf_m s))"
  have iv: "invalidate_reservation req ?f (lrsc_buf_m s) = (?f, b)"
    using ex by (simp add: b_def invalidate_reservation_def Let_def)
  have "core_req_process junk req s =
      Next ((counted req s)\<lparr>lrsc_buf_m := b, inflight_amo_req_m := inflight_amo_req_m s @ [?f],
        inflight_m := smap_insert (ucast (req_tid req)) ?f (inflight_m s)\<rparr>)"
    using assms(2,3,5,6) ex ed iv
    by (simp add: core_req_unfold er e_def [symmetric] make_reservation_def share_atomic_def
        record_store_def track_request_def counted_def)
  with ae assms(5) ram(3) show ?thesis by (auto simp: counted_def)
qed

lemma amo_spec_is_amo: "has_op req op \<Longrightarrow> amo_spec op l (w :: u64) = Some res \<Longrightarrow> is_amo req"
  by (cases op) (simp_all add: is_amo_def)

lemma bit_all_ones: "j < 8 \<Longrightarrow> bit (0xff :: u8) j"
  using bit_0xff [where 'a = 8, of j] by simp

lemma bytes8_be_full: "j < 8 \<Longrightarrow> be_bit [0xff] j"
  using bit_all_ones [of j] by (simp only: be_bit_def div_less nth_Cons_0 mod_less)

lemma core_resp_amo:
  assumes "sb_wf s" "sb_error_limit_m s = 0" "sb_seq s \<noteq> None" "smap_find (inflight_m s) (ucast (rsp_tid resp)) = Some e"
    and "amo_entry req e" "req_size req = 3" "req_be req = 0xff" "8 dvd unat (req_addr req)" "\<not> rsp_error resp"
    and op: "unat (req_op req) = op_code op" "amo_spec op (rsp_rdata resp) (req_wdata req) = Some res"
  shows "\<exists>t. core_resp_process resp s = Next t \<and>
     (\<forall>a. ram_abs (ram_m t) a = (if word_base req \<le> a \<and> a < word_base req + 8
        then Some (byte_of res (a - word_base req)) else ram_abs (ram_m s) a))"
proof -
  let ?s = "s\<lparr>nb_core_resp := nb_core_resp s + 1, nb_cycles_effective := nb_cycles s\<rparr>"
  obtain rd rv where rd: "e_rdata e = [rd]" "e_rv e = [rv]" using assms(5) by (auto simp: amo_entry_def)
  have e: "e_is_amo e" "\<not> e_is_amo_sc e" "\<not> e_is_error e" "\<not> e_is_write e" "e_addr e = ucast (req_addr req)" "e_bytes e = 8"
      "e_wdata e = [req_wdata req]" "e_be e = [0xff]" "e_op e = op_code op"
    using assms(5-7) op(1) by (simp_all add: amo_entry_def)
  have off: "unat (req_addr req) mod 8 = 0" using assms(8) by simp
  obtain ms where chk: "check_data resp e ?s = Next (report ms ?s)"
    using e rd off assms(2) check_bytes_word [of ?s 0 8 "align_to (ucast (req_addr req)) 8" "rsp_rdata resp" rd rv]
    by (simp add: check_data_def resp_words_1)
  have ram: "ram_ok (ram_m (report ms ?s))" "ram_N (ram_m (report ms ?s)) = SCOREBOARD_RAM_SIZE"
    using assms(1) by (simp_all add: sb_wf_def)
  obtain r where r: "ram_write (ram_m s) (bytes8 res) [0xff] 8 (align_to (ucast (req_addr req)) 8) = Some r"
      "ram_abs r = upd_bytes (bytes8 res) [0xff] (word_base req) 0 8 (ram_abs (ram_m s))"
    by (rule word_write [OF ram, of res "0xff" "ucast (req_addr req)"]) (auto simp: word_base_def)
  have "update_amo resp e (report ms ?s) = Next ((report ms ?s)\<lparr>ram_m := r\<rparr>)"
    using e off r(1) op(2) by (simp add: update_amo_def Let_def resp_word_def resp_words_1 compute_amo_double_spec)
  then have "core_resp_process resp s = release_id (ucast (rsp_tid resp))
      ((report ms ?s)\<lparr>ram_m := r, inflight_m := smap_erase (ucast (rsp_tid resp)) (inflight_m s)\<rparr>)"
    using assms(4,9) e chk by (simp add: core_resp_process_def Let_def check_sc_def)
  moreover have "ram_abs r a = (if word_base req \<le> a \<and> a < word_base req + 8
        then Some (byte_of res (a - word_base req)) else ram_abs (ram_m s) a)" for a
    using bytes8_be_full [of "a - word_base req"] by (auto simp: r(2) upd_bytes_def)
  ultimately show ?thesis using assms(3) by (auto simp: release_id_def)
qed

section \<open>Concrete traffic for the witnesses\<close>

definition rsv_w :: lrsc_reservation_buf_t where
  "rsv_w = \<lparr>rsv_valid = False, rsv_base_addr = 0, rsv_end_addr = 0, rsv_is_atomic = False\<rparr>"

definition entry_w :: inflight_entry_t where
  "entry_w = \<lparr>e_time = 0, e_tid = 0, e_addr = 0, e_need_rsp = False, e_hit = False, e_is_read = False,
     e_is_write = False, e_is_amo = False, e_is_amo_sc = False, e_is_amo_lr = False, e_is_atomic = False,
     e_is_error = False, e_op = 0, e_is_uncacheable = False, e_bytes = 0, e_wdata = [], e_be = [],
     e_rdata = [], e_rv = []\<rparr>"

definition store_w :: "tid_bv \<Rightarrow> addr_bv \<Rightarrow> u64 \<Rightarrow> u8 \<Rightarrow> size_bv \<Rightarrow> hpdcache_test_transaction_req" where
  "store_w i a d b z = transaction_req_new\<lparr>req_tid := i, req_op := 1, req_addr := a, req_wdata := d, req_be := b,
     req_size := z, req_need_rsp := True\<rparr>"

definition load_w :: "tid_bv \<Rightarrow> addr_bv \<Rightarrow> size_bv \<Rightarrow> hpdcache_test_transaction_req" where
  "load_w i a z = transaction_req_new\<lparr>req_tid := i, req_op := 0, req_addr := a, req_size := z, req_need_rsp := True\<rparr>"

definition mem_read_w :: "u64 \<Rightarrow> u32 \<Rightarrow> hpdcache_test_transaction_mem_req" where
  "mem_read_w a z = mem_req_new\<lparr>mreq_addr := a, mreq_size := z\<rparr>"

lemma store_w_classes [simp]:
  "is_store (store_w i a d b z)" "\<not> is_load (store_w i a d b z)" "\<not> is_amo (store_w i a d b z)"
  "\<not> is_amo_sc (store_w i a d b z)" "\<not> is_amo_lr (store_w i a d b z)" "\<not> is_cmo (store_w i a d b z)"
  by (simp_all add: store_w_def transaction_req_new_def is_store_def is_load_def is_amo_def is_amo_sc_def
      is_amo_lr_def is_cmo_def has_op_def)

section \<open>Properties of runs\<close>

text \<open>
  C6. Requests and responses balance: after any sequence of events in any order in which no error was
  found, the responses still owed are exactly the entries of the table of requests in flight; so when
  the scoreboard signals that nothing is in flight, as many responses were received as requests need
  one, and the final check on their numbers passes.
\<close>

theorem responses_balance:
  assumes "sb_run (vs @ [Clk_neg]) (sb_start junk ids segs limit) = Next s" and "sb_errors s = []"
  shows "nb_core_req_need_rsp s = nb_core_resp s + of_nat (length (inflight_m s)) \<and>
         (no_inflight_requests_o s \<longrightarrow> nb_core_resp s = nb_core_req_need_rsp s)"
proof -
  have bal: "balanced s" using sb_run_Next_inv [OF assms(1)] by (simp add: sb_inv_def)
  obtain t where "s = check_inflight_requests t"
    using assms(1) by (auto simp: sb_run_append seq_out_Next_iff)
  then have "no_inflight_requests_o s \<longrightarrow> inflight_m s = []" by (auto simp: check_inflight_requests_def)
  with bal assms(2) show ?thesis by (auto simp: balanced_def)
qed

text \<open>
  C19. The error limit is exact: a run that goes on has counted every message it printed and, when a
  limit is set, has printed fewer than the limit; a run that ends through the limit has counted and
  printed exactly as many errors as the limit says; a run that ends at a failed assertion is still
  below the limit; with no limit set no number of errors ends it.
\<close>

theorem error_limit_exact:
  assumes "unat limit = n"
  shows "case sb_run vs (sb_start junk ids segs limit) of
           Next s \<Rightarrow> nb_error s = of_nat (length (sb_errors s)) \<and> (0 < n \<longrightarrow> length (sb_errors s) < n)
         | Exit c s \<Rightarrow> nb_error s = of_nat (length (sb_errors s)) \<and>
             (if c = 134 then 0 < n \<longrightarrow> length (sb_errors s) < n else c = 1 \<and> 0 < n \<and> length (sb_errors s) = n)
         | Undefined \<Rightarrow> True"
proof -
  let ?r = "sb_run vs (sb_start junk ids segs limit)"
  have inv: "out_all sb_inv sb_exit ?r" by (rule sb_run_inv [OF sb_start_inv])
  have lim: "setup_out limit (Some segs) ?r" by (rule setup_out_run) (simp add: sb_start_defs)
  show ?thesis
  proof (cases ?r)
    case (Next s)
    with inv lim assms show ?thesis by (auto simp: sb_inv_def sb_wf_def word_less_nat_alt)
  next
    case (Exit c s)
    with inv lim assms show ?thesis by (auto simp: sb_exit_def word_less_nat_alt)
  qed simp
qed

theorem error_limit_exact_witness:
  "\<exists>s. sb_run [Core_resp transaction_resp_new, Core_resp transaction_resp_new] (sb_start rsv_w [] [] 2) = Exit 1 s \<and>
     length (sb_errors s) = 2 \<and> nb_error s = 2"
proof -
  let ?vs = "[Core_resp transaction_resp_new, Core_resp transaction_resp_new]"
  have "\<exists>s. sb_run ?vs (sb_start rsv_w [] [] 2) = Exit 1 s"
    by (simp add: core_resp_process_def Let_def sb_start_defs print_error_def)
  then obtain s where s: "sb_run ?vs (sb_start rsv_w [] [] 2) = Exit 1 s" by blast
  from error_limit_exact [of 2 2 ?vs rsv_w "[]" "[]"] have "length (sb_errors s) = 2 \<and> nb_error s = of_nat (length (sb_errors s))"
    unfolding s by simp
  with s show ?thesis by simp
qed

text \<open>
  C5. The scoreboard judges a load by the last store: from any state a run without error limit can
  reach, a store and then a load of bytes the store wrote, both outside the error segments, followed
  by the response of the load, print exactly one error for each byte of the response that differs
  from the byte stored, in order, and none when they agree; the load leaves the table.
\<close>

theorem store_then_load_checked:
  assumes run: "sb_run vs (sb_start junk ids segs 0) = Next s"
    and st: "is_store st" "\<not> req_in_error (Some segs) st" "smap_find (inflight_m s) (ucast (req_tid st)) = None"
    and ld: "is_load ld" "req_need_rsp ld" "\<not> req_in_error (Some segs) ld"
      "smap_find (inflight_m s) (ucast (req_tid ld)) = None" "req_tid ld \<noteq> req_tid st"
    and same: "unat (req_addr ld) div 8 = unat (req_addr st) div 8"
      "unat (req_addr ld) mod 8 + 2 ^ unat (req_size ld) \<le> 8"
      "\<And>j. j \<in> set (access_bytes ld) \<Longrightarrow> bit (req_be st) j"
    and resp: "rsp_tid resp = req_tid ld" "\<not> rsp_error resp"
  shows "\<exists>t. sb_run [Core_req j1 st, Core_req j2 ld, Core_resp resp] s = Next t \<and>
     smap_find (inflight_m t) (ucast (req_tid ld)) = None \<and>
     sb_errors t = sb_errors s @ map (\<lambda>j. Wrong_data (align_to (ucast (req_addr ld)) 8 + of_nat j)
        (byte_of (rsp_rdata resp) j) (byte_of (req_wdata st) j))
        (filter (\<lambda>j. byte_of (rsp_rdata resp) j \<noteq> byte_of (req_wdata st) j) (access_bytes ld))"
proof -
  have set0: "setup_is 0 (Some segs) s"
    using setup_out_run [of 0 "Some segs" "sb_start junk ids segs 0" vs] run by (simp add: sb_start_defs)
  have inv: "sb_inv s" by (rule sb_run_Next_inv [OF run])
  obtain t where t: "core_req_process j1 st s = Next t" "sb_errors t = sb_errors s"
      "ram_abs (ram_m t) = upd_bytes (bytes8 (req_wdata st)) [req_be st] (word_base st) 0 8 (ram_abs (ram_m s))"
      "\<forall>k. k \<noteq> ucast (req_tid st) \<longrightarrow> smap_find (inflight_m t) k = smap_find (inflight_m s) k"
    using core_req_store [OF sb_inv_wf [OF inv], of st j1] st set0 by auto
  have t2: "sb_inv t" "setup_is 0 (Some segs) t"
    using core_req_inv [OF inv, of j1 st] setup_out_core_req [OF set0, of j1 st] t(1) by auto
  have ne: "(ucast (req_tid ld) :: u32) \<noteq> ucast (req_tid st)"
    using ld(5) by (metis ucast_up_inj_tid)
  obtain u e where u: "core_req_process j2 ld t = Next u" "sb_errors u = sb_errors t"
      "smap_find (inflight_m u) (ucast (req_tid ld)) = Some e" "load_entry ld (ram_m t) e"
    using core_req_load [OF sb_inv_wf [OF t2(1)], of ld j2] ld t2(2) t(4) ne by auto
  have u2: "setup_is 0 (Some segs) u" using setup_out_core_req [OF t2(2), of j2 ld] u(1) by simp
  have base: "word_base ld = word_base st"
    using same(1) unat_align_to [of 8] by (simp add: word_base_def)
  have known: "ram_abs (ram_m t) (word_base ld + j) = Some (byte_of (req_wdata st) j)" if "j \<in> set (access_bytes ld)" for j
  proof -
    have "j < 8" using that same(2) by (auto simp: access_bytes_def)
    with same(3) [OF that] show ?thesis by (simp add: t(3) base upd_bytes_def be_bit_def)
  qed
  obtain v where "core_resp_process resp u = Next v" "smap_find (inflight_m v) (ucast (rsp_tid resp)) = None"
     "sb_errors v = sb_errors u @ map (\<lambda>j. Wrong_data (align_to (ucast (req_addr ld)) 8 + of_nat j)
        (byte_of (rsp_rdata resp) j) (byte_of (req_wdata st) j))
        (filter (\<lambda>j. byte_of (rsp_rdata resp) j \<noteq> byte_of (req_wdata st) j) (access_bytes ld))"
    using core_resp_load [OF _ _ _ u(4) resp(2) same(2) known, of u] u2 u(3) resp(1) by auto
  with t u resp(1) show ?thesis by simp
qed

text \<open>
  C8. Well-formed traffic is handled without undefined behaviour, refills apart: when every core
  request is well formed (as those of the sequences are) and every size fits its shift, a run that
  becomes undefined does so at an error-free response of the memory to a recorded request, whose
  update of the scoreboard memory is itself undefined. No store, load, atomic, response, error or
  cache operation, in any order, makes it so.
\<close>

theorem undefined_only_in_refill:
  assumes "\<And>v. v \<in> set vs \<Longrightarrow> event_ok v" and "sb_run vs (sb_start junk ids segs limit) = Undefined"
  shows "\<exists>us resp ws s e. vs = us @ Mem_read_resp resp # ws \<and> sb_run us (sb_start junk ids segs limit) = Next s \<and>
     rresp_error resp = 0 \<and> smap_find (inflight_mem_read_m s) (ucast (rresp_id resp)) = Some e \<and>
     refill resp e (ram_m s) = None"
proof -
  have "sb_safe (sb_start junk ids segs limit)"
    using sb_start_inv [of junk ids segs limit] by (simp add: sb_safe_def sb_start_defs fits_table_def)
  from sb_run_defined [OF this _ assms(2)] assms(1) show ?thesis unfolding bad_refill_def by blast
qed

text \<open>
  C7. The reservation buffer implements the specification of LR/SC: from any state a run can reach, a
  well-formed request with a fresh identifier moves the reservation as specified (one reserved
  doubleword; LR sets it or, in an error segment, drops it; SC drops it; a store or AMO to the same
  doubleword drops it; anything else keeps it), and an accepted SC is expected to be able to succeed
  exactly when its doubleword was the reserved one.
\<close>

theorem reservation_refines:
  assumes "sb_run vs (sb_start junk ids segs limit) = Next s" and "req_wf req"
    and "smap_find (inflight_m s) (ucast (req_tid req)) = None" and "core_req_process junk' req s = Next t"
  shows "rsv_abs (lrsc_buf_m t) = rsv_spec (sb_mem_resp_model s) req (rsv_abs (lrsc_buf_m s)) \<and>
     (is_amo_sc req \<and> req_need_rsp req \<and> sb_errors t = sb_errors s \<longrightarrow>
        (\<exists>e. smap_find (inflight_m t) (ucast (req_tid req)) = Some e \<and>
             (e_is_atomic e \<longleftrightarrow> rsv_abs (lrsc_buf_m s) = Some (unat (req_addr req) div 8))))"
proof (cases "is_cmo req \<and> \<not> req_need_rsp req")
  case True
  then have "\<not> is_amo_lr req" "\<not> is_amo_sc req" "\<not> is_store req" "\<not> is_amo req"
    by (auto simp: is_cmo_def is_amo_lr_def is_amo_sc_def is_store_def is_amo_def has_op_def)
  with True assms(3,4) show ?thesis
    by (auto simp: core_req_unfold release_id_def counted_def rsv_spec_def split: option.splits)
next
  case False
  have wf: "sb_wf s" by (rule sb_inv_wf [OF sb_run_Next_inv [OF assms(1)]])
  then have ram: "ram_ok (ram_m s)" "ram_N (ram_m s) = SCOREBOARD_RAM_SIZE" "smap_ok (inflight_m s)"
    by (simp_all add: sb_wf_def)
  let ?e0 = "core_entry junk' req (nb_cycles s)"
  obtain er where er: "check_error_segments (sb_mem_resp_model s) req ?e0 = ?e0\<lparr>e_is_error := er\<rparr>"
    by (rule check_error_segments_eq)
  obtain rd rv where ed: "expected_data (ram_m s) req (?e0\<lparr>e_is_error := er\<rparr>) =
      Some (?e0\<lparr>e_is_error := er, e_rdata := rd, e_rv := rv\<rparr>)"
    by (rule expected_data_eq [OF ram(1,2), of req "?e0\<lparr>e_is_error := er\<rparr>"])
  define e where "e = ?e0\<lparr>e_is_error := er, e_rdata := rd, e_rv := rv\<rparr>"
  obtain e' b' where iv: "invalidate_reservation req e (make_reservation req e (lrsc_buf_m s)) = (e', b')" by force
  have lr: "e_is_error e = req_in_error (sb_mem_resp_model s) req" if "is_amo_lr req"
    using check_error_segments_data [of req "sb_mem_resp_model s" junk' "nb_cycles s"] lr_exclusive [OF that] er
    by (auto simp: e_def dest: arg_cong [of _ _ e_is_error])
  note step = reservation_step [OF _ _ lr iv]
  have fields: "e_addr e = ucast (req_addr req)" "unat (e_bytes e) \<le> 8"
    using req_wf_size [OF assms(2)] by (simp_all add: e_def)
  have sh: "share_atomic req e' ((counted req s)\<lparr>lrsc_buf_m := b'\<rparr>) = Next t"
    using assms(3,4) False iv by (auto simp: core_req_unfold er ed e_def [symmetric])
  from share_atomic_result [OF sh] step [OF fields] ram(3) assms(3) show ?thesis
    by (simp add: counted_def)
qed

text \<open>
  C33. The scoreboard applies AMOs as RISC-V prescribes: from any state a run without error limit can
  reach, a doubleword AMO outside the error segments followed by its response leaves in the memory
  of the scoreboard, at exactly the eight bytes of its doubleword, the result of the operation on the
  value the response carries and the operand of the request.
\<close>

theorem amo_response_updates:
  assumes run: "sb_run vs (sb_start junk ids segs 0) = Next s"
    and req: "has_op req op" "req_need_rsp req" "\<not> req_in_error (Some segs) req" "req_size req = 3" "req_be req = 0xff"
      "8 dvd unat (req_addr req)" "smap_find (inflight_m s) (ucast (req_tid req)) = None"
      "length (inflight_amo_req_m s) < AMO_FIFO_SIZE"
    and resp: "rsp_tid resp = req_tid req" "\<not> rsp_error resp"
    and res: "amo_spec op (rsp_rdata resp) (req_wdata req) = Some res"
  shows "\<exists>t. sb_run [Core_req j1 req, Core_resp resp] s = Next t \<and>
     (\<forall>a. ram_abs (ram_m t) a = (if word_base req \<le> a \<and> a < word_base req + 8
        then Some (byte_of res (a - word_base req)) else ram_abs (ram_m s) a))"
proof -
  have set0: "setup_is 0 (Some segs) s"
    using setup_out_run [of 0 "Some segs" "sb_start junk ids segs 0" vs] run by (simp add: sb_start_defs)
  have inv: "sb_inv s" by (rule sb_run_Next_inv [OF run])
  have amo: "is_amo req" by (rule amo_spec_is_amo [OF req(1) res])
  obtain t e where t: "core_req_process j1 req s = Next t" "smap_find (inflight_m t) (ucast (req_tid req)) = Some e"
      "amo_entry req e" "ram_m t = ram_m s"
    using core_req_amo [OF sb_inv_wf [OF inv] amo, of j1] req set0 by auto
  have t2: "sb_inv t" "setup_is 0 (Some segs) t"
    using core_req_inv [OF inv, of j1 req] setup_out_core_req [OF set0, of j1 req] t(1) by auto
  from core_resp_amo [OF sb_inv_wf [OF t2(1)] _ _ _ t(3) req(4-6) resp(2) _ res] t2(2) t(2) resp(1) req(1) t(4) t(1)
  show ?thesis by (auto simp: has_op_def)
qed

text \<open>
  C20. The memory of the scoreboard is monotone in refills: in any state a run can reach, a response of
  the memory never changes a byte the scoreboard already knows (a byte stored or returned before).
\<close>

theorem refill_keeps_known:
  assumes "sb_run vs (sb_start junk ids segs limit) = Next s" and "mem_read_resp_process resp s = Next t"
    and "ram_abs (ram_m s) a = Some b"
  shows "ram_abs (ram_m t) a = Some b"
proof -
  have ram: "ram_ok (ram_m s)" "ram_N (ram_m s) = SCOREBOARD_RAM_SIZE"
    using sb_run_Next_inv [OF assms(1)] by (simp_all add: sb_inv_def sb_wf_def)
  show ?thesis
    using assms(2,3) refill_ok [OF ram]
    by (auto simp: mem_read_resp_process_def Let_def print_error_def seq_out_Next_iff split: option.splits if_splits)
qed

text \<open>
  C31. What an uncached read teaches the scoreboard: for a transfer of at most a word, outside an error,
  in any state a run can reach, the unknown bytes of the transfer become known with the value of the
  response exactly when the word offset of the address in its 64-byte line equals the number of the
  line modulo 8; with a smaller line number nothing is learnt, and with a larger one the shift is
  undefined. Nothing else changes.
\<close>

theorem uncached_refill_effect:
  assumes "sb_run vs (sb_start junk ids segs limit) = Next s"
    and "smap_find (inflight_mem_read_m s) (ucast (rresp_id resp)) = Some e" "rresp_error resp = 0"
    and "0 < unat (me_bytes e)" "unat (me_addr e) mod 8 + unat (me_bytes e) \<le> 8"
  shows "if unat (me_addr e) mod 64 div 8 < unat (me_addr e) div 64 mod 8
     then mem_read_resp_process resp s = Undefined
     else \<exists>t. mem_read_resp_process resp s = Next t \<and> (\<forall>a. ram_abs (ram_m t) a =
       (case ram_abs (ram_m s) a of
          Some v \<Rightarrow> Some v
        | None \<Rightarrow> if unat (me_addr e) mod 64 div 8 = unat (me_addr e) div 64 mod 8 \<and>
                     line_base (me_addr e) + unat (me_addr e) mod 64 \<le> a \<and>
                     a < line_base (me_addr e) + unat (me_addr e) mod 64 + unat (me_bytes e)
                  then Some (line_bytes resp ! (a - line_base (me_addr e))) else None))"
proof (cases "unat (me_addr e) mod 64 div 8 < unat (me_addr e) div 64 mod 8")
  case True
  have ram: "ram_ok (ram_m s)" "ram_N (ram_m s) = SCOREBOARD_RAM_SIZE"
    using sb_run_Next_inv [OF assms(1)] by (simp_all add: sb_inv_def sb_wf_def)
  have n: "uint (me_bytes e) = int (unat (me_bytes e))" by simp
  have pos: "0 < uint (me_bytes e)" "uint (me_bytes e) \<le> 8"
    unfolding n using assms(4,5) by linarith+
  obtain u where u: "refill_spec (ram_m s) resp e u" using refill_cases [OF ram] by blast
  have "\<not> unat (me_addr e) div 64 mod 8 * 8 \<le> unat (me_addr e) mod 64"
    using True by (simp add: less_eq_div_iff_mult_less_eq [symmetric] not_le)
  with u refill_be_small [OF _ pos, of u] have "refill resp e (ram_m s) = None" by (simp add: refill_spec_def)
  with True assms(2,3) show ?thesis by (simp add: mem_read_resp_process_def Let_def)
next
  case False
  have ram: "ram_ok (ram_m s)" "ram_N (ram_m s) = SCOREBOARD_RAM_SIZE"
    using sb_run_Next_inv [OF assms(1)] by (simp_all add: sb_inv_def sb_wf_def)
  have "unat (me_addr e) mod 64 mod 8 = unat (me_addr e) mod 8" by (rule mod_mod_cancel) simp
  with assms(4,5) False obtain r where "refill resp e (ram_m s) = Some r"
      "\<forall>a. ram_abs r a = (case ram_abs (ram_m s) a of Some v \<Rightarrow> Some v
        | None \<Rightarrow> if unat (me_addr e) mod 64 div 8 = unat (me_addr e) div 64 mod 8 \<and>
                     line_base (me_addr e) + unat (me_addr e) mod 64 \<le> a \<and>
                     a < line_base (me_addr e) + unat (me_addr e) mod 64 + unat (me_bytes e)
                  then Some (line_bytes resp ! (a - line_base (me_addr e))) else None)"
    using refill_small [OF ram assms(4) _ refl refl, of resp] by auto
  with False assms(2,3) show ?thesis by (auto simp: mem_read_resp_process_def Let_def)
qed

text \<open>
  C21. A memory read is attributed to the oldest core request on its cache line: from any state a run
  can reach, an accepted read request enters the table with a pointer to a request in flight on the
  same line that no other request in flight on that line is older than, and with no pointer only when
  no request in flight is on the line.
\<close>

theorem mem_request_origin:
  assumes "sb_run vs (sb_start junk ids segs limit) = Next s" and "mem_read_req_process req s = Next t"
    and "smap_find (inflight_mem_read_m s) (ucast (mreq_id req)) = None"
  shows "\<exists>e. smap_find (inflight_mem_read_m t) (ucast (mreq_id req)) = Some e \<and> me_addr e = mreq_addr req \<and>
     (case me_core_req_ptr e of
        None \<Rightarrow> \<forall>(k, c) \<in> set (inflight_m s). get_nline (e_addr c) \<noteq> get_nline (mreq_addr req)
      | Some k \<Rightarrow> \<exists>c. smap_find (inflight_m s) k = Some c \<and> get_nline (e_addr c) = get_nline (mreq_addr req) \<and>
          (\<forall>(k', c') \<in> set (inflight_m s). get_nline (e_addr c') = get_nline (mreq_addr req) \<longrightarrow> e_time c \<le> e_time c'))"
proof -
  let ?s = "s\<lparr>nb_mem_read_req := nb_mem_read_req s + 1\<rparr>"
  have ok: "smap_ok (inflight_m s)" "smap_ok (inflight_mem_read_m s)"
    using sb_run_Next_inv [OF assms(1)] by (simp_all add: sb_inv_def sb_wf_def)
  obtain e where e: "mem_entry req ?s = Some e"
    using assms(2,3) by (cases "mem_entry req ?s") (auto simp: mem_read_req_process_def Let_def)
  then have ptr: "me_core_req_ptr e = map_option fst (find_core_req (mreq_addr req) (inflight_m s) None)"
      "me_addr e = mreq_addr req"
    by (auto simp: mem_entry_def Let_def split: if_splits option.splits)
  have tab: "inflight_mem_read_m t = smap_insert (ucast (mreq_id req)) e (inflight_mem_read_m s)"
    using assms(2,3) e
    by (auto simp: mem_read_req_process_def Let_def seq_out_Next_iff check_single_atomic_def print_error_def
        split: if_splits list.splits)
  have old: "oldest (mreq_addr req) (set (inflight_m s)) (find_core_req (mreq_addr req) (inflight_m s) None)"
    using find_core_req_oldest [of None "mreq_addr req" "inflight_m s"] by simp
  show ?thesis
  proof (cases "find_core_req (mreq_addr req) (inflight_m s) None")
    case None
    with old ptr tab ok(2) assms(3) show ?thesis by (auto simp: oldest_def)
  next
    case (Some p)
    then have "smap_find (inflight_m s) (fst p) = Some (snd p)"
      using old smap_in_set_find [OF ok(1), of "fst p" "snd p"] by (simp add: oldest_def)
    with Some old ptr tab ok(2) assms(3) show ?thesis by (auto simp: oldest_def)
  qed
qed

text \<open>
  C30. A refill of a whole cache line runs into undefined behaviour: in any state a run can reach, a
  64-byte read request followed by its error-free response shifts a 64-bit one by 64 places.
\<close>

theorem line_refill_undefined:
  assumes "sb_run vs (sb_start junk ids segs limit) = Next s"
    and "smap_find (inflight_mem_read_m s) (ucast (mreq_id req)) = None"
    and "mreq_size req = 6" and "\<not> mem_is_ldex req" and "sb_mem_resp_model s \<noteq> None"
    and "rresp_id resp = mreq_id req" and "rresp_error resp = 0"
  shows "sb_run [Mem_read_req req, Mem_read_resp resp] s = Undefined"
proof -
  have wf: "ram_ok (ram_m s)" "ram_N (ram_m s) = SCOREBOARD_RAM_SIZE" "smap_ok (inflight_mem_read_m s)"
    using sb_run_Next_inv [OF assms(1)] by (simp_all add: sb_inv_def sb_wf_def)
  obtain segs' where segs: "sb_mem_resp_model s = Some segs'" using assms(5) by auto
  obtain e where e: "mem_entry req (s\<lparr>nb_mem_read_req := nb_mem_read_req s + 1\<rparr>) = Some e" "me_bytes e = 64"
    using segs assms(3) by (simp add: mem_entry_def)
  then show ?thesis
    using assms wf refill_64_undefined [OF wf(1,2) e(2)]
    by (simp add: mem_read_req_process_def mem_read_resp_process_def Let_def)
qed


section \<open>Witnesses\<close>

lemma empty_run: "sb_run [] (sb_start rsv_w ids segs 0) = Next (sb_start rsv_w ids segs 0)"
  by simp

theorem line_refill_undefined_witness:
  "sb_run [Mem_read_req (mem_read_w 0x1000 6), Mem_read_resp mem_read_resp_new] (sb_start rsv_w [] [] 0) = Undefined"
  by (rule line_refill_undefined [OF empty_run])
     (simp_all add: sb_start_defs mem_read_w_def mem_req_new_def mem_read_resp_new_def mem_is_ldex_def)

theorem undefined_only_in_refill_witness:
  "\<exists>us resp ws s e. [Mem_read_req (mem_read_w 0x1000 6), Mem_read_resp mem_read_resp_new] = us @ Mem_read_resp resp # ws \<and>
     sb_run us (sb_start rsv_w [] [] 0) = Next s \<and> rresp_error resp = 0 \<and>
     smap_find (inflight_mem_read_m s) (ucast (rresp_id resp)) = Some e \<and> refill resp e (ram_m s) = None"
proof (rule undefined_only_in_refill)
  show "sb_run [Mem_read_req (mem_read_w 0x1000 6), Mem_read_resp mem_read_resp_new] (sb_start rsv_w [] [] 0) = Undefined"
    using refill_64_undefined [where e = "\<lparr>me_addr = 0x1000, me_bytes = 64, me_is_uncacheable = True, me_is_error = False, me_core_req_ptr = None\<rparr>"]
    by (simp add: sb_start_defs mem_read_w_def mem_req_new_def mem_read_resp_new_def mem_is_ldex_def
        mem_read_req_process_def mem_read_resp_process_def mem_entry_def Let_def ram_ok_def ram_init_def)
qed (auto simp: mem_read_w_def mem_req_new_def)

lemma access_bytes_w: "access_bytes (load_w i 0x1004 2) = [4, 5, 6, 7]"
  by (simp add: access_bytes_def load_w_def transaction_req_new_def upt_rec_numeral)

theorem store_then_load_checked_witness:
  "\<exists>t. sb_run [Core_req entry_w (store_w 1 0x1000 0x1122334455667788 0xff 3), Core_req entry_w (load_w 2 0x1004 2),
      Core_resp (transaction_resp_new\<lparr>rsp_tid := 2, rsp_rdata := 0x1122ff4400000000\<rparr>)] (sb_start rsv_w [] [] 0) = Next t \<and>
     sb_errors t = [Wrong_data 0x1005 0xff 0x33]"
proof -
  let ?st = "store_w 1 0x1000 0x1122334455667788 0xff 3" and ?ld = "load_w 2 0x1004 2"
  let ?resp = "transaction_resp_new\<lparr>rsp_tid := 2, rsp_rdata := 0x1122ff4400000000\<rparr>"
  have f: "filter (\<lambda>j. byte_of (rsp_rdata ?resp) j \<noteq> byte_of (req_wdata ?st) j) (access_bytes ?ld) = [5]"
    unfolding access_bytes_w by code_simp
  have b: "byte_of (rsp_rdata ?resp) 5 = 0xff" "byte_of (req_wdata ?st) 5 = 0x33"
    "(align_to (ucast (req_addr ?ld)) 8 :: u64) + of_nat 5 = 0x1005"
    by code_simp+
  have "\<exists>t. sb_run [Core_req entry_w ?st, Core_req entry_w ?ld, Core_resp ?resp] (sb_start rsv_w [] [] 0) = Next t \<and>
     smap_find (inflight_m t) (ucast (req_tid ?ld)) = None \<and>
     sb_errors t = sb_errors (sb_start rsv_w [] [] 0) @ map (\<lambda>j. Wrong_data (align_to (ucast (req_addr ?ld)) 8 + of_nat j)
        (byte_of (rsp_rdata ?resp) j) (byte_of (req_wdata ?st) j))
        (filter (\<lambda>j. byte_of (rsp_rdata ?resp) j \<noteq> byte_of (req_wdata ?st) j) (access_bytes ?ld))"
  proof (rule store_then_load_checked [OF empty_run])
    show "bit (req_be ?st) j" if "j \<in> set (access_bytes ?ld)" for j
      using that unfolding access_bytes_w by (auto simp: store_w_def)
  qed (simp_all add: req_in_error_def load_w_def store_w_def transaction_req_new_def is_load_def has_op_def sb_start_defs
        is_store_def transaction_resp_new_def)
  moreover have "sb_errors (sb_start rsv_w [] [] 0) = []" by (simp add: sb_start_defs)
  ultimately show ?thesis unfolding f list.map b by auto
qed

definition req_w :: "op_bv \<Rightarrow> hpdcache_test_transaction_req" where
  "req_w op = transaction_req_new\<lparr>req_tid := 3, req_op := op, req_addr := 0x40, req_wdata := 5, req_be := 0xff, req_size := 3,
     req_need_rsp := True\<rparr>"

lemma req_w_class:
  "is_amo_sc (req_w 5)" "has_op (req_w 7) HPDCACHE_REQ_AMO_ADD"
  by (simp_all add: req_w_def transaction_req_new_def is_amo_sc_def has_op_def)

lemma req_w_fields [simp]:
  "req_tid (req_w op) = 3" "req_size (req_w op) = 3" "req_be (req_w op) = 0xff" "req_addr (req_w op) = 0x40"
  "req_wdata (req_w op) = 5" "req_need_rsp (req_w op)"
  by (simp_all add: req_w_def transaction_req_new_def)

lemma req_w_wf: "req_wf (req_w 5)"
proof -
  have "\<not> is_cmo (req_w 5)" using sc_exclusive [OF req_w_class(1)]
    by (simp add: req_w_def transaction_req_new_def is_cmo_def has_op_def)
  then show ?thesis using bit_all_ones by (simp add: req_wf_def Let_def)
qed

text \<open>A store-conditional enters the table.\<close>

lemma req_w_run:
  obtains t e where "core_req_process entry_w (req_w 5) (sb_start rsv_w [3] [] 0) = Next t" "sb_errors t = []"
    "nb_core_req_need_rsp t = 1" "nb_core_resp t = 0" "inflight_m t = [(3, e)]" "e_addr e = 0x40"
    "inflight_mem_read_m t = []" "sb_mem_resp_model t = Some []"
proof -
  let ?s = "sb_start rsv_w [3] [] 0"
  have ex: "\<not> is_load (req_w 5)" "\<not> is_amo (req_w 5)" "\<not> is_amo_lr (req_w 5)" "\<not> is_store (req_w 5)"
    using sc_exclusive [OF req_w_class(1)] by auto
  have ncmo: "\<not> is_cmo (req_w 5)" by (simp add: req_w_def transaction_req_new_def is_cmo_def has_op_def)
  have s: "inflight_m ?s = []" "sb_errors ?s = []" "inflight_amo_req_m ?s = []" "sb_mem_resp_model ?s = Some []"
    "nb_core_req_need_rsp ?s = 0" "nb_core_resp ?s = 0" "inflight_mem_read_m ?s = []"
    by (simp_all add: sb_start_defs)
  obtain e b where eb: "(case expected_data (ram_m ?s) (req_w 5)
        (check_error_segments (sb_mem_resp_model ?s) (req_w 5) (core_entry entry_w (req_w 5) (nb_cycles ?s))) of
      None \<Rightarrow> Undefined
    | Some e \<Rightarrow> (let (e, b) = invalidate_reservation (req_w 5) e (make_reservation (req_w 5) e (lrsc_buf_m ?s))
        in share_atomic (req_w 5) e ((counted (req_w 5) ?s)\<lparr>lrsc_buf_m := b\<rparr>))) =
      share_atomic (req_w 5) e ((counted (req_w 5) ?s)\<lparr>lrsc_buf_m := b\<rparr>)" "e_addr e = ucast (req_addr (req_w 5))"
    by (rule core_req_stages [of ?s "req_w 5" entry_w, OF sb_inv_wf [OF sb_start_inv]]) blast
  have "\<exists>t. core_req_process entry_w (req_w 5) ?s = Next t \<and> sb_errors t = [] \<and> nb_core_req_need_rsp t = 1 \<and>
      nb_core_resp t = 0 \<and> inflight_m t = [(3, e)] \<and> inflight_mem_read_m t = [] \<and> sb_mem_resp_model t = Some []"
    using ex ncmo s unfolding core_req_unfold eb(1)
    by (simp add: share_atomic_def Let_def record_store_def track_request_def counted_def AMO_FIFO_SIZE_def)
  with eb(2) that show thesis by auto
qed

theorem responses_balance_witness:
  "\<exists>s. sb_run ([Core_req entry_w (req_w 5)] @ [Clk_neg]) (sb_start rsv_w [3] [] 0) = Next s \<and>
     \<not> no_inflight_requests_o s \<and> nb_core_req_need_rsp s = 1 \<and> nb_core_resp s = 0 \<and>
     (of_nat (length (inflight_m s)) :: u64) = 1"
proof -
  obtain t e where t: "core_req_process entry_w (req_w 5) (sb_start rsv_w [3] [] 0) = Next t" "sb_errors t = []"
    "nb_core_req_need_rsp t = 1" "nb_core_resp t = 0" "inflight_m t = [(3, e)]"
    by (rule req_w_run)
  then obtain s where s: "sb_run ([Core_req entry_w (req_w 5)] @ [Clk_neg]) (sb_start rsv_w [3] [] 0) = Next s"
      "sb_errors s = []" "\<not> no_inflight_requests_o s" "nb_core_req_need_rsp s = 1" "nb_core_resp s = 0"
    by (simp add: check_inflight_requests_def)
  from responses_balance [OF s(1,2)] s show ?thesis by simp
qed

theorem reservation_refines_witness:
  "\<exists>t e. core_req_process entry_w (req_w 5) (sb_start (rsv_w\<lparr>rsv_valid := True, rsv_base_addr := 0x40\<rparr>) [3] [] 0) = Next t \<and>
     rsv_abs (lrsc_buf_m t) = None \<and> smap_find (inflight_m t) 3 = Some e \<and> e_is_atomic e"
proof -
  let ?s = "sb_start (rsv_w\<lparr>rsv_valid := True, rsv_base_addr := 0x40\<rparr>) [3] [] 0"
  have ex: "\<not> is_load (req_w 5)" "\<not> is_amo (req_w 5)" "\<not> is_amo_lr (req_w 5)" "\<not> is_store (req_w 5)"
    using sc_exclusive [OF req_w_class(1)] by auto
  have ncmo: "\<not> is_cmo (req_w 5)" by (simp add: req_w_def transaction_req_new_def is_cmo_def has_op_def)
  have s: "inflight_m ?s = []" "sb_errors ?s = []" "inflight_amo_req_m ?s = []" "sb_mem_resp_model ?s = Some []"
    "rsv_abs (lrsc_buf_m ?s) = Some 8"
    by (simp_all add: sb_start_defs rsv_abs_def)
  obtain e b where eb: "(case expected_data (ram_m ?s) (req_w 5)
        (check_error_segments (sb_mem_resp_model ?s) (req_w 5) (core_entry entry_w (req_w 5) (nb_cycles ?s))) of
      None \<Rightarrow> Undefined
    | Some e \<Rightarrow> (let (e, b) = invalidate_reservation (req_w 5) e (make_reservation (req_w 5) e (lrsc_buf_m ?s))
        in share_atomic (req_w 5) e ((counted (req_w 5) ?s)\<lparr>lrsc_buf_m := b\<rparr>))) =
      share_atomic (req_w 5) e ((counted (req_w 5) ?s)\<lparr>lrsc_buf_m := b\<rparr>)"
    by (rule core_req_stages [of ?s "req_w 5" entry_w, OF sb_inv_wf [OF sb_start_inv]]) blast
  have "\<exists>t. core_req_process entry_w (req_w 5) ?s = Next t \<and> sb_errors t = []"
    using ex ncmo s unfolding core_req_unfold eb
    by (simp add: share_atomic_def Let_def record_store_def track_request_def counted_def AMO_FIFO_SIZE_def)
  then obtain t where t: "core_req_process entry_w (req_w 5) ?s = Next t" "sb_errors t = []" by blast
  have "rsv_abs (lrsc_buf_m t) = rsv_spec (sb_mem_resp_model ?s) (req_w 5) (rsv_abs (lrsc_buf_m ?s)) \<and>
     (is_amo_sc (req_w 5) \<and> req_need_rsp (req_w 5) \<and> sb_errors t = sb_errors ?s \<longrightarrow>
        (\<exists>e. smap_find (inflight_m t) (ucast (req_tid (req_w 5))) = Some e \<and>
             (e_is_atomic e \<longleftrightarrow> rsv_abs (lrsc_buf_m ?s) = Some (unat (req_addr (req_w 5)) div 8))))"
    by (rule reservation_refines [OF _ req_w_wf _ t(1), of "[]"]) (simp_all add: s)
  with t s ex(3) req_w_class(1) show ?thesis by (auto simp: rsv_spec_def)
qed

theorem amo_response_updates_witness:
  "\<exists>t. sb_run [Core_req entry_w (req_w 7), Core_resp (transaction_resp_new\<lparr>rsp_tid := 3, rsp_rdata := 37\<rparr>)]
         (sb_start rsv_w [3] [] 0) = Next t \<and> ram_abs (ram_m t) 0x40 = Some 42"
proof -
  let ?s = "sb_start rsv_w [3] [] 0" and ?resp = "transaction_resp_new\<lparr>rsp_tid := 3, rsp_rdata := 37\<rparr>"
  have b: "word_base (req_w 7) = 0x40" "byte_of 42 0 = 42"
    by (simp_all add: word_base_def align_to_def byte_of_def)
  have "\<exists>t. sb_run [Core_req entry_w (req_w 7), Core_resp ?resp] ?s = Next t \<and>
     (\<forall>a. ram_abs (ram_m t) a = (if word_base (req_w 7) \<le> a \<and> a < word_base (req_w 7) + 8
        then Some (byte_of 42 (a - word_base (req_w 7))) else ram_abs (ram_m ?s) a))"
    by (rule amo_response_updates [OF empty_run, where op = HPDCACHE_REQ_AMO_ADD])
       (simp_all add: req_w_class req_in_error_def sb_start_defs AMO_FIFO_SIZE_def transaction_resp_new_def)
  with b show ?thesis by auto
qed

lemma refill_w_run:
  "\<exists>s. sb_run [Mem_read_req (mem_read_w 0x48 3)] (sb_start rsv_w [] [] 0) = Next s \<and>
    smap_find (inflight_mem_read_m s) 0 = Some \<lparr>me_addr = 0x48, me_bytes = 8, me_is_uncacheable = True,
       me_is_error = False, me_core_req_ptr = None\<rparr> \<and> (\<forall>a. ram_abs (ram_m s) a = None)"
  by (simp add: sb_start_defs mem_read_w_def mem_req_new_def mem_is_ldex_def mem_read_req_process_def mem_entry_def Let_def
      ram_init_def ram_abs_def)

theorem uncached_refill_effect_witness:
  "\<exists>s t. sb_run [Mem_read_req (mem_read_w 0x48 3)] (sb_start rsv_w [] [] 0) = Next s \<and>
     mem_read_resp_process (mem_read_resp_new\<lparr>rresp_data := push_bit 80 0xab\<rparr>) s = Next t \<and>
     ram_abs (ram_m t) 0x4a = Some 0xab"
proof -
  let ?resp = "mem_read_resp_new\<lparr>rresp_data := push_bit 80 0xab\<rparr>"
  let ?e = "\<lparr>me_addr = 0x48, me_bytes = 8, me_is_uncacheable = True, me_is_error = False, me_core_req_ptr = None\<rparr>"
  obtain s where s: "sb_run [Mem_read_req (mem_read_w 0x48 3)] (sb_start rsv_w [] [] 0) = Next s"
      "smap_find (inflight_mem_read_m s) 0 = Some ?e" "\<And>a. ram_abs (ram_m s) a = None"
    using refill_w_run by blast
  have l: "line_base 0x48 = 0x40" by (simp add: line_base_def align_to_def)
  have "line_bytes ?resp ! 10 = 0xab" by code_simp
  moreover obtain t where "mem_read_resp_process ?resp s = Next t"
      "\<forall>a. ram_abs (ram_m t) a = (if 0x48 \<le> a \<and> a < 0x50 then Some (line_bytes ?resp ! (a - 0x40)) else None)"
    using uncached_refill_effect [OF s(1), of ?resp ?e] s(2,3) l by (auto simp: mem_read_resp_new_def)
  ultimately show ?thesis using s(1) by auto
qed

theorem mem_request_origin_witness:
  "\<exists>s t e. sb_run [Core_req entry_w (req_w 5)] (sb_start rsv_w [3] [] 0) = Next s \<and>
     mem_read_req_process (mem_read_w 0x48 3) s = Next t \<and> smap_find (inflight_mem_read_m t) 0 = Some e \<and>
     me_addr e = 0x48 \<and> me_core_req_ptr e = Some 3"
proof -
  obtain s c where s: "core_req_process entry_w (req_w 5) (sb_start rsv_w [3] [] 0) = Next s"
    "inflight_m s = [(3, c)]" "e_addr c = 0x40" "inflight_mem_read_m s = []" "sb_mem_resp_model s = Some []"
    by (rule req_w_run)
  have run: "sb_run [Core_req entry_w (req_w 5)] (sb_start rsv_w [3] [] 0) = Next s" using s(1) by simp
  have id: "mreq_id (mem_read_w 0x48 3) = 0" "mreq_addr (mem_read_w 0x48 3) = 0x48"
    by (simp_all add: mem_read_w_def mem_req_new_def)
  have line: "get_nline (0x40 :: u64) = get_nline 0x48" by code_simp
  have "\<exists>t. mem_read_req_process (mem_read_w 0x48 3) s = Next t"
    using s(4,5) by (simp add: mem_read_req_process_def mem_read_w_def mem_req_new_def mem_entry_def mem_is_ldex_def Let_def)
  then obtain t where t: "mem_read_req_process (mem_read_w 0x48 3) s = Next t" by blast
  have "smap_find (inflight_mem_read_m s) (ucast (mreq_id (mem_read_w 0x48 3))) = None" using s(4) by simp
  from mem_request_origin [OF run t this] obtain e where e: "smap_find (inflight_mem_read_m t) 0 = Some e" "me_addr e = 0x48"
      "me_core_req_ptr e \<noteq> None" "\<And>k. me_core_req_ptr e = Some k \<Longrightarrow> \<exists>c. smap_find (inflight_m s) k = Some c"
    unfolding id using s(2,3) line by (auto split: option.splits)
  then have "me_core_req_ptr e = Some 3" using s(2) by (auto split: if_splits)
  with run t e show ?thesis by blast
qed

theorem refill_keeps_known_witness:
  "\<exists>s t. sb_run [Core_req entry_w (store_w 1 0x48 7 1 0), Mem_read_req (mem_read_w 0x48 3)] (sb_start rsv_w [1] [] 0) = Next s \<and>
     mem_read_resp_process (mem_read_resp_new\<lparr>rresp_data := push_bit 64 0xab\<rparr>) s = Next t \<and>
     ram_abs (ram_m t) 0x48 = Some 7"
proof -
  let ?s = "sb_start rsv_w [1] [] 0" and ?st = "store_w 1 0x48 7 1 0"
  let ?resp = "mem_read_resp_new\<lparr>rresp_data := push_bit 64 0xab\<rparr>"
  have "sb_wf ?s" by (rule sb_inv_wf [OF sb_start_inv])
  then obtain u where u: "core_req_process entry_w ?st ?s = Next u"
      "ram_abs (ram_m u) = upd_bytes (bytes8 (req_wdata ?st)) [req_be ?st] (word_base ?st) 0 8 (ram_abs (ram_m ?s))"
      and mr: "inflight_mem_read_m u = []"
    using core_req_store [of ?s ?st entry_w] by (auto simp: sb_start_defs req_in_error_def)
  have su: "setup_is 0 (Some []) u"
    using setup_out_core_req [of 0 "Some []" ?s entry_w ?st] u(1) by (simp add: sb_start_defs)
  have "word_base ?st = 0x48" by (simp add: word_base_def align_to_def store_w_def transaction_req_new_def)
  then have k: "ram_abs (ram_m u) 0x48 = Some 7"
    by (simp add: u(2) upd_bytes_def store_w_def transaction_req_new_def be_bit_def byte_of_def)
  obtain s e where s: "mem_read_req_process (mem_read_w 0x48 3) u = Next s" "ram_m s = ram_m u"
      "smap_find (inflight_mem_read_m s) 0 = Some e" "me_addr e = 0x48" "me_bytes e = 8"
    using su mr by (simp add: mem_read_req_process_def mem_read_w_def mem_req_new_def mem_entry_def mem_is_ldex_def Let_def)
  have run: "sb_run [Core_req entry_w ?st, Mem_read_req (mem_read_w 0x48 3)] ?s = Next s" using u(1) s(1) by simp
  have "ram_ok (ram_m s)" "ram_N (ram_m s) = SCOREBOARD_RAM_SIZE"
    using sb_run_Next_inv [OF run] by (simp_all add: sb_inv_def sb_wf_def)
  then obtain r where "refill ?resp e (ram_m s) = Some r"
    using refill_small [of "ram_m s" e _ _ ?resp, OF _ _ _ _ refl refl] s(4,5) by auto
  with s(3) obtain t where t: "mem_read_resp_process ?resp s = Next t"
    by (simp add: mem_read_resp_process_def mem_read_resp_new_def Let_def)
  from refill_keeps_known [OF run t, of "0x48" 7] k s(2) run t show ?thesis by auto
qed

end
