(* ===== verification/Golden.thy ===== *)
theory Golden
  imports Scoreboard_Props
begin

text \<open>
  The scoreboard as a judge. \<open>golden\<close> is an abstract machine that sees the same events and keeps only
  what the verdict depends on: the bytes it knows, the requests in flight with the memory as it was
  when they were accepted, and the reserved doubleword. Its steps are a relation because the memory
  side is abstracted: a response of the memory may teach it bytes it does not know, a full queue of
  atomics may refuse a request, an acknowledgement may set the flag of exclusive writes. The scoreboard
  is shown to be simulated by it (\<open>sim\<close>), every message about the core side included.
\<close>

section \<open>The abstract judge\<close>

record golden_entry =
  ge_req :: hpdcache_test_transaction_req
  ge_error :: bool
  ge_atomic :: bool
  ge_seen :: "nat \<Rightarrow> u8 option"

record golden =
  g_mem :: "nat \<Rightarrow> u8 option"
  g_open :: "u32 \<Rightarrow> golden_entry option"
  g_rsv :: "nat option"
  g_excl :: bool
  g_log :: "sb_error list"

definition golden_start :: "nat option \<Rightarrow> golden" where
  "golden_start r = \<lparr>g_mem = (\<lambda>_. None), g_open = (\<lambda>_. None), g_rsv = r, g_excl = False, g_log = []\<rparr>"

definition say :: "sb_error list \<Rightarrow> golden \<Rightarrow> golden" where
  "say ms g = g\<lparr>g_log := g_log g @ ms\<rparr>"

definition req_tag :: "hpdcache_test_transaction_req \<Rightarrow> u32" where
  "req_tag req = ucast (req_tid req)"

definition expects_error :: "segment_t list \<Rightarrow> hpdcache_test_transaction_req \<Rightarrow> bool" where
  "expects_error segs req \<longleftrightarrow> (\<not> is_cmo req \<or> is_cmo_prefetch req) \<and> req_in_error (Some segs) req"

definition reads_data :: "hpdcache_test_transaction_req \<Rightarrow> bool" where
  "reads_data req \<longleftrightarrow> is_load req \<or> is_amo_lr req \<or> is_amo req"

text \<open>The bytes of \<open>w\<close> enabled by the request, written into its doubleword.\<close>

definition put_word :: "hpdcache_test_transaction_req \<Rightarrow> u64 \<Rightarrow> (nat \<Rightarrow> u8 option) \<Rightarrow> nat \<Rightarrow> u8 option" where
  "put_word req w = upd_bytes (bytes8 w) [req_be req] (word_base req) 0 8"

definition golden_entry_of :: "segment_t list \<Rightarrow> hpdcache_test_transaction_req \<Rightarrow> golden \<Rightarrow> golden_entry" where
  "golden_entry_of segs req g =
     (let reserved = (g_rsv g = Some (unat (req_addr req) div 8)) in
      \<lparr>ge_req = req, ge_error = (expects_error segs req \<and> (is_amo_sc req \<longrightarrow> reserved)), ge_atomic = reserved,
       ge_seen = g_mem g\<rparr>)"

definition golden_req :: "segment_t list \<Rightarrow> hpdcache_test_transaction_req \<Rightarrow> golden \<Rightarrow> golden" where
  "golden_req segs req g =
     (if g_open g (req_tag req) \<noteq> None then say [Core_req_id_inflight (req_tag req)] g
      else if is_cmo req \<and> \<not> req_need_rsp req then g
      else g\<lparr>g_rsv := rsv_spec (Some segs) req (g_rsv g),
             g_mem := (if is_store req \<and> \<not> expects_error segs req then put_word req (req_wdata req) (g_mem g)
                       else g_mem g),
             g_open := (if req_need_rsp req then (g_open g)(req_tag req \<mapsto> golden_entry_of segs req g)
                        else g_open g)\<rparr>)"

text \<open>An atomic that must wait for the memory, when the queue of atomics is full.\<close>

definition waits_for_memory :: "hpdcache_test_transaction_req \<Rightarrow> golden \<Rightarrow> bool" where
  "waits_for_memory req g \<longleftrightarrow>
     is_amo req \<or> is_amo_lr req \<or> (is_amo_sc req \<and> g_rsv g = Some (unat (req_addr req) div 8))"

definition golden_refuse :: "segment_t list \<Rightarrow> hpdcache_test_transaction_req \<Rightarrow> golden \<Rightarrow> golden" where
  "golden_refuse segs req g = say [Amo_fifo_full] (g\<lparr>g_rsv := rsv_spec (Some segs) req (g_rsv g)\<rparr>)"

text \<open>The bytes of a response that contradict what was known when the request was accepted.\<close>

definition wrong_bytes ::
  "(nat \<Rightarrow> u8 option) \<Rightarrow> hpdcache_test_transaction_req \<Rightarrow> u64 \<Rightarrow> sb_error list" where
  "wrong_bytes m req d =
     map (\<lambda>j. Wrong_data (align_to (ucast (req_addr req)) 8 + of_nat j) (byte_of d j) (the (m (word_base req + j))))
       (filter (\<lambda>j. m (word_base req + j) \<noteq> None \<and> m (word_base req + j) \<noteq> Some (byte_of d j)) (access_bytes req))"

text \<open>The RISC-V result of an AMO on the value returned, at the lane of the doubleword it accesses.\<close>

definition amo_ops_of :: "hpdcache_test_transaction_req \<Rightarrow> hpdcache_req_op_e option" where
  "amo_ops_of req = List.find (has_op req)
     [HPDCACHE_REQ_AMO_SWAP, HPDCACHE_REQ_AMO_ADD, HPDCACHE_REQ_AMO_AND, HPDCACHE_REQ_AMO_OR, HPDCACHE_REQ_AMO_XOR,
      HPDCACHE_REQ_AMO_MAX, HPDCACHE_REQ_AMO_MAXU, HPDCACHE_REQ_AMO_MIN, HPDCACHE_REQ_AMO_MINU]"

definition amo_word :: "hpdcache_test_transaction_req \<Rightarrow> u64 \<Rightarrow> u64" where
  "amo_word req old =
     (case amo_ops_of req of
        None \<Rightarrow> 0
      | Some op \<Rightarrow>
          if req_size req = 2 then
            (let lane = unat (req_addr req) mod 8 * 8 in
             push_bit lane (ucast (the (amo_spec op (ucast (drop_bit lane old) :: u32) (ucast (drop_bit lane (req_wdata req)))))))
          else the (amo_spec op old (req_wdata req)))"

definition sc_code :: "hpdcache_test_transaction_req \<Rightarrow> u64 \<Rightarrow> u64" where
  "sc_code req d = (if req_size req = 2 then ucast (ucast d :: u32) else d)"

definition golden_check :: "golden_entry \<Rightarrow> u64 \<Rightarrow> golden \<Rightarrow> golden" where
  "golden_check ge d g =
     (let req = ge_req ge in
      if is_amo_sc req then
        (if ge_atomic ge \<and> g_excl g
         then say (if sc_code req d \<noteq> 0 then [Shall_be_sc_success] else []) (g\<lparr>g_mem := put_word req (req_wdata req) (g_mem g)\<rparr>)
         else say (if sc_code req d \<noteq> 1 then [Shall_be_sc_failure] else []) g)
      else if reads_data req then
        say (wrong_bytes (ge_seen ge) req d)
          (g\<lparr>g_mem := (if is_amo req then put_word req (amo_word req d) (g_mem g) else g_mem g)\<rparr>)
      else g)"

definition golden_resp :: "hpdcache_test_transaction_resp \<Rightarrow> golden \<Rightarrow> golden" where
  "golden_resp resp g =
     (let k = ucast (rsp_tid resp) in
      case g_open g k of
        None \<Rightarrow> say [Core_resp_no_match k] g
      | Some ge \<Rightarrow>
          if \<not> is_store (ge_req ge) \<and> rsp_error resp \<noteq> ge_error ge then say [Unexpected_error_flag] g
          else (if ge_error ge then g else golden_check ge (rsp_rdata resp) g)\<lparr>g_open := (g_open g)(k := None)\<rparr>)"

text \<open>New bytes come from the line of the response, at their place; known bytes stay.\<close>

definition learns :: "hpdcache_test_transaction_mem_read_resp \<Rightarrow> (nat \<Rightarrow> u8 option) \<Rightarrow> (nat \<Rightarrow> u8 option) \<Rightarrow> bool" where
  "learns resp m m' \<longleftrightarrow> (\<forall>a. m' a = m a \<or> (m a = None \<and> m' a = Some (line_bytes resp ! (a mod 64))))"

fun silent :: "sb_event \<Rightarrow> bool" where
  "silent (Core_req junk req) = False"
| "silent (Core_resp resp) = False"
| "silent v = True"

inductive golden_step :: "segment_t list \<Rightarrow> sb_event \<Rightarrow> golden \<Rightarrow> golden \<Rightarrow> bool" for segs where
  Accept: "golden_step segs (Core_req junk req) g (golden_req segs req g)"
| Refuse: "g_open g (req_tag req) = None \<Longrightarrow> waits_for_memory req g \<Longrightarrow>
    golden_step segs (Core_req junk req) g (golden_refuse segs req g)"
| Judge: "golden_step segs (Core_resp resp) g (golden_resp resp g)"
| Learn: "learns resp (g_mem g) m \<Longrightarrow> golden_step segs (Mem_read_resp resp) g (g\<lparr>g_mem := m\<rparr>)"
| Ack: "golden_step segs (Mem_write_resp resp) g (g\<lparr>g_excl := wresp_is_atomic resp\<rparr>)"
| Silent: "silent v \<Longrightarrow> golden_step segs v g g"

inductive golden_run :: "segment_t list \<Rightarrow> sb_event list \<Rightarrow> golden \<Rightarrow> golden \<Rightarrow> bool" for segs where
  Done: "golden_run segs [] g g"
| More: "golden_step segs v g g' \<Longrightarrow> golden_run segs vs g' g'' \<Longrightarrow> golden_run segs (v # vs) g g''"

inductive_cases golden_run_NilE: "golden_run segs [] g g'"
inductive_cases golden_run_ConsE: "golden_run segs (v # vs) g g''"
inductive_cases golden_req_stepE: "golden_step segs (Core_req junk req) g g'"
inductive_cases golden_resp_stepE: "golden_step segs (Core_resp resp) g g'"
inductive_cases golden_learn_stepE: "golden_step segs (Mem_read_resp resp) g g'"
inductive_cases golden_ack_stepE: "golden_step segs (Mem_write_resp resp) g g'"

text \<open>The messages about the core side.\<close>

fun core_error :: "sb_error \<Rightarrow> bool" where
  "core_error (Core_req_id_inflight i) = True"
| "core_error Amo_fifo_full = True"
| "core_error (Core_resp_no_match i) = True"
| "core_error Unexpected_error_flag = True"
| "core_error Shall_be_sc_success = True"
| "core_error Shall_be_sc_failure = True"
| "core_error (Wrong_data a b c) = True"
| "core_error m = False"

section \<open>The simulation\<close>

text \<open>The expected word of an entry and its valid bits hold the known bytes of the snapshot.\<close>

definition snapshot :: "hpdcache_test_transaction_req \<Rightarrow> (nat \<Rightarrow> u8 option) \<Rightarrow> inflight_entry_t \<Rightarrow> bool" where
  "snapshot req m e \<longleftrightarrow> (\<exists>rd rv. e_rdata e = [rd] \<and> e_rv e = [rv] \<and>
     (\<forall>j < 8. bit rv j \<longleftrightarrow> m (word_base req + j) \<noteq> None) \<and>
     (\<forall>j < 8. \<forall>b. m (word_base req + j) = Some b \<longrightarrow> byte_of rd j = b))"

definition entry_rel :: "inflight_entry_t \<Rightarrow> golden_entry \<Rightarrow> bool" where
  "entry_rel e ge \<longleftrightarrow> (let req = ge_req ge in
     req_wf req \<and> e_is_read e = is_load req \<and> e_is_write e = is_store req \<and> e_is_amo e = is_amo req \<and>
     e_is_amo_sc e = is_amo_sc req \<and> e_is_amo_lr e = is_amo_lr req \<and> e_addr e = ucast (req_addr req) \<and>
     e_bytes e = push_bit (unat (req_size req)) 1 \<and> e_op e = unat (req_op req) \<and> e_is_error e = ge_error ge \<and>
     (is_amo_sc req \<longrightarrow> e_is_atomic e = ge_atomic ge) \<and>
     (is_store req \<or> is_amo_sc req \<or> is_amo req \<longrightarrow> e_wdata e = [req_wdata req] \<and> e_be e = [req_be req]) \<and>
     (\<not> ge_error ge \<and> reads_data req \<longrightarrow> snapshot req (ge_seen ge) e))"

definition sim :: "segment_t list \<Rightarrow> scoreboard \<Rightarrow> golden \<Rightarrow> bool" where
  "sim segs s g \<longleftrightarrow> sb_inv s \<and> setup_is 0 (Some segs) s \<and> ram_abs (ram_m s) = g_mem g \<and>
     rsv_abs (lrsc_buf_m s) = g_rsv g \<and> sc_is_atomic s = g_excl g \<and> filter core_error (sb_errors s) = g_log g \<and>
     (\<forall>k. rel_option entry_rel (smap_find (inflight_m s) k) (g_open g k))"

text \<open>The part of the relation that holds inside a handler: all but the invariant.\<close>

definition view :: "segment_t list \<Rightarrow> scoreboard \<Rightarrow> golden \<Rightarrow> bool" where
  "view segs s g \<longleftrightarrow> setup_is 0 (Some segs) s \<and> ram_ok (ram_m s) \<and> ram_N (ram_m s) = SCOREBOARD_RAM_SIZE \<and>
     smap_ok (inflight_m s) \<and> ram_abs (ram_m s) = g_mem g \<and>
     rsv_abs (lrsc_buf_m s) = g_rsv g \<and> sc_is_atomic s = g_excl g \<and> filter core_error (sb_errors s) = g_log g \<and>
     (\<forall>k. rel_option entry_rel (smap_find (inflight_m s) k) (g_open g k))"

lemma sim_view: "sim segs s g \<longleftrightarrow> sb_inv s \<and> view segs s g"
  by (auto simp: sim_def view_def sb_inv_def sb_wf_def)

lemma say_simps [simp]:
  "g_mem (say ms g) = g_mem g" "g_open (say ms g) = g_open g" "g_rsv (say ms g) = g_rsv g"
  "g_excl (say ms g) = g_excl g" "g_log (say ms g) = g_log g @ ms" "say [] g = g"
  by (simp_all add: say_def)

lemma say_mem: "(say ms g)\<lparr>g_mem := m\<rparr> = say ms (g\<lparr>g_mem := m\<rparr>)"
  by (simp add: say_def)

lemma report_more [simp]:
  "sb_mem_resp_model (report ms s) = sb_mem_resp_model s" "lrsc_buf_m (report ms s) = lrsc_buf_m s"
  "sc_is_atomic (report ms s) = sc_is_atomic s"
  by (simp_all add: report_def)

lemma view_report: "view segs s g \<Longrightarrow> \<forall>m \<in> set ms. core_error m \<Longrightarrow> view segs (report ms s) (say ms g)"
  by (simp add: view_def)

lemma view_print:
  "view segs s g \<Longrightarrow> core_error m \<Longrightarrow> print_error m s = Next t \<Longrightarrow> view segs t (say [m] g)"
  using view_report [of segs s g "[m]"] by (auto simp: view_def print_error_no_limit)

lemma view_release: "view segs s g \<Longrightarrow> release_id i s = Next t \<Longrightarrow> view segs t g"
  by (auto simp: view_def release_id_def split: option.splits)

lemma view_counted [simp]: "view segs (counted req s) g = view segs s g"
  by (simp add: view_def counted_def)

lemma rel_option_None1 [simp]: "rel_option R None y \<longleftrightarrow> y = None"
  by (cases y) auto

section \<open>Core requests\<close>

text \<open>The entry that reaches the table stands for the entry of the abstract judge.\<close>

lemma check_error_segments_golden:
  "check_error_segments (Some segs) req (core_entry j req t) = (core_entry j req t)\<lparr>e_is_error := expects_error segs req\<rparr>"
  by (auto simp: check_error_segments_def expects_error_def req_in_error_def)

lemma core_req_entry:
  assumes v: "view segs s g" and wf: "req_wf req"
  obtains e b where
    "\<And>P :: inflight_entry_t \<Rightarrow> lrsc_reservation_buf_t \<Rightarrow> scoreboard outcome.
      (case expected_data (ram_m s) req (check_error_segments (sb_mem_resp_model s) req (core_entry junk req (nb_cycles s))) of
        None \<Rightarrow> Undefined
      | Some e \<Rightarrow> (let (e, b) = invalidate_reservation req e (make_reservation req e (lrsc_buf_m s)) in P e b)) = P e b"
    "entry_rel e (golden_entry_of segs req g)" "rsv_abs b = rsv_spec (Some segs) req (g_rsv g)"
proof -
  let ?c = "core_entry junk req (nb_cycles s)"
  define e1 where "e1 = ?c\<lparr>e_is_error := expects_error segs req\<rparr>"
  have ram: "ram_ok (ram_m s)" "ram_N (ram_m s) = SCOREBOARD_RAM_SIZE" and mem: "ram_abs (ram_m s) = g_mem g"
    using v by (simp_all add: view_def)
  have ce: "check_error_segments (sb_mem_resp_model s) req ?c = e1"
    using v check_error_segments_golden by (simp add: view_def e1_def)
  obtain rd rv where ed: "expected_data (ram_m s) req e1 = Some (e1\<lparr>e_rdata := rd, e_rv := rv\<rparr>)"
    and rd: "\<not> e_is_error e1 \<and> (is_load req \<or> is_amo_lr req \<or> is_amo req) \<Longrightarrow> length rd = 1 \<and> length rv = 1 \<and>
       (\<forall>j < 8. bit (rv ! 0) j \<longleftrightarrow> ram_abs (ram_m s) (unat (align_to (ucast (req_addr req)) 8) mod SCOREBOARD_RAM_SIZE + j) \<noteq> None) \<and>
       (\<forall>j < 8. \<forall>b. ram_abs (ram_m s) (unat (align_to (ucast (req_addr req)) 8) mod SCOREBOARD_RAM_SIZE + j) = Some b \<longrightarrow>
          byte_of (rd ! 0) j = b)"
    by (rule expected_data_eq [OF ram, of req e1]) blast
  let ?e2 = "e1\<lparr>e_rdata := rd, e_rv := rv\<rparr>"
  obtain e b where iv: "invalidate_reservation req ?e2 (make_reservation req ?e2 (lrsc_buf_m s)) = (e, b)" by fastforce
  have lr: "e_is_error ?e2 = req_in_error (Some segs) req" if "is_amo_lr req"
    using lr_exclusive [OF that] by (simp add: e1_def expects_error_def)
  have sz: "unat (e_bytes ?e2) \<le> 8" using req_wf_size [OF wf] by (simp add: e1_def)
  note rs = reservation_step [OF _ sz lr iv]
  have snap: "snapshot req (g_mem g) ?e2" if "\<not> expects_error segs req" "reads_data req"
    using rd that mem by (auto simp: snapshot_def e1_def reads_data_def word_base_def length_Suc_conv)
  have e: "e = (if is_amo_sc req then ?e2\<lparr>e_is_error := expects_error segs req \<and> addr_match ?e2 (lrsc_buf_m s),
       e_is_atomic := addr_match ?e2 (lrsc_buf_m s)\<rparr> else ?e2)"
    using iv sc_exclusive [of req] by (auto simp: invalidate_reservation_def make_reservation_def e1_def Let_def split: if_splits)
  have m: "addr_match ?e2 (lrsc_buf_m s) \<longleftrightarrow> g_rsv g = Some (unat (req_addr req) div 8)"
    using addr_match_word [OF sz] v by (simp add: view_def e1_def)
  have rel: "entry_rel e (golden_entry_of segs req g)"
    using snap wf core_entry_data [of req junk "nb_cycles s"] sc_exclusive [of req] unfolding e m
    by (auto simp: entry_rel_def golden_entry_of_def Let_def e1_def snapshot_def reads_data_def)
  show thesis
  proof (rule that [of e b])
    show "rsv_abs b = rsv_spec (Some segs) req (g_rsv g)" using rs(1) v by (simp add: view_def e1_def)
  qed (simp_all add: ce ed iv rel)
qed

lemma view_go:
  assumes v: "view segs u g" and e: "entry_rel e (golden_entry_of segs req g0)"
    and fresh: "smap_find (inflight_m u) (req_tag req) = None"
    and go: "seq_out (record_store req e u) (track_request req e) = Next t"
  shows "view segs t (g\<lparr>g_mem := (if is_store req \<and> \<not> expects_error segs req then put_word req (req_wdata req) (g_mem g)
                       else g_mem g),
             g_open := (if req_need_rsp req then (g_open g)(req_tag req \<mapsto> golden_entry_of segs req g0) else g_open g)\<rparr>)"
proof -
  have u: "ram_ok (ram_m u)" "ram_N (ram_m u) = SCOREBOARD_RAM_SIZE" "smap_ok (inflight_m u)"
    using v by (simp_all add: view_def)
  have st: "is_store req \<Longrightarrow> e_wdata e = [req_wdata req] \<and> e_be e = [req_be req] \<and> e_is_error e = expects_error segs req"
    using e store_exclusive [of req] by (auto simp: entry_rel_def golden_entry_of_def Let_def)
  obtain r where r: "record_store req e u = Next (u\<lparr>ram_m := r\<rparr>)" "ram_ok r" "ram_N r = SCOREBOARD_RAM_SIZE"
      "ram_abs r = (if is_store req \<and> \<not> e_is_error e then upd_bytes (bytes8 (req_wdata req)) [req_be req]
         (unat (align_to (ucast (req_addr req)) 8) mod SCOREBOARD_RAM_SIZE) 0 8 (ram_abs (ram_m u)) else ram_abs (ram_m u))"
    by (rule record_store_eq [OF u(1,2), of req e]) (use st in blast)+
  let ?g = "g\<lparr>g_mem := (if is_store req \<and> \<not> expects_error segs req then put_word req (req_wdata req) (g_mem g) else g_mem g)\<rparr>"
  have w: "view segs (u\<lparr>ram_m := r\<rparr>) ?g" using v r st by (auto simp: view_def put_word_def word_base_def)
  show ?thesis
  proof (cases "req_need_rsp req")
    case True
    with go r(1) have "t = u\<lparr>ram_m := r, inflight_m := smap_insert (req_tag req) e (inflight_m u)\<rparr>"
      by (simp add: track_request_def req_tag_def)
    with True w e fresh u(3) show ?thesis by (auto simp: view_def)
  next
    case False
    with go r(1) have "release_id (ucast (req_tid req)) (u\<lparr>ram_m := r\<rparr>) = Next t" by (simp add: track_request_def)
    from view_release [OF w this] False show ?thesis by simp
  qed
qed

lemma core_req_main:
  assumes v: "view segs s g" and wf: "req_wf req" and run: "core_req_process junk req s = Next t"
    and main: "smap_find (inflight_m s) (req_tag req) = None" "\<not> (is_cmo req \<and> \<not> req_need_rsp req)"
  shows "\<exists>g'. golden_step segs (Core_req junk req) g g' \<and> view segs t g'"
proof -
  have rel: "rel_option entry_rel (smap_find (inflight_m s) (req_tag req)) (g_open g (req_tag req))"
    using v by (simp add: view_def)
  have vc: "view segs (counted req s) g" using v by simp
  obtain e b where eq: "\<And>P :: inflight_entry_t \<Rightarrow> lrsc_reservation_buf_t \<Rightarrow> scoreboard outcome.
    (case expected_data (ram_m s) req (check_error_segments (sb_mem_resp_model s) req (core_entry junk req (nb_cycles s))) of
      None \<Rightarrow> Undefined
    | Some e \<Rightarrow> (let (e, b) = invalidate_reservation req e (make_reservation req e (lrsc_buf_m s)) in P e b)) = P e b"
    and e: "entry_rel e (golden_entry_of segs req g)" and b: "rsv_abs b = rsv_spec (Some segs) req (g_rsv g)"
    by (rule core_req_entry [OF v wf, where junk = junk]) blast
  let ?s = "(counted req s)\<lparr>lrsc_buf_m := b\<rparr>" and ?g = "g\<lparr>g_rsv := rsv_spec (Some segs) req (g_rsv g)\<rparr>"
  have sh: "share_atomic req e ?s = Next t"
    using run main unfolding core_req_unfold eq by (auto simp: req_tag_def split: if_splits)
  have vs: "view segs ?s ?g" "view segs (?s\<lparr>inflight_amo_req_m := q\<rparr>) ?g" for q
    using vc b by (simp_all add: view_def)
  have none: "g_open g (req_tag req) = None" using rel main(1) by simp
  have acc: "golden_req segs req g = ?g\<lparr>g_mem := (if is_store req \<and> \<not> expects_error segs req
        then put_word req (req_wdata req) (g_mem ?g) else g_mem ?g),
      g_open := (if req_need_rsp req then (g_open ?g)(req_tag req \<mapsto> golden_entry_of segs req g) else g_open ?g)\<rparr>"
    using none main(2) by (auto simp: golden_req_def)
  have fresh: "smap_find (inflight_m (?s\<lparr>inflight_amo_req_m := q\<rparr>)) (req_tag req) = None"
      "smap_find (inflight_m ?s) (req_tag req) = None" for q
    using main(1) by (simp_all add: counted_def)
  have full: "waits_for_memory req g \<and> print_error Amo_fifo_full ?s = Next t"
    if "is_amo req \<or> is_amo_lr req \<or> is_amo_sc req \<and> e_is_atomic e" "\<not> length (inflight_amo_req_m ?s) < AMO_FIFO_SIZE"
    using that sh e by (auto simp: share_atomic_def Let_def waits_for_memory_def entry_rel_def golden_entry_of_def)
  have room: "\<exists>q. seq_out (record_store req e (?s\<lparr>inflight_amo_req_m := q\<rparr>)) (track_request req e) = Next t"
    if "\<not> ((is_amo req \<or> is_amo_lr req \<or> is_amo_sc req \<and> e_is_atomic e) \<and> \<not> length (inflight_amo_req_m ?s) < AMO_FIFO_SIZE)"
    using that sh
    by (auto simp: share_atomic_def Let_def split: if_splits intro: exI [of _ "inflight_amo_req_m ?s @ [e]"]
        exI [of _ "inflight_amo_req_m ?s"])
  show ?thesis
  proof (cases "(is_amo req \<or> is_amo_lr req \<or> is_amo_sc req \<and> e_is_atomic e) \<and> \<not> length (inflight_amo_req_m ?s) < AMO_FIFO_SIZE")
    case True
    then have "waits_for_memory req g" "view segs t (golden_refuse segs req g)"
      using full view_print [OF vs(1), of Amo_fifo_full t] by (simp_all add: golden_refuse_def)
    with Refuse [OF none] show ?thesis by blast
  next
    case False
    then obtain q where "seq_out (record_store req e (?s\<lparr>inflight_amo_req_m := q\<rparr>)) (track_request req e) = Next t"
      using room by blast
    from view_go [OF vs(2) e fresh(1) this] acc Accept [of segs junk req g] show ?thesis by auto
  qed
qed

lemma core_req_sim:
  assumes v: "view segs s g" and wf: "req_wf req" and run: "core_req_process junk req s = Next t"
  shows "\<exists>g'. golden_step segs (Core_req junk req) g g' \<and> view segs t g'"
proof -
  have rel: "rel_option entry_rel (smap_find (inflight_m s) (req_tag req)) (g_open g (req_tag req))"
    using v by (simp add: view_def)
  have vc: "view segs (counted req s) g" using v by simp
  consider (dup) "smap_find (inflight_m s) (req_tag req) \<noteq> None"
    | (cmo) "smap_find (inflight_m s) (req_tag req) = None" "is_cmo req" "\<not> req_need_rsp req"
    | (main) "smap_find (inflight_m s) (req_tag req) = None" "\<not> (is_cmo req \<and> \<not> req_need_rsp req)" by blast
  then show ?thesis
  proof cases
    case dup
    with rel have "golden_req segs req g = say [Core_req_id_inflight (req_tag req)] g"
      by (cases "g_open g (req_tag req)") (auto simp: golden_req_def)
    moreover have "print_error (Core_req_id_inflight (req_tag req)) (counted req s) = Next t"
      using dup run by (simp add: core_req_unfold req_tag_def)
    ultimately show ?thesis using view_print [OF vc] Accept [of segs junk req g] by fastforce
  next
    case cmo
    with rel have "golden_req segs req g = g" by (simp add: golden_req_def)
    moreover have "release_id (ucast (req_tid req)) (counted req s) = Next t"
      using cmo run by (simp add: core_req_unfold req_tag_def)
    ultimately show ?thesis using view_release [OF vc] Accept [of segs junk req g] by fastforce
  next
    case main
    show ?thesis by (rule core_req_main [OF v wf run main])
  qed
qed

section \<open>Core responses\<close>

lemma amo_ops_of_amo:
  assumes "is_amo req"
  obtains op where "amo_ops_of req = Some op" "unat (req_op req) = op_code op"
    "\<And>l s :: 'a::len word. amo_spec op l s \<noteq> None"
proof -
  let ?ops = "[HPDCACHE_REQ_AMO_SWAP, HPDCACHE_REQ_AMO_ADD, HPDCACHE_REQ_AMO_AND, HPDCACHE_REQ_AMO_OR, HPDCACHE_REQ_AMO_XOR,
      HPDCACHE_REQ_AMO_MAX, HPDCACHE_REQ_AMO_MAXU, HPDCACHE_REQ_AMO_MIN, HPDCACHE_REQ_AMO_MINU]"
  have "\<exists>op \<in> set ?ops. has_op req op" using assms by (auto simp: is_amo_def)
  then obtain op where f: "List.find (has_op req) ?ops = Some op" by (metis find_None_iff option.exhaust)
  then have op: "op \<in> set ?ops" "has_op req op" by (metis find_Some_iff nth_mem)+
  show thesis
    by (rule that [of op]) (use f op in \<open>auto simp: amo_ops_of_def has_op_def\<close>)
qed

lemma amo_lane_bytes:
  assumes "ucast (res :: u64) = (v :: u32)" "lane div 8 \<le> j" "j < lane div 8 + 4" "8 dvd lane"
  shows "byte_of (push_bit lane res) j = byte_of (push_bit lane (ucast v)) j"
proof -
  have "bit res n = bit v n" if "n < 32" for n using that assms(1) by (auto simp: bit_simps)
  then show ?thesis using assms(2-4) by (intro bit_word_eqI) (auto simp: bv_simps bit_simps elim!: dvdE)
qed

lemma req_amo_size:
  assumes "req_wf req" "req_is_amo req"
  shows "unat (req_size req) = 2 \<or> unat (req_size req) = 3"
proof -
  have "\<not> is_cmo req" using assms(2) cmo_not_amo by blast
  with assms show ?thesis by (auto simp: req_wf_def Let_def)
qed

lemma size_bytes_4: "unat (z :: size_bv) = 2 \<or> unat z = 3 \<Longrightarrow> (push_bit (unat z) 1 = (4 :: u8)) = (z = 2)"
  by (auto simp: word_unat_eq_iff)

lemma compute_amo_golden:
  assumes "req_wf req" "is_amo req"
    and "off = unat (req_addr req) mod 8 * 8"
    and "old = (if req_size req = 2 then ucast (ucast (drop_bit off d) :: u32) else d)"
    and "new = (if req_size req = 2 then ucast (ucast (drop_bit off (req_wdata req)) :: u32) else req_wdata req)"
  shows "\<exists>res. compute_amo (unat (req_op req)) old new (2 ^ unat (req_size req)) = Some res \<and>
     (\<forall>j < 8. bit (req_be req) j \<longrightarrow> byte_of (push_bit off res) j = byte_of (amo_word req d) j)"
proof -
  have am: "req_is_amo req" using assms(2) by (simp add: req_is_amo_def)
  have cm: "\<not> is_cmo req" using cmo_not_amo am by blast
  have be: "2 ^ unat (req_size req) dvd unat (req_addr req)"
      "\<forall>i < 8. bit (req_be req) i \<longleftrightarrow> unat (req_addr req) mod 8 \<le> i \<and> i < unat (req_addr req) mod 8 + 2 ^ unat (req_size req)"
    using assms(1) cm by (simp_all add: req_wf_def Let_def)
  show ?thesis
  proof (cases "req_size req = 2")
    case True
    obtain op where op: "amo_ops_of req = Some op" "unat (req_op req) = op_code op" "\<And>l s :: u32. amo_spec op l s \<noteq> None"
      by (rule amo_ops_of_amo [OF assms(2), where 'a = 32]) blast
    have lt: "old < 2 ^ 32" "new < 2 ^ 32"
      using True take_bit_nat_less_exp [of 32 "unat (drop_bit off d)"] take_bit_nat_less_exp [of 32 "unat (drop_bit off (req_wdata req))"]
      by (simp_all add: assms(4,5) word_less_nat_alt unsigned_ucast_eq unat_take_bit)
    have u: "ucast old = (ucast (drop_bit off d) :: u32)" "ucast new = (ucast (drop_bit off (req_wdata req)) :: u32)"
      using True by (auto simp: assms(4,5) bit_eq_iff bit_simps)
    obtain v where v: "amo_spec op (ucast (drop_bit off d) :: u32) (ucast (drop_bit off (req_wdata req))) = Some v"
      using op(3) by blast
    with compute_amo_word [OF lt, of op] u obtain res where res: "compute_amo (op_code op) old new 4 = Some res" "ucast res = v"
      by auto
    have "amo_word req d = push_bit off (ucast v)" using True op(1) v assms(3) by (simp add: amo_word_def)
    with res op(2) True be(2) amo_lane_bytes [OF res(2), of off] show ?thesis by (auto simp: assms(3))
  next
    case False
    then have sz: "unat (req_size req) = 3" using req_amo_size [OF assms(1) am] by (auto simp: word_unat_eq_iff)
    obtain op where op: "amo_ops_of req = Some op" "unat (req_op req) = op_code op" "\<And>l s :: u64. amo_spec op l s \<noteq> None"
      by (rule amo_ops_of_amo [OF assms(2), where 'a = 64]) blast
    obtain v where v: "amo_spec op d (req_wdata req) = Some v" using op(3) by blast
    have "off = 0" using be(1) sz by (simp add: assms(3) mod_eq_0_iff_dvd)
    with False sz op v show ?thesis by (simp add: assms(4,5) amo_word_def compute_amo_double_spec)
  qed
qed

text \<open>Only enabled bytes of a written word matter.\<close>

lemma put_word_cong:
  "(\<And>j. j < 8 \<Longrightarrow> bit (req_be req) j \<Longrightarrow> byte_of w j = byte_of w' j) \<Longrightarrow> put_word req w m = put_word req w' m"
  by (auto simp: put_word_def upd_bytes_def fun_eq_iff be_bit_def)

lemma view_put:
  assumes "view segs s g"
  obtains r where "ram_write (ram_m s) (bytes8 w) [req_be req] 8 (align_to (ucast (req_addr req)) 8) = Some r"
    "view segs (s\<lparr>ram_m := r\<rparr>) (g\<lparr>g_mem := put_word req w (g_mem g)\<rparr>)"
proof -
  have ram: "ram_ok (ram_m s)" "ram_N (ram_m s) = SCOREBOARD_RAM_SIZE" using assms by (simp_all add: view_def)
  obtain r where "ram_write (ram_m s) (bytes8 w) [req_be req] 8 (align_to (ucast (req_addr req)) 8) = Some r"
      "ram_ok r" "ram_N r = SCOREBOARD_RAM_SIZE"
      "ram_abs r = upd_bytes (bytes8 w) [req_be req] (unat (align_to (ucast (req_addr req)) 8) mod SCOREBOARD_RAM_SIZE) 0 8
         (ram_abs (ram_m s))"
    by (rule word_write [OF ram, of w "req_be req" "ucast (req_addr req)"]) blast
  with assms that show thesis by (auto simp: view_def put_word_def word_base_def)
qed

lemma check_sc_golden:
  assumes v: "view segs s g" and e: "entry_rel e ge" and sc: "is_amo_sc (ge_req ge)"
    and ok: "\<not> ge_error ge" and run: "check_sc resp e s = Next t"
  shows "view segs t (golden_check ge (rsp_rdata resp) g)"
proof -
  let ?req = "ge_req ge"
  have f: "e_is_amo_sc e" "e_is_atomic e = ge_atomic ge" "e_wdata e = [req_wdata ?req]" "e_be e = [req_be ?req]"
      "e_addr e = ucast (req_addr ?req)" "e_bytes e = push_bit (unat (req_size ?req)) 1" "req_wf ?req"
    using e sc by (simp_all add: entry_rel_def Let_def)
  have ex: "sc_is_atomic s = g_excl g" using v by (simp add: view_def)
  have b4: "(e_bytes e = 4) = (req_size ?req = 2)"
    using size_bytes_4 req_amo_size [OF f(7)] sc by (simp only: f(6)) (simp add: req_is_amo_def)
  obtain r where r: "ram_write (ram_m s) (bytes8 (req_wdata ?req)) [req_be ?req] 8 (align_to (ucast (req_addr ?req)) 8) = Some r"
      "view segs (s\<lparr>ram_m := r\<rparr>) (g\<lparr>g_mem := put_word ?req (req_wdata ?req) (g_mem g)\<rparr>)"
    by (rule view_put [OF v])
  have "check_sc resp e s = (if ge_atomic ge \<and> g_excl g
      then (if sc_code ?req (rsp_rdata resp) \<noteq> 0 then print_error Shall_be_sc_success (s\<lparr>ram_m := r\<rparr>) else Next (s\<lparr>ram_m := r\<rparr>))
      else if sc_code ?req (rsp_rdata resp) \<noteq> 1 then print_error Shall_be_sc_failure s else Next s)"
    unfolding check_sc_def Let_def b4
    using f(1-5) r(1) ex by (simp add: sc_code_def resp_word_def resp_words_1 cong: if_cong)
  with run sc v r(2) view_print [OF v, of Shall_be_sc_failure t] view_print [OF r(2), of Shall_be_sc_success t] show ?thesis
    by (auto simp: golden_check_def Let_def split: if_splits)
qed

lemma check_data_golden:
  assumes v: "view segs s g" and e: "entry_rel e ge" and rd: "reads_data (ge_req ge)" and ok: "\<not> ge_error ge"
  shows "check_data resp e s = Next (report (wrong_bytes (ge_seen ge) (ge_req ge) (rsp_rdata resp)) s)"
proof -
  let ?req = "ge_req ge" and ?m = "ge_seen ge" and ?d = "rsp_rdata resp"
  have f: "e_addr e = ucast (req_addr ?req)" "unat (e_bytes e) = 2 ^ unat (req_size ?req)" "req_wf ?req"
      "e_is_read e \<or> e_is_amo e \<or> e_is_amo_lr e" "snapshot ?req ?m e"
    using e rd ok by (auto simp: entry_rel_def Let_def reads_data_def unat_size_byte)
  obtain w rv where w: "e_rdata e = [w]" "e_rv e = [rv]" "\<forall>j < 8. bit rv j \<longleftrightarrow> ?m (word_base ?req + j) \<noteq> None"
      "\<forall>j < 8. \<forall>b. ?m (word_base ?req + j) = Some b \<longrightarrow> byte_of w j = b"
    using f(5) by (auto simp: snapshot_def)
  have fit: "unat (req_addr ?req) mod 8 + 2 ^ unat (req_size ?req) \<le> 8"
    using req_wf_fits [OF f(3)] rd by (auto simp: req_fits_def reads_data_def)
  have lim: "sb_error_limit_m s = 0" using v by (simp add: view_def)
  let ?al = "align_to (ucast (req_addr ?req)) 8 :: u64"
  have "check_data resp e s = Next (report (map (\<lambda>j. Wrong_data (?al + of_nat j) (byte_of ?d j) (byte_of w j))
       (filter (\<lambda>j. bit rv j \<and> byte_of ?d j \<noteq> byte_of w j) (access_bytes ?req))) s)"
    using f(1,2,4) w(1,2) check_bytes_word [OF lim fit, of ?al ?d w rv]
    by (simp add: check_data_def resp_words_1 access_bytes_def)
  also have "map (\<lambda>j. Wrong_data (?al + of_nat j) (byte_of ?d j) (byte_of w j))
       (filter (\<lambda>j. bit rv j \<and> byte_of ?d j \<noteq> byte_of w j) (access_bytes ?req)) = wrong_bytes ?m ?req ?d"
    unfolding wrong_bytes_def
  proof (intro map_cong filter_cong refl)
    fix j assume "j \<in> set (access_bytes ?req)"
    then have "j < 8" using fit by (auto simp: access_bytes_def)
    with w(3,4) show "(bit rv j \<and> byte_of ?d j \<noteq> byte_of w j) =
        (?m (word_base ?req + j) \<noteq> None \<and> ?m (word_base ?req + j) \<noteq> Some (byte_of ?d j))" by auto
  next
    fix j assume "j \<in> set (filter (\<lambda>j. ?m (word_base ?req + j) \<noteq> None \<and> ?m (word_base ?req + j) \<noteq> Some (byte_of ?d j)) (access_bytes ?req))"
    then have "j < 8" "?m (word_base ?req + j) \<noteq> None" using fit by (auto simp: access_bytes_def)
    with w(4) show "Wrong_data (?al + of_nat j) (byte_of ?d j) (byte_of w j) =
        Wrong_data (?al + of_nat j) (byte_of ?d j) (the (?m (word_base ?req + j)))" by auto
  qed
  finally show ?thesis .
qed

lemma wrong_bytes_core: "m \<in> set (wrong_bytes seen req d) \<Longrightarrow> core_error m"
  by (auto simp: wrong_bytes_def)

lemma update_amo_golden:
  assumes v: "view segs s g" and e: "entry_rel e ge" and amo: "is_amo (ge_req ge)" and run: "update_amo resp e s = Next t"
  shows "view segs t (g\<lparr>g_mem := put_word (ge_req ge) (amo_word (ge_req ge) (rsp_rdata resp)) (g_mem g)\<rparr>)"
proof -
  let ?req = "ge_req ge" and ?d = "rsp_rdata resp"
  define off where "off = unat (req_addr ?req) mod 8 * 8"
  define old where "old = (if req_size ?req = 2 then ucast (ucast (drop_bit off ?d) :: u32) else ?d)"
  define new where "new = (if req_size ?req = 2 then ucast (ucast (drop_bit off (req_wdata ?req)) :: u32) else req_wdata ?req)"
  have f: "e_is_amo e" "e_wdata e = [req_wdata ?req]" "e_be e = [req_be ?req]" "e_addr e = ucast (req_addr ?req)"
      "e_bytes e = push_bit (unat (req_size ?req)) 1" "req_wf ?req" "e_op e = unat (req_op ?req)"
    using e amo by (simp_all add: entry_rel_def Let_def)
  have b4: "(e_bytes e = 4) = (req_size ?req = 2)"
    using size_bytes_4 req_amo_size [OF f(6)] amo by (simp only: f(5)) (simp add: req_is_amo_def)
  have n: "unat (e_bytes e) = 2 ^ unat (req_size ?req)" by (simp add: f(5) unat_size_byte)
  obtain res where res: "compute_amo (unat (req_op ?req)) old new (2 ^ unat (req_size ?req)) = Some res"
      "\<forall>j < 8. bit (req_be ?req) j \<longrightarrow> byte_of (push_bit off res) j = byte_of (amo_word ?req ?d) j"
    using compute_amo_golden [OF f(6) amo off_def old_def new_def] by blast
  obtain r where r: "ram_write (ram_m s) (bytes8 (push_bit off res)) [req_be ?req] 8 (align_to (ucast (req_addr ?req)) 8) = Some r"
      "view segs (s\<lparr>ram_m := r\<rparr>) (g\<lparr>g_mem := put_word ?req (push_bit off res) (g_mem g)\<rparr>)"
    by (rule view_put [OF v])
  have "update_amo resp e s = Next (s\<lparr>ram_m := r\<rparr>)"
    unfolding update_amo_def Let_def b4 n
    using f(1-4,7) r(1) res(1) by (cases "req_size ?req = 2") (simp_all add: resp_word_def resp_words_1 off_def old_def new_def)
  with run r(2) put_word_cong [of ?req "push_bit off res"] res(2) show ?thesis by simp
qed

lemma checks_golden:
  assumes v: "view segs s g" and e: "entry_rel e ge" and ok: "\<not> ge_error ge"
    and run: "seq_out (seq_out (check_sc resp e s) (check_data resp e)) (update_amo resp e) = Next t"
  shows "view segs t (golden_check ge (rsp_rdata resp) g)"
proof -
  let ?req = "ge_req ge" and ?ms = "wrong_bytes (ge_seen ge) (ge_req ge) (rsp_rdata resp)"
  have k: "e_is_read e = is_load ?req" "e_is_amo e = is_amo ?req" "e_is_amo_sc e = is_amo_sc ?req" "e_is_amo_lr e = is_amo_lr ?req"
    using e by (simp_all add: entry_rel_def Let_def)
  consider (sc) "is_amo_sc ?req" "\<not> reads_data ?req" "\<not> is_amo ?req" | (rd) "\<not> is_amo_sc ?req" "reads_data ?req"
    | (no) "\<not> is_amo_sc ?req" "\<not> reads_data ?req" "\<not> is_amo ?req"
    using sc_exclusive [of ?req] by (auto simp: reads_data_def)
  then show ?thesis
  proof cases
    case sc
    with run k have "check_sc resp e s = Next t"
      by (cases "check_sc resp e s") (auto simp: check_data_def update_amo_def reads_data_def)
    from check_sc_golden [OF v e sc(1) ok this] show ?thesis .
  next
    case rd
    have w: "view segs (report ?ms s) (say ?ms g)" using view_report [OF v] wrong_bytes_core by blast
    have u: "update_amo resp e (report ?ms s) = Next t"
      using run k rd check_data_golden [OF v e rd(2) ok, of resp] by (simp add: check_sc_def)
    have "view segs t ((say ?ms g)\<lparr>g_mem := (if is_amo ?req then put_word ?req (amo_word ?req (rsp_rdata resp)) (g_mem g) else g_mem g)\<rparr>)"
      using update_amo_golden [OF w e _ u] u w k(2) by (cases "is_amo ?req") (auto simp: update_amo_def say_mem)
    with rd show ?thesis by (simp add: golden_check_def Let_def say_mem)
  next
    case no
    with run k v show ?thesis by (simp add: check_sc_def check_data_def update_amo_def reads_data_def golden_check_def)
  qed
qed

lemma golden_check_open [simp]: "g_open (golden_check ge d g) = g_open g"
  by (simp add: golden_check_def Let_def)

lemma view_close:
  assumes "view segs s g" "release_id k (s\<lparr>inflight_m := smap_erase k (inflight_m s)\<rparr>) = Next t"
  shows "view segs t (g\<lparr>g_open := (g_open g)(k := None)\<rparr>)"
proof (rule view_release [OF _ assms(2)])
  show "view segs (s\<lparr>inflight_m := smap_erase k (inflight_m s)\<rparr>) (g\<lparr>g_open := (g_open g)(k := None)\<rparr>)"
    using assms(1) by (auto simp: view_def)
qed

lemma core_resp_sim:
  assumes v: "view segs s g" and run: "core_resp_process resp s = Next t"
  shows "view segs t (golden_resp resp g)"
proof -
  let ?k = "ucast (rsp_tid resp) :: u32"
  let ?s = "s\<lparr>nb_core_resp := nb_core_resp s + 1, nb_cycles_effective := nb_cycles s\<rparr>"
  have vs: "view segs ?s g" using v by (simp add: view_def)
  have rel: "rel_option entry_rel (smap_find (inflight_m s) ?k) (g_open g ?k)" using v by (simp add: view_def)
  show ?thesis
  proof (cases "smap_find (inflight_m s) ?k")
    case None
    with run have "print_error (Core_resp_no_match ?k) ?s = Next t" by (simp add: core_resp_process_def Let_def)
    with view_print [OF vs] None rel show ?thesis by (simp add: golden_resp_def)
  next
    case (Some e)
    with rel obtain ge where ge: "g_open g ?k = Some ge" "entry_rel e ge" by (auto simp: option_rel_Some1)
    then have f: "e_is_write e = is_store (ge_req ge)" "e_is_error e = ge_error ge" by (simp_all add: entry_rel_def Let_def)
    show ?thesis
    proof (cases "\<not> is_store (ge_req ge) \<and> rsp_error resp \<noteq> ge_error ge")
      case True
      with run Some f have "print_error Unexpected_error_flag ?s = Next t" by (simp add: core_resp_process_def Let_def)
      with view_print [OF vs] True ge(1) show ?thesis by (simp add: golden_resp_def)
    next
      case False
      let ?c = "if \<not> e_is_error e then seq_out (seq_out (check_sc resp e ?s) (check_data resp e)) (update_amo resp e) else Next ?s"
      have "seq_out ?c (\<lambda>s. release_id ?k (s\<lparr>inflight_m := smap_erase ?k (inflight_m s)\<rparr>)) = Next t"
        using run Some f False by (auto simp: core_resp_process_def Let_def)
      then obtain u where u: "?c = Next u" "release_id ?k (u\<lparr>inflight_m := smap_erase ?k (inflight_m u)\<rparr>) = Next t"
        by (auto simp: seq_out_Next_iff)
      have "view segs u (if ge_error ge then g else golden_check ge (rsp_rdata resp) g)"
        using u(1) vs checks_golden [OF vs ge(2)] f(2) by (auto split: if_splits)
      from view_close [OF this u(2)] False ge(1) show ?thesis by (cases "ge_error ge") (auto simp: golden_resp_def Let_def)
    qed
  qed
qed

section \<open>The memory side\<close>

lemma view_print_mem: "view segs s g \<Longrightarrow> \<not> core_error m \<Longrightarrow> print_error m s = Next t \<Longrightarrow> view segs t g"
  by (auto simp: view_def print_error_no_limit)

text \<open>\<open>keeps_view\<close>: whatever the outcome continues with, the judge sees no difference.\<close>

definition keeps_view :: "segment_t list \<Rightarrow> golden \<Rightarrow> scoreboard outcome \<Rightarrow> bool" where
  "keeps_view segs g r \<longleftrightarrow> (\<forall>t. r = Next t \<longrightarrow> view segs t g)"

lemma keeps_view_simps [simp]:
  "keeps_view segs g (Next s) = view segs s g" "keeps_view segs g Undefined" "keeps_view segs g (Exit c s)"
  by (simp_all add: keeps_view_def)

lemma keeps_view_print [simp]: "view segs s g \<Longrightarrow> \<not> core_error m \<Longrightarrow> keeps_view segs g (print_error m s)"
  unfolding keeps_view_def by (blast intro: view_print_mem)

lemma keeps_view_single [simp]: "view segs s g \<Longrightarrow> keeps_view segs g (check_single_atomic s)"
  by (simp add: check_single_atomic_def)

lemma keeps_view_seq:
  "keeps_view segs g r \<Longrightarrow> (\<And>s. view segs s g \<Longrightarrow> keeps_view segs g (f s)) \<Longrightarrow> keeps_view segs g (seq_out r f)"
  by (auto simp: keeps_view_def seq_out_Next_iff)

lemma view_mem_upd [simp]:
  "view segs (s\<lparr>inflight_mem_read_m := x\<rparr>) g = view segs s g" "view segs (s\<lparr>inflight_mem_write_m := y\<rparr>) g = view segs s g"
  "view segs (s\<lparr>inflight_amo_req_m := q\<rparr>) g = view segs s g" "view segs (s\<lparr>nb_mem_read_req := a\<rparr>) g = view segs s g"
  "view segs (s\<lparr>nb_mem_write_req := b\<rparr>) g = view segs s g" "view segs (s\<lparr>nb_mem_read_resp := c\<rparr>) g = view segs s g"
  "view segs (s\<lparr>nb_mem_write_resp := d\<rparr>) g = view segs s g"
  by (simp_all add: view_def)

lemma mem_read_req_view: "view segs s g \<Longrightarrow> keeps_view segs g (mem_read_req_process req s)"
  by (auto simp: mem_read_req_process_def Let_def split: option.split list.split intro!: keeps_view_seq)

lemma mem_write_req_view: "view segs s g \<Longrightarrow> keeps_view segs g (mem_write_req_process req s)"
  by (auto simp: mem_write_req_process_def mem_write_amo_def mem_write_stex_def Let_def
      split: option.split list.split intro!: keeps_view_seq)

lemma refill_learns:
  assumes "ram_ok r" "ram_N r = SCOREBOARD_RAM_SIZE" "refill resp e r = Some r'"
  shows "ram_ok r' \<and> ram_N r' = SCOREBOARD_RAM_SIZE \<and> learns resp (ram_abs r) (ram_abs r')"
proof -
  let ?l = "line_base (me_addr e)"
  have keep: "ram_ok r'" "ram_N r' = SCOREBOARD_RAM_SIZE" "\<And>a b. ram_abs r a = Some b \<Longrightarrow> ram_abs r' a = Some b"
    using refill_ok [OF assms] by auto
  obtain u where spec: "refill_spec r resp e u" using refill_cases [OF assms(1,2)] by blast
  then obtain be where r': "ram_abs r' = upd_bytes (line_bytes resp) be ?l 0 64 (ram_abs r)"
    using assms(3) by (cases "refill_be u e") (auto simp: refill_spec_def)
  have "64 dvd ?l"
    using unat_align_to [of 64 "me_addr e"] by (simp add: line_base_def dvd_mod_iff)
  then have "ram_abs r' a = ram_abs r a \<or> ram_abs r' a = Some (line_bytes resp ! (a mod 64))" for a
    by (auto simp: r' upd_bytes_def elim!: dvdE) (metis add_diff_cancel_left' le_Suc_ex mod_less mod_mult_self4 nat_add_left_cancel_less)
  with keep show ?thesis unfolding learns_def by (metis option.exhaust)
qed

lemma mem_read_resp_sim:
  assumes v: "view segs s g" and run: "mem_read_resp_process resp s = Next t"
  shows "\<exists>g'. golden_step segs (Mem_read_resp resp) g g' \<and> view segs t g'"
proof -
  let ?s = "s\<lparr>nb_mem_read_resp := nb_mem_read_resp s + 1\<rparr>" and ?k = "ucast (rresp_id resp) :: u64"
  have vs: "view segs ?s g" and ram: "ram_ok (ram_m s)" "ram_N (ram_m s) = SCOREBOARD_RAM_SIZE" "ram_abs (ram_m s) = g_mem g"
    using v by (simp_all add: view_def)
  have sil: "golden_step segs (Mem_read_resp resp) g g" by (rule Silent) simp
  show ?thesis
  proof (cases "smap_find (inflight_mem_read_m s) ?k")
    case None
    with run have "print_error (Mem_read_resp_no_match (rresp_id resp)) ?s = Next t"
      by (simp add: mem_read_resp_process_def Let_def)
    from view_print_mem [OF vs _ this] sil show ?thesis by auto
  next
    case (Some e)
    show ?thesis
    proof (cases "rresp_error resp = 0")
      case False
      with Some run vs sil show ?thesis by (auto simp: mem_read_resp_process_def Let_def intro!: exI [of _ g])
    next
      case True
      with Some run obtain r where r: "refill resp e (ram_m s) = Some r"
          "t = (if rresp_last resp then ?s\<lparr>ram_m := r, inflight_mem_read_m := smap_erase ?k (inflight_mem_read_m s)\<rparr> else ?s\<lparr>ram_m := r\<rparr>)"
        by (auto simp: mem_read_resp_process_def Let_def split: option.splits)
      have l: "ram_ok r" "ram_N r = SCOREBOARD_RAM_SIZE" "learns resp (g_mem g) (ram_abs r)"
        using refill_learns [OF ram(1,2) r(1)] ram(3) by simp_all
      have "view segs (?s\<lparr>ram_m := r\<rparr>) (g\<lparr>g_mem := ram_abs r\<rparr>)" using vs l by (simp add: view_def)
      then have "view segs t (g\<lparr>g_mem := ram_abs r\<rparr>)" by (simp add: r(2) view_def)
      with Learn [OF l(3)] show ?thesis by blast
    qed
  qed
qed

lemma mem_write_resp_sim:
  assumes v: "view segs s g" and run: "mem_write_resp_process resp s = Next t"
  shows "\<exists>g'. golden_step segs (Mem_write_resp resp) g g' \<and> view segs t g'"
proof (cases "smap_find (inflight_mem_write_m s) (ucast (wresp_id resp))")
  case None
  with run have "print_error (Mem_write_resp_no_match (wresp_id resp)) (s\<lparr>nb_mem_write_resp := nb_mem_write_resp s + 1\<rparr>) = Next t"
    by (simp add: mem_write_resp_process_def Let_def)
  from view_print_mem [OF _ _ this, of segs g] v Silent [of "Mem_write_resp resp" segs g] show ?thesis by auto
next
  case (Some e)
  with run v have "view segs t (g\<lparr>g_excl := wresp_is_atomic resp\<rparr>)"
    by (auto simp: mem_write_resp_process_def Let_def view_def)
  with Ack show ?thesis by blast
qed

section \<open>Runs\<close>

lemma sb_handle_sim:
  assumes s: "sim segs s g" and ok: "event_ok v" and run: "sb_handle v s = Next t"
  shows "\<exists>g'. golden_step segs v g g' \<and> sim segs t g'"
proof -
  have v: "view segs s g" and inv: "sb_inv t"
    using s sb_handle_inv [of s v] run by (auto simp: sim_view)
  have keep: "\<exists>g'. golden_step segs v g g' \<and> view segs t g'" if "silent v" "keeps_view segs g (sb_handle v s)"
    using Silent [OF that(1)] that(2) run by (auto simp: keeps_view_def)
  have "\<exists>g'. golden_step segs v g g' \<and> view segs t g'"
  proof (cases v)
    case (Core_req junk req)
    with core_req_sim [OF v] ok run show ?thesis by simp
  next
    case (Core_resp resp)
    with core_resp_sim [OF v] run Judge [of segs resp g] show ?thesis by auto
  next
    case (Mem_read_resp resp)
    with mem_read_resp_sim [OF v] run show ?thesis by simp
  next
    case (Mem_write_resp resp)
    with mem_write_resp_sim [OF v] run show ?thesis by simp
  next
    case (Seq_allocate rnd)
    with v show ?thesis by (intro keep) (auto simp: seq_allocate_def view_def split: option.split)
  next
    case (Mem_read_req req)
    with mem_read_req_view [OF v] show ?thesis by (intro keep) auto
  next
    case (Mem_write_req req)
    with mem_write_req_view [OF v] show ?thesis by (intro keep) auto
  next
    case (Clk_pos sig)
    with v show ?thesis by (intro keep) (auto simp: perf_events_process_def view_def)
  next
    case Clk_neg
    with v show ?thesis by (intro keep) (auto simp: check_inflight_requests_def view_def)
  qed
  with inv show ?thesis by (auto simp: sim_view)
qed

lemma sb_run_sim:
  assumes "sim segs s g" "\<forall>v \<in> set vs. event_ok v" "sb_run vs s = Next t"
  shows "\<exists>g'. golden_run segs vs g g' \<and> sim segs t g'"
  using assms
proof (induction vs arbitrary: s g)
  case Nil
  then show ?case by (auto intro: Done)
next
  case (Cons v vs)
  then obtain u where u: "sb_handle v s = Next u" "sb_run vs u = Next t" by (auto simp: seq_out_Next_iff)
  with sb_handle_sim [OF Cons.prems(1) _ u(1)] Cons.prems(2) obtain g' where "golden_step segs v g g'" "sim segs u g'" by auto
  moreover from this obtain g'' where "golden_run segs vs g' g''" "sim segs t g''"
    using Cons.IH [OF _ _ u(2)] Cons.prems(2) by auto
  ultimately show ?case by (blast intro: More)
qed

lemma sim_start: "sim segs (sb_start junk ids segs 0) (golden_start (rsv_abs junk))"
  using sb_start_inv [of junk ids segs 0]
  by (simp add: sim_def sb_start_defs golden_start_def ram_init_def ram_abs_def fun_eq_iff)

section \<open>Progress\<close>

text \<open>Without an error limit no handler of a well-formed event stops the simulation.\<close>

definition limit_exit :: "scoreboard outcome \<Rightarrow> bool" where
  "limit_exit r \<longleftrightarrow> (\<forall>c t. r = Exit c t \<longrightarrow> c = 1)"

lemma limit_exit_simps [simp]:
  "limit_exit (Next s)" "limit_exit Undefined" "limit_exit (Exit c s) = (c = 1)" "limit_exit (print_error m s)"
  "limit_exit (release_id i s)" "limit_exit (check_single_atomic s)"
  by (auto simp: limit_exit_def print_error_def release_id_def check_single_atomic_def Let_def split: option.splits if_splits)

lemma limit_exit_seq: "limit_exit r \<Longrightarrow> (\<And>s. r = Next s \<Longrightarrow> limit_exit (f s)) \<Longrightarrow> limit_exit (seq_out r f)"
  by (cases r) auto

lemma limit_exit_share: "limit_exit (share_atomic req e s)"
  by (auto simp: share_atomic_def Let_def record_store_def track_request_def split: option.split intro!: limit_exit_seq)

lemma limit_exit_core_req: "limit_exit (core_req_process junk req s)"
  by (auto simp: core_req_unfold limit_exit_share split: option.split prod.split)

lemma limit_exit_check_sc: "limit_exit (check_sc resp e s)"
  by (auto simp: check_sc_def Let_def split: option.split)

lemma limit_exit_check_bytes: "limit_exit (check_bytes a recv expc rv i n s)"
  by (induction n arbitrary: i s) (auto intro!: limit_exit_seq)

lemma limit_exit_check_data: "limit_exit (check_data resp e s)"
  by (simp add: check_data_def limit_exit_check_bytes)

lemma update_amo_limit_exit:
  assumes "entry_rel e ge"
  shows "limit_exit (update_amo resp e s)"
proof (cases "is_amo (ge_req ge)")
  case True
  let ?req = "ge_req ge"
  have f: "e_wdata e = [req_wdata ?req]" "e_addr e = ucast (req_addr ?req)" "e_bytes e = push_bit (unat (req_size ?req)) 1"
      "req_wf ?req" "e_op e = unat (req_op ?req)"
    using assms True by (simp_all add: entry_rel_def Let_def)
  have b4: "(e_bytes e = 4) = (req_size ?req = 2)"
    using size_bytes_4 req_amo_size [OF f(4)] True by (simp only: f(3)) (simp add: req_is_amo_def)
  have n: "unat (e_bytes e) = 2 ^ unat (req_size ?req)" by (simp add: f(3) unat_size_byte)
  from compute_amo_golden [OF f(4) True refl refl refl, of "rsp_rdata resp"] f(1,2,5) show ?thesis
    unfolding update_amo_def Let_def b4 n
    by (cases "req_size ?req = 2") (auto simp: resp_word_def resp_words_1 split: option.split)
next
  case False
  with assms show ?thesis by (simp add: update_amo_def entry_rel_def Let_def)
qed

lemma limit_exit_core_resp:
  assumes "view segs s g"
  shows "limit_exit (core_resp_process resp s)"
proof -
  have "limit_exit (update_amo resp e t)" if "smap_find (inflight_m s) (ucast (rsp_tid resp)) = Some e" for e t
  proof -
    have "rel_option entry_rel (Some e) (g_open g (ucast (rsp_tid resp)))"
      using assms that unfolding view_def by metis
    then obtain ge where "entry_rel e ge" by (auto simp: option_rel_Some1)
    then show ?thesis by (rule update_amo_limit_exit)
  qed
  then show ?thesis
    by (auto simp: core_resp_process_def Let_def limit_exit_check_sc limit_exit_check_data split: option.split intro!: limit_exit_seq)
qed

definition id_granted :: "scoreboard \<Rightarrow> sb_event \<Rightarrow> bool" where
  "id_granted s v \<longleftrightarrow> (\<forall>rnd. v = Seq_allocate rnd \<longrightarrow> (\<exists>ids. sb_seq s = Some ids \<and> allocate_id rnd ids \<noteq> None))"

lemma limit_exit_handle:
  assumes "view segs s g" "id_granted s v"
  shows "limit_exit (sb_handle v s)"
proof (cases v)
  case (Seq_allocate rnd)
  with assms(2) show ?thesis by (auto simp: id_granted_def seq_allocate_def)
qed (auto simp: limit_exit_core_req limit_exit_core_resp [OF assms(1)] mem_read_req_process_def mem_read_resp_process_def
      mem_write_req_process_def mem_write_resp_process_def mem_write_amo_def mem_write_stex_def Let_def
      split: option.split list.split intro!: limit_exit_seq)

lemma sb_handle_progress:
  assumes s: "sim segs s g" "fits_table s" and ok: "event_ok v" "\<not> bad_refill s v" "id_granted s v"
  shows "\<exists>t. sb_handle v s = Next t \<and> fits_table t"
proof -
  have safe: "sb_safe s" using s by (auto simp: sim_def sb_safe_def)
  have le: "limit_exit (sb_handle v s)" using limit_exit_handle [of segs s g] s(1) ok(3) by (simp add: sim_view)
  have inv: "out_all sb_inv sb_exit (sb_handle v s)" "setup_out 0 (Some segs) (sb_handle v s)"
    using s(1) sb_handle_inv [of s v] setup_out_handle [of 0 "Some segs" s v] unfolding sim_def by blast+
  show ?thesis
    using sb_handle_defined [OF safe ok(1,2)] le inv by (cases "sb_handle v s") (auto simp: sb_safe_def sb_exit_def)
qed

text \<open>
  A run of well-formed events goes through, or stops at the first refill that is undefined or at the
  first allocation of an identifier when none is free.
\<close>

lemma sb_run_stops:
  assumes "sim segs s g" "fits_table s" "\<forall>v \<in> set vs. event_ok v"
  shows "(\<exists>t. sb_run vs s = Next t) \<or>
    (\<exists>us v ws t. vs = us @ v # ws \<and> sb_run us s = Next t \<and> (bad_refill t v \<or> \<not> id_granted t v))"
  using assms
proof (induction vs arbitrary: s g)
  case Nil
  then show ?case by simp
next
  case (Cons v vs)
  show ?case
  proof (cases "bad_refill s v \<or> \<not> id_granted s v")
    case True
    then have "v # vs = [] @ v # vs \<and> sb_run [] s = Next s \<and> (bad_refill s v \<or> \<not> id_granted s v)" by simp
    then show ?thesis by blast
  next
    case False
    with Cons.prems obtain u where u: "sb_handle v s = Next u" "fits_table u"
      using sb_handle_progress [of segs s g v] by auto
    moreover obtain g' where "sim segs u g'" using sb_handle_sim [OF Cons.prems(1) _ u(1)] Cons.prems(3) by auto
    ultimately consider t where "sb_run vs u = Next t"
      | us w ws t where "vs = us @ w # ws" "sb_run us u = Next t" "bad_refill t w \<or> \<not> id_granted t w"
      using Cons.IH [of u g'] Cons.prems(3) by auto
    then show ?thesis
    proof cases
      case 1
      with u(1) show ?thesis by simp
    next
      case (2 us w ws t)
      with u(1) have "v # vs = (v # us) @ w # ws \<and> sb_run (v # us) s = Next t \<and> (bad_refill t w \<or> \<not> id_granted t w)" by simp
      then show ?thesis by blast
    qed
  qed
qed

text \<open>Runs of the core side alone, with arbitrary memory requests and acknowledgements, always go through.\<close>

fun core_side :: "sb_event \<Rightarrow> bool" where
  "core_side (Mem_read_resp resp) = (rresp_error resp \<noteq> 0)"
| "core_side (Seq_allocate rnd) = False"
| "core_side v = True"

lemma core_side_fine: "core_side v \<Longrightarrow> \<not> bad_refill s v \<and> id_granted s v"
  by (cases v) (auto simp: bad_refill_def id_granted_def)

lemma sb_run_progress:
  assumes "sim segs s g" "fits_table s" "\<forall>v \<in> set vs. event_ok v \<and> core_side v"
  shows "\<exists>t g'. sb_run vs s = Next t \<and> golden_run segs vs g g' \<and> sim segs t g'"
  using assms
proof (induction vs arbitrary: s g)
  case Nil
  then show ?case by (auto intro: Done)
next
  case (Cons v vs)
  then have v: "event_ok v" "\<not> bad_refill s v" "id_granted s v" using core_side_fine by auto
  obtain u where u: "sb_handle v s = Next u" "fits_table u" using sb_handle_progress [OF Cons.prems(1,2) v] by blast
  obtain g' where g': "golden_step segs v g g'" "sim segs u g'" using sb_handle_sim [OF Cons.prems(1) v(1) u(1)] by blast
  obtain t g'' where "sb_run vs u = Next t" "golden_run segs vs g' g''" "sim segs t g''"
    using Cons.IH [OF g'(2) u(2)] Cons.prems(3) by auto
  with u(1) g'(1) show ?case by (auto intro: More)
qed

lemma start_fits: "fits_table (sb_start junk ids segs limit)"
  by (simp add: fits_table_def sb_start_defs)

end
