(* ===== verification/Coherence.thy ===== *)
theory Coherence
  imports Golden
begin

text \<open>
  No false alarms. A reference system executes the same events on a plain memory with the full
  addresses: stores when they are accepted, AMOs and successful store-conditionals when they are
  answered. A cache is truthful when every answer carries the bytes this memory held when its request
  was accepted, and the memory behind it is truthful when it returns those bytes wherever the core has
  not written yet. The scoreboard folds addresses into its 16 MiB, so the addresses of a run must not
  meet there (\<open>alias_free\<close>).
\<close>

section \<open>The reference system\<close>

record ref_state =
  rf_mem :: "nat \<Rightarrow> u8"
  rf_written :: "nat \<Rightarrow> bool"
  rf_open :: "u32 \<Rightarrow> (hpdcache_test_transaction_req \<times> (nat \<Rightarrow> u8) \<times> (nat \<Rightarrow> bool)) option"
  rf_reads :: "u64 \<Rightarrow> (u64 \<times> u8) option"

definition ref_start :: "(nat \<Rightarrow> u8) \<Rightarrow> ref_state" where
  "ref_start m = \<lparr>rf_mem = m, rf_written = (\<lambda>_. False), rf_open = (\<lambda>_. None), rf_reads = (\<lambda>_. None)\<rparr>"

definition word_addr :: "hpdcache_test_transaction_req \<Rightarrow> nat" where
  "word_addr req = unat (req_addr req) div 8 * 8"

definition enabled :: "hpdcache_test_transaction_req \<Rightarrow> nat \<Rightarrow> bool" where
  "enabled req a \<longleftrightarrow> word_addr req \<le> a \<and> a < word_addr req + 8 \<and> bit (req_be req) (a - word_addr req)"

definition write_word :: "hpdcache_test_transaction_req \<Rightarrow> u64 \<Rightarrow> ref_state \<Rightarrow> ref_state" where
  "write_word req w r =
     r\<lparr>rf_mem := (\<lambda>a. if enabled req a then byte_of w (a - word_addr req) else rf_mem r a),
       rf_written := (\<lambda>a. enabled req a \<or> rf_written r a)\<rparr>"

definition note_read :: "'a hpdcache_test_transaction_mem_req_scheme \<Rightarrow> ref_state \<Rightarrow> ref_state" where
  "note_read req r =
     (if rf_reads r (ucast (mreq_id req)) = None
      then r\<lparr>rf_reads := (rf_reads r)(ucast (mreq_id req) \<mapsto> (mreq_addr req, ucast (push_bit (unat (mreq_size req)) 1 :: u64)))\<rparr>
      else r)"

definition ref_request :: "segment_t list \<Rightarrow> hpdcache_test_transaction_req \<Rightarrow> ref_state \<Rightarrow> ref_state" where
  "ref_request segs req r =
     (if rf_open r (req_tag req) \<noteq> None \<or> (is_cmo req \<and> \<not> req_need_rsp req) then r
      else (if is_store req \<and> \<not> expects_error segs req then write_word req (req_wdata req) r else r)
             \<lparr>rf_open := (if req_need_rsp req then (rf_open r)(req_tag req \<mapsto> (req, rf_mem r, rf_written r)) else rf_open r)\<rparr>)"

definition ref_response :: "hpdcache_test_transaction_resp \<Rightarrow> ref_state \<Rightarrow> ref_state" where
  "ref_response resp r =
     (case rf_open r (ucast (rsp_tid resp)) of
        None \<Rightarrow> r
      | Some (req, seen, known) \<Rightarrow>
          (if rsp_error resp then r
           else if is_amo_sc req \<and> sc_code req (rsp_rdata resp) = 0 then write_word req (req_wdata req) r
           else if is_amo req then write_word req (amo_word req (rsp_rdata resp)) r
           else r)\<lparr>rf_open := (rf_open r)(ucast (rsp_tid resp) := None)\<rparr>)"

fun ref_step :: "segment_t list \<Rightarrow> sb_event \<Rightarrow> ref_state \<Rightarrow> ref_state" where
  "ref_step segs (Core_req junk req) r = ref_request segs req r"
| "ref_step segs (Core_resp resp) r = ref_response resp r"
| "ref_step segs (Mem_read_req req) r = note_read req r"
| "ref_step segs (Mem_write_req req) r = (if mem_is_amo req then note_read req r else r)"
| "ref_step segs (Mem_read_resp resp) r =
     (if rresp_last resp then r\<lparr>rf_reads := (rf_reads r)(ucast (rresp_id resp) := None)\<rparr> else r)"
| "ref_step segs v r = r"

text \<open>The bytes of the line a memory transfer moves.\<close>

definition line_addr :: "u64 \<Rightarrow> nat" where
  "line_addr a = unat a div 64 * 64"

definition transfer_bytes :: "u64 \<Rightarrow> u8 \<Rightarrow> nat list" where
  "transfer_bytes a n = filter (\<lambda>j. j < 64) [unat a mod 64..<unat a mod 64 + unat n]"

fun truthful :: "ref_state \<Rightarrow> sb_event \<Rightarrow> bool" where
  "truthful r (Core_resp resp) =
     (case rf_open r (ucast (rsp_tid resp)) of
        None \<Rightarrow> True
      | Some (req, seen, known) \<Rightarrow>
          (if reads_data req \<and> \<not> rsp_error resp
           then list_all (\<lambda>j. byte_of (rsp_rdata resp) j = seen (word_addr req + j)) (access_bytes req) else True))"
| "truthful r (Mem_read_resp resp) =
     (case rf_reads r (ucast (rresp_id resp)) of
        None \<Rightarrow> True
      | Some (a, n) \<Rightarrow>
          (if rresp_error resp = 0
           then list_all (\<lambda>j. rf_written r (line_addr a + j) \<or> line_bytes resp ! j = rf_mem r (line_addr a + j))
                  (transfer_bytes a n) else True))"
| "truthful r v = True"

fun honest :: "segment_t list \<Rightarrow> ref_state \<Rightarrow> sb_event list \<Rightarrow> bool" where
  "honest segs r [] = True"
| "honest segs r (v # vs) = (truthful r v \<and> honest segs (ref_step segs v r) vs)"

section \<open>Addresses without aliases\<close>

definition alias_free :: "nat set \<Rightarrow> bool" where
  "alias_free A \<longleftrightarrow> inj_on (\<lambda>a. a mod SCOREBOARD_RAM_SIZE) A"

definition req_within :: "nat set \<Rightarrow> hpdcache_test_transaction_req \<Rightarrow> bool" where
  "req_within A req \<longleftrightarrow> (\<not> is_cmo req \<longrightarrow> (\<forall>j \<in> set (access_bytes req). word_addr req + j \<in> A))"

definition transfer_within :: "nat set \<Rightarrow> 'a hpdcache_test_transaction_mem_req_scheme \<Rightarrow> bool" where
  "transfer_within A req \<longleftrightarrow>
     (\<forall>j \<in> set (transfer_bytes (mreq_addr req) (ucast (push_bit (unat (mreq_size req)) 1 :: u64))). line_addr (mreq_addr req) + j \<in> A)"

fun within :: "nat set \<Rightarrow> sb_event \<Rightarrow> bool" where
  "within A (Core_req junk req) = req_within A req"
| "within A (Mem_read_req req) = transfer_within A req"
| "within A (Mem_write_req req) = (mem_is_amo req \<longrightarrow> transfer_within A req)"
| "within A v = True"

lemma fold_word:
  assumes "j < 8"
  shows "(word_addr req + j) mod SCOREBOARD_RAM_SIZE = word_base req + j"
proof -
  let ?N = "SCOREBOARD_RAM_SIZE" and ?q = "unat (req_addr req) div 8"
  have b: "word_base req = ?q * 8 mod ?N"
    using unat_align_to [of 8 "ucast (req_addr req)"] by (simp add: word_base_def)
  have "?q * 8 mod ?N + 8 \<le> ?N" by (rule aligned_fits) simp_all
  with assms have "?q * 8 mod ?N + j < ?N" by linarith
  then have "(?q * 8 + j) mod ?N = ?q * 8 mod ?N + j" by (metis mod_add_left_eq mod_less)
  then show ?thesis by (simp only: word_addr_def b)
qed

lemma fold_line:
  assumes "j < 64"
  shows "(line_addr a + j) mod SCOREBOARD_RAM_SIZE = line_base a + j"
proof -
  let ?N = "SCOREBOARD_RAM_SIZE" and ?q = "unat a div 64"
  have b: "line_base a = ?q * 64 mod ?N"
    using unat_align_to [of 64 a] by (simp add: line_base_def)
  have "?q * 64 mod ?N + 64 \<le> ?N" by (rule aligned_fits) simp_all
  with assms have "?q * 64 mod ?N + j < ?N" by linarith
  then have "(?q * 64 + j) mod ?N = ?q * 64 mod ?N + j" by (metis mod_add_left_eq mod_less)
  then show ?thesis by (simp only: line_addr_def b)
qed

text \<open>A well-formed request enables exactly the bytes it accesses.\<close>

lemma enabled_iff_access:
  assumes "req_wf req" "\<not> is_cmo req"
  shows "bit (req_be req) j \<longleftrightarrow> j \<in> set (access_bytes req)" and "j \<in> set (access_bytes req) \<Longrightarrow> j < 8"
proof -
  have w: "unat (req_size req) \<le> 3" "2 ^ unat (req_size req) dvd unat (req_addr req)"
      "\<forall>i < 8. bit (req_be req) i \<longleftrightarrow> unat (req_addr req) mod 8 \<le> i \<and> i < unat (req_addr req) mod 8 + 2 ^ unat (req_size req)"
    using assms by (simp_all add: req_wf_def Let_def)
  show lt: "j < 8" if "j \<in> set (access_bytes req)"
    using that aligned_fits_word [OF w(1,2)] by (auto simp: access_bytes_def)
  have "bit (req_be req) j \<Longrightarrow> j < 8" by (simp add: bit_imp_le_length [of "req_be req" j, simplified])
  with w(3) lt show "bit (req_be req) j \<longleftrightarrow> j \<in> set (access_bytes req)" by (auto simp: access_bytes_def)
qed

section \<open>A refill teaches only bytes of its transfer\<close>

lemma be_mask_window:
  assumes "0 \<le> byte - int i * 8" "0 < bytes" "bytes < 64" "bit (be_mask byte i bytes) k"
  shows "byte \<le> int (8 * i + k) \<and> int (8 * i + k) < byte + bytes"
proof -
  have "push_bit (nat bytes) 1 - 1 = (mask (nat bytes) :: u64)" by (simp add: mask_eq_exp_minus_1)
  with assms(4) have "nat (byte - int i * 8) \<le> k" "k - nat (byte - int i * 8) < nat bytes"
    by (auto simp: be_mask_def bit_simps)
  with assms(1,2) show ?thesis by (simp add: nat_le_iff)
qed

lemma be_loop_window:
  "be_loop byte unset i bytes be = Some be' \<Longrightarrow> j div 8 < length be \<Longrightarrow> be_bit be' j \<Longrightarrow>
   be_bit be j \<or> (byte \<le> int j \<and> int j < byte + bytes)"
proof (induction "nat bytes" arbitrary: i bytes be rule: less_induct)
  case less
  note eq = less.prems(1) [unfolded be_loop_unfold [of byte unset i bytes be]]
  show ?case
  proof (cases "bytes > 0")
    case True
    let ?be = "be[i := be_mask byte i bytes AND unset ! i]"
    from eq True have d: "be_defined byte unset i bytes be" and "be_loop byte unset (Suc i) (bytes - 8) ?be = Some be'"
      by (simp_all split: if_splits)
    from less.hyps [OF _ this(2)] True less.prems(2,3)
    have c: "be_bit ?be j \<or> (byte \<le> int j \<and> int j < byte + (bytes - 8))" by simp
    show ?thesis
    proof (cases "be_bit ?be j \<and> j div 8 = i")
      case in_word: True
      then have "bit (be_mask byte i bytes) (j mod 8)"
        using less.prems(2) by (auto simp: be_bit_def bit_and_iff)
      from be_mask_window [OF _ True _ this] d in_word have "byte \<le> int (8 * (j div 8) + j mod 8) \<and> int (8 * (j div 8) + j mod 8) < byte + bytes"
        by (auto simp: be_defined_def)
      then show ?thesis by (simp only: mult_div_mod_eq) simp
    next
      case False
      with c have "be_bit be j \<or> (byte \<le> int j \<and> int j < byte + (bytes - 8))" by (auto simp: be_bit_def)
      then show ?thesis by auto
    qed
  qed (use eq less.prems in simp)
qed

lemma refill_window:
  assumes "ram_ok r" "ram_N r = SCOREBOARD_RAM_SIZE" "refill resp e r = Some r'" "ram_abs r' a \<noteq> ram_abs r a"
  shows "ram_abs r a = None \<and> (\<exists>j \<in> set (transfer_bytes (me_addr e) (me_bytes e)).
     a = line_base (me_addr e) + j \<and> ram_abs r' a = Some (line_bytes resp ! j))"
proof -
  let ?l = "line_base (me_addr e)" and ?b = "unat (me_addr e) mod 64"
  obtain u where spec: "refill_spec r resp e u" using refill_cases [OF assms(1,2)] by blast
  then obtain be where be: "refill_be u e = Some be" "ram_abs r' = upd_bytes (line_bytes resp) be ?l 0 64 (ram_abs r)"
    using assms(3) by (cases "refill_be u e") (auto simp: refill_spec_def)
  from assms(4) be(2) have a: "?l \<le> a" "a < ?l + 64" "be_bit be (a - ?l)" "ram_abs r' a = Some (line_bytes resp ! (a - ?l))"
    by (auto simp: upd_bytes_def split: if_splits)
  let ?j = "a - ?l"
  have "int ?b \<le> int ?j \<and> int ?j < int ?b + uint (me_bytes e)"
    using be_loop_window [OF be(1) [unfolded refill_be_def], of ?j] be_bit_replicate0 [of ?j 8] a by auto
  moreover have "uint (me_bytes e) = int (unat (me_bytes e))" by simp
  ultimately have "?b \<le> ?j \<and> ?j < ?b + unat (me_bytes e)" by linarith
  then have "?j \<in> set (transfer_bytes (me_addr e) (me_bytes e))" using a by (auto simp: transfer_bytes_def)
  moreover have "ram_abs r a = None" using refill_ok [OF assms(1-3)] assms(4) by (metis option.exhaust)
  ultimately show ?thesis using a by (intro conjI bexI [of _ ?j]) auto
qed

section \<open>The scoreboard knows nothing the reference does not hold\<close>

text \<open>\<open>agrees\<close>: known cells hold the byte of every address of the run that is folded onto them.\<close>

definition agrees :: "nat set \<Rightarrow> (nat \<Rightarrow> u8 option) \<Rightarrow> (nat \<Rightarrow> u8) \<Rightarrow> bool" where
  "agrees A m M \<longleftrightarrow> (\<forall>a \<in> A. \<forall>b. m (a mod SCOREBOARD_RAM_SIZE) = Some b \<longrightarrow> M a = b)"

lemma agreesD: "agrees A m M \<Longrightarrow> a \<in> A \<Longrightarrow> m (a mod SCOREBOARD_RAM_SIZE) = Some b \<Longrightarrow> M a = b"
  unfolding agrees_def by blast

definition covers :: "nat set \<Rightarrow> (nat \<Rightarrow> u8 option) \<Rightarrow> (nat \<Rightarrow> bool) \<Rightarrow> bool" where
  "covers A m W \<longleftrightarrow> (\<forall>a \<in> A. W a \<longrightarrow> m (a mod SCOREBOARD_RAM_SIZE) \<noteq> None)"

definition open_rel ::
  "nat set \<Rightarrow> golden_entry \<Rightarrow> hpdcache_test_transaction_req \<times> (nat \<Rightarrow> u8) \<times> (nat \<Rightarrow> bool) \<Rightarrow> bool" where
  "open_rel A ge p \<longleftrightarrow> fst p = ge_req ge \<and> req_wf (ge_req ge) \<and> req_within A (ge_req ge) \<and>
     agrees A (ge_seen ge) (fst (snd p)) \<and> covers A (ge_seen ge) (snd (snd p))"

definition coh :: "nat set \<Rightarrow> golden \<Rightarrow> ref_state \<Rightarrow> bool" where
  "coh A g r \<longleftrightarrow> agrees A (g_mem g) (rf_mem r) \<and>
     covers A (g_mem g) (rf_written r) \<and>
     (\<forall>k. rel_option (open_rel A) (g_open g k) (rf_open r k))"

lemma cell_enabled:
  assumes "alias_free A" "req_wf req" "\<not> is_cmo req" "req_within A req" "a \<in> A"
  shows "put_word req w m (a mod SCOREBOARD_RAM_SIZE) =
     (if enabled req a then Some (byte_of w (a - word_addr req)) else m (a mod SCOREBOARD_RAM_SIZE))"
proof (cases "\<exists>j < 8. bit (req_be req) j \<and> a mod SCOREBOARD_RAM_SIZE = word_base req + j")
  case True
  then obtain j where j: "j < 8" "bit (req_be req) j" "a mod SCOREBOARD_RAM_SIZE = word_base req + j" by blast
  then have "word_addr req + j \<in> A" using enabled_iff_access [OF assms(2,3)] assms(3,4) by (simp add: req_within_def)
  with assms(1,5) j(3) fold_word [OF j(1), of req] have "a = word_addr req + j"
    unfolding alias_free_def by (metis inj_onD)
  with j fold_word [OF j(1), of req] show ?thesis by (simp add: put_word_def upd_bytes_def enabled_def be_bit_def)
next
  case False
  have "\<not> enabled req a"
  proof
    assume e: "enabled req a"
    then have "a - word_addr req < 8" "word_addr req + (a - word_addr req) = a" by (auto simp: enabled_def)
    with fold_word [of "a - word_addr req" req] e False show False by (auto simp: enabled_def)
  qed
  moreover have "\<not> (word_base req \<le> a mod SCOREBOARD_RAM_SIZE \<and> a mod SCOREBOARD_RAM_SIZE < word_base req + 8 \<and>
      be_bit [req_be req] (a mod SCOREBOARD_RAM_SIZE - word_base req))"
  proof
    assume x: "word_base req \<le> a mod SCOREBOARD_RAM_SIZE \<and> a mod SCOREBOARD_RAM_SIZE < word_base req + 8 \<and>
      be_bit [req_be req] (a mod SCOREBOARD_RAM_SIZE - word_base req)"
    define j where "j = a mod SCOREBOARD_RAM_SIZE - word_base req"
    have "j < 8" "a mod SCOREBOARD_RAM_SIZE = word_base req + j" using x unfolding j_def by linarith+
    with x False show False by (auto simp: be_bit_def j_def [symmetric])
  qed
  ultimately show ?thesis by (auto simp: put_word_def upd_bytes_def)
qed

lemma coh_put:
  assumes "alias_free A" "req_wf req" "\<not> is_cmo req" "req_within A req" "coh A g r"
  shows "coh A (g\<lparr>g_mem := put_word req w (g_mem g)\<rparr>) (write_word req w r)"
  using assms(5) cell_enabled [OF assms(1-4)]
  by (auto simp: coh_def agrees_def covers_def write_word_def)

lemma coh_say [simp]: "coh A (say ms g) r = coh A g r"
  by (simp add: coh_def)

lemma golden_req_coh:
  assumes "alias_free A" "req_wf req" "req_within A req" "coh A g r"
  shows "coh A (golden_req segs req g) (ref_request segs req r)"
proof -
  have o: "rel_option (open_rel A) (g_open g k) (rf_open r k)" for k using assms(4) by (simp add: coh_def)
  have dup: "g_open g (req_tag req) = None \<longleftrightarrow> rf_open r (req_tag req) = None" using o [of "req_tag req"] by (auto elim: option.rel_cases)
  have new: "open_rel A (golden_entry_of segs req g) (req, rf_mem r, rf_written r)"
    using assms(2-4) by (simp add: open_rel_def golden_entry_of_def Let_def coh_def)
  let ?w = "is_store req \<and> \<not> expects_error segs req"
  define g0 where "g0 = g\<lparr>g_rsv := rsv_spec (Some segs) req (g_rsv g)\<rparr>"
  have "coh A g0 r" using assms(4) by (simp add: g0_def coh_def)
  from coh_put [OF assms(1,2) _ assms(3) this] store_exclusive [of req] this
  have "coh A (if ?w then g0\<lparr>g_mem := put_word req (req_wdata req) (g_mem g0)\<rparr> else g0)
      (if ?w then write_word req (req_wdata req) r else r)" by auto
  then have "coh A ((if ?w then g0\<lparr>g_mem := put_word req (req_wdata req) (g_mem g0)\<rparr> else g0)
        \<lparr>g_open := (if req_need_rsp req then (g_open g)(req_tag req \<mapsto> golden_entry_of segs req g) else g_open g)\<rparr>)
      ((if ?w then write_word req (req_wdata req) r else r)
        \<lparr>rf_open := (if req_need_rsp req then (rf_open r)(req_tag req \<mapsto> (req, rf_mem r, rf_written r)) else rf_open r)\<rparr>)"
    using o new by (auto simp: coh_def)
  then show ?thesis
    using assms(4) dup by (auto simp: golden_req_def ref_request_def g0_def split: if_splits)
qed

fun is_wrong_data :: "sb_error \<Rightarrow> bool" where
  "is_wrong_data (Wrong_data a b c) = True"
| "is_wrong_data m = False"

lemma truthful_no_wrong:
  assumes "req_wf req" "reads_data req" "req_within A req" "agrees A m seen"
    and "list_all (\<lambda>j. byte_of d j = seen (word_addr req + j)) (access_bytes req)"
  shows "wrong_bytes m req d = []"
proof -
  have c: "\<not> is_cmo req"
    using assms(2) load_exclusive [of req] lr_exclusive [of req] amo_exclusive [of req] unfolding reads_data_def by blast
  have "m (word_base req + j) = None \<or> m (word_base req + j) = Some (byte_of d j)" if "j \<in> set (access_bytes req)" for j
  proof -
    have a: "word_addr req + j \<in> A" using assms(3) c that unfolding req_within_def by blast
    have j: "j < 8" by (rule enabled_iff_access(2) [OF assms(1) c that])
    have v: "byte_of d j = seen (word_addr req + j)" using assms(5) that unfolding list_all_iff by (rule bspec)
    show ?thesis
    proof (cases "m (word_base req + j)")
      case (Some b)
      then have "m ((word_addr req + j) mod SCOREBOARD_RAM_SIZE) = Some b" unfolding fold_word [OF j] .
      from agreesD [OF assms(4) a this] v Some show ?thesis by simp
    qed simp
  qed
  then show ?thesis by (auto simp: wrong_bytes_def filter_empty_conv)
qed

lemma golden_check_coh:
  assumes "alias_free A" "coh A g r" "open_rel A ge (req, seen, known)"
    and truth: "reads_data req \<Longrightarrow> list_all (\<lambda>j. byte_of d j = seen (word_addr req + j)) (access_bytes req)"
  shows "\<exists>ms. g_log (golden_check ge d g) = g_log g @ ms \<and> (\<forall>m \<in> set ms. \<not> is_wrong_data m) \<and>
     (ms = [] \<longrightarrow> coh A (golden_check ge d g)
        (if is_amo_sc req \<and> sc_code req d = 0 then write_word req (req_wdata req) r
         else if is_amo req then write_word req (amo_word req d) r else r))"
proof -
  have p: "ge_req ge = req" "req_wf req" "req_within A req" "agrees A (ge_seen ge) seen" using assms(3) by (simp_all add: open_rel_def)
  have put: "coh A (g\<lparr>g_mem := put_word req w (g_mem g)\<rparr>) (write_word req w r)" if "is_amo_sc req \<or> is_amo req" for w
    using that coh_put [OF assms(1) p(2) _ p(3) assms(2)] cmo_not_amo [of req] by (auto simp: req_is_amo_def)
  show ?thesis
  proof (cases "is_amo_sc req")
    case True
    then have "\<not> is_amo req" using sc_exclusive by blast
    with True put assms(2) p(1) show ?thesis by (auto simp: golden_check_def Let_def)
  next
    case False
    have "wrong_bytes (ge_seen ge) req d = []" if "reads_data req"
      by (rule truthful_no_wrong [OF p(2) that p(3,4) truth [OF that]])
    with False put assms(2) p(1) show ?thesis by (auto simp: golden_check_def Let_def reads_data_def)
  qed
qed

lemma golden_resp_coh:
  assumes "alias_free A" "coh A g r" "truthful r (Core_resp resp)"
  shows "\<exists>ms. g_log (golden_resp resp g) = g_log g @ ms \<and> (\<forall>m \<in> set ms. \<not> is_wrong_data m) \<and>
     (ms = [] \<longrightarrow> coh A (golden_resp resp g) (ref_response resp r))"
proof -
  let ?k = "ucast (rsp_tid resp) :: u32"
  have rel: "rel_option (open_rel A) (g_open g k) (rf_open r k)" for k using assms(2) by (simp add: coh_def)
  have close: "coh A (g'\<lparr>g_open := (g_open g)(?k := None)\<rparr>) (r'\<lparr>rf_open := (rf_open r)(?k := None)\<rparr>)" if "coh A g' r'" for g' r'
    using that rel by (auto simp: coh_def)
  show ?thesis
  proof (cases "g_open g ?k")
    case None
    then show ?thesis by (simp add: golden_resp_def)
  next
    case (Some ge)
    with rel [of ?k] obtain req seen known where q: "rf_open r ?k = Some (req, seen, known)" "open_rel A ge (req, seen, known)"
      by (auto simp: option_rel_Some1)
    then have ge: "ge_req ge = req" by (simp add: open_rel_def)
    show ?thesis
    proof (cases "\<not> is_store req \<and> rsp_error resp \<noteq> ge_error ge")
      case True
      with Some ge show ?thesis by (simp add: golden_resp_def)
    next
      case same: False
      have r': "ref_response resp r = (if rsp_error resp then r
           else if is_amo_sc req \<and> sc_code req (rsp_rdata resp) = 0 then write_word req (req_wdata req) r
           else if is_amo req then write_word req (amo_word req (rsp_rdata resp)) r
           else r)\<lparr>rf_open := (rf_open r)(?k := None)\<rparr>"
        using q(1) by (simp add: ref_response_def)
      have st: "\<not> is_amo_sc req \<and> \<not> is_amo req \<and> \<not> reads_data req" if "is_store req"
        using store_exclusive [OF that] by (auto simp: reads_data_def)
      show ?thesis
      proof (cases "ge_error ge")
        case True
        with Some same ge close [OF assms(2)] st r' show ?thesis by (auto simp: golden_resp_def Let_def)
      next
        case False
        have "list_all (\<lambda>j. byte_of (rsp_rdata resp) j = seen (word_addr req + j)) (access_bytes req)" if "reads_data req"
          using assms(3) q(1) same False that st by (auto split: if_splits)
        from golden_check_coh [OF assms(1,2) q(2) this]
        obtain ms where ms: "g_log (golden_check ge (rsp_rdata resp) g) = g_log g @ ms" "\<forall>m \<in> set ms. \<not> is_wrong_data m"
            "ms = [] \<longrightarrow> coh A (golden_check ge (rsp_rdata resp) g)
               (if is_amo_sc req \<and> sc_code req (rsp_rdata resp) = 0 then write_word req (req_wdata req) r
                else if is_amo req then write_word req (amo_word req (rsp_rdata resp)) r else r)" by blast
        have "golden_resp resp g = (golden_check ge (rsp_rdata resp) g)\<lparr>g_open := (g_open g)(?k := None)\<rparr>"
          using Some same ge False by (auto simp: golden_resp_def Let_def)
        with ms close same False st r' show ?thesis by (intro exI [of _ ms]) (auto split: if_splits)
      qed
    qed
  qed
qed

section \<open>What a handler leaves alone\<close>

text \<open>
  A property of states that survives the updates a handler makes survives the handler: \<open>core_kept\<close> for
  the two handlers of the core side, \<open>all_kept\<close> for all of them.
\<close>

definition next_all :: "(scoreboard \<Rightarrow> bool) \<Rightarrow> scoreboard outcome \<Rightarrow> bool" where
  "next_all P r \<longleftrightarrow> (\<forall>t. r = Next t \<longrightarrow> P t)"

lemma next_all_simps [simp]:
  "next_all P (Next s) = P s" "next_all P Undefined" "next_all P (Exit c s)"
  by (simp_all add: next_all_def)

lemma next_all_seq: "next_all P r \<Longrightarrow> (\<And>s. P s \<Longrightarrow> next_all P (f s)) \<Longrightarrow> next_all P (seq_out r f)"
  by (auto simp: next_all_def seq_out_Next_iff)

locale core_kept =
  fixes P :: "scoreboard \<Rightarrow> bool"
  assumes kept_print: "P s \<Longrightarrow> P (s\<lparr>sb_errors := sb_errors s @ [m], nb_error := n\<rparr>)"
    and kept_ram: "P s \<Longrightarrow> P (s\<lparr>ram_m := r\<rparr>)"
    and kept_table: "P s \<Longrightarrow> P (s\<lparr>inflight_m := tab\<rparr>)"
    and kept_ids: "P s \<Longrightarrow> P (s\<lparr>sb_seq := ids\<rparr>)"
    and kept_queue: "P s \<Longrightarrow> P (s\<lparr>inflight_amo_req_m := q\<rparr>)"
    and kept_counts: "P s \<Longrightarrow> P (s\<lparr>nb_core_req := a, nb_core_req_need_rsp := b\<rparr>)"
      "P s \<Longrightarrow> P (s\<lparr>nb_core_resp := a, nb_cycles_effective := b\<rparr>)"
    and kept_rsv: "P s \<Longrightarrow> P (s\<lparr>lrsc_buf_m := b'\<rparr>)"
begin

lemma print_kept: "P s \<Longrightarrow> next_all P (print_error m s)"
  using kept_print [where s = s and m = m and n = "nb_error s + 1"] by (simp add: print_error_def Let_def)

lemma release_kept: "P s \<Longrightarrow> next_all P (release_id i s)"
  by (auto simp: release_id_def kept_ids split: option.split)

lemma check_bytes_kept: "P s \<Longrightarrow> next_all P (check_bytes a recv expc rv i n s)"
  by (induction n arbitrary: i s) (auto intro!: next_all_seq print_kept)

lemma share_kept: "P s \<Longrightarrow> next_all P (share_atomic req e s)"
  by (auto simp: share_atomic_def Let_def record_store_def track_request_def split: option.split
      intro!: next_all_seq print_kept release_kept kept_ram kept_table kept_queue)

lemma counted_kept: "P s \<Longrightarrow> P (counted req s)"
  unfolding counted_def by (rule kept_counts(1))

lemma core_req_kept: "P s \<Longrightarrow> next_all P (core_req_process junk req s)"
  unfolding core_req_unfold
  by (auto split: option.split prod.split intro!: print_kept release_kept share_kept kept_rsv counted_kept)

lemma checks_kept:
  "P s \<Longrightarrow> next_all P (seq_out (seq_out (check_sc resp e s) (check_data resp e)) (update_amo resp e))"
  by (intro next_all_seq)
     (auto simp: check_sc_def check_data_def update_amo_def Let_def split: option.split
       intro!: print_kept check_bytes_kept kept_ram)

lemma core_resp_kept: "P s \<Longrightarrow> next_all P (core_resp_process resp s)"
  using checks_kept [OF kept_counts(2)]
  by (auto simp: core_resp_process_def Let_def split: option.split
      intro!: next_all_seq [where f = "\<lambda>s. release_id i (s\<lparr>inflight_m := smap_erase i (inflight_m s)\<rparr>)" for i]
        print_kept release_kept kept_table kept_counts(2))

end

locale all_kept = core_kept +
  assumes kept_mem: "P s \<Longrightarrow> P (s\<lparr>nb_mem_read_req := a\<rparr>)" "P s \<Longrightarrow> P (s\<lparr>nb_mem_read_resp := a\<rparr>)"
      "P s \<Longrightarrow> P (s\<lparr>nb_mem_write_req := a\<rparr>)" "P s \<Longrightarrow> P (s\<lparr>nb_mem_write_resp := a\<rparr>)"
    and kept_tables: "P s \<Longrightarrow> P (s\<lparr>inflight_mem_read_m := t\<rparr>)" "P s \<Longrightarrow> P (s\<lparr>inflight_mem_write_m := t\<rparr>)"
      "P s \<Longrightarrow> P (s\<lparr>sc_is_atomic := c, inflight_mem_write_m := t\<rparr>)"
    and kept_clock: "P s \<Longrightarrow> P (s\<lparr>nb_cycles := a, evt_count := ev\<rparr>)" "P s \<Longrightarrow> P (s\<lparr>no_inflight_requests_o := c\<rparr>)"
begin

lemma single_kept: "P s \<Longrightarrow> next_all P (check_single_atomic s)"
  by (simp add: check_single_atomic_def print_kept)

lemma handle_kept: "P s \<Longrightarrow> next_all P (sb_handle v s)"
proof (cases v)
  case (Mem_read_req req)
  assume "P s"
  with Mem_read_req show ?thesis
    by (auto simp: mem_read_req_process_def Let_def split: option.split list.split
        intro!: next_all_seq print_kept single_kept kept_mem kept_tables kept_queue)
next
  case (Mem_write_req req)
  assume "P s"
  with Mem_write_req show ?thesis
    by (auto simp: mem_write_req_process_def mem_write_amo_def mem_write_stex_def Let_def split: option.split list.split
        intro!: next_all_seq print_kept single_kept kept_mem kept_tables kept_queue)
next
  case (Mem_read_resp resp)
  assume "P s"
  with Mem_read_resp show ?thesis
    by (auto simp: mem_read_resp_process_def Let_def split: option.split
        intro!: next_all_seq print_kept kept_mem kept_tables kept_ram)
next
  case (Mem_write_resp resp)
  assume "P s"
  with Mem_write_resp show ?thesis
    by (auto simp: mem_write_resp_process_def Let_def intro!: print_kept kept_mem kept_tables)
qed (auto simp: core_req_kept core_resp_kept perf_events_process_def check_inflight_requests_def seq_allocate_def
      split: option.split intro!: kept_clock kept_ids)

lemma run_kept: "P s \<Longrightarrow> next_all P (sb_run vs s)"
  by (induction vs arbitrary: s) (auto intro!: next_all_seq handle_kept)

end

text \<open>Messages are never taken back; the core side leaves the table of memory reads alone.\<close>

definition began :: "sb_error list \<Rightarrow> scoreboard \<Rightarrow> bool" where
  "began ms s \<longleftrightarrow> (\<exists>ms'. sb_errors s = ms @ ms')"

interpretation log_kept: all_kept "began ms" for ms
  by unfold_locales (auto simp: began_def)

interpretation reads_kept: core_kept "\<lambda>s. inflight_mem_read_m s = t" for t
  by unfold_locales simp_all

section \<open>One event\<close>

definition reads_rel :: "nat set \<Rightarrow> scoreboard \<Rightarrow> ref_state \<Rightarrow> bool" where
  "reads_rel A s r \<longleftrightarrow>
     (\<forall>k. rf_reads r k = map_option (\<lambda>e. (me_addr e, me_bytes e)) (smap_find (inflight_mem_read_m s) k)) \<and>
     (\<forall>k a n. rf_reads r k = Some (a, n) \<longrightarrow> (\<forall>j \<in> set (transfer_bytes a n). line_addr a + j \<in> A))"

definition clean :: "segment_t list \<Rightarrow> nat set \<Rightarrow> scoreboard \<Rightarrow> golden \<Rightarrow> ref_state \<Rightarrow> bool" where
  "clean segs A s g r \<longleftrightarrow> sim segs s g \<and> sb_errors s = [] \<and> coh A g r \<and> reads_rel A s r"

text \<open>\<open>goes_on\<close>: no message is about data, and without any message the relation holds again.\<close>

definition goes_on :: "segment_t list \<Rightarrow> nat set \<Rightarrow> scoreboard \<Rightarrow> ref_state \<Rightarrow> bool" where
  "goes_on segs A t r \<longleftrightarrow> (\<forall>m \<in> set (sb_errors t). \<not> is_wrong_data m) \<and> (sb_errors t = [] \<longrightarrow> (\<exists>g. clean segs A t g r))"

lemma clean_log: "clean segs A s g r \<Longrightarrow> g_log g = []"
  unfolding clean_def sim_def by (metis filter.simps(1))

lemma wrong_is_core: "is_wrong_data m \<Longrightarrow> core_error m"
  by (cases m) simp_all

lemma sim_log: "sim segs t g \<Longrightarrow> g_log g = filter core_error (sb_errors t)"
  by (simp add: sim_def)

lemma goes_onI:
  assumes "sim segs t g" "\<forall>m \<in> set (g_log g). \<not> is_wrong_data m" "sb_errors t = [] \<Longrightarrow> coh A g r \<and> reads_rel A t r"
  shows "goes_on segs A t r"
  using assms sim_log [OF assms(1)] wrong_is_core by (auto simp: goes_on_def clean_def)

lemma print_error_Next: "print_error m s = Next t \<Longrightarrow> sb_errors t = sb_errors s @ [m]"
  by (auto simp: print_error_def Let_def split: if_splits)

lemma note_read_rel:
  assumes "reads_rel A s r" "smap_ok (inflight_mem_read_m s)" "smap_find (inflight_mem_read_m s) (ucast (mreq_id req)) = None"
    and "inflight_mem_read_m t = smap_insert (ucast (mreq_id req)) e (inflight_mem_read_m s)"
    and "me_addr e = mreq_addr req" "me_bytes e = ucast (push_bit (unat (mreq_size req)) 1 :: u64)" "transfer_within A req"
  shows "reads_rel A t (note_read req r)"
  using assms unfolding reads_rel_def note_read_def transfer_within_def by auto

lemma mem_entry_fields: "mem_entry req s = Some e \<Longrightarrow>
    me_addr e = mreq_addr req \<and> me_bytes e = ucast (push_bit (unat (mreq_size req)) 1 :: u64)"
  by (auto simp: mem_entry_def Let_def split: if_splits option.splits)

text \<open>The common start of the atomic handlers of the memory side, when it prints nothing.\<close>

lemma single_then:
  assumes "seq_out (check_single_atomic s)
      (\<lambda>s. case inflight_amo_req_m s of [] \<Rightarrow> print_error m s | x # q \<Rightarrow> f x q s) = Next t" "sb_errors t = []"
    and grow: "\<And>x q u. f x q u = Next t \<Longrightarrow> \<exists>ms. sb_errors t = sb_errors u @ ms"
  shows "\<exists>x q. inflight_amo_req_m s = x # q \<and> f x q s = Next t"
proof -
  obtain u where u: "check_single_atomic s = Next u"
      "(case inflight_amo_req_m u of [] \<Rightarrow> print_error m u | x # q \<Rightarrow> f x q u) = Next t"
    using assms(1) by (auto simp: seq_out_Next_iff)
  obtain x q where q: "inflight_amo_req_m u = x # q" "f x q u = Next t"
    using u(2) assms(2) print_error_Next [of m u t] by (cases "inflight_amo_req_m u") auto
  have "sb_errors u = []" using grow [OF q(2)] assms(2) by simp
  then have "u = s" using u(1) print_error_Next [of Not_single_atomic s u] by (simp add: check_single_atomic_def split: if_splits)
  with q show ?thesis by blast
qed

lemma began_run: "sb_run vs s = Next t \<Longrightarrow> \<exists>ms. sb_errors t = sb_errors s @ ms"
  using log_kept.run_kept [of "sb_errors s" s vs] by (auto simp: began_def next_all_def)

lemma mem_read_req_effect:
  assumes "mem_read_req_process req s = Next t" "sb_errors t = []"
  shows "\<exists>e. smap_find (inflight_mem_read_m s) (ucast (mreq_id req)) = None \<and>
     inflight_mem_read_m t = smap_insert (ucast (mreq_id req)) e (inflight_mem_read_m s) \<and>
     me_addr e = mreq_addr req \<and> me_bytes e = ucast (push_bit (unat (mreq_size req)) 1 :: u64)"
proof -
  let ?s = "s\<lparr>nb_mem_read_req := nb_mem_read_req s + 1\<rparr>" and ?k = "ucast (mreq_id req) :: u64"
  have new: "smap_find (inflight_mem_read_m s) ?k = None"
    using assms print_error_Next [of "Mem_read_id_inflight (mreq_id req)" ?s t]
    by (cases "smap_find (inflight_mem_read_m s) ?k") (simp_all add: mem_read_req_process_def Let_def)
  then obtain e where e: "mem_entry req ?s = Some e"
    using assms(1) by (cases "mem_entry req ?s") (simp_all add: mem_read_req_process_def Let_def)
  let ?u = "?s\<lparr>inflight_mem_read_m := smap_insert ?k e (inflight_mem_read_m s)\<rparr>"
  have run: "(if mem_is_ldex req then seq_out (check_single_atomic ?u)
      (\<lambda>s. case inflight_amo_req_m s of [] \<Rightarrow> print_error Unexpected_ldex s | _ # q \<Rightarrow> Next (s\<lparr>inflight_amo_req_m := q\<rparr>))
      else Next ?u) = Next t"
    using assms(1) new e by (simp add: mem_read_req_process_def Let_def)
  have "inflight_mem_read_m t = inflight_mem_read_m ?u"
  proof (cases "mem_is_ldex req")
    case True
    let ?f = "\<lambda>(x :: inflight_entry_t) q s. Next (s\<lparr>inflight_amo_req_m := q\<rparr>) :: scoreboard outcome"
    have "\<exists>x q. inflight_amo_req_m ?u = x # q \<and> ?f x q ?u = Next t"
      by (rule single_then [OF _ assms(2)]) (use run True in auto)
    then show ?thesis by auto
  next
    case False
    with run show ?thesis by simp
  qed
  with new mem_entry_fields [OF e] show ?thesis by auto
qed

lemma mem_amo_not_stex: "mem_is_amo req \<Longrightarrow> \<not> mem_is_stex req"
  by (auto simp: mem_is_amo_def mem_is_stex_def)

lemma mem_write_req_effect:
  assumes "mem_write_req_process req s = Next t" "sb_errors t = []"
  shows "if mem_is_amo req
     then \<exists>e. inflight_mem_read_m t = smap_insert (ucast (mreq_id req)) e (inflight_mem_read_m s) \<and>
       me_addr e = mreq_addr req \<and> me_bytes e = ucast (push_bit (unat (mreq_size req)) 1 :: u64)
     else inflight_mem_read_m t = inflight_mem_read_m s"
proof -
  let ?s = "s\<lparr>nb_mem_write_req := nb_mem_write_req s + 1\<rparr>" and ?k = "ucast (mreq_id req) :: u64"
  have sz: "unat (mreq_size req) < 64" using assms(1) by (auto simp: mem_write_req_process_def Let_def split: if_splits)
  have new: "smap_find (inflight_mem_write_m s) ?k = None"
    using assms sz print_error_Next [of "Mem_write_id_inflight (mreq_id req)" ?s t]
    by (cases "smap_find (inflight_mem_write_m s) ?k") (simp_all add: mem_write_req_process_def Let_def)
  with sz obtain e where e: "mem_entry req ?s = Some e"
    using assms(1) by (cases "mem_entry req ?s") (simp_all add: mem_write_req_process_def Let_def)
  let ?u = "?s\<lparr>inflight_mem_write_m := smap_insert ?k e (inflight_mem_write_m s)\<rparr>"
  have run: "seq_out (if mem_is_amo req then mem_write_amo ?k e ?u else Next ?u)
      (\<lambda>s. if mem_is_stex req then mem_write_stex e s else Next s) = Next t"
    using assms(1) new e sz by (simp add: mem_write_req_process_def Let_def)
  show ?thesis
  proof (cases "mem_is_amo req")
    case True
    then have ns: "\<not> mem_is_stex req" by (rule mem_amo_not_stex)
    with run True have amo: "mem_write_amo ?k e ?u = Next t" by (auto simp: seq_out_Next_iff)
    let ?f = "\<lambda>x q s. let s = s\<lparr>inflight_amo_req_m := q\<rparr> in
       seq_out (if me_core_req_ptr e = None then print_error Amo_no_core_req s else Next s)
         (\<lambda>s. Next (s\<lparr>inflight_mem_read_m := smap_insert ?k e (inflight_mem_read_m s)\<rparr>))"
    have eff: "?f x q u = Next t \<Longrightarrow> \<exists>ms. sb_errors t = sb_errors u @ ms \<and>
        (ms = [] \<longrightarrow> inflight_mem_read_m t = smap_insert ?k e (inflight_mem_read_m u))" for x q u
      by (cases "me_core_req_ptr e") (auto simp: seq_out_Next_iff dest: print_error_Next)
    have "\<exists>x q. inflight_amo_req_m ?u = x # q \<and> ?f x q ?u = Next t"
      by (rule single_then [OF amo [unfolded mem_write_amo_def] assms(2)]) (use eff in blast)
    then have "inflight_mem_read_m t = smap_insert ?k e (inflight_mem_read_m s)" using eff assms(2) by fastforce
    with True mem_entry_fields [OF e] show ?thesis by auto
  next
    case False
    with run have st: "(if mem_is_stex req then mem_write_stex e ?u else Next ?u) = Next t" by simp
    let ?f = "\<lambda>ret q s. let s = s\<lparr>inflight_amo_req_m := q\<rparr> in
       if \<not> e_is_atomic ret then print_error Stex_no_reservation s
       else if me_core_req_ptr e = None then print_error Stex_no_core_req s else Next s"
    have eff: "?f x q u = Next t \<Longrightarrow> \<exists>ms. sb_errors t = sb_errors u @ ms \<and>
        (ms = [] \<longrightarrow> inflight_mem_read_m t = inflight_mem_read_m u)" for x q u
      by (auto simp: Let_def split: if_splits dest: print_error_Next)
    have "inflight_mem_read_m t = inflight_mem_read_m s"
    proof (cases "mem_is_stex req")
      case True
      then have "mem_write_stex e ?u = Next t" using st by simp
      then have "\<exists>x q. inflight_amo_req_m ?u = x # q \<and> ?f x q ?u = Next t"
        unfolding mem_write_stex_def by (rule single_then [OF _ assms(2)]) (use eff in blast)
      then show ?thesis using eff assms(2) by fastforce
    qed (use st in auto)
    with False show ?thesis by simp
  qed
qed

lemma refill_agrees:
  assumes free: "alias_free A" and ram: "ram_ok m" "ram_N m = SCOREBOARD_RAM_SIZE" "refill resp e m = Some m'"
    and old: "agrees A (ram_abs m) M" "covers A (ram_abs m) W"
    and ins: "\<forall>j \<in> set (transfer_bytes (me_addr e) (me_bytes e)). line_addr (me_addr e) + j \<in> A"
    and true: "\<forall>j \<in> set (transfer_bytes (me_addr e) (me_bytes e)).
       W (line_addr (me_addr e) + j) \<or> line_bytes resp ! j = M (line_addr (me_addr e) + j)"
  shows "agrees A (ram_abs m') M" and "covers A (ram_abs m') W"
proof -
  let ?N = "SCOREBOARD_RAM_SIZE"
  have "M a = b" if a: "a \<in> A" and b: "ram_abs m' (a mod ?N) = Some b" for a b
  proof (cases "ram_abs m' (a mod ?N) = ram_abs m (a mod ?N)")
    case True
    with b show ?thesis using agreesD [OF old(1) a] by simp
  next
    case False
    from refill_window [OF ram this] obtain j where un: "ram_abs m (a mod ?N) = None"
      and j: "j \<in> set (transfer_bytes (me_addr e) (me_bytes e))" "a mod ?N = line_base (me_addr e) + j"
        "ram_abs m' (a mod ?N) = Some (line_bytes resp ! j)" by blast
    have "j < 64" using j(1) by (simp add: transfer_bytes_def)
    from fold_line [OF this, of "me_addr e"] j(2) have "a mod ?N = (line_addr (me_addr e) + j) mod ?N" by (rule trans [OF _ sym, rotated])
    then have eq: "a = line_addr (me_addr e) + j" using free a ins j(1) unfolding alias_free_def by (meson inj_onD)
    have "\<not> W a" using old(2) a un unfolding covers_def by blast
    with true j(1) have "line_bytes resp ! j = M a" unfolding eq by blast
    with j(3) b show ?thesis by simp
  qed
  then show "agrees A (ram_abs m') M" unfolding agrees_def by blast
  have "ram_abs m a \<noteq> None \<Longrightarrow> ram_abs m' a \<noteq> None" for a using refill_ok [OF ram] by (metis option.exhaust option.distinct(1))
  with old(2) show "covers A (ram_abs m') W" unfolding covers_def by blast
qed

lemma read_resp_goes_on:
  assumes free: "alias_free A" and c: "clean segs A s g r" and truth: "truthful r (Mem_read_resp resp)"
    and run: "mem_read_resp_process resp s = Next t" and inv: "sb_inv t"
  shows "goes_on segs A t (ref_step segs (Mem_read_resp resp) r)"
proof -
  let ?k = "ucast (rresp_id resp) :: u64" and ?s = "s\<lparr>nb_mem_read_resp := nb_mem_read_resp s + 1\<rparr>"
  have v: "view segs s g" and cs: "sb_errors s = []" "coh A g r" "reads_rel A s r"
    using c by (simp_all add: clean_def sim_view)
  have ram: "ram_ok (ram_m s)" "ram_N (ram_m s) = SCOREBOARD_RAM_SIZE" "ram_abs (ram_m s) = g_mem g"
    using v by (simp_all add: view_def)
  obtain g' where g': "golden_step segs (Mem_read_resp resp) g g'" "view segs t g'"
    using mem_read_resp_sim [OF v run] by blast
  have same: "g_open g' = g_open g" "g_log g' = g_log g" using g'(1) by (auto elim: golden_learn_stepE)
  have log: "g_log g = []" using v cs(1) by (simp add: view_def)
  show ?thesis
  proof (rule goes_onI [of segs t g'])
    show "sim segs t g'" using g'(2) inv by (simp add: sim_view)
    show "\<forall>m \<in> set (g_log g'). \<not> is_wrong_data m" by (simp add: same log)
    assume none: "sb_errors t = []"
    then obtain e where e: "smap_find (inflight_mem_read_m s) ?k = Some e"
      using run print_error_Next [of "Mem_read_resp_no_match (rresp_id resp)" ?s t]
      by (cases "smap_find (inflight_mem_read_m s) ?k") (simp_all add: mem_read_resp_process_def Let_def)
    have rr: "rf_reads r ?k = Some (me_addr e, me_bytes e)" using cs(3) e by (simp add: reads_rel_def)
    obtain m where m: "(rresp_error resp = 0 \<and> refill resp e (ram_m s) = Some m) \<or> (rresp_error resp \<noteq> 0 \<and> m = ram_m s)"
        "ram_m t = m" "inflight_mem_read_m t = (if rresp_last resp then smap_erase ?k (inflight_mem_read_m s) else inflight_mem_read_m s)"
      using run e by (cases "rresp_error resp = 0") (auto simp: mem_read_resp_process_def Let_def split: option.splits if_splits)
    have gm: "g_mem g' = ram_abs m" using g'(2) m(2) by (simp add: view_def)
    have old: "agrees A (ram_abs (ram_m s)) (rf_mem r)"
        "covers A (ram_abs (ram_m s)) (rf_written r)"
      using cs(2) unfolding coh_def ram(3) by blast+
    have ins: "\<forall>j \<in> set (transfer_bytes (me_addr e) (me_bytes e)). line_addr (me_addr e) + j \<in> A"
      using cs(3) rr unfolding reads_rel_def by blast
    have tr: "\<forall>j \<in> set (transfer_bytes (me_addr e) (me_bytes e)).
       rf_written r (line_addr (me_addr e) + j) \<or> line_bytes resp ! j = rf_mem r (line_addr (me_addr e) + j)"
      if "rresp_error resp = 0"
      using truth rr that by (simp add: list_all_iff)
    have new: "agrees A (ram_abs m) (rf_mem r)" "covers A (ram_abs m) (rf_written r)"
      using m(1) refill_agrees [OF free ram(1,2) _ old ins] tr old by blast+
    have "coh A g' r" using new cs(2) unfolding coh_def gm same by blast
    then have "coh A g' (ref_step segs (Mem_read_resp resp) r)" by (simp add: coh_def)
    moreover have "reads_rel A t (ref_step segs (Mem_read_resp resp) r)"
      using cs(3) m(3) by (auto simp: reads_rel_def)
    ultimately show "coh A g' (ref_step segs (Mem_read_resp resp) r) \<and> reads_rel A t (ref_step segs (Mem_read_resp resp) r)" ..
  qed
qed

lemma ref_core_reads [simp]:
  "rf_reads (ref_request segs req r) = rf_reads r" "rf_reads (ref_response resp r) = rf_reads r"
  by (auto simp: ref_request_def ref_response_def write_word_def split: option.split)

lemma reads_rel_cong:
  "reads_rel A s r \<Longrightarrow> inflight_mem_read_m t = inflight_mem_read_m s \<Longrightarrow> rf_reads r' = rf_reads r \<Longrightarrow> reads_rel A t r'"
  by (simp add: reads_rel_def)

text \<open>The memory side and the clocks: the judge stays, only the table of reads may change.\<close>

lemma silent_goes_on:
  assumes c: "clean segs A s g r" and inv: "sb_inv t" and view: "view segs t g"
    and mem: "rf_mem r' = rf_mem r" "rf_written r' = rf_written r" "rf_open r' = rf_open r"
    and reads: "sb_errors t = [] \<Longrightarrow> reads_rel A t r'"
  shows "goes_on segs A t r'"
proof (rule goes_onI [of segs t g])
  show "sim segs t g" using inv view by (simp add: sim_view)
  show "\<forall>m \<in> set (g_log g). \<not> is_wrong_data m" by (simp add: clean_log [OF c])
  show "coh A g r' \<and> reads_rel A t r'" if "sb_errors t = []"
    using c mem reads [OF that] by (simp add: clean_def coh_def)
qed

lemma note_read_fields [simp]:
  "rf_mem (note_read req r) = rf_mem r" "rf_written (note_read req r) = rf_written r" "rf_open (note_read req r) = rf_open r"
  by (simp_all add: note_read_def)

lemma core_goes_on:
  assumes c: "clean segs A s g r" and t: "sim segs t g'" "inflight_mem_read_m t = inflight_mem_read_m s"
    and log: "g_log g' = g_log g @ ms" "\<forall>m \<in> set ms. \<not> is_wrong_data m"
    and rel: "ms = [] \<Longrightarrow> coh A g' r'" "rf_reads r' = rf_reads r"
  shows "goes_on segs A t r'"
proof (rule goes_onI [OF t(1)])
  note z = clean_log [OF c]
  show "\<forall>m \<in> set (g_log g'). \<not> is_wrong_data m" using log z by simp
  show "coh A g' r' \<and> reads_rel A t r'" if "sb_errors t = []"
    using that rel t(2) log(1) z sim_log [OF t(1)] reads_rel_cong [of A s r t r'] c by (simp add: clean_def)
qed

lemma golden_req_step_log:
  "golden_step segs (Core_req junk req) g g' \<Longrightarrow>
   \<exists>ms. g_log g' = g_log g @ ms \<and> (\<forall>m \<in> set ms. \<not> is_wrong_data m) \<and> (ms = [] \<longrightarrow> g' = golden_req segs req g)"
  by (erule golden_req_stepE) (simp_all add: golden_req_def golden_refuse_def)

text \<open>One lemma for each handler whose events move the reference system.\<close>

lemma core_req_goes_on:
  assumes free: "alias_free A" and c: "clean segs A s g r" and ok: "event_ok (Core_req junk req)" "within A (Core_req junk req)"
    and run: "sb_handle (Core_req junk req) s = Next t"
  shows "goes_on segs A t (ref_step segs (Core_req junk req) r)"
proof -
  have s: "sim segs s g" "coh A g r" using c by (simp_all add: clean_def)
  obtain g' where g': "golden_step segs (Core_req junk req) g g'" "sim segs t g'" using sb_handle_sim [OF s(1) ok(1) run] by blast
  have t: "inflight_mem_read_m t = inflight_mem_read_m s"
    using run reads_kept.core_req_kept [of s "inflight_mem_read_m s" junk req] by (simp add: next_all_def)
  obtain ms where "g_log g' = g_log g @ ms" "\<forall>m \<in> set ms. \<not> is_wrong_data m" "ms = [] \<longrightarrow> g' = golden_req segs req g"
    using golden_req_step_log [OF g'(1)] by blast
  from core_goes_on [OF c g'(2) t this(1,2)] this(3) golden_req_coh [OF free _ _ s(2)] ok show ?thesis by simp
qed

lemma core_resp_goes_on:
  assumes free: "alias_free A" and c: "clean segs A s g r" and truth: "truthful r (Core_resp resp)"
    and run: "sb_handle (Core_resp resp) s = Next t"
  shows "goes_on segs A t (ref_step segs (Core_resp resp) r)"
proof -
  have s: "sim segs s g" "coh A g r" using c by (simp_all add: clean_def)
  obtain g' where g': "golden_step segs (Core_resp resp) g g'" "sim segs t g'"
    using sb_handle_sim [OF s(1) _ run] by auto
  have t: "inflight_mem_read_m t = inflight_mem_read_m s"
    using run reads_kept.core_resp_kept [of s "inflight_mem_read_m s" resp] by (simp add: next_all_def)
  have "g' = golden_resp resp g" using g'(1) by (auto elim: golden_resp_stepE)
  with golden_resp_coh [OF free s(2) truth] obtain ms where
    "g_log g' = g_log g @ ms" "\<forall>m \<in> set ms. \<not> is_wrong_data m" "ms = [] \<longrightarrow> coh A g' (ref_response resp r)" by blast
  from core_goes_on [OF c g'(2) t this(1,2)] this(3) show ?thesis by simp
qed

lemma mem_write_req_reads:
  assumes rel: "reads_rel A s r" and tab: "smap_ok (inflight_mem_read_m s)" and ins: "mem_is_amo req \<longrightarrow> transfer_within A req"
    and eff: "if mem_is_amo req
         then \<exists>e. inflight_mem_read_m t = smap_insert (ucast (mreq_id req)) e (inflight_mem_read_m s) \<and>
           me_addr e = mreq_addr req \<and> me_bytes e = ucast (push_bit (unat (mreq_size req)) 1 :: u64)
         else inflight_mem_read_m t = inflight_mem_read_m s"
  shows "reads_rel A t (ref_step segs (Mem_write_req req) r)"
proof (cases "mem_is_amo req")
  case True
  show ?thesis
  proof (cases "smap_find (inflight_mem_read_m s) (ucast (mreq_id req))")
    case None
    with True eff note_read_rel [OF rel tab] ins show ?thesis by auto
  next
    case (Some e')
    then have "note_read req r = r" using rel by (simp add: note_read_def reads_rel_def)
    with True Some eff rel tab show ?thesis by (auto simp: reads_rel_def)
  qed
next
  case False
  with eff rel reads_rel_cong show ?thesis by auto
qed

lemma mem_req_goes_on:
  assumes c: "clean segs A s g r" and v: "view segs s g" and inv: "sb_inv t" and tab: "smap_ok (inflight_mem_read_m s)"
  shows "within A (Mem_read_req req) \<Longrightarrow> sb_handle (Mem_read_req req) s = Next t \<Longrightarrow>
      goes_on segs A t (ref_step segs (Mem_read_req req) r)"
    and "within A (Mem_write_req wreq) \<Longrightarrow> sb_handle (Mem_write_req wreq) s = Next t \<Longrightarrow>
      goes_on segs A t (ref_step segs (Mem_write_req wreq) r)"
proof -
  have rel: "reads_rel A s r" using c by (simp add: clean_def)
  note quiet = silent_goes_on [OF c inv]
  show "goes_on segs A t (ref_step segs (Mem_read_req req) r)"
    if ins: "within A (Mem_read_req req)" and "sb_handle (Mem_read_req req) s = Next t"
  proof -
    have run: "mem_read_req_process req s = Next t" using that by simp
    have "view segs t g" using mem_read_req_view [OF v, of req] run by (simp add: keeps_view_def)
    moreover have "reads_rel A t (note_read req r)" if none: "sb_errors t = []"
      using mem_read_req_effect [OF run none] note_read_rel [OF rel tab] ins by auto
    ultimately show ?thesis using quiet by simp
  qed
  show "goes_on segs A t (ref_step segs (Mem_write_req wreq) r)"
    if ins: "within A (Mem_write_req wreq)" and "sb_handle (Mem_write_req wreq) s = Next t"
  proof -
    have run: "mem_write_req_process wreq s = Next t" using that by simp
    have "view segs t g" using mem_write_req_view [OF v, of wreq] run by (simp add: keeps_view_def)
    moreover have "reads_rel A t (ref_step segs (Mem_write_req wreq) r)" if none: "sb_errors t = []"
      by (rule mem_write_req_reads [OF rel tab _ mem_write_req_effect [OF run none]]) (use ins in simp)
    ultimately show ?thesis using quiet by simp
  qed
qed

lemma mem_write_resp_goes_on:
  assumes c: "clean segs A s g r" and run: "sb_handle (Mem_write_resp resp) s = Next t"
  shows "goes_on segs A t (ref_step segs (Mem_write_resp resp) r)"
proof -
  have s: "sim segs s g" "coh A g r" "reads_rel A s r" using c by (simp_all add: clean_def)
  obtain g' where g': "golden_step segs (Mem_write_resp resp) g g'" "sim segs t g'" using sb_handle_sim [OF s(1) _ run] by auto
  have eq: "g_mem g' = g_mem g \<and> g_open g' = g_open g \<and> g_log g' = g_log g"
    using g'(1) by (auto elim: golden_ack_stepE)
  have "inflight_mem_read_m t = inflight_mem_read_m s" if "sb_errors t = []"
    using run that by (auto simp: mem_write_resp_process_def Let_def split: if_splits dest!: print_error_Next)
  then have "reads_rel A t r" if "sb_errors t = []" using that s(3) reads_rel_cong by blast
  moreover have "coh A g' r" using s(2) eq by (simp add: coh_def)
  moreover have "\<forall>m \<in> set (g_log g'). \<not> is_wrong_data m" by (simp add: eq clean_log [OF c])
  ultimately show ?thesis using goes_onI [OF g'(2)] by simp
qed

lemma honest_event:
  assumes free: "alias_free A" and c: "clean segs A s g r" and ok: "event_ok v" "within A v" and truth: "truthful r v"
    and run: "sb_handle v s = Next t"
  shows "goes_on segs A t (ref_step segs v r)"
proof -
  have s: "sim segs s g" "reads_rel A s r" using c by (simp_all add: clean_def)
  then have v: "view segs s g" and tab: "smap_ok (inflight_mem_read_m s)" by (simp_all add: sim_view sb_inv_def sb_wf_def)
  have inv: "sb_inv t" using sb_handle_sim [OF s(1) ok(1) run] by (auto simp: sim_def)
  note quiet = silent_goes_on [OF c inv]
  show ?thesis
  proof (cases v)
    case (Core_req junk req)
    show ?thesis using core_req_goes_on [OF free c] ok run unfolding Core_req by blast
  next
    case (Core_resp resp)
    show ?thesis using core_resp_goes_on [OF free c] truth run unfolding Core_resp by blast
  next
    case (Mem_read_req req)
    show ?thesis using mem_req_goes_on(1) [OF c v inv tab] ok run unfolding Mem_read_req by blast
  next
    case (Mem_write_req req)
    show ?thesis using mem_req_goes_on(2) [OF c v inv tab] ok run unfolding Mem_write_req by blast
  next
    case (Mem_read_resp resp)
    with read_resp_goes_on [OF free c _ _ inv] truth run show ?thesis by simp
  next
    case (Mem_write_resp resp)
    show ?thesis using mem_write_resp_goes_on [OF c] run unfolding Mem_write_resp by blast
  next
    case (Clk_pos sig)
    then have t: "t = perf_events_process sig s" using run by simp
    show ?thesis
      using quiet [of r] v s(2) Clk_pos by (simp add: t perf_events_process_def view_def reads_rel_def)
  next
    case Clk_neg
    then have t: "t = check_inflight_requests s" using run by simp
    show ?thesis
      using quiet [of r] v s(2) Clk_neg by (simp add: t check_inflight_requests_def view_def reads_rel_def)
  next
    case (Seq_allocate rnd)
    then have "view segs t g \<and> inflight_mem_read_m t = inflight_mem_read_m s"
      using run v by (auto simp: seq_allocate_def view_def split: option.splits)
    with quiet [of r] s(2) Seq_allocate reads_rel_cong show ?thesis by simp
  qed
qed

text \<open>A whole run: the first message, if there is one, is not about data.\<close>

lemma honest_run:
  assumes free: "alias_free A" and "clean segs A s g r" "\<forall>v \<in> set vs. event_ok v \<and> within A v" "honest segs r vs"
    and "sb_run vs s = Next t"
  shows "sb_errors t = [] \<or> \<not> is_wrong_data (hd (sb_errors t))"
  using assms(2-)
proof (induction vs arbitrary: s g r)
  case Nil
  then show ?case by (simp add: clean_def)
next
  case (Cons v vs)
  then obtain u where u: "sb_handle v s = Next u" "sb_run vs u = Next t" by (auto simp: seq_out_Next_iff)
  have "goes_on segs A u (ref_step segs v r)"
    by (rule honest_event [OF free Cons.prems(1) _ _ _ u(1)]) (use Cons.prems in auto)
  then have go: "\<forall>m \<in> set (sb_errors u). \<not> is_wrong_data m" "sb_errors u = [] \<longrightarrow> (\<exists>g. clean segs A u g (ref_step segs v r))"
    by (simp_all add: goes_on_def)
  show ?case
  proof (cases "sb_errors u")
    case Nil
    with go(2) Cons.IH [OF _ _ _ u(2)] Cons.prems(2,3) show ?thesis by auto
  next
    case (Cons m ms)
    with began_run [OF u(2)] go(1) show ?thesis by auto
  qed
qed

lemma clean_start: "clean segs A (sb_start junk ids segs 0) (golden_start (rsv_abs junk)) (ref_start m)"
  unfolding clean_def
proof (intro conjI sim_start)
  show "coh A (golden_start (rsv_abs junk)) (ref_start m)" by (simp add: coh_def agrees_def covers_def golden_start_def ref_start_def)
qed (simp_all add: reads_rel_def ref_start_def sb_start_defs)

section \<open>The first lie\<close>

text \<open>A response that contradicts a byte the core had written when the request was accepted.\<close>

definition contradicts :: "ref_state \<Rightarrow> hpdcache_test_transaction_resp \<Rightarrow> bool" where
  "contradicts r resp \<longleftrightarrow>
     (case rf_open r (ucast (rsp_tid resp)) of
        None \<Rightarrow> False
      | Some (req, seen, known) \<Rightarrow> reads_data req \<and> \<not> rsp_error resp \<and>
          list_ex (\<lambda>j. known (word_addr req + j) \<and> byte_of (rsp_rdata resp) j \<noteq> seen (word_addr req + j)) (access_bytes req))"

lemma honest_clean:
  assumes free: "alias_free A" and "clean segs A s g r" "\<forall>v \<in> set vs. event_ok v \<and> within A v" "honest segs r vs"
    and "sb_run vs s = Next t" "sb_errors t = []"
  shows "\<exists>g. clean segs A t g (fold (ref_step segs) vs r)"
  using assms(2-)
proof (induction vs arbitrary: s g r)
  case Nil
  then show ?case by auto
next
  case (Cons v vs)
  then obtain u where u: "sb_handle v s = Next u" "sb_run vs u = Next t" by (auto simp: seq_out_Next_iff)
  have "goes_on segs A u (ref_step segs v r)"
    by (rule honest_event [OF free Cons.prems(1) _ _ _ u(1)]) (use Cons.prems in auto)
  moreover have "sb_errors u = []" using began_run [OF u(2)] Cons.prems(5) by auto
  ultimately obtain g' where "clean segs A u g' (ref_step segs v r)" by (auto simp: goes_on_def)
  from Cons.IH [OF this _ _ u(2)] Cons.prems show ?case by auto
qed

lemma lie_is_wrong:
  assumes "req_wf req" "reads_data req" "req_within A req" "agrees A m seen" "covers A m known"
    and "list_ex (\<lambda>j. known (word_addr req + j) \<and> byte_of d j \<noteq> seen (word_addr req + j)) (access_bytes req)"
  shows "wrong_bytes m req d \<noteq> []"
proof -
  have c: "\<not> is_cmo req"
    using assms(2) load_exclusive [of req] lr_exclusive [of req] amo_exclusive [of req] unfolding reads_data_def by blast
  obtain j where j: "j \<in> set (access_bytes req)" "known (word_addr req + j)" "byte_of d j \<noteq> seen (word_addr req + j)"
    using assms(6) unfolding list_ex_iff by blast
  have a: "word_addr req + j \<in> A" using assms(3) c j(1) unfolding req_within_def by blast
  have "j < 8" by (rule enabled_iff_access(2) [OF assms(1) c j(1)])
  note f = fold_word [OF this, of req]
  obtain b where b: "m (word_base req + j) = Some b" using assms(5) a j(2) f unfolding covers_def by (metis option.exhaust)
  then have "m ((word_addr req + j) mod SCOREBOARD_RAM_SIZE) = Some b" unfolding f .
  from agreesD [OF assms(4) a this] b j(1,3) show ?thesis
    by (auto simp: wrong_bytes_def filter_empty_conv)
qed

lemma lie_reported:
  assumes c: "clean segs A s g r" and lie: "contradicts r resp" and run: "core_resp_process resp s = Next t"
  shows "sb_errors t \<noteq> []"
proof
  assume none: "sb_errors t = []"
  let ?k = "ucast (rsp_tid resp) :: u32"
  have v: "view segs s g" and co: "coh A g r" using c by (simp_all add: clean_def sim_view)
  have "g_log (golden_resp resp g) = filter core_error (sb_errors t)"
    using core_resp_sim [OF v run] by (simp add: view_def)
  then have log: "g_log (golden_resp resp g) = []" using none by simp
  obtain req seen known where q: "rf_open r ?k = Some (req, seen, known)" "reads_data req" "\<not> rsp_error resp"
      "list_ex (\<lambda>j. known (word_addr req + j) \<and> byte_of (rsp_rdata resp) j \<noteq> seen (word_addr req + j)) (access_bytes req)"
    using lie by (auto simp: contradicts_def split: option.splits)
  moreover have "rel_option (open_rel A) (g_open g ?k) (rf_open r ?k)" using co by (simp add: coh_def)
  ultimately obtain ge where ge: "g_open g ?k = Some ge" "open_rel A ge (req, seen, known)" by (auto simp: option_rel_Some2)
  then have w: "wrong_bytes (ge_seen ge) req (rsp_rdata resp) \<noteq> []"
    by (intro lie_is_wrong [where A = A, OF _ q(2) _ _ _ q(4)]) (simp_all add: open_rel_def)
  have k: "\<not> is_store req" "\<not> is_amo_sc req"
    using q(2) store_exclusive [of req] sc_exclusive [of req] unfolding reads_data_def by blast+
  have req: "ge_req ge = req" using ge(2) by (simp add: open_rel_def)
  show False
    using log ge(1) req k q(2,3) w clean_log [OF c]
    by (cases "ge_error ge") (simp_all add: golden_resp_def Let_def golden_check_def)
qed

end
