(* ===== verification/Golden_Props.thy ===== *)
theory Golden_Props
  imports Coherence
begin

text \<open>
  What the simulation by the abstract judge gives: the verdict of the scoreboard is that of the
  judge, and a cache that answers from a coherent memory is never accused of wrong data, as long as
  the requests stay in segments that do not meet in the scoreboard's memory.
\<close>

text \<open>
  C1. The scoreboard implements the abstract judge: every run of well-formed events in any order and
  without error limit that the scoreboard handles is a run of the judge from the same reservation,
  and at its end the messages about the core side are exactly those of the judge, the known bytes
  are its memory, the reserved doubleword is the same and the same requests are in flight. So a core
  response is judged by the memory as it was when its request was accepted, whatever the order of
  responses and the traffic of the memory side.
\<close>

theorem scoreboard_refines_golden:
  assumes "sb_run vs (sb_start junk ids segs 0) = Next s" and "\<And>v. v \<in> set vs \<Longrightarrow> event_ok v"
  shows "\<exists>g. golden_run segs vs (golden_start (rsv_abs junk)) g \<and> g_log g = filter core_error (sb_errors s) \<and>
     g_mem g = ram_abs (ram_m s) \<and> g_rsv g = rsv_abs (lrsc_buf_m s) \<and>
     (\<forall>k. g_open g k \<noteq> None \<longleftrightarrow> smap_find (inflight_m s) k \<noteq> None)"
proof -
  obtain g where g: "golden_run segs vs (golden_start (rsv_abs junk)) g" "sim segs s g"
    using sb_run_sim [OF sim_start _ assms(1)] assms(2) by blast
  have "g_open g k \<noteq> None \<longleftrightarrow> smap_find (inflight_m s) k \<noteq> None" for k
  proof -
    have "rel_option entry_rel (smap_find (inflight_m s) k) (g_open g k)" using g(2) by (simp add: sim_def)
    then show ?thesis by (cases "g_open g k") (auto simp: option_rel_Some2)
  qed
  with g show ?thesis by (auto simp: sim_def)
qed

text \<open>Plain loads and stores are never refused, so on them the judge is a function.\<close>

lemma golden_run_plain:
  "is_load req \<or> is_store req \<Longrightarrow>
   golden_run segs (Core_req junk req # vs) g g' \<longleftrightarrow> golden_run segs vs (golden_req segs req g) g'"
  using load_exclusive [of req] store_exclusive [of req]
  by (auto elim!: golden_run_ConsE golden_req_stepE simp: waits_for_memory_def intro: More Accept)

lemma golden_run_resp:
  "golden_run segs (Core_resp resp # vs) g g' \<longleftrightarrow> golden_run segs vs (golden_resp resp g) g'"
  by (auto elim!: golden_run_ConsE golden_resp_stepE intro: More Judge)

lemma golden_run_Nil: "golden_run segs [] g g' \<longleftrightarrow> g' = g"
  by (auto elim: golden_run_NilE intro: Done)

definition load_be_w :: hpdcache_test_transaction_req where
  "load_be_w = (load_w 2 0x1004 2)\<lparr>req_be := 0xf0\<rparr>"

definition store_be_w :: hpdcache_test_transaction_req where
  "store_be_w = store_w 1 0x1000 0x1122334455667788 0xff 3"

definition resp_be_w :: "u64 \<Rightarrow> hpdcache_test_transaction_resp" where
  "resp_be_w d = transaction_resp_new\<lparr>rsp_tid := 2, rsp_rdata := d\<rparr>"

lemmas be_w_defs = load_be_w_def store_be_w_def resp_be_w_def load_w_def store_w_def transaction_req_new_def
  transaction_resp_new_def

lemma be_w_wf: "req_wf load_be_w" "req_wf store_be_w"
proof -
  have c: "\<not> is_cmo load_be_w" "\<not> is_cmo store_be_w" "\<not> req_is_amo load_be_w" "\<not> req_is_amo store_be_w"
    by (simp_all add: be_w_defs is_cmo_def req_is_amo_def is_amo_def is_amo_sc_def is_amo_lr_def has_op_def)
  have "bit (0xf0 :: u8) i \<longleftrightarrow> 4 \<le> i \<and> i < 8" "bit (0xff :: u8) i" if "i < 8" for i
  proof -
    have "i \<in> {0, 1, 2, 3, 4, 5, 6, 7}" using that by auto
    then show "bit (0xf0 :: u8) i \<longleftrightarrow> 4 \<le> i \<and> i < 8" "bit (0xff :: u8) i" by auto
  qed
  with c show "req_wf load_be_w" "req_wf store_be_w"
    by (auto simp: req_wf_def Let_def) (simp_all add: be_w_defs)
qed

lemma be_w_classes: "is_load load_be_w" "is_store store_be_w"
  by (simp_all add: be_w_defs is_load_def is_store_def has_op_def)

lemma be_w_log:
  "g_log (golden_resp (resp_be_w d) (golden_req [] load_be_w (golden_req [] store_be_w (golden_start None)))) =
   wrong_bytes (put_word store_be_w 0x1122334455667788 (\<lambda>_. None)) load_be_w d"
proof -
  have f: "req_tag store_be_w = 1" "req_tag load_be_w = 2" "req_need_rsp store_be_w" "req_need_rsp load_be_w"
    "ucast (rsp_tid (resp_be_w d)) = (2 :: u32)" "\<not> rsp_error (resp_be_w d)" "rsp_rdata (resp_be_w d) = d"
    "\<not> expects_error [] store_be_w" "\<not> expects_error [] load_be_w" "req_wdata store_be_w = 0x1122334455667788"
    by (simp_all add: be_w_defs req_tag_def expects_error_def req_in_error_def)
  have k: "\<not> is_amo_sc load_be_w" "\<not> is_amo load_be_w" "reads_data load_be_w" "\<not> is_cmo load_be_w" "\<not> is_cmo store_be_w"
    "\<not> is_store load_be_w"
    using load_exclusive [OF be_w_classes(1)] store_exclusive [OF be_w_classes(2)] be_w_classes(1) by (auto simp: reads_data_def)
  show ?thesis
    using be_w_classes k
    by (simp add: golden_req_def golden_resp_def golden_start_def f golden_entry_of_def golden_check_def Let_def say_def)
qed

lemma be_w_wrong:
  "wrong_bytes (put_word store_be_w 0x1122334455667788 (\<lambda>_. None)) load_be_w 0x1122ff4400000000 = [Wrong_data 0x1005 0xff 0x33]"
  "wrong_bytes (put_word store_be_w 0x1122334455667788 (\<lambda>_. None)) load_be_w 0x1122334400000000 = []"
proof -
  have b: "word_base store_be_w = 0x1000" "word_base load_be_w = 0x1000"
      "access_bytes load_be_w = [4, 5, 6, 7]" "req_be store_be_w = 0xff" "ucast (req_addr load_be_w) = (0x1004 :: u64)"
    by (simp_all add: be_w_defs word_base_def access_bytes_def align_to_def upt_rec_numeral)
  have m: "put_word store_be_w 0x1122334455667788 (\<lambda>_. None) (0x1000 + j) = Some (byte_of 0x1122334455667788 j)" if "j < 8" for j
    using that bytes8_be_full [OF that] by (simp add: put_word_def upd_bytes_def b)
  have y: "byte_of 0x1122334455667788 4 = 0x44" "byte_of 0x1122334455667788 5 = 0x33"
    "byte_of 0x1122334455667788 6 = 0x22" "byte_of 0x1122334455667788 7 = 0x11"
    "byte_of 0x1122ff4400000000 4 = 0x44" "byte_of 0x1122ff4400000000 5 = 0xff"
    "byte_of 0x1122ff4400000000 6 = 0x22" "byte_of 0x1122ff4400000000 7 = 0x11"
    "byte_of 0x1122334400000000 4 = 0x44" "byte_of 0x1122334400000000 5 = 0x33"
    "byte_of 0x1122334400000000 6 = 0x22" "byte_of 0x1122334400000000 7 = 0x11"
    by code_simp+
  note v = m [of 4, simplified] m [of 5, simplified] m [of 6, simplified] m [of 7, simplified]
  show "wrong_bytes (put_word store_be_w 0x1122334455667788 (\<lambda>_. None)) load_be_w 0x1122ff4400000000 = [Wrong_data 0x1005 0xff 0x33]"
    "wrong_bytes (put_word store_be_w 0x1122334455667788 (\<lambda>_. None)) load_be_w 0x1122334400000000 = []"
    by (simp_all add: wrong_bytes_def b v y align_to_def)
qed

abbreviation events_w :: "u64 \<Rightarrow> sb_event list" where
  "events_w d \<equiv> [Core_req entry_w store_be_w, Core_req entry_w load_be_w, Core_resp (resp_be_w d)]"

lemma events_w_run: "\<exists>t. sb_run (events_w d) (sb_start rsv_w [] [] 0) = Next t"
  using sb_run_progress [OF sim_start start_fits, of "events_w d" rsv_w "[]" "[]"] be_w_wf by auto

lemma rsv_w_none: "rsv_abs rsv_w = None"
  by (simp add: rsv_abs_def rsv_w_def)

theorem scoreboard_refines_golden_witness:
  "\<exists>s. sb_run (events_w 0x1122ff4400000000) (sb_start rsv_w [] [] 0) = Next s \<and>
     filter core_error (sb_errors s) = [Wrong_data 0x1005 0xff 0x33]"
proof -
  obtain s where s: "sb_run (events_w 0x1122ff4400000000) (sb_start rsv_w [] [] 0) = Next s" using events_w_run by blast
  obtain g where "golden_run [] (events_w 0x1122ff4400000000) (golden_start (rsv_abs rsv_w)) g" "g_log g = filter core_error (sb_errors s)"
    using scoreboard_refines_golden [OF s] be_w_wf by fastforce
  then show ?thesis
    using s be_w_classes be_w_log [of "0x1122ff4400000000"] be_w_wrong(1)
    by (simp add: golden_run_plain golden_run_resp golden_run_Nil rsv_w_none)
qed

section \<open>Coherent systems\<close>

text \<open>The witnesses: a doubleword at 0x1000 is stored, its upper word is loaded.\<close>

lemma word_alias_free: "alias_free {0x1000..<0x1008}"
  by (auto simp: alias_free_def inj_on_def)

lemma be_w_within:
  "event_ok (Core_req entry_w load_be_w) \<and> within {0x1000..<0x1008} (Core_req entry_w load_be_w)"
  "event_ok (Core_req entry_w store_be_w) \<and> within {0x1000..<0x1008} (Core_req entry_w store_be_w)"
proof -
  have "access_bytes load_be_w = [4, 5, 6, 7]" "word_addr load_be_w = 0x1000" "word_addr store_be_w = 0x1000"
    by (simp_all add: be_w_defs access_bytes_def word_addr_def upt_rec_numeral)
  moreover have "j < 8" if "j \<in> set (access_bytes store_be_w)" for j
    using that by (simp add: be_w_defs access_bytes_def)
  ultimately show
    "event_ok (Core_req entry_w load_be_w) \<and> within {0x1000..<0x1008} (Core_req entry_w load_be_w)"
    "event_ok (Core_req entry_w store_be_w) \<and> within {0x1000..<0x1008} (Core_req entry_w store_be_w)"
    using be_w_wf by (auto simp: req_within_def)
qed

lemma be_w_ref:
  "rf_open (ref_request [] load_be_w (ref_request [] store_be_w (ref_start (\<lambda>_. 0)))) 2 =
     Some (load_be_w, \<lambda>a. if enabled store_be_w a then byte_of 0x1122334455667788 (a - word_addr store_be_w) else 0,
           enabled store_be_w)"
proof -
  have f: "req_tag store_be_w = 1" "req_tag load_be_w = 2" "req_need_rsp store_be_w" "req_need_rsp load_be_w"
    "\<not> expects_error [] store_be_w" "req_wdata store_be_w = 0x1122334455667788"
    by (simp_all add: be_w_defs req_tag_def expects_error_def req_in_error_def)
  have k: "\<not> is_store load_be_w" using load_exclusive [OF be_w_classes(1)] by simp
  show ?thesis
    using be_w_classes k by (auto simp: ref_request_def f ref_start_def write_word_def)
qed

lemma be_w_enabled: "j < 8 \<Longrightarrow> enabled store_be_w (0x1000 + j) \<and> word_addr store_be_w = 0x1000"
proof -
  assume "j < 8"
  moreover from this have "bit (0xff :: u8) j" by (rule bit_all_ones)
  moreover have "word_addr store_be_w = 0x1000" "req_be store_be_w = 0xff" by (simp_all add: be_w_defs word_addr_def)
  ultimately show ?thesis by (simp add: enabled_def)
qed

lemma be_w_bytes:
  "byte_of 0x1122334400000000 4 = byte_of 0x1122334455667788 4" "byte_of 0x1122334400000000 5 = byte_of 0x1122334455667788 5"
  "byte_of 0x1122334400000000 6 = byte_of 0x1122334455667788 6" "byte_of 0x1122334400000000 7 = byte_of 0x1122334455667788 7"
  "byte_of 0x1122ff4400000000 5 \<noteq> byte_of 0x1122334455667788 5"
  by code_simp+

lemma be_w_load: "access_bytes load_be_w = [4, 5, 6, 7]" "word_addr load_be_w = 0x1000" "reads_data load_be_w"
  using be_w_classes(1) by (simp_all add: be_w_defs access_bytes_def word_addr_def upt_rec_numeral reads_data_def)

lemma resp_be_w_fields:
  "ucast (rsp_tid (resp_be_w d)) = (2 :: u32)" "\<not> rsp_error (resp_be_w d)" "rsp_rdata (resp_be_w d) = d"
  by (simp_all add: be_w_defs)

lemmas be_w_enabled4 = be_w_enabled [of 4, simplified] be_w_enabled [of 5, simplified]
  be_w_enabled [of 6, simplified] be_w_enabled [of 7, simplified]

text \<open>
  C2. No false alarms: in a run over addresses that do not meet in the scoreboard's memory, in which
  every answer of the cache carries the bytes the reference memory held when its request was accepted
  and the memory behind the cache returns those bytes wherever the core has not written yet, wrong
  data is never the first message. Loads, stores, atomics, cache operations, errors, memory traffic
  and clock edges are interleaved at will; only a message about something else, which puts the
  scoreboard out of step, can be followed by one about data.
\<close>

theorem no_false_alarm:
  assumes "alias_free A" and "\<And>v. v \<in> set vs \<Longrightarrow> event_ok v \<and> within A v"
    and "honest segs (ref_start m) vs" and "sb_run vs (sb_start junk ids segs 0) = Next s"
  shows "sb_errors s = [] \<or> \<not> is_wrong_data (hd (sb_errors s))"
  by (rule honest_run [OF assms(1) clean_start _ assms(3,4)]) (use assms(2) in blast)

theorem no_false_alarm_witness:
  "\<exists>s. sb_run (events_w 0x1122334400000000) (sb_start rsv_w [] [] 0) = Next s \<and>
     (sb_errors s = [] \<or> \<not> is_wrong_data (hd (sb_errors s)))"
proof -
  obtain s where s: "sb_run (events_w 0x1122334400000000) (sb_start rsv_w [] [] 0) = Next s" using events_w_run by blast
  have "honest [] (ref_start (\<lambda>_. 0)) (events_w 0x1122334400000000)"
    using be_w_ref be_w_load be_w_enabled4 be_w_bytes by (simp add: resp_be_w_fields)
  moreover have "event_ok v \<and> within {0x1000..<0x1008} v" if "v \<in> set (events_w 0x1122334400000000)" for v
    using that be_w_within by auto
  ultimately show ?thesis using no_false_alarm [OF word_alias_free _ _ s] s by blast
qed

text \<open>
  C3. The first lie is reported: after a run as above without any message, a response that
  contradicts a byte the core had written when the request was accepted, even in one byte, makes the
  scoreboard print a message.
\<close>

theorem first_lie_reported:
  assumes "alias_free A" and "\<And>v. v \<in> set vs \<Longrightarrow> event_ok v \<and> within A v"
    and "honest segs (ref_start m) vs" and "contradicts (fold (ref_step segs) vs (ref_start m)) resp"
    and "sb_run (vs @ [Core_resp resp]) (sb_start junk ids segs 0) = Next t"
  shows "sb_errors t \<noteq> []"
proof -
  obtain s where s: "sb_run vs (sb_start junk ids segs 0) = Next s" "core_resp_process resp s = Next t"
    using assms(5) by (auto simp: sb_run_append seq_out_Next_iff)
  show ?thesis
  proof (cases "sb_errors s")
    case Nil
    have ok: "\<forall>v \<in> set vs. event_ok v \<and> within A v" using assms(2) by blast
    obtain g where "clean segs A s g (fold (ref_step segs) vs (ref_start m))"
      using honest_clean [OF assms(1) clean_start ok assms(3) s(1) Nil] by blast
    from lie_reported [OF this assms(4) s(2)] show ?thesis .
  next
    case (Cons e es)
    have "sb_run [Core_resp resp] s = Next t" using s(2) by simp
    from began_run [OF this] Cons show ?thesis by auto
  qed
qed

theorem first_lie_reported_witness:
  "\<exists>t. sb_run (events_w 0x1122ff4400000000) (sb_start rsv_w [] [] 0) = Next t \<and> sb_errors t \<noteq> []"
proof -
  let ?vs = "[Core_req entry_w store_be_w, Core_req entry_w load_be_w]"
  obtain t where t: "sb_run (?vs @ [Core_resp (resp_be_w 0x1122ff4400000000)]) (sb_start rsv_w [] [] 0) = Next t"
    using events_w_run [of "0x1122ff4400000000"] by auto
  have "contradicts (fold (ref_step []) ?vs (ref_start (\<lambda>_. 0))) (resp_be_w 0x1122ff4400000000)"
    using be_w_ref be_w_load be_w_enabled4 be_w_bytes(5) by (simp add: contradicts_def resp_be_w_fields)
  moreover have "event_ok v \<and> within {0x1000..<0x1008} v" if "v \<in> set ?vs" for v
    using that be_w_within by auto
  moreover have "honest [] (ref_start (\<lambda>_. 0)) ?vs" by simp
  ultimately have "sb_errors t \<noteq> []" using first_lie_reported [OF word_alias_free _ _ _ t] by blast
  with t show ?thesis by auto
qed

section \<open>The sequences\<close>

text \<open>The bytes of some segments; those of the random sequence start 0x4000 bytes apart in the 16 MiB.\<close>

definition segs_bytes :: "hpdcache_test_memory_segment list \<Rightarrow> nat set" where
  "segs_bytes sgs = {a. \<exists>sg \<in> set sgs. unat (seg_base sg) \<le> a \<and> a < unat (seg_base sg) + unat (seg_length sg)}"

lemma random_segs_bytes:
  assumes "a \<in> segs_bytes random_segs"
  obtains i x where "i < 4" "x < 0x4000" "a = i * 0x40004000 + x"
proof -
  from assms have "a < 0x4000 \<or> (0x40004000 \<le> a \<and> a < 0x40008000) \<or> (0x80008000 \<le> a \<and> a < 0x8000C000) \<or>
      (0xC000C000 \<le> a \<and> a < 0xC0010000)"
    by (auto simp: segs_bytes_def random_segs_def mk_segment_def segment_defs)
  then consider "a < 0x4000" | "0x40004000 \<le> a" "a < 0x40008000" | "0x80008000 \<le> a" "a < 0x8000C000"
    | "0xC000C000 \<le> a" "a < 0xC0010000" by blast
  then show thesis
    using that [of 0 a] that [of 1 "a - 0x40004000"] that [of 2 "a - 0x80008000"] that [of 3 "a - 0xC000C000"] by cases auto
qed

lemma random_segs_alias_free: "alias_free (segs_bytes random_segs)"
proof -
  have cell: "(i * 0x40004000 + x) mod 0x1000000 = i * 0x4000 + x" if "i < 4" "x < 0x4000" for i x :: nat
  proof -
    have "i * 0x40004000 + x = i * 0x4000 + x + 0x1000000 * (64 * i)" by simp
    moreover have "i * 0x4000 + x < 0x1000000" using that by simp
    ultimately show ?thesis by (simp only: mod_mult_self2 mod_less)
  qed
  have "a = b" if ab: "a \<in> segs_bytes random_segs" "b \<in> segs_bytes random_segs" "a mod SCOREBOARD_RAM_SIZE = b mod SCOREBOARD_RAM_SIZE" for a b
  proof -
    obtain i x where a: "i < 4" "x < 0x4000" "a = i * 0x40004000 + x" by (rule random_segs_bytes [OF ab(1)])
    obtain j y where b: "j < 4" "y < 0x4000" "b = j * 0x40004000 + y" by (rule random_segs_bytes [OF ab(2)])
    have "i * 0x4000 + x = j * 0x4000 + y" using ab(3) cell [OF a(1,2)] cell [OF b(1,2)] unfolding a(3) b(3) by simp
    moreover have "(k * 0x4000 + z) div 0x4000 = k" "(k * 0x4000 + z) mod 0x4000 = z" if "z < 0x4000" for k z :: nat
      using that by simp_all
    ultimately have "i = j \<and> x = y" using a(2) b(2) by metis
    then show ?thesis by (simp add: a(3) b(3))
  qed
  then show ?thesis by (simp only: alias_free_def inj_on_def) blast
qed

lemma unique_set_segs_bytes: "segs_bytes unique_set_segs = segs_bytes random_segs"
  by (auto simp: segs_bytes_def unique_set_segs_def random_segs_def mk_segment_def segment_defs Let_def)

lemma small_segs_alias_free:
  assumes "\<And>a. a \<in> A \<Longrightarrow> a < SCOREBOARD_RAM_SIZE"
  shows "alias_free A"
  using assms by (simp add: alias_free_def inj_on_def)

text \<open>Segments of whole doublewords; a request inside them touches no other byte.\<close>

definition word_segs :: "hpdcache_test_memory_segment list \<Rightarrow> bool" where
  "word_segs sgs \<longleftrightarrow> list_all (\<lambda>sg. 8 dvd unat (seg_base sg) \<and> 8 dvd unat (seg_length sg)) sgs"

lemma req_in_within:
  assumes "word_segs sgs" and "req_in sgs req"
  shows "req_within (segs_bytes sgs) req"
proof -
  obtain sg where sg: "sg \<in> set sgs" "in_segment sg req" and wf: "req_wf req" using assms(2) by (auto simp: req_in_def)
  have d: "8 dvd unat (seg_base sg)" "8 dvd unat (seg_length sg)" using assms(1) sg(1) by (auto simp: word_segs_def list_all_iff)
  have "word_addr req + j \<in> segs_bytes sgs" if "\<not> is_cmo req" "j \<in> set (access_bytes req)" for j
  proof -
    have "j < 8" by (rule enabled_iff_access(2) [OF wf that])
    moreover have "unat (seg_base sg) \<le> unat (req_addr req)" "unat (req_addr req) < unat (seg_base sg) + unat (seg_length sg)"
      using sg(2) by (simp_all add: in_segment_def)
    moreover obtain k l where "unat (seg_base sg) = 8 * k" "unat (seg_length sg) = 8 * l" using d by (auto elim!: dvdE)
    moreover have "n div 8 * 8 + j < 8 * k + 8 * l \<and> 8 * k \<le> n div 8 * 8 + j"
      if "j < 8" "8 * k \<le> n" "n < 8 * k + 8 * l" for n j k l :: nat
    proof -
      have "k \<le> n div 8" "n div 8 < k + l" using that(2,3) by (simp_all add: less_eq_div_iff_mult_less_eq div_less_iff_less_mult)
      with that(1) show ?thesis by linarith
    qed
    ultimately have "unat (seg_base sg) \<le> word_addr req + j" "word_addr req + j < unat (seg_base sg) + unat (seg_length sg)"
      unfolding word_addr_def by metis+
    with sg(1) show ?thesis by (auto simp: segs_bytes_def)
  qed
  then show ?thesis by (simp add: req_within_def)
qed

text \<open>The events of a run over some segments: its requests, and memory traffic inside the segments.\<close>

fun system_traffic ::
  "hpdcache_test_memory_segment list \<Rightarrow> hpdcache_test_transaction_req option list \<Rightarrow> sb_event \<Rightarrow> bool" where
  "system_traffic sgs q (Core_req junk t) = (Some t \<in> set q)"
| "system_traffic sgs q (Mem_read_req r) = (unat (mreq_size r) < 64 \<and> transfer_within (segs_bytes sgs) r)"
| "system_traffic sgs q (Mem_write_req r) =
     (unat (mreq_size r) < 64 \<and> (mem_is_amo r \<longrightarrow> transfer_within (segs_bytes sgs) r))"
| "system_traffic sgs q v = True"

text \<open>
  A run whose requests stay in segments that do not meet raises no false alarm, as far as it goes: to
  its end, or to a refill that is undefined or an allocation that fails.
\<close>

lemma honest_append: "honest segs r (us @ vs) \<Longrightarrow> honest segs r us"
  by (induction us arbitrary: r) auto

lemma traffic_fine:
  assumes "word_segs sgs" and "q = map Some out @ [None]" "\<forall>t \<in> set out. req_in sgs t"
    and "list_all (system_traffic sgs q) vs" "v \<in> set vs"
  shows "event_ok v \<and> within (segs_bytes sgs) v"
proof -
  have tr: "system_traffic sgs q v" using assms(4,5) by (simp add: list_all_iff)
  show ?thesis
  proof (cases v)
    case (Core_req junk t)
    with tr assms(2,3) have "req_in sgs t" by auto
    with Core_req req_in_within [OF assms(1)] show ?thesis by (simp add: req_in_def)
  qed (use tr in auto)
qed

definition calm :: "scoreboard \<Rightarrow> bool" where
  "calm s \<longleftrightarrow> sb_errors s = [] \<or> \<not> is_wrong_data (hd (sb_errors s))"

lemma segments_no_false_alarm:
  assumes "word_segs sgs" "alias_free (segs_bytes sgs)" and "q = map Some out @ [None]" "\<forall>t \<in> set out. req_in sgs t"
    and "list_all (system_traffic sgs q) vs" and "honest segs (ref_start m) vs"
  shows "case sb_run vs (sb_start junk ids segs 0) of
       Next s \<Rightarrow> calm s
     | stopped \<Rightarrow> \<exists>us v ws s. vs = us @ v # ws \<and> sb_run us (sb_start junk ids segs 0) = Next s \<and> calm s \<and>
         (bad_refill s v \<or> \<not> id_granted s v)"
proof -
  let ?s0 = "sb_start junk ids segs 0"
  have fine: "\<forall>v \<in> set vs. event_ok v \<and> within (segs_bytes sgs) v" using traffic_fine [OF assms(1,3,4,5)] by blast
  have calm: "calm s" if "vs = us @ ws" "sb_run us ?s0 = Next s" for us ws s
    unfolding calm_def
    by (rule honest_run [OF assms(2) clean_start _ _ that(2)]) (use fine that(1) assms(6) honest_append in auto)
  have stops: "\<exists>us v ws s. vs = us @ v # ws \<and> sb_run us ?s0 = Next s \<and> calm s \<and> (bad_refill s v \<or> \<not> id_granted s v)"
    if "\<nexists>s. sb_run vs ?s0 = Next s"
  proof -
    have "\<forall>v \<in> set vs. event_ok v" using fine by blast
    from sb_run_stops [OF sim_start start_fits this, of junk ids segs] that
    obtain us v ws s where "vs = us @ v # ws" "sb_run us ?s0 = Next s" "bad_refill s v \<or> \<not> id_granted s v" by auto
    with calm show ?thesis by blast
  qed
  show ?thesis using calm [of vs "[]"] stops by (cases "sb_run vs ?s0") simp_all
qed

end
