(* ===== verification/Trace_Manager.thy ===== *)
theory Trace_Manager
  imports Test_Sequence
begin

text \<open>
  \<^verbatim>\<open>hpdcache_test_trace_manager.h\<close> and \<^verbatim>\<open>hpdcache_test_from_trace_seq.h\<close>: the reader of compressed
  traces, the debug writer, and the sequence that replays a trace. The decompressor (miniz) is the
  parameter \<open>lib\<close>: its allocation, initialisation, inflate and end routines. \<^verbatim>\<open>read\<close> on the trace file
  delivers as many bytes as are asked for and left. A call ends with a value and the new reader,
  halts the process, is undefined (an index outside the buffer, a freed stream), or never returns.
\<close>

section \<open>Outcomes of calls\<close>

datatype ('a, 'r) res = Ret 'a 'r | Halt int | Stuck | Forever

fun res_bind :: "('a, 'r) res \<Rightarrow> ('a \<Rightarrow> 'r \<Rightarrow> ('b, 'r) res) \<Rightarrow> ('b, 'r) res" where
  "res_bind (Ret a r) f = f a r"
| "res_bind (Halt c) f = Halt c"
| "res_bind Stuck f = Stuck"
| "res_bind Forever f = Forever"

lemma res_bind_assoc: "res_bind (res_bind x f) g = res_bind x (\<lambda>a r. res_bind (f a r) g)"
  by (cases x) simp_all

section \<open>The reader\<close>

definition MAX_SIZE_BUFFER :: nat where "MAX_SIZE_BUFFER = 5000000"

datatype mz_ret = MZ_OK | MZ_STREAM_END | MZ_STREAM_ERROR | MZ_OTHER int

text \<open>
  \<open>z_inflate z inp n\<close>: called on the stream \<open>z\<close> with the input \<open>inp\<close> and room for \<open>n\<close> bytes, it returns
  its status, the new stream, the number of bytes it consumed and the bytes it produced.
\<close>

record 'z inflater =
  z_alloc :: bool
  z_init :: "mz_ret \<times> 'z"
  z_inflate :: "'z \<Rightarrow> u8 list \<Rightarrow> nat \<Rightarrow> mz_ret \<times> 'z \<times> nat \<times> u8 list"
  z_end :: "'z \<Rightarrow> mz_ret"

datatype 'z stream_ptr = Null_stream | Live 'z | Freed

record 'z trace_reader =
  bool_finish :: bool
  rd_stream :: "'z stream_ptr"
  trace_left :: "u8 list"
  rd_buf :: "nat \<Rightarrow> u8"
  end_buffer :: nat
  read_buffer :: nat
  rd_closed :: bool

definition buf_capacity :: nat where "buf_capacity = MAX_SIZE_BUFFER * 20"

definition init_buf :: "'z trace_reader \<Rightarrow> 'z trace_reader" where
  "init_buf r = r\<lparr>end_buffer := MAX_SIZE_BUFFER, read_buffer := MAX_SIZE_BUFFER\<rparr>"

text \<open>\<open>set_trace\<close>: the content of the file, or \<open>None\<close> when it cannot be opened.\<close>

definition set_trace :: "u8 list option \<Rightarrow> 'z trace_reader \<Rightarrow> (unit, 'z trace_reader) res" where
  "set_trace content r =
     (case content of None \<Rightarrow> Halt 1 | Some bs \<Rightarrow> Ret () (init_buf (r\<lparr>trace_left := bs\<rparr>)))"

definition trace_reader_new :: "(nat \<Rightarrow> u8) \<Rightarrow> u8 list option \<Rightarrow> (unit, 'z trace_reader) res" where
  "trace_reader_new junk content =
     res_bind (set_trace content \<lparr>bool_finish = False, rd_stream = Null_stream, trace_left = [], rd_buf = junk,
        end_buffer = 0, read_buffer = 0, rd_closed = False\<rparr>) (\<lambda>_ r. Ret () (init_buf r))"

text \<open>\<open>display_binary\<close>: the digits printed, most significant first.\<close>

definition display_binary :: "u32 \<Rightarrow> string" where
  "display_binary value =
     map (\<lambda>i. if drop_bit 7 (push_bit (8 - i) value) AND 1 \<noteq> 0 then CHR ''1'' else CHR ''0'') (rev [1..<9])"

definition init_stream :: "'z inflater \<Rightarrow> 'z trace_reader \<Rightarrow> ('z, 'z trace_reader) res" where
  "init_stream lib r =
     (if \<not> z_alloc lib then Halt 1
      else if fst (z_init lib) \<noteq> MZ_OK then Halt 1
      else Ret (snd (z_init lib)) (r\<lparr>rd_stream := Live (snd (z_init lib))\<rparr>))"

definition copy_bytes :: "u8 list \<Rightarrow> nat \<Rightarrow> (nat \<Rightarrow> u8) \<Rightarrow> nat \<Rightarrow> u8" where
  "copy_bytes out off b = (\<lambda>i. if off \<le> i \<and> i < off + length out then out ! (i - off) else b i)"

text \<open>
  The decompression loop: stream, input left, end of the buffer, buffer. \<open>None\<close> is a loop that never
  ends; on the left of the sum, a halt or an overflow of the buffer.
\<close>

partial_function (option) inflate_loop ::
  "'z inflater \<Rightarrow> 'z \<Rightarrow> u8 list \<Rightarrow> nat \<Rightarrow> (nat \<Rightarrow> u8) \<Rightarrow> (int option + mz_ret \<times> 'z \<times> nat \<times> (nat \<Rightarrow> u8)) option" where
  "inflate_loop lib z inp e b =
     (case z_inflate lib z inp MAX_SIZE_BUFFER of
        (ret, z', used, out) \<Rightarrow>
          if ret = MZ_STREAM_ERROR then Some (Inl (Some 1))
          else if e + length out > buf_capacity then Some (Inl None)
          else if drop used inp \<noteq> [] then inflate_loop lib z' (drop used inp) (e + length out) (copy_bytes out e b)
          else Some (Inr (ret, z', e + length out, copy_bytes out e b)))"

definition decompress_data_from_trace :: "'z inflater \<Rightarrow> 'z trace_reader \<Rightarrow> (unit, 'z trace_reader) res" where
  "decompress_data_from_trace lib r =
     (if \<not> z_alloc lib then Halt 1
      else
        res_bind (case rd_stream r of Null_stream \<Rightarrow> init_stream lib r | Live z \<Rightarrow> Ret z r | Freed \<Rightarrow> Stuck)
          (\<lambda>z r.
             let inp = take MAX_SIZE_BUFFER (trace_left r);
                 r = r\<lparr>trace_left := drop MAX_SIZE_BUFFER (trace_left r)\<rparr>
             in case inflate_loop lib z inp (end_buffer r) (rd_buf r) of
                  None \<Rightarrow> Forever
                | Some (Inl (Some c)) \<Rightarrow> Halt c
                | Some (Inl None) \<Rightarrow> Stuck
                | Some (Inr (ret, z, e, b)) \<Rightarrow>
                    (let r = r\<lparr>end_buffer := e, rd_buf := b, bool_finish := (ret = MZ_STREAM_END), rd_stream := Live z\<rparr>
                     in if bool_finish r then
                          (if z_end lib z \<noteq> MZ_OK then Halt 1 else Ret () (r\<lparr>rd_stream := Freed\<rparr>))
                        else Ret () r)))"

primrec get_content_of_trace :: "'z inflater \<Rightarrow> nat \<Rightarrow> 'z trace_reader \<Rightarrow> (u8 list, 'z trace_reader) res" where
  "get_content_of_trace lib 0 r = Ret [] r"
| "get_content_of_trace lib (Suc n) r =
     res_bind (if read_buffer r = end_buffer r
               then decompress_data_from_trace lib (r\<lparr>end_buffer := 0, read_buffer := 0\<rparr>) else Ret () r)
       (\<lambda>_ r. if read_buffer r < buf_capacity then
                 res_bind (get_content_of_trace lib n (r\<lparr>read_buffer := read_buffer r + 1\<rparr>))
                   (\<lambda>bs r'. Ret (rd_buf r (read_buffer r) # bs) r')
               else Stuck)"

definition is_finish :: "'z trace_reader \<Rightarrow> bool" where
  "is_finish r \<longleftrightarrow> end_buffer r \<le> read_buffer r \<and> bool_finish r"

section \<open>The fields of a record\<close>

definition read_address :: "'z inflater \<Rightarrow> 'z trace_reader \<Rightarrow> (u64, 'z trace_reader) res" where
  "read_address lib r = res_bind (get_content_of_trace lib 8 r) (\<lambda>bs r. Ret (word_of_bytes bs) r)"

text \<open>
  Two routines read a four-byte integer through the address of a single \<^verbatim>\<open>char\<close>: the three upper
  bytes are whatever lies beside it, the argument \<open>junk\<close>. A \<^verbatim>\<open>char\<close> is signed.
\<close>

definition widen :: "24 word \<Rightarrow> u8 \<Rightarrow> u32" where
  "widen junk b = push_bit 8 (ucast junk) OR ucast b"

definition read_type_transaction :: "24 word \<Rightarrow> 'z inflater \<Rightarrow> 'z trace_reader \<Rightarrow> (u32, 'z trace_reader) res" where
  "read_type_transaction junk lib r = res_bind (get_content_of_trace lib 1 r) (\<lambda>bs r. Ret (widen junk (hd bs)) r)"

definition read_size :: "24 word \<Rightarrow> 'z inflater \<Rightarrow> 'z trace_reader \<Rightarrow> (u32 \<times> u8, 'z trace_reader) res" where
  "read_size junk lib r =
     res_bind (get_content_of_trace lib 1 r)
       (\<lambda>bs r. let b = hd bs in
                Ret (widen junk (signed_drop_bit 4 (push_bit 4 b)), signed_drop_bit 4 b) r)"

definition get_bit :: "u8 \<Rightarrow> nat \<Rightarrow> bool" where
  "get_bit to_read position \<longleftrightarrow> signed_drop_bit 7 (push_bit (8 - position) to_read) AND 1 \<noteq> 0"

definition read_boolean_and_type ::
  "'z inflater \<Rightarrow> hpdcache_test_transaction_req \<Rightarrow> 'z trace_reader \<Rightarrow> (hpdcache_test_transaction_req, 'z trace_reader) res" where
  "read_boolean_and_type lib t r =
     res_bind (get_content_of_trace lib 1 r)
       (\<lambda>bs r. let tmp = hd bs in
                Ret (t\<lparr>req_op := ucast (drop_bit 2 tmp), req_need_rsp := get_bit tmp 2, req_uncacheable := get_bit tmp 1,
                      req_phys_indexed := True, req_io := get_bit tmp 1, req_abort := False\<rparr>) r)"

text \<open>The host is little endian, as \<open>word_of_bytes\<close> is everywhere in this development.\<close>

definition is_big_endian :: bool where "is_big_endian = False"

definition get_address :: "u8 \<Rightarrow> u64 \<Rightarrow> u64 + int" where
  "get_address sz address_on_real_computer =
     (let sz = push_bit 2 sz in
      if unat sz > HPDCACHE_REQ_DATA_WIDTH then Inr 1
      else if \<not> is_big_endian then Inl (address_on_real_computer + of_nat HPDCACHE_REQ_DATA_WIDTH - ucast sz)
      else Inl address_on_real_computer)"

definition value_bytes :: "u8 \<Rightarrow> nat option" where
  "value_bytes z = (if z = 0 then Some 1 else if z = 1 then Some 2 else if z = 2 then Some 4
     else if z = 3 then Some 8 else if z = 4 then Some 8 else None)"

definition read_value ::
  "'z inflater \<Rightarrow> hpdcache_test_transaction_req \<Rightarrow> u8 \<Rightarrow> 'z trace_reader \<Rightarrow> (hpdcache_test_transaction_req, 'z trace_reader) res" where
  "read_value lib t size_value_store r =
     (case value_bytes size_value_store of
        None \<Rightarrow> Ret t r
      | Some n \<Rightarrow> res_bind (get_content_of_trace lib n r) (\<lambda>bs r. Ret (t\<lparr>req_wdata := word_of_bytes bs\<rparr>) r))"

definition read_delay :: "'z inflater \<Rightarrow> 'z trace_reader \<Rightarrow> (u8, 'z trace_reader) res" where
  "read_delay lib r = res_bind (get_content_of_trace lib 1 r) (\<lambda>bs r. Ret (hd bs) r)"

definition read_transaction ::
  "24 word \<Rightarrow> 'z inflater \<Rightarrow> hpdcache_test_transaction_req \<Rightarrow> 'z trace_reader \<Rightarrow>
   (int \<times> hpdcache_test_transaction_req, 'z trace_reader) res" where
  "read_transaction junk lib t r =
     res_bind (read_delay lib r) (\<lambda>delay r.
     res_bind (read_address lib r) (\<lambda>addr r.
     res_bind (read_size junk lib r) (\<lambda>(sz, size_value_store) r.
     res_bind (read_boolean_and_type lib (t\<lparr>req_addr := ucast addr, req_size := ucast sz\<rparr>) r) (\<lambda>t r.
     res_bind (if has_op t HPDCACHE_REQ_STORE then read_value lib t size_value_store r else Ret t r) (\<lambda>t r.
       Ret (uint delay, t) r)))))"

definition my_close :: "'z trace_reader \<Rightarrow> 'z trace_reader" where
  "my_close r = r\<lparr>rd_closed := True\<rparr>"

section \<open>The debug writer\<close>

text \<open>The file is the list of bytes written; an \<^verbatim>\<open>int\<close> has four bytes.\<close>

definition le_bytes :: "nat \<Rightarrow> u64 \<Rightarrow> u8 list" where
  "le_bytes n w = map (byte_of w) [0..<n]"

definition open_trace :: "u8 list" where "open_trace = []"

definition w_write_address :: "hpdcache_test_transaction_req \<Rightarrow> u8 list \<Rightarrow> u8 list" where
  "w_write_address t f = f @ le_bytes 8 (ucast (req_addr t))"

definition w_write_type_transaction :: "hpdcache_test_transaction_req \<Rightarrow> u8 list \<Rightarrow> u8 list" where
  "w_write_type_transaction t f = f @ le_bytes 1 (ucast (req_op t))"

definition w_write_size :: "hpdcache_test_transaction_req \<Rightarrow> u8 list \<Rightarrow> u8 list" where
  "w_write_size t f = f @ le_bytes 1 (ucast (req_size t))"

definition construct_bool_in_one_byte :: "bool \<Rightarrow> u32 \<Rightarrow> u32" where
  "construct_bool_in_one_byte to_add result =
     (let result = push_bit 1 result in if to_add then result OR 1 else result)"

definition w_write_boolean :: "hpdcache_test_transaction_req \<Rightarrow> u8 list \<Rightarrow> u8 list" where
  "w_write_boolean t f =
     (let v = 0;
          v = construct_bool_in_one_byte (get_need_resp t) v;
          v = construct_bool_in_one_byte (is_phys_indexed t) v;
          v = construct_bool_in_one_byte (is_uncacheable t) v;
          v = construct_bool_in_one_byte (is_io t) v;
          v = construct_bool_in_one_byte (is_aborted t) v
      in f @ le_bytes 1 (ucast v))"

definition w_write_delay :: "u32 \<Rightarrow> u8 list \<Rightarrow> u8 list" where
  "w_write_delay delay f = f @ le_bytes 4 (ucast delay)"

definition write_in_trace :: "hpdcache_test_transaction_req \<Rightarrow> u32 \<Rightarrow> u8 list \<Rightarrow> u8 list" where
  "write_in_trace t delay f =
     w_write_boolean t (w_write_size t (w_write_type_transaction t (w_write_address t (w_write_delay delay f))))"

text \<open>\<open>instance_trace_writter\<close>: the singleton, allocated by the first call.\<close>

definition instance_trace_writter :: "'w \<Rightarrow> 'w option \<Rightarrow> 'w \<times> 'w option" where
  "instance_trace_writter fresh is_instance =
     (case is_instance of Some w \<Rightarrow> (w, Some w) | None \<Rightarrow> (fresh, Some fresh))"

section \<open>Replaying a trace\<close>

text \<open>
  \<open>run\<close>: the requests sent with their delays; the list of identifiers, one for each transaction
  up to \<^verbatim>\<open>max_transactions\<close>, is what \<^verbatim>\<open>allocate_id\<close> returned. The null pointer ends the run.
\<close>

fun from_trace_run ::
  "24 word \<Rightarrow> 'z inflater \<Rightarrow> tid_bv list \<Rightarrow> 'z trace_reader \<Rightarrow>
   ((int \<times> hpdcache_test_transaction_req) option list, 'z trace_reader) res" where
  "from_trace_run junk lib [] r = Ret [None] (my_close r)"
| "from_trace_run junk lib (tid # tids) r =
     (if is_finish r then Ret [None] (my_close r)
      else
        res_bind (read_transaction junk lib (transaction_req_new\<lparr>req_tid := tid\<rparr>) r) (\<lambda>(delay, t) r.
        res_bind (from_trace_run junk lib tids r) (\<lambda>out r. Ret (Some (delay, t) # out) r)))"

section \<open>What the reader delivers\<close>

text \<open>
  The loop without its buffer: the calls of the decompressor on one block of input and the bytes
  they produce; and the blocks of a whole file, the last of which ends the stream.
\<close>

inductive inflates :: "'z inflater \<Rightarrow> 'z \<Rightarrow> u8 list \<Rightarrow> mz_ret \<Rightarrow> 'z \<Rightarrow> u8 list \<Rightarrow> bool" for lib where
  stop: "z_inflate lib z inp MAX_SIZE_BUFFER = (ret, z', used, out) \<Longrightarrow> ret \<noteq> MZ_STREAM_ERROR \<Longrightarrow>
           drop used inp = [] \<Longrightarrow> inflates lib z inp ret z' out"
| more: "z_inflate lib z inp MAX_SIZE_BUFFER = (ret1, z1, used, out) \<Longrightarrow> ret1 \<noteq> MZ_STREAM_ERROR \<Longrightarrow>
           drop used inp \<noteq> [] \<Longrightarrow> inflates lib z1 (drop used inp) ret z' out' \<Longrightarrow>
           inflates lib z inp ret z' (out @ out')"

inductive decodes :: "'z inflater \<Rightarrow> 'z \<Rightarrow> u8 list \<Rightarrow> u8 list \<Rightarrow> bool" for lib where
  last_block: "inflates lib z (take MAX_SIZE_BUFFER content) MZ_STREAM_END z' out \<Longrightarrow> z_end lib z' = MZ_OK \<Longrightarrow>
           out \<noteq> [] \<Longrightarrow> length out \<le> buf_capacity \<Longrightarrow> decodes lib z content out"
| block: "inflates lib z (take MAX_SIZE_BUFFER content) ret z' out \<Longrightarrow> ret \<noteq> MZ_STREAM_END \<Longrightarrow>
           out \<noteq> [] \<Longrightarrow> length out \<le> buf_capacity \<Longrightarrow> decodes lib z' (drop MAX_SIZE_BUFFER content) bs \<Longrightarrow>
           decodes lib z content (out @ bs)"

text \<open>\<open>delivers lib r bs\<close>: reading byte by byte from \<open>r\<close> gives \<open>bs\<close>, and the reader then reports its end.\<close>

inductive delivers :: "'z inflater \<Rightarrow> 'z trace_reader \<Rightarrow> u8 list \<Rightarrow> bool" for lib where
  at_end: "is_finish r \<Longrightarrow> delivers lib r []"
| byte: "read_buffer r < end_buffer r \<Longrightarrow> end_buffer r \<le> buf_capacity \<Longrightarrow>
           delivers lib (r\<lparr>read_buffer := read_buffer r + 1\<rparr>) bs \<Longrightarrow>
           delivers lib r (rd_buf r (read_buffer r) # bs)"
| refill: "read_buffer r = end_buffer r \<Longrightarrow> \<not> bool_finish r \<Longrightarrow>
           decompress_data_from_trace lib (r\<lparr>end_buffer := 0, read_buffer := 0\<rparr>) = Ret () r' \<Longrightarrow>
           read_buffer r' < end_buffer r' \<Longrightarrow> delivers lib r' bs \<Longrightarrow> delivers lib r bs"

inductive_cases delivers_NilE: "delivers lib r []"

lemma copy_bytes_append: "copy_bytes ys (e + length xs) (copy_bytes xs e b) = copy_bytes (xs @ ys) e b"
  by (auto simp: copy_bytes_def fun_eq_iff nth_append)

lemma inflate_loop_result:
  "inflates lib z inp ret z' out \<Longrightarrow> e + length out \<le> buf_capacity \<Longrightarrow>
   inflate_loop lib z inp e b = Some (Inr (ret, z', e + length out, copy_bytes out e b))"
proof (induction arbitrary: e b rule: inflates.induct)
  case (stop z inp ret z' used out)
  then show ?case by (subst inflate_loop.simps) simp
next
  case (more z inp ret1 z1 used out ret z' out')
  then show ?case
    by (subst inflate_loop.simps) (simp add: add.assoc flip: copy_bytes_append [of out' e out])
qed

text \<open>The stream a decompression continues: a fresh one the first time.\<close>

definition continues :: "'z inflater \<Rightarrow> 'z trace_reader \<Rightarrow> 'z \<Rightarrow> bool" where
  "continues lib r z \<longleftrightarrow>
     z_alloc lib \<and> (rd_stream r = Live z \<or> rd_stream r = Null_stream \<and> z_init lib = (MZ_OK, z))"

lemma decompress_result:
  assumes "continues lib r z" "inflates lib z (take MAX_SIZE_BUFFER (trace_left r)) ret z' out"
    "end_buffer r = 0" "length out \<le> buf_capacity" "ret = MZ_STREAM_END \<Longrightarrow> z_end lib z' = MZ_OK"
  shows "decompress_data_from_trace lib r =
     Ret () (r\<lparr>trace_left := drop MAX_SIZE_BUFFER (trace_left r), end_buffer := length out,
               rd_buf := copy_bytes out 0 (rd_buf r), bool_finish := (ret = MZ_STREAM_END),
               rd_stream := (if ret = MZ_STREAM_END then Freed else Live z')\<rparr>)"
  using assms(1,3-) inflate_loop_result [OF assms(2), of 0 "rd_buf r"]
  by (auto simp: decompress_data_from_trace_def continues_def init_stream_def Let_def)

lemma delivers_buffered:
  assumes "read_buffer r \<le> end_buffer r" "end_buffer r \<le> buf_capacity"
    "delivers lib (r\<lparr>read_buffer := end_buffer r\<rparr>) bs"
  shows "delivers lib r (map (rd_buf r) [read_buffer r..<end_buffer r] @ bs)"
  using assms
proof (induction "end_buffer r - read_buffer r" arbitrary: r)
  case 0
  then have "r\<lparr>read_buffer := end_buffer r\<rparr> = r" by simp
  with 0 show ?case by simp
next
  case (Suc n)
  let ?r = "r\<lparr>read_buffer := read_buffer r + 1\<rparr>"
  have "delivers lib ?r (map (rd_buf ?r) [read_buffer ?r..<end_buffer ?r] @ bs)"
    using Suc.hyps(2) Suc.prems by (intro Suc.hyps(1)) simp_all
  moreover have "read_buffer r < end_buffer r" using Suc.hyps(2) by simp
  ultimately show ?case using delivers.byte [of r lib] Suc.prems(2) by (simp add: upt_conv_Cons)
qed

lemma map_copy_bytes: "map (copy_bytes out 0 b) [0..<length out] = out"
  by (rule nth_equalityI) (auto simp: copy_bytes_def)

lemma delivers_decoded:
  "decodes lib z content bs \<Longrightarrow> continues lib r z \<Longrightarrow> trace_left r = content \<Longrightarrow>
   read_buffer r = end_buffer r \<Longrightarrow> \<not> bool_finish r \<Longrightarrow> delivers lib r bs"
proof (induction arbitrary: r rule: decodes.induct)
  case (last_block z content z' out)
  let ?r = "r\<lparr>read_buffer := 0, trace_left := drop MAX_SIZE_BUFFER content, end_buffer := length out,
    rd_buf := copy_bytes out 0 (rd_buf r), bool_finish := True, rd_stream := Freed\<rparr>"
  have "delivers lib (?r\<lparr>read_buffer := end_buffer ?r\<rparr>) []" by (rule delivers.at_end) (simp add: is_finish_def)
  from delivers_buffered [OF _ _ this] last_block.hyps have "delivers lib ?r out"
    by (simp add: map_copy_bytes)
  moreover have d: "decompress_data_from_trace lib (r\<lparr>end_buffer := 0, read_buffer := 0\<rparr>) = Ret () ?r"
    using last_block by (subst decompress_result [where z = z and ret = MZ_STREAM_END]) (simp_all add: continues_def)
  ultimately show ?case using last_block.hyps(3) by (intro delivers.refill [OF last_block.prems(3,4) d]) simp_all
next
  case (block z content ret z' out bs)
  let ?r = "r\<lparr>read_buffer := 0, trace_left := drop MAX_SIZE_BUFFER content, end_buffer := length out,
    rd_buf := copy_bytes out 0 (rd_buf r), bool_finish := False, rd_stream := Live z'\<rparr>"
  have "delivers lib (?r\<lparr>read_buffer := end_buffer ?r\<rparr>) bs"
    using block.prems by (intro block.IH) (simp_all add: continues_def)
  from delivers_buffered [OF _ _ this] block.hyps have "delivers lib ?r (out @ bs)"
    by (simp add: map_copy_bytes)
  moreover have d: "decompress_data_from_trace lib (r\<lparr>end_buffer := 0, read_buffer := 0\<rparr>) = Ret () ?r"
    using block by (subst decompress_result [where z = z and ret = ret]) (simp_all add: continues_def)
  ultimately show ?case using block.hyps(3) by (intro delivers.refill [OF block.prems(3,4) d]) simp_all
qed

subsection \<open>Reading fields\<close>

lemma res_bind_Ret: "res_bind x f = Ret b r' \<longleftrightarrow> (\<exists>a r. x = Ret a r \<and> f a r = Ret b r')"
  by (cases x) simp_all

lemma delivers_unread:
  assumes "delivers lib r (b # bs)" "read_buffer r < end_buffer r"
  shows "b = rd_buf r (read_buffer r) \<and> end_buffer r \<le> buf_capacity \<and>
     delivers lib (r\<lparr>read_buffer := read_buffer r + 1\<rparr>) bs"
  using assms by (auto elim: delivers.cases)

lemma delivers_all_read:
  assumes "delivers lib r (b # bs)" "\<not> read_buffer r < end_buffer r"
  shows "\<exists>r'. read_buffer r = end_buffer r \<and> \<not> bool_finish r \<and> read_buffer r' < end_buffer r' \<and>
     decompress_data_from_trace lib (r\<lparr>end_buffer := 0, read_buffer := 0\<rparr>) = Ret () r' \<and> delivers lib r' (b # bs)"
  using assms by (auto elim: delivers.cases)

lemma get_content_delivers:
  "delivers lib r (xs @ ys) \<Longrightarrow> \<exists>r'. get_content_of_trace lib (length xs) r = Ret xs r' \<and> delivers lib r' ys"
proof (induction xs arbitrary: r)
  case (Cons x xs)
  have one: "\<exists>r'. get_content_of_trace lib (length (x # xs)) r = Ret (x # xs) r' \<and> delivers lib r' ys"
    if "delivers lib (r1\<lparr>read_buffer := read_buffer r1 + 1\<rparr>) (xs @ ys)" "x = rd_buf r1 (read_buffer r1)"
      "read_buffer r1 < end_buffer r1" "end_buffer r1 \<le> buf_capacity"
      "(if read_buffer r = end_buffer r then decompress_data_from_trace lib (r\<lparr>end_buffer := 0, read_buffer := 0\<rparr>)
        else Ret () r) = Ret () r1" for r1
    using Cons.IH [OF that(1)] that(2-) by auto
  from Cons.prems have d: "delivers lib r (x # xs @ ys)" by simp
  show ?case
  proof (cases "read_buffer r < end_buffer r")
    case True
    show ?thesis by (rule one [of r]) (use delivers_unread [OF d True] True in simp_all)
  next
    case False
    then obtain r' where r': "read_buffer r = end_buffer r" "read_buffer r' < end_buffer r'" "delivers lib r' (x # xs @ ys)"
      "decompress_data_from_trace lib (r\<lparr>end_buffer := 0, read_buffer := 0\<rparr>) = Ret () r'"
      using delivers_all_read [OF d] by blast
    show ?thesis by (rule one [of r']) (use delivers_unread [OF r'(3,2)] r' in simp_all)
  qed
qed simp

lemma delivers_not_finished: "delivers lib r (b # bs) \<Longrightarrow> \<not> is_finish r"
  using delivers_all_read [of lib r b bs] by (auto simp: is_finish_def)

lemma delivers_Nil_unread: "delivers lib r [] \<Longrightarrow> \<not> read_buffer r < end_buffer r"
  by (auto elim: delivers_NilE simp: is_finish_def)

lemma delivers_finished: "delivers lib r [] \<Longrightarrow> is_finish r"
  by (erule delivers_NilE) (auto dest: delivers_Nil_unread)

end
