(* ===== verification/Qemu_Plugin.thy ===== *)
theory Qemu_Plugin
  imports Trace_Manager
begin

text \<open>
  \<^verbatim>\<open>qemu_plugin.c\<close>: the plugin that records the memory accesses of an emulated program in the format
  the trace reader replays. The global variables are one record. The compressor (miniz), the
  operating system's \<^verbatim>\<open>malloc\<close>, \<^verbatim>\<open>open\<close> and \<^verbatim>\<open>write\<close> are the parameter \<open>env\<close>; what QEMU reports of an access
  is the record \<open>meminfo\<close>. The host is little endian.
\<close>

section \<open>State\<close>

definition SIZE_BUFFER :: nat where "SIZE_BUFFER = 5000"

datatype mode_write = WRITE_BINARY | WRITE_ASCII | NO_WRITE

datatype mem_value_type =
    QEMU_PLUGIN_MEM_VALUE_U8
  | QEMU_PLUGIN_MEM_VALUE_U16
  | QEMU_PLUGIN_MEM_VALUE_U32
  | QEMU_PLUGIN_MEM_VALUE_U64
  | QEMU_PLUGIN_MEM_VALUE_U128

text \<open>The union of a value, as its low 64 bits.\<close>

record mem_value =
  val_type :: mem_value_type
  val_data :: u64

record meminfo =
  mem_size_shift :: u32
  mem_hwaddr :: "u64 option"
  mem_is_store :: bool
  mem_get_value :: mem_value

text \<open>
  \<open>d_deflate z finish inp n\<close>: whether it reports a stream error, the new stream, the bytes of \<open>inp\<close> it
  consumed and the bytes it produced, for which there is room for \<open>n\<close>. \<open>os_write fd n\<close> is what \<^verbatim>\<open>write\<close>
  returns for \<open>n\<close> bytes, \<open>os_errlen\<close> the length of the message of \<^verbatim>\<open>strerror\<close>.
\<close>

record 'd plugin_env =
  os_malloc :: "nat \<Rightarrow> bool"
  os_open :: "string option \<Rightarrow> int"
  os_write :: "int \<Rightarrow> nat \<Rightarrow> int"
  os_errlen :: nat
  d_init :: "'d option"
  d_deflate :: "'d \<Rightarrow> bool \<Rightarrow> u8 list \<Rightarrow> nat \<Rightarrow> bool \<times> 'd \<times> nat \<times> u8 list"
  d_end :: "'d \<Rightarrow> bool"

record 'd plugin =
  pl_mode :: mode_write
  is_64_bits :: bool
  buffer_compress :: "nat \<Rightarrow> u8"
  buffer_begin :: nat
  need_to_compress :: bool
  write_data :: bool
  file_descriptor :: int
  pl_stream :: "'d option"
  current_instruction :: int
  outputs :: "int \<Rightarrow> u8 list"
  pl_closed :: bool

definition plugin_start :: "'d plugin" where
  "plugin_start =
     \<lparr>pl_mode = WRITE_BINARY, is_64_bits = False, buffer_compress = (\<lambda>_. 0), buffer_begin = 0,
      need_to_compress = True, write_data = True, file_descriptor = 0, pl_stream = None,
      current_instruction = 0, outputs = (\<lambda>_. []), pl_closed = False\<rparr>"

section \<open>Compressing\<close>

definition plugin_init_stream :: "'d plugin_env \<Rightarrow> 'd plugin \<Rightarrow> ('d, 'd plugin) res" where
  "plugin_init_stream env st =
     (case d_init env of None \<Rightarrow> Halt 1 | Some z \<Rightarrow> Ret z (st\<lparr>pl_stream := Some z\<rparr>))"

text \<open>
  The inner loop: it repeats while the output buffer of \<open>n\<close> bytes comes back full. \<open>None\<close> is a loop
  that never ends, the left of the sum an exit.
\<close>

partial_function (option) deflate_loop ::
  "'d plugin_env \<Rightarrow> int \<Rightarrow> nat \<Rightarrow> bool \<Rightarrow> 'd \<Rightarrow> u8 list \<Rightarrow> u8 list \<Rightarrow> (int + 'd \<times> u8 list) option" where
  "deflate_loop env fd n last_call z inp file =
     (case d_deflate env z last_call inp n of
        (err, z', used, out) \<Rightarrow>
          if err then Some (Inl 1)
          else if os_write env fd (length out) \<noteq> int (length out) then Some (Inl 1)
          else if n - length out \<le> 0 then deflate_loop env fd n last_call z' (drop used inp) (file @ out)
          else Some (Inr (z', file @ out)))"

text \<open>
  The outer loop. Its bound \<^verbatim>\<open>buffer_begin - 1\<close> is an \<^verbatim>\<open>int\<close> compared with a \<^verbatim>\<open>size_t\<close>: for an empty
  buffer it is the largest \<^verbatim>\<open>size_t\<close>.
\<close>

definition loop_bound :: "nat \<Rightarrow> nat" where
  "loop_bound beg = (if beg = 0 then 2 ^ 64 - 1 else beg - 1)"

definition chunk_size :: "nat \<Rightarrow> nat \<Rightarrow> nat" where
  "chunk_size beg offset = (if beg - offset \<ge> beg then beg else beg - offset)"

partial_function (option) compress_loop ::
  "'d plugin_env \<Rightarrow> int \<Rightarrow> (nat \<Rightarrow> u8) \<Rightarrow> nat \<Rightarrow> bool \<Rightarrow> nat \<Rightarrow> 'd \<Rightarrow> u8 list \<Rightarrow> (int + 'd \<times> u8 list) option" where
  "compress_loop env fd buf beg last_call offset z file =
     (if offset < loop_bound beg then
        Option.bind (deflate_loop env fd beg last_call z
            (map buf [offset..<offset + chunk_size beg offset]) file)
          (\<lambda>res. case res of
             Inl c \<Rightarrow> Some (Inl c)
           | Inr zf \<Rightarrow> compress_loop env fd buf beg last_call (offset + chunk_size beg offset) (fst zf) (snd zf))
      else Some (Inr (z, file)))"

definition compress_data_to_file :: "'d plugin_env \<Rightarrow> bool \<Rightarrow> 'd plugin \<Rightarrow> (unit, 'd plugin) res" where
  "compress_data_to_file env last_call st =
     (if \<not> os_malloc env (buffer_begin st) then Halt 1
      else
        res_bind (case pl_stream st of None \<Rightarrow> plugin_init_stream env st | Some z \<Rightarrow> Ret z st)
          (\<lambda>z st.
             let fd = file_descriptor st in
             case compress_loop env fd (buffer_compress st) (buffer_begin st) last_call 0 z (outputs st fd) of
               None \<Rightarrow> Forever
             | Some (Inl c) \<Rightarrow> Halt c
             | Some (Inr (z', file)) \<Rightarrow>
                 if last_call \<and> \<not> d_end env z' then Halt 1
                 else Ret () (st\<lparr>pl_stream := Some z', outputs := (outputs st)(fd := file)\<rparr>)))"

section \<open>Options and output\<close>

text \<open>The null pointer is \<open>None\<close>: reading through it is undefined.\<close>

definition set_mode :: "string option \<Rightarrow> 'd plugin \<Rightarrow> (unit, 'd plugin) res" where
  "set_mode arg st =
     (case arg of
        None \<Rightarrow> Stuck
      | Some (c # cs) \<Rightarrow>
          (case (if c = CHR ''0'' then Some WRITE_BINARY else if c = CHR ''1'' then Some WRITE_ASCII
                 else if c = CHR ''2'' then Some NO_WRITE else None) of
             None \<Rightarrow> Halt 1
           | Some m \<Rightarrow> if cs \<noteq> [] then Halt 1 else Ret () (st\<lparr>pl_mode := m\<rparr>))
      | Some [] \<Rightarrow> Halt 1)"

primrec buffer_loop :: "'d plugin_env \<Rightarrow> u8 list \<Rightarrow> 'd plugin \<Rightarrow> (unit, 'd plugin) res" where
  "buffer_loop env [] st = Ret () st"
| "buffer_loop env (b # bs) st =
     (if buffer_begin st < SIZE_BUFFER then
        let st = st\<lparr>buffer_compress := (buffer_compress st)(buffer_begin st := b), buffer_begin := buffer_begin st + 1\<rparr>
        in res_bind
             (if buffer_begin st = SIZE_BUFFER
              then res_bind (compress_data_to_file env False st) (\<lambda>_ st. Ret () (st\<lparr>buffer_begin := 0\<rparr>))
              else Ret () st)
             (\<lambda>_ st. buffer_loop env bs st)
      else Stuck)"

definition write_buffer :: "'d plugin_env \<Rightarrow> u8 list \<Rightarrow> 'd plugin \<Rightarrow> (unit, 'd plugin) res" where
  "write_buffer env data st =
     (if need_to_compress st then buffer_loop env data st
      else let fd = file_descriptor st; n = os_write env fd (length data) in
           if n = 0 then Halt 1
           else Ret () (st\<lparr>outputs := (outputs st)(fd := outputs st fd @ take (nat n) data)\<rparr>))"

definition write_address :: "'d plugin_env \<Rightarrow> u64 \<Rightarrow> 'd plugin \<Rightarrow> (unit, 'd plugin) res" where
  "write_address env address st =
     (if is_64_bits st then write_buffer env (le_bytes 8 address) st
      else write_buffer env (le_bytes 4 address) st)"

definition write_type_transaction :: "'d plugin_env \<Rightarrow> bool \<Rightarrow> 'd plugin \<Rightarrow> (unit, 'd plugin) res" where
  "write_type_transaction env store st = write_buffer env [if store then 1 else 0] st"

fun get_size_value :: "mem_value_type \<Rightarrow> u8" where
  "get_size_value QEMU_PLUGIN_MEM_VALUE_U8 = 0"
| "get_size_value QEMU_PLUGIN_MEM_VALUE_U16 = 1"
| "get_size_value QEMU_PLUGIN_MEM_VALUE_U32 = 2"
| "get_size_value QEMU_PLUGIN_MEM_VALUE_U64 = 3"
| "get_size_value QEMU_PLUGIN_MEM_VALUE_U128 = 4"

definition write_size :: "'d plugin_env \<Rightarrow> u8 \<Rightarrow> mem_value_type \<Rightarrow> 'd plugin \<Rightarrow> (unit, 'd plugin) res" where
  "write_size env size_address size_value st =
     write_buffer env [size_address OR push_bit 4 (get_size_value size_value)] st"

definition write_boolean :: "'d plugin_env \<Rightarrow> u8 \<Rightarrow> 'd plugin \<Rightarrow> (unit, 'd plugin) res" where
  "write_boolean env v st = write_buffer env [v] st"

definition write_delay :: "'d plugin_env \<Rightarrow> u8 \<Rightarrow> 'd plugin \<Rightarrow> (unit, 'd plugin) res" where
  "write_delay env delay st = write_buffer env [delay] st"

fun value_width :: "mem_value_type \<Rightarrow> nat" where
  "value_width QEMU_PLUGIN_MEM_VALUE_U8 = 1"
| "value_width QEMU_PLUGIN_MEM_VALUE_U16 = 2"
| "value_width QEMU_PLUGIN_MEM_VALUE_U32 = 4"
| "value_width QEMU_PLUGIN_MEM_VALUE_U64 = 8"
| "value_width QEMU_PLUGIN_MEM_VALUE_U128 = 0"

definition write_value :: "'d plugin_env \<Rightarrow> mem_value \<Rightarrow> 'd plugin \<Rightarrow> (unit, 'd plugin) res" where
  "write_value env v st =
     (if val_type v = QEMU_PLUGIN_MEM_VALUE_U128 then Ret () st
      else write_buffer env (le_bytes (value_width (val_type v)) (val_data v)) st)"

definition open_file :: "'d plugin_env \<Rightarrow> string option \<Rightarrow> 'd plugin \<Rightarrow> (unit, 'd plugin) res" where
  "open_file env file_name st =
     (let st = st\<lparr>file_descriptor := os_open env file_name\<rparr> in
      if file_descriptor st = -1 \<and> (os_write env 2 (os_errlen env) = -1 \<or> os_write env 2 1 = -1) then Halt 1
      else Ret () st)"

section \<open>Recording an access\<close>

definition boolean_value_and_type :: "bool \<Rightarrow> u8 \<Rightarrow> u8" where
  "boolean_value_and_type store cacheable =
     (let v = 2;
          v = (if store then (v OR push_bit 2 1) - 2 else v)
      in v OR cacheable)"

definition write_in_file ::
  "'d plugin_env \<Rightarrow> bool \<Rightarrow> u64 \<Rightarrow> u8 \<Rightarrow> u8 \<Rightarrow> mem_value \<Rightarrow> u8 \<Rightarrow> 'd plugin \<Rightarrow> (unit, 'd plugin) res" where
  "write_in_file env store address sz time_elapsed v cacheable st =
     res_bind (write_delay env time_elapsed st) (\<lambda>_ st.
     res_bind (write_address env address st) (\<lambda>_ st.
     res_bind (write_size env sz (val_type v) st) (\<lambda>_ st.
     res_bind (write_boolean env (boolean_value_and_type store cacheable) st) (\<lambda>_ st.
       if store then write_value env v st else Ret () st))))"

text \<open>The devices of the emulated machine: UART, VirtIO, test and RTC, fw_cfg, CLINT, PLIC, flash, PCIe, platform bus.\<close>

definition device_ranges :: "(u64 \<times> u64) list" where
  "device_ranges =
     [(0x10000000, 0x10000100), (0x10001000, 0x10009000), (0x00100000, 0x00102000), (0x10100000, 0x10100018),
      (0x02000000, 0x02010000), (0x0c000000, 0x0c600000), (0x20000000, 0x24000000), (0x30000000, 0x40000000),
      (0x04000000, 0x06000000)]"

definition in_device :: "u64 \<Rightarrow> bool" where
  "in_device a \<longleftrightarrow> (\<exists>(lo, hi) \<in> set device_ranges. lo \<le> a \<and> a < hi)"

text \<open>The line of the ASCII mode; \<^verbatim>\<open>snprintf\<close> keeps 74 characters of it.\<close>

definition pad_right :: "nat \<Rightarrow> string \<Rightarrow> string" where
  "pad_right n s = s @ replicate (n - length s) (CHR '' '')"

definition ascii_line :: "int \<Rightarrow> bool \<Rightarrow> u32 \<Rightarrow> u64 \<Rightarrow> u32 \<Rightarrow> u64 \<Rightarrow> string" where
  "ascii_line instrs store vcpu addr sz v =
     take 74 (dec instrs @ '' [MEM] '' @ pad_right 5 (if store then ''store'' else ''load'') @
       '' vcpu='' @ digits 10 (unat vcpu) @ '' addr=0x'' @ hex (unat addr) @ '' size='' @ digits 10 (unat sz) @
       '' value='' @ digits 10 (unat v) @ [char_of (10 :: nat)])"

definition mem_cb :: "'d plugin_env \<Rightarrow> u32 \<Rightarrow> meminfo \<Rightarrow> u64 \<Rightarrow> 'd plugin \<Rightarrow> (unit, 'd plugin) res" where
  "mem_cb env vcpu_index info vaddr st =
     (let (vaddr, uncacheable) =
            (case mem_hwaddr info of
               None \<Rightarrow> (vaddr, 0)
             | Some pa \<Rightarrow> (pa, if in_device pa then 1 else 0))
      in if \<not> write_data st then Ret () st
         else
           res_bind
             (case pl_mode st of
                WRITE_BINARY \<Rightarrow>
                  write_in_file env (mem_is_store info) vaddr (ucast (mem_size_shift info))
                    (word_of_int (current_instruction st)) (mem_get_value info) uncacheable st
              | WRITE_ASCII \<Rightarrow>
                  write_buffer env
                    (map of_char (ascii_line (current_instruction st) (mem_is_store info) vcpu_index vaddr
                       (mem_size_shift info) (val_data (mem_get_value info)))) st
              | NO_WRITE \<Rightarrow> Ret () st)
             (\<lambda>_ st. Ret () (st\<lparr>current_instruction := 0\<rparr>)))"

definition plugin_exit :: "'d plugin_env \<Rightarrow> 'd plugin \<Rightarrow> (unit, 'd plugin) res" where
  "plugin_exit env st =
     res_bind (if need_to_compress st then compress_data_to_file env True st else Ret () st)
       (\<lambda>_ st. if pl_mode st \<noteq> NO_WRITE then Ret () (st\<lparr>pl_closed := True\<rparr>) else Ret () st)"

definition counter_inst :: "'d plugin \<Rightarrow> (unit, 'd plugin) res" where
  "counter_inst st =
     (if current_instruction st = 2 ^ 31 - 1 then Stuck
      else Ret () (st\<lparr>current_instruction := current_instruction st + 1\<rparr>))"

datatype callback = Mem_cb nat | Counter_inst nat

definition tb_trans_cb :: "nat \<Rightarrow> callback list" where
  "tb_trans_cb n = concat (map (\<lambda>i. [Mem_cb i, Counter_inst i]) [0..<n])"

section \<open>Installation\<close>

definition usage :: string where
  "usage =
     [char_of (10 :: nat)] @ ''Usage : '' @ [char_of (10 :: nat)] @ ''mode=<0,1,2 ( 0-> binary, 1 -> ascii, 2 -> nothing )>, '' @
     ''file=<name_of_a_file>, compress=<true, false>'' @ [char_of (10 :: nat)]"

text \<open>\<^verbatim>\<open>g_strsplit(opt, "=", 2)\<close>: the text before the first sign, and after it; no token for an empty string.\<close>

definition split_option :: "string \<Rightarrow> string option \<times> string option" where
  "split_option opt =
     (if opt = [] then (None, None)
      else (Some (takeWhile (\<lambda>c. c \<noteq> CHR ''='') opt),
            case dropWhile (\<lambda>c. c \<noteq> CHR ''='') opt of [] \<Rightarrow> None | _ # cs \<Rightarrow> Some cs))"

primrec parse_options :: "'d plugin_env \<Rightarrow> string list \<Rightarrow> 'd plugin \<Rightarrow> (int, 'd plugin) res" where
  "parse_options env [] st = Ret 0 st"
| "parse_options env (opt # opts) st =
     (let (key, arg) = split_option opt in
      if key = Some ''mode'' then res_bind (set_mode arg st) (\<lambda>_ st. parse_options env opts st)
      else if key = Some ''ofile'' then res_bind (open_file env arg st) (\<lambda>_ st. parse_options env opts st)
      else if key = Some ''compress'' then
        (case arg of None \<Rightarrow> Stuck | Some v \<Rightarrow> parse_options env opts (st\<lparr>need_to_compress := (v = ''true'')\<rparr>))
      else Ret (-1) st)"

definition qemu_plugin_install :: "'d plugin_env \<Rightarrow> string \<Rightarrow> string list \<Rightarrow> 'd plugin \<Rightarrow> (int, 'd plugin) res" where
  "qemu_plugin_install env target_name args st =
     (if length args \<noteq> 3 then Ret (-1) st
      else res_bind (parse_options env args st)
             (\<lambda>rc st. if rc \<noteq> 0 then Ret rc st
                       else Ret 0 (st\<lparr>is_64_bits := (target_name = ''riscv64''), buffer_begin := 0\<rparr>)))"

end
