(* ===== verification/Trace_Props.thy ===== *)
theory Trace_Props
  imports Qemu_Plugin Seq_Lib
begin

text \<open>
  What the recorder and the replayer promise each other: the plugin hands every byte of every record
  to the compressor, in order; a trace of a 64-bit program replays as the accesses that were
  recorded; and the cases in which the two do not fit.
\<close>

section \<open>The format of a record\<close>

record mem_access =
  a_delay :: u8
  a_store :: bool
  a_addr :: u64
  a_size :: u8
  a_value :: mem_value
  a_uncached :: bool

definition trace_record :: "bool \<Rightarrow> mem_access \<Rightarrow> u8 list" where
  "trace_record wide a =
     [a_delay a] @ le_bytes (if wide then 8 else 4) (a_addr a) @
     [a_size a OR push_bit 4 (get_size_value (val_type (a_value a)))] @
     [boolean_value_and_type (a_store a) (if a_uncached a then 1 else 0)] @
     (if a_store a then le_bytes (value_width (val_type (a_value a))) (val_data (a_value a)) else [])"

datatype plugin_event = Access u32 meminfo u64 | Instruction

fun accesses :: "int \<Rightarrow> plugin_event list \<Rightarrow> mem_access list" where
  "accesses c [] = []"
| "accesses c (Instruction # es) = accesses (c + 1) es"
| "accesses c (Access vcpu info vaddr # es) =
     \<lparr>a_delay = word_of_int c, a_store = mem_is_store info,
      a_addr = (case mem_hwaddr info of None \<Rightarrow> vaddr | Some pa \<Rightarrow> pa),
      a_size = ucast (mem_size_shift info), a_value = mem_get_value info,
      a_uncached = (case mem_hwaddr info of None \<Rightarrow> False | Some pa \<Rightarrow> in_device pa)\<rparr> # accesses 0 es"

fun plugin_step :: "'d plugin_env \<Rightarrow> plugin_event \<Rightarrow> 'd plugin \<Rightarrow> (unit, 'd plugin) res" where
  "plugin_step env Instruction st = counter_inst st"
| "plugin_step env (Access vcpu info vaddr) st = mem_cb env vcpu info vaddr st"

primrec plugin_run :: "'d plugin_env \<Rightarrow> plugin_event list \<Rightarrow> 'd plugin \<Rightarrow> (unit, 'd plugin) res" where
  "plugin_run env [] st = Ret () st"
| "plugin_run env (e # es) st = res_bind (plugin_step env e st) (\<lambda>_ st. plugin_run env es st)"

section \<open>The buffer\<close>

text \<open>
  The documented contract of the compressor, with \<open>fed z\<close> the input a stream has taken so far: it takes
  a prefix of its input, stops short of it only when its output is full, and a full output makes
  progress, measured by \<open>backlog\<close>.
\<close>

definition deflate_ok :: "'d plugin_env \<Rightarrow> ('d \<Rightarrow> u8 list) \<Rightarrow> ('d \<Rightarrow> u8 list \<Rightarrow> nat) \<Rightarrow> bool" where
  "deflate_ok env fed backlog \<longleftrightarrow>
     (\<forall>z last_call inp n. 0 < n \<longrightarrow>
        (case d_deflate env z last_call inp n of
           (err, z', used, out) \<Rightarrow>
             \<not> err \<and> fed z' = fed z @ take used inp \<and> length out \<le> n \<and>
             (length out < n \<longrightarrow> length inp \<le> used) \<and>
             (length out = n \<longrightarrow> backlog z' (drop used inp) < backlog z inp)))"

definition plugin_env_ok :: "'d plugin_env \<Rightarrow> int \<Rightarrow> ('d \<Rightarrow> u8 list) \<Rightarrow> ('d \<Rightarrow> u8 list \<Rightarrow> nat) \<Rightarrow> bool" where
  "plugin_env_ok env fd fed backlog \<longleftrightarrow>
     (\<forall>n > 0. os_malloc env n) \<and> (\<forall>n. os_write env fd n = int n) \<and>
     (\<exists>z. d_init env = Some z \<and> fed z = []) \<and> (\<forall>z. d_end env z) \<and> deflate_ok env fed backlog"

definition fed_of :: "('d \<Rightarrow> u8 list) \<Rightarrow> 'd plugin \<Rightarrow> u8 list" where
  "fed_of fed st = (case pl_stream st of None \<Rightarrow> [] | Some z \<Rightarrow> fed z)"

definition buffered :: "'d plugin \<Rightarrow> u8 list" where
  "buffered st = map (buffer_compress st) [0..<buffer_begin st]"

text \<open>The part of the state that recording leaves alone.\<close>

definition same_setup :: "'d plugin \<Rightarrow> 'd plugin \<Rightarrow> bool" where
  "same_setup st st' \<longleftrightarrow>
     pl_mode st' = pl_mode st \<and> is_64_bits st' = is_64_bits st \<and> need_to_compress st' = need_to_compress st \<and>
     write_data st' = write_data st \<and> file_descriptor st' = file_descriptor st \<and>
     current_instruction st' = current_instruction st"

lemma same_setup_trans: "same_setup a b \<Longrightarrow> same_setup b c \<Longrightarrow> same_setup a c"
  by (simp add: same_setup_def)

lemma deflate_step:
  assumes "plugin_env_ok env fd fed backlog" "0 < n" "d_deflate env z last_call inp n = (err, z', used, out)"
  shows "\<not> err" "fed z' = fed z @ take used inp" "length out \<le> n" "length out < n \<Longrightarrow> length inp \<le> used"
    "length out = n \<Longrightarrow> backlog z' (drop used inp) < backlog z inp" "os_write env fd (length out) = int (length out)"
proof -
  from assms(1,2) have "case d_deflate env z last_call inp n of
      (err, z', used, out) \<Rightarrow>
         \<not> err \<and> fed z' = fed z @ take used inp \<and> length out \<le> n \<and> (length out < n \<longrightarrow> length inp \<le> used) \<and>
         (length out = n \<longrightarrow> backlog z' (drop used inp) < backlog z inp)"
    by (simp only: plugin_env_ok_def deflate_ok_def)
  then show "\<not> err" "fed z' = fed z @ take used inp" "length out \<le> n" "length out < n \<Longrightarrow> length inp \<le> used"
    "length out = n \<Longrightarrow> backlog z' (drop used inp) < backlog z inp" by (simp_all add: assms(3))
qed (use assms(1) in \<open>simp add: plugin_env_ok_def\<close>)

lemma deflate_loop_feeds:
  assumes "plugin_env_ok env fd fed backlog" "0 < n"
  shows "\<exists>z' f. deflate_loop env fd n last_call z inp out0 = Some (Inr (z', f)) \<and> fed z' = fed z @ inp"
proof (induction "backlog z inp" arbitrary: z inp out0 rule: less_induct)
  case less
  obtain err z' used out where d: "d_deflate env z last_call inp n = (err, z', used, out)" by (rule prod_cases4)
  note ok = deflate_step [OF assms d]
  show ?case
  proof (cases "length out = n")
    case True
    from less [OF ok(5) [OF True], of "out0 @ out"] ok True show ?thesis
      by (subst deflate_loop.simps) (auto simp: d)
  next
    case False
    with ok(3) have "length out < n" by simp
    with ok show ?thesis by (subst deflate_loop.simps) (simp add: d)
  qed
qed

lemma compress_loop_feeds:
  assumes "plugin_env_ok env fd fed backlog" "2 \<le> beg"
  shows "\<exists>z' f. compress_loop env fd buf beg last_call 0 z out0 = Some (Inr (z', f)) \<and> fed z' = fed z @ map buf [0..<beg]"
proof -
  obtain z' f where "deflate_loop env fd beg last_call z (map buf [0..<beg]) out0 = Some (Inr (z', f))"
    "fed z' = fed z @ map buf [0..<beg]"
    using deflate_loop_feeds [OF assms(1), of beg last_call z "map buf [0..<beg]" out0] assms(2) by auto
  moreover have "\<not> beg < loop_bound beg" using assms(2) by (simp add: loop_bound_def)
  then have "compress_loop env fd buf beg last_call beg z' f = Some (Inr (z', f))"
    by (subst compress_loop.simps) simp
  ultimately show ?thesis
    using assms(2) by (subst compress_loop.simps) (simp add: loop_bound_def chunk_size_def)
qed

text \<open>The stream with which a compression starts.\<close>

definition start_stream :: "'d plugin_env \<Rightarrow> 'd plugin \<Rightarrow> 'd" where
  "start_stream env st = (case pl_stream st of None \<Rightarrow> the (d_init env) | Some z \<Rightarrow> z)"

lemma fed_start_stream: "plugin_env_ok env fd fed backlog \<Longrightarrow> fed (start_stream env st) = fed_of fed st"
  by (auto simp: plugin_env_ok_def start_stream_def fed_of_def split: option.splits)

lemma compress_start:
  assumes "plugin_env_ok env (file_descriptor st) fed backlog" "0 < buffer_begin st"
    "compress_loop env (file_descriptor st) (buffer_compress st) (buffer_begin st) last_call 0 (start_stream env st)
       (outputs st (file_descriptor st)) = Some (Inr (z', f))"
  shows "compress_data_to_file env last_call st =
     Ret () (st\<lparr>pl_stream := Some z', outputs := (outputs st)(file_descriptor st := f)\<rparr>)"
proof -
  from assms(1,2) have m: "os_malloc env (buffer_begin st)" "\<And>z. d_end env z" by (auto simp: plugin_env_ok_def)
  from assms(1) obtain z0 where "d_init env = Some z0" by (auto simp: plugin_env_ok_def)
  then have "(case pl_stream st of None \<Rightarrow> plugin_init_stream env st | Some z \<Rightarrow> Ret z st) =
      Ret (start_stream env st) (st\<lparr>pl_stream := Some (start_stream env st)\<rparr>)"
    by (cases "pl_stream st") (simp_all add: plugin_init_stream_def start_stream_def)
  with m assms(3) show ?thesis by (simp add: compress_data_to_file_def)
qed

lemma compress_feeds:
  assumes "plugin_env_ok env (file_descriptor st) fed backlog" "2 \<le> buffer_begin st"
  shows "\<exists>st'. compress_data_to_file env last_call st = Ret () st' \<and> fed_of fed st' = fed_of fed st @ buffered st \<and>
     same_setup st st' \<and> buffer_begin st' = buffer_begin st"
proof -
  obtain z' f where "compress_loop env (file_descriptor st) (buffer_compress st) (buffer_begin st) last_call 0
       (start_stream env st) (outputs st (file_descriptor st)) = Some (Inr (z', f))"
    "fed z' = fed_of fed st @ buffered st"
    using compress_loop_feeds [OF assms] fed_start_stream [OF assms(1)] by (metis buffered_def)
  with compress_start [OF assms(1) _ this(1)] assms(2) show ?thesis by (simp add: fed_of_def same_setup_def)
qed

lemma buffered_push:
  "buffered (st\<lparr>buffer_compress := (buffer_compress st)(buffer_begin st := b), buffer_begin := Suc (buffer_begin st)\<rparr>) =
   buffered st @ [b]"
  by (simp add: buffered_def)

lemma buffer_loop_total:
  assumes "plugin_env_ok env (file_descriptor st) fed backlog" "buffer_begin st < SIZE_BUFFER"
  shows "\<exists>st'. buffer_loop env bs st = Ret () st' \<and> fed_of fed st' @ buffered st' = (fed_of fed st @ buffered st) @ bs \<and>
     same_setup st st' \<and> buffer_begin st' < SIZE_BUFFER"
  using assms
proof (induction bs arbitrary: st)
  case (Cons b bs)
  let ?st = "st\<lparr>buffer_compress := (buffer_compress st)(buffer_begin st := b), buffer_begin := Suc (buffer_begin st)\<rparr>"
  have f: "fed_of fed ?st = fed_of fed st" by (simp add: fed_of_def)
  show ?case
  proof (cases "Suc (buffer_begin st) = SIZE_BUFFER")
    case True
    have "plugin_env_ok env (file_descriptor ?st) fed backlog" "2 \<le> buffer_begin ?st"
      using Cons.prems True by (simp_all add: SIZE_BUFFER_def)
    from compress_feeds [OF this, of False] obtain st1 where st1: "compress_data_to_file env False ?st = Ret () st1"
      "fed_of fed st1 = fed_of fed st @ buffered st @ [b]" "same_setup ?st st1"
      by (auto simp: buffered_push f)
    let ?st2 = "st1\<lparr>buffer_begin := 0\<rparr>"
    have "fed_of fed ?st2 @ buffered ?st2 = fed_of fed st @ buffered st @ [b]" "same_setup st ?st2"
      using st1(2,3) by (simp_all add: fed_of_def buffered_def same_setup_def)
    with Cons.IH [of ?st2] Cons.prems st1(1) True show ?thesis
      by (auto simp: same_setup_def SIZE_BUFFER_def)
  next
    case False
    have "same_setup st ?st" by (simp add: same_setup_def)
    with Cons.IH [of ?st] Cons.prems False show ?thesis
      by (auto simp: buffered_push f intro: same_setup_trans)
  qed
qed (simp add: same_setup_def)

section \<open>Records and runs of the plugin\<close>

definition recording :: "'d plugin \<Rightarrow> bool" where
  "recording st \<longleftrightarrow> pl_mode st = WRITE_BINARY \<and> need_to_compress st \<and> write_data st \<and> buffer_begin st < SIZE_BUFFER"

lemma le_bytes_length [simp]: "length (le_bytes n w) = n"
  by (simp add: le_bytes_def)

lemma write_buffer_total:
  assumes "plugin_env_ok env (file_descriptor st) fed backlog" "recording st"
  shows "\<exists>st'. write_buffer env bs st = Ret () st' \<and> fed_of fed st' @ buffered st' = (fed_of fed st @ buffered st) @ bs \<and>
     same_setup st st' \<and> recording st'"
  using buffer_loop_total [OF assms(1), of bs] assms(2) by (auto simp: recording_def write_buffer_def same_setup_def)

text \<open>Two writes in a row are one write of the concatenation.\<close>

lemma write_seq_total:
  assumes e: "plugin_env_ok env (file_descriptor st) fed backlog" and "recording st"
    and w: "\<And>st1. recording st1 \<Longrightarrow> same_setup st st1 \<Longrightarrow>
          \<exists>st'. f st1 = Ret () st' \<and> fed_of fed st' @ buffered st' = (fed_of fed st1 @ buffered st1) @ ys \<and>
             same_setup st1 st' \<and> recording st'"
  shows "\<exists>st'. res_bind (write_buffer env xs st) (\<lambda>_. f) = Ret () st' \<and>
     fed_of fed st' @ buffered st' = (fed_of fed st @ buffered st) @ xs @ ys \<and> same_setup st st' \<and> recording st'"
proof -
  from write_buffer_total [OF assms(1,2)] obtain st1 where st1: "write_buffer env xs st = Ret () st1"
    "fed_of fed st1 @ buffered st1 = (fed_of fed st @ buffered st) @ xs" "same_setup st st1" "recording st1" by blast
  with w [OF st1(4,3)] show ?thesis by (auto intro: same_setup_trans)
qed

lemma write_address_alt:
  "write_address env address st = write_buffer env (le_bytes (if is_64_bits st then 8 else 4) address) st"
  by (simp add: write_address_def)

lemma write_in_file_total:
  assumes e: "plugin_env_ok env (file_descriptor st) fed backlog" and "recording st"
  shows "\<exists>st'. write_in_file env (a_store a) (a_addr a) (a_size a) (a_delay a) (a_value a)
       (if a_uncached a then 1 else 0) st = Ret () st' \<and>
     fed_of fed st' @ buffered st' = (fed_of fed st @ buffered st) @ trace_record (is_64_bits st) a \<and>
     same_setup st st' \<and> recording st'"
proof -
  have env: "plugin_env_ok env (file_descriptor st1) fed backlog" if "same_setup st st1" for st1
    using e that by (simp add: same_setup_def)
  have val: "\<exists>st'. (if a_store a then write_value env (a_value a) st1 else Ret () st1) = Ret () st' \<and>
      fed_of fed st' @ buffered st' = (fed_of fed st1 @ buffered st1) @
        (if a_store a then le_bytes (value_width (val_type (a_value a))) (val_data (a_value a)) else []) \<and>
      same_setup st1 st' \<and> recording st'" if "recording st1" "same_setup st st1" for st1
    using write_buffer_total [OF env [OF that(2)] that(1)] that(1)
    by (simp add: write_value_def same_setup_def le_bytes_def)
  have "\<exists>st'. res_bind (write_buffer env [a_delay a] st) (\<lambda>_ st.
       res_bind (write_buffer env (le_bytes (if is_64_bits st then 8 else 4) (a_addr a)) st) (\<lambda>_ st.
       res_bind (write_buffer env [a_size a OR push_bit 4 (get_size_value (val_type (a_value a)))] st) (\<lambda>_ st.
       res_bind (write_buffer env [boolean_value_and_type (a_store a) (if a_uncached a then 1 else 0)] st) (\<lambda>_ st.
         if a_store a then write_value env (a_value a) st else Ret () st)))) = Ret () st' \<and>
     fed_of fed st' @ buffered st' = (fed_of fed st @ buffered st) @ trace_record (is_64_bits st) a \<and>
     same_setup st st' \<and> recording st'"
    unfolding trace_record_def
  proof (rule write_seq_total [OF assms], goal_cases)
    case (1 st1)
    have w: "is_64_bits st1 = is_64_bits st" using 1(2) by (simp add: same_setup_def)
    show ?case unfolding w
      using 1 by (intro write_seq_total val) (auto intro: env same_setup_trans)
  qed
  then show ?thesis
    by (simp only: write_in_file_def write_delay_def write_address_alt write_size_def write_boolean_def)
qed

primrec instructions :: "plugin_event list \<Rightarrow> nat" where
  "instructions [] = 0"
| "instructions (e # es) = (if e = Instruction then 1 else 0) + instructions es"

lemma plugin_run_total:
  assumes "plugin_env_ok env (file_descriptor st) fed backlog" "recording st" "0 \<le> current_instruction st"
    "current_instruction st + int (instructions evs) < 2 ^ 31"
  shows "\<exists>st'. plugin_run env evs st = Ret () st' \<and>
     fed_of fed st' @ buffered st' = (fed_of fed st @ buffered st) @
       concat (map (trace_record (is_64_bits st)) (accesses (current_instruction st) evs)) \<and>
     recording st' \<and> file_descriptor st' = file_descriptor st"
  using assms
proof (induction evs arbitrary: st)
  case (Cons e evs)
  show ?case
  proof (cases e)
    case Instruction
    let ?st = "st\<lparr>current_instruction := current_instruction st + 1\<rparr>"
    have "fed_of fed ?st = fed_of fed st" "buffered ?st = buffered st" "recording ?st"
      using Cons.prems(2) by (simp_all add: fed_of_def buffered_def recording_def)
    with Cons.IH [of ?st] Cons.prems Instruction show ?thesis by (simp add: counter_inst_def)
  next
    case (Access vcpu info vaddr)
    define a where "a = hd (accesses (current_instruction st) (e # evs))"
    have acc: "accesses (current_instruction st) (e # evs) = a # accesses 0 evs" by (simp add: a_def Access)
    obtain st1 where st1: "write_in_file env (a_store a) (a_addr a) (a_size a) (a_delay a) (a_value a)
        (if a_uncached a then 1 else 0) st = Ret () st1"
      "fed_of fed st1 @ buffered st1 = (fed_of fed st @ buffered st) @ trace_record (is_64_bits st) a"
      "same_setup st st1" "recording st1"
      using write_in_file_total [OF Cons.prems(1,2)] by blast
    let ?st = "st1\<lparr>current_instruction := 0\<rparr>"
    have "fed_of fed ?st = fed_of fed st1" "buffered ?st = buffered st1" "recording ?st"
      using st1(4) by (simp_all add: fed_of_def buffered_def recording_def)
    moreover have "plugin_step env e st = Ret () ?st"
      using st1(1) Cons.prems(2) by (auto simp: mem_cb_def Access a_def recording_def split: option.splits)
    moreover have "int (instructions evs) < 2 ^ 31" using Cons.prems(3,4) by (simp split: if_splits)
    ultimately show ?thesis
      using Cons.IH [of ?st] Cons.prems(1) st1(2,3) unfolding acc by (simp add: same_setup_def)
  qed
qed simp

section \<open>Reading records back\<close>

definition recordable :: "mem_access \<Rightarrow> bool" where
  "recordable a \<longleftrightarrow> a_size a < 8 \<and> (a_store a \<longrightarrow> val_type (a_value a) \<noteq> QEMU_PLUGIN_MEM_VALUE_U128)"

definition replay_fields :: "mem_access \<Rightarrow> hpdcache_test_transaction_req \<Rightarrow> hpdcache_test_transaction_req" where
  "replay_fields a t =
     t\<lparr>req_addr := ucast (a_addr a), req_size := ucast (a_size a),
       req_op := (if a_store a then 1 else 0), req_need_rsp := \<not> a_store a,
       req_uncacheable := a_uncached a, req_phys_indexed := True, req_io := a_uncached a, req_abort := False,
       req_wdata := (if a_store a then take_bit (8 * value_width (val_type (a_value a))) (val_data (a_value a))
                     else req_wdata t)\<rparr>"

lemma word_of_le_bytes:
  assumes "n \<le> 8"
  shows "word_of_bytes (le_bytes n w) = take_bit (8 * n) w"
proof (rule bit_word_eqI)
  fix i
  have i: "i div 8 < n \<longleftrightarrow> i < 8 * n" by (simp add: div_less_iff_less_mult mult.commute)
  show "bit (word_of_bytes (le_bytes n w)) i \<longleftrightarrow> bit (take_bit (8 * n) w) i"
  proof (cases "i < 8 * n")
    case True
    then have "le_bytes n w ! (i div 8) = byte_of w (i div 8)" using i by (simp add: le_bytes_def)
    then show ?thesis using True i assms by (simp add: bit_word_of_bytes bit_byte_of bit_take_bit_iff)
  qed (use i in \<open>simp add: bit_word_of_bytes bit_take_bit_iff\<close>)
qed

lemma get_size_value_less: "get_size_value v < 5"
  by (cases v) simp_all

lemma size_byte_low:
  assumes "s < 8" "k < 5"
  shows "ucast (widen junk (signed_drop_bit 4 (push_bit 4 (s OR push_bit 4 k)))) = (ucast s :: size_bv)"
    and "signed_drop_bit 4 (s OR push_bit 4 k) = (k :: u8)"
proof -
  have s: "\<not> bit s i" if "3 \<le> i" for i
  proof -
    have "take_bit 3 s = s" using assms(1) by (intro take_bit_small) (simp add: word_less_nat_alt)
    then show ?thesis using that by (metis bit_take_bit_iff not_less)
  qed
  have k: "\<not> bit k i" if "3 \<le> i" for i
  proof -
    have "take_bit 3 k = k" using assms(2) by (intro take_bit_small) (simp add: word_less_nat_alt)
    then show ?thesis using that by (metis bit_take_bit_iff not_less)
  qed
  show "ucast (widen junk (signed_drop_bit 4 (push_bit 4 (s OR push_bit 4 k)))) = (ucast s :: size_bv)"
    by (rule bit_word_eqI) (auto simp: widen_def bit_simps min_def)
  show "signed_drop_bit 4 (s OR push_bit 4 k) = k"
    by (rule bit_word_eqI) (auto simp: bit_simps min_def s k)
qed

lemma boolean_byte:
  "boolean_value_and_type True 1 = 5" "boolean_value_and_type True 0 = 4"
  "boolean_value_and_type False 1 = 3" "boolean_value_and_type False 0 = 2"
  by (simp_all add: boolean_value_and_type_def)

lemma get_bit_iff:
  assumes "0 < p" "p \<le> 8"
  shows "get_bit b p \<longleftrightarrow> bit b (p - 1)"
proof -
  have "x AND 1 \<noteq> 0 \<longleftrightarrow> bit x 0" for x :: u8 using and_1_neq_0 [of 0 x] by simp
  then have "get_bit b p \<longleftrightarrow> bit (signed_drop_bit 7 (push_bit (8 - p) b)) 0" by (simp only: get_bit_def)
  with assms show ?thesis by (auto simp: bit_simps min_def)
qed

lemma boolean_byte_fields:
  "get_bit (boolean_value_and_type st (if u then 1 else 0)) 2 = (\<not> st)"
  "get_bit (boolean_value_and_type st (if u then 1 else 0)) 1 = u"
  "ucast (drop_bit 2 (boolean_value_and_type st (if u then 1 else 0))) = ((if st then 1 else 0) :: op_bv)"
proof -
  show "get_bit (boolean_value_and_type st (if u then 1 else 0)) 2 = (\<not> st)"
    by (cases st; cases u) (simp_all add: boolean_byte get_bit_iff bit_iff_odd)
  show "get_bit (boolean_value_and_type st (if u then 1 else 0)) 1 = u"
    by (cases st; cases u) (simp_all add: boolean_byte get_bit_iff)
  show "ucast (drop_bit 2 (boolean_value_and_type st (if u then 1 else 0))) = ((if st then 1 else 0) :: op_bv)"
    by (cases st; cases u) (simp_all add: boolean_byte drop_bit_eq_div)
qed

lemma value_bytes_width:
  "v \<noteq> QEMU_PLUGIN_MEM_VALUE_U128 \<Longrightarrow> value_bytes (get_size_value v) = Some (value_width v) \<and> value_width v \<le> 8"
  by (cases v) (simp_all add: value_bytes_def)

lemma read_byte:
  assumes "delivers lib r (b # bs)"
  shows "\<exists>r'. get_content_of_trace lib 1 r = Ret [b] r' \<and> delivers lib r' bs"
  using get_content_delivers [of lib r "[b]" bs] assms by simp

lemma read_transaction_record:
  assumes "delivers lib r (trace_record True a @ bs)" "recordable a"
  shows "\<exists>r'. read_transaction junk lib t r = Ret (uint (a_delay a), replay_fields a t) r' \<and> delivers lib r' bs"
proof -
  let ?w = "le_bytes (value_width (val_type (a_value a))) (val_data (a_value a))"
  let ?v = "if a_store a then ?w else []"
  define s where "s = a_size a OR push_bit 4 (get_size_value (val_type (a_value a)))"
  define b where "b = boolean_value_and_type (a_store a) (if a_uncached a then 1 else 0)"
  from assms(1) have d: "delivers lib r (a_delay a # le_bytes 8 (a_addr a) @ s # b # ?v @ bs)"
    by (simp add: trace_record_def s_def b_def)
  obtain r1 where r1: "get_content_of_trace lib 1 r = Ret [a_delay a] r1" "delivers lib r1 (le_bytes 8 (a_addr a) @ s # b # ?v @ bs)"
    using read_byte [OF d] by blast
  obtain r2 where r2: "get_content_of_trace lib 8 r1 = Ret (le_bytes 8 (a_addr a)) r2" "delivers lib r2 (s # b # ?v @ bs)"
    using get_content_delivers [OF r1(2)] by auto
  obtain r3 where r3: "get_content_of_trace lib 1 r2 = Ret [s] r3" "delivers lib r3 (b # ?v @ bs)"
    using read_byte [OF r2(2)] by blast
  obtain r4 where r4: "get_content_of_trace lib 1 r3 = Ret [b] r4" "delivers lib r4 (?v @ bs)"
    using read_byte [OF r3(2)] by blast
  have sz: "a_size a < 8" using assms(2) by (simp add: recordable_def)
  note size_byte = size_byte_low [OF sz get_size_value_less [of "val_type (a_value a)"], folded s_def]
  note bool_byte = boolean_byte_fields [of "a_store a" "a_uncached a", folded b_def, unfolded One_nat_def]
  have ad: "word_of_bytes (le_bytes 8 (a_addr a)) = a_addr a" by (simp add: word_of_le_bytes take_bit_word_eq_self)
  show ?thesis
  proof (cases "a_store a")
    case True
    with assms(2) have ty: "val_type (a_value a) \<noteq> QEMU_PLUGIN_MEM_VALUE_U128" by (simp add: recordable_def)
    obtain r5 where "get_content_of_trace lib (value_width (val_type (a_value a))) r4 = Ret ?w r5" "delivers lib r5 bs"
      using get_content_delivers [of lib r4 ?w bs] r4(2) True by auto
    with True r1(1) r2(1) r3(1) r4(1) value_bytes_width [OF ty] show ?thesis
      by (simp add: read_transaction_def read_delay_def read_address_def read_size_def read_boolean_and_type_def
          read_value_def bool_byte size_byte ad has_op_def replay_fields_def word_of_le_bytes Let_def)
  next
    case False
    with r1(1) r2(1) r3(1) r4 show ?thesis
      by (simp add: read_transaction_def read_delay_def read_address_def read_size_def read_boolean_and_type_def
          bool_byte size_byte ad has_op_def replay_fields_def Let_def)
  qed
qed

lemma from_trace_run_delivers:
  assumes "delivers lib r (concat (map (trace_record True) accs))" "list_all recordable accs" "length accs \<le> length tids"
  shows "\<exists>r'. from_trace_run junk lib tids r =
     Ret (map2 (\<lambda>tid a. Some (uint (a_delay a), replay_fields a (transaction_req_new\<lparr>req_tid := tid\<rparr>))) tids accs @ [None]) r'"
  using assms
proof (induction accs arbitrary: tids r)
  case Nil
  then have "is_finish r" by (auto intro: delivers_finished)
  then show ?case by (cases tids) simp_all
next
  case (Cons a accs)
  then obtain tid tids' where t: "tids = tid # tids'" by (cases tids) auto
  have d: "delivers lib r (trace_record True a @ concat (map (trace_record True) accs))" "recordable a"
    using Cons.prems by simp_all
  have "trace_record True a = a_delay a # tl (trace_record True a)" by (simp add: trace_record_def)
  with d(1) have "\<not> is_finish r" by (metis append_Cons delivers_not_finished)
  moreover obtain r1 where "read_transaction junk lib (transaction_req_new\<lparr>req_tid := tid\<rparr>) r =
      Ret (uint (a_delay a), replay_fields a (transaction_req_new\<lparr>req_tid := tid\<rparr>)) r1"
    "delivers lib r1 (concat (map (trace_record True) accs))"
    using read_transaction_record [OF d] by blast
  ultimately show ?case using Cons.IH [of r1 tids'] Cons.prems(2,3) by (auto simp: t)
qed

text \<open>The address of whatever stands in the stream: the eight bytes after the first.\<close>

lemma read_transaction_address:
  assumes "delivers lib r (d # as @ s # b # vs)" "length as = 8" "8 \<le> length vs"
  shows "\<exists>dl t' r'. read_transaction junk lib t r = Ret (dl, t') r' \<and> req_addr t' = ucast (word_of_bytes as)"
proof -
  obtain r1 where r1: "get_content_of_trace lib 1 r = Ret [d] r1" "delivers lib r1 (as @ s # b # vs)"
    using read_byte [OF assms(1)] by blast
  obtain r2 where r2: "get_content_of_trace lib 8 r1 = Ret as r2" "delivers lib r2 (s # b # vs)"
    using get_content_delivers [OF r1(2)] assms(2) by auto
  obtain r3 where r3: "get_content_of_trace lib 1 r2 = Ret [s] r3" "delivers lib r3 (b # vs)"
    using read_byte [OF r2(2)] by blast
  obtain r4 where r4: "get_content_of_trace lib 1 r3 = Ret [b] r4" "delivers lib r4 vs"
    using read_byte [OF r3(2)] by blast
  have "\<exists>t' r'. read_value lib t1 z r4 = Ret t' r' \<and> req_addr t' = req_addr t1" for t1 z
  proof (cases "value_bytes z")
    case (Some n)
    then have "n \<le> 8" by (auto simp: value_bytes_def split: if_splits)
    then obtain r5 where "get_content_of_trace lib n r4 = Ret (take n vs) r5"
      using get_content_delivers [of lib r4 "take n vs" "drop n vs"] r4(2) assms(3) by auto
    with Some show ?thesis by (simp add: read_value_def)
  qed (simp add: read_value_def)
  note val = this
  show ?thesis
    using r1(1) r2(1) r3(1) r4(1)
    by (auto simp: read_transaction_def read_delay_def read_address_def read_size_def read_boolean_and_type_def
        res_bind_Ret Let_def simp del: get_content_of_trace.simps split: if_splits)
      (use val in fastforce)
qed

lemma boolean_byte_high: "\<exists>j < 8. bit (boolean_value_and_type st (if u then 1 else 0)) j"
  using boolean_byte by (intro exI [of _ "if st then 2 else 1"]) (cases st; cases u; simp add: bit_iff_odd)

text \<open>A compression of an empty buffer asks for output in no room at all, which the compressor answers with nothing.\<close>

definition stalls :: "'d plugin_env \<Rightarrow> bool" where
  "stalls env \<longleftrightarrow> (\<forall>z last_call inp. case d_deflate env z last_call inp 0 of (err, z', used, out) \<Rightarrow> \<not> err \<and> out = [])"

lemma deflate_loop_forever:
  assumes "stalls env" "os_write env fd 0 = 0"
  shows "deflate_loop env fd 0 last_call z inp f = None"
proof -
  let ?P = "\<lambda>e d n l z inp f y. \<not> (e = env \<and> d = fd \<and> n = (0 :: nat))"
  have "?P e d n l z inp f y" if "deflate_loop e d n l z inp f = Some y" for e d n l z inp f y
  proof (rule deflate_loop.raw_induct [of ?P, OF _ that], goal_cases)
    case (1 loop e d n l z inp f y)
    obtain err z' used out where x: "d_deflate e z l inp n = (err, z', used, out)" by (rule prod_cases4)
    show ?case
    proof
      assume eq: "e = env \<and> d = fd \<and> n = 0"
      from assms(1) have "case d_deflate e z l inp 0 of (err, z', used, out) \<Rightarrow> \<not> err \<and> out = []"
        using eq by (simp only: stalls_def)
      with x eq have "\<not> err" "out = []" by simp_all
      with 1(2) x eq assms(2) have "loop e d n l z' (drop used inp) (f @ out) = Some y" by simp
      from 1(1) [OF this] eq show False by simp
    qed
  qed
  from this [of env fd 0 last_call z inp f] show ?thesis by (cases "deflate_loop env fd 0 last_call z inp f") auto
qed

lemma compress_forever:
  assumes "stalls env" "os_write env (file_descriptor st) 0 = 0" "os_malloc env 0" "d_init env \<noteq> None" "buffer_begin st = 0"
  shows "compress_data_to_file env last_call st = Forever"
proof -
  have "compress_loop env (file_descriptor st) buf 0 last_call 0 z f = None" for buf z f
    by (subst compress_loop.simps) (simp add: loop_bound_def chunk_size_def deflate_loop_forever [OF assms(1,2)])
  with assms(3-) show ?thesis
    by (cases "pl_stream st") (auto simp: compress_data_to_file_def plugin_init_stream_def)
qed

lemma compress_single_byte:
  assumes "plugin_env_ok env (file_descriptor st) fed backlog" "buffer_begin st = 1"
  shows "\<exists>st'. compress_data_to_file env last_call st = Ret () st' \<and> fed_of fed st' = fed_of fed st \<and>
     same_setup st st' \<and> outputs st' = outputs st"
proof -
  have "compress_loop env (file_descriptor st) (buffer_compress st) (buffer_begin st) last_call 0 (start_stream env st)
     (outputs st (file_descriptor st)) = Some (Inr (start_stream env st, outputs st (file_descriptor st)))"
    by (subst compress_loop.simps) (simp add: assms(2) loop_bound_def)
  from compress_start [OF assms(1) _ this] assms(2) fed_start_stream [OF assms(1), of st] show ?thesis
    by (simp add: same_setup_def fed_of_def)
qed

section \<open>Properties\<close>

text \<open>
  C17. Whatever accesses and instructions the emulator reports, in whatever order, the plugin records
  every access and nothing else: what it has handed to the compressor, followed by what its buffer of
  5000 bytes still holds, is the concatenation of the records, each with the number of instructions
  counted since the access before it; the buffer never overflows.
\<close>

theorem plugin_records_everything:
  assumes "plugin_env_ok env (file_descriptor st) fed backlog" "recording st" "0 \<le> current_instruction st"
    "current_instruction st + int (instructions evs) < 2 ^ 31"
  shows "\<exists>st'. plugin_run env evs st = Ret () st' \<and>
     fed_of fed st' @ buffered st' = (fed_of fed st @ buffered st) @
       concat (map (trace_record (is_64_bits st)) (accesses (current_instruction st) evs)) \<and>
     buffer_begin st' < SIZE_BUFFER"
  using plugin_run_total [OF assms] by (auto simp: recording_def)

text \<open>A compressor for the witnesses: it takes everything and produces nothing.\<close>

definition plugin_env_w :: "u8 list plugin_env" where
  "plugin_env_w = \<lparr>os_malloc = (\<lambda>_. True), os_open = (\<lambda>_. 3), os_write = (\<lambda>_ n. int n), os_errlen = 9, d_init = Some [],
     d_deflate = (\<lambda>z last_call inp n. (False, z @ inp, length inp, [])), d_end = (\<lambda>_. True)\<rparr>"

lemma plugin_env_w_ok: "plugin_env_ok plugin_env_w fd (\<lambda>z. z) (\<lambda>_ _. 0)"
  by (auto simp: plugin_env_ok_def deflate_ok_def plugin_env_w_def)

definition meminfo_w :: meminfo where
  "meminfo_w = \<lparr>mem_size_shift = 2, mem_hwaddr = Some 0x10000004, mem_is_store = True,
     mem_get_value = \<lparr>val_type = QEMU_PLUGIN_MEM_VALUE_U32, val_data = 0xcafe\<rparr>\<rparr>"

theorem plugin_records_everything_witness:
  "\<exists>st'. plugin_run plugin_env_w [Instruction, Access 0 meminfo_w 7] plugin_start = Ret () st' \<and>
     fed_of (\<lambda>z. z) st' @ buffered st' = [1, 4, 0, 0, 0x10, 0x22, 5, 0xfe, 0xca, 0, 0]"
proof -
  let ?st = "plugin_start :: u8 list plugin" and ?evs = "[Instruction, Access 0 meminfo_w 7]"
  have c: "recording ?st" "0 \<le> current_instruction ?st" "current_instruction ?st + int (instructions ?evs) < 2 ^ 31"
    by (simp_all add: recording_def plugin_start_def SIZE_BUFFER_def)
  have "concat (map (trace_record (is_64_bits ?st)) (accesses (current_instruction ?st) ?evs)) =
      [1, 4, 0, 0, 0x10, 0x22, 5, 0xfe, 0xca, 0, 0]" by code_simp
  moreover have "fed_of (\<lambda>z. z) ?st @ buffered ?st = []" by (simp add: plugin_start_def fed_of_def buffered_def)
  ultimately show ?thesis using plugin_records_everything [OF plugin_env_w_ok c] by auto
qed

text \<open>
  C18. The end of a recording flushes the buffer only when it holds two bytes or more. A single byte
  left in it never reaches the compressor and no end of the stream is written; and when the buffer
  is empty, as after a program without accesses, or a record that ended exactly at the 5000th byte,
  the exit handler never returns.
\<close>

theorem plugin_exit_flush:
  assumes "plugin_env_ok env (file_descriptor st) fed backlog" "need_to_compress st"
  shows "(2 \<le> buffer_begin st \<longrightarrow>
            (\<exists>st'. plugin_exit env st = Ret () st' \<and> fed_of fed st' = fed_of fed st @ buffered st)) \<and>
         (buffer_begin st = 1 \<longrightarrow>
            (\<exists>st'. plugin_exit env st = Ret () st' \<and> fed_of fed st' = fed_of fed st \<and> outputs st' = outputs st)) \<and>
         (buffer_begin st = 0 \<and> stalls env \<and> os_malloc env 0 \<longrightarrow> plugin_exit env st = Forever)"
proof (intro conjI impI)
  assume "2 \<le> buffer_begin st"
  from compress_feeds [OF assms(1) this, of True] assms(2)
  show "\<exists>st'. plugin_exit env st = Ret () st' \<and> fed_of fed st' = fed_of fed st @ buffered st"
    by (auto simp: plugin_exit_def fed_of_def)
next
  assume "buffer_begin st = 1"
  from compress_single_byte [OF assms(1) this, of True] assms(2)
  show "\<exists>st'. plugin_exit env st = Ret () st' \<and> fed_of fed st' = fed_of fed st \<and> outputs st' = outputs st"
    by (auto simp: plugin_exit_def fed_of_def)
next
  assume "buffer_begin st = 0 \<and> stalls env \<and> os_malloc env 0"
  moreover from assms(1) have "os_write env (file_descriptor st) 0 = 0" "d_init env \<noteq> None" by (auto simp: plugin_env_ok_def)
  ultimately show "plugin_exit env st = Forever" using assms(2) by (simp add: plugin_exit_def compress_forever)
qed

theorem plugin_exit_flush_witness:
  "plugin_exit plugin_env_w plugin_start = Forever \<and>
   (\<exists>st'. plugin_exit plugin_env_w (plugin_start\<lparr>buffer_begin := 2\<rparr>) = Ret () st' \<and> fed_of (\<lambda>z. z) st' = [0, 0])"
  using plugin_exit_flush [OF plugin_env_w_ok, of plugin_start] plugin_exit_flush [OF plugin_env_w_ok, of "plugin_start\<lparr>buffer_begin := 2\<rparr>"]
  by (auto simp: plugin_start_def stalls_def plugin_env_w_def fed_of_def buffered_def upt_rec)

text \<open>
  C16. Recording and replaying fit, for 64-bit programs: when the decompressor gives back the
  concatenated records, over any number of blocks, the trace sequence sends one request for each
  access, in order, with its delay, address, size, operation, cacheability and store data, and then
  the end marker; it never reads past the end, stalls or halts.
\<close>

theorem trace_replays_accesses:
  fixes lib :: "'z inflater"
  assumes "z_alloc lib" "z_init lib = (MZ_OK, z)"
    "decodes lib z content (concat (map (trace_record True) accs))"
    "list_all recordable accs" "length accs \<le> length tids"
  shows "\<exists>r. res_bind (trace_reader_new junk0 (Some content)) (\<lambda>_. from_trace_run junk lib tids) =
     Ret (map2 (\<lambda>tid a. Some (uint (a_delay a), replay_fields a (transaction_req_new\<lparr>req_tid := tid\<rparr>))) tids accs @ [None]) r"
proof -
  obtain r0 where r0: "trace_reader_new junk0 (Some content) = Ret () (r0 :: 'z trace_reader)" "trace_left r0 = content"
    "read_buffer r0 = end_buffer r0" "\<not> bool_finish r0" "rd_stream r0 = Null_stream"
    by (simp add: trace_reader_new_def set_trace_def init_buf_def)
  from assms(1,2) r0(5) have "continues lib r0 z" by (simp add: continues_def)
  from delivers_decoded [OF assms(3) this r0(2-4)] from_trace_run_delivers assms(4,5) r0(1) show ?thesis by fastforce
qed

definition lib_w :: "unit inflater" where
  "lib_w = \<lparr>z_alloc = True, z_init = (MZ_OK, ()), z_inflate = (\<lambda>_ inp n. (MZ_STREAM_END, (), length inp, inp)),
     z_end = (\<lambda>_. MZ_OK)\<rparr>"

definition access_w :: mem_access where
  "access_w = \<lparr>a_delay = 3, a_store = True, a_addr = 0x80000010, a_size = 1,
     a_value = \<lparr>val_type = QEMU_PLUGIN_MEM_VALUE_U16, val_data = 0x12345\<rparr>, a_uncached = False\<rparr>"

lemma decodes_w:
  assumes "bs \<noteq> []" "length bs \<le> 100"
  shows "decodes lib_w () bs bs"
proof (rule decodes.last_block)
  have len: "length bs \<le> MAX_SIZE_BUFFER" by (rule order_trans [OF assms(2)]) (simp add: MAX_SIZE_BUFFER_def)
  then show "length bs \<le> buf_capacity" by (simp add: buf_capacity_def)
  show "inflates lib_w () (take MAX_SIZE_BUFFER bs) MZ_STREAM_END () bs"
    using take_all [OF len] by (intro inflates.stop [where used = "length bs"]) (simp_all add: lib_w_def)
qed (use assms in \<open>simp_all add: lib_w_def\<close>)

theorem trace_replays_accesses_witness:
  "\<exists>r. res_bind (trace_reader_new (\<lambda>_. 0) (Some (trace_record True access_w))) (\<lambda>_. from_trace_run 0 lib_w [5]) =
     Ret [Some (3, transaction_req_new\<lparr>req_tid := 5, req_addr := 0x80000010, req_size := 1, req_op := 1,
       req_need_rsp := False, req_phys_indexed := True, req_wdata := 0x2345\<rparr>), None] r"
proof -
  have "replay_fields access_w (transaction_req_new\<lparr>req_tid := 5\<rparr>) =
      transaction_req_new\<lparr>req_tid := 5, req_addr := 0x80000010, req_size := 1, req_op := 1,
       req_need_rsp := False, req_phys_indexed := True, req_wdata := 0x2345\<rparr>"
    by (simp add: replay_fields_def access_w_def transaction_req_new_def)
  moreover have "decodes lib_w () (trace_record True access_w) (concat (map (trace_record True) [access_w]))"
    using decodes_w [of "trace_record True access_w"] by (simp add: trace_record_def access_w_def)
  ultimately show ?thesis
    using trace_replays_accesses [of lib_w "()" "trace_record True access_w" "[access_w]" "[5]" "\<lambda>_. 0" 0]
    by (simp add: lib_w_def recordable_def access_w_def)
qed

text \<open>
  The trace sequence sets no byte enables: a replayed store of a recorded access selects none of
  the bytes it carries, so the request is not one the cache accepts as a store of that size.
\<close>

theorem replayed_store_malformed:
  assumes "a_store a" "a_size a \<le> 3"
  shows "is_store (replay_fields a (transaction_req_new\<lparr>req_tid := tid\<rparr>)) \<and>
         req_be (replay_fields a (transaction_req_new\<lparr>req_tid := tid\<rparr>)) = 0 \<and>
         \<not> req_wf (replay_fields a (transaction_req_new\<lparr>req_tid := tid\<rparr>))"
proof -
  let ?t = "replay_fields a (transaction_req_new\<lparr>req_tid := tid\<rparr>)"
  have t: "req_be ?t = 0" "unat (req_op ?t) = 1"
    using assms(1) by (simp_all add: replay_fields_def transaction_req_new_def)
  then have st: "is_store ?t" by (simp add: is_store_def has_op_def)
  have "\<not> is_cmo ?t" using t(2) by (auto simp: is_cmo_def has_op_def)
  moreover have "\<exists>i < 8. unat (req_addr ?t) mod 8 \<le> i \<and> i < unat (req_addr ?t) mod 8 + 2 ^ unat (req_size ?t)"
    by (rule exI [of _ "unat (req_addr ?t) mod 8"]) simp
  ultimately have "\<not> req_wf ?t" using t(1) unfolding req_wf_def Let_def by auto
  with t st show ?thesis by simp
qed

theorem replayed_store_malformed_witness:
  "req_be (replay_fields access_w (transaction_req_new\<lparr>req_tid := 5\<rparr>)) = 0 \<and>
   \<not> req_wf (replay_fields access_w (transaction_req_new\<lparr>req_tid := 5\<rparr>))"
  using replayed_store_malformed [of access_w 5] by (simp add: access_w_def)

text \<open>
  The two do not fit for 32-bit programs: the plugin then writes four bytes of address where the
  reader takes eight, so the bytes of the size and of the flags become address bits, and the address
  replayed differs from every 32-bit address recorded.
\<close>

theorem trace32_address_lost:
  assumes "delivers lib r (trace_record False a @ bs)" "12 \<le> length bs" "unat (a_addr a) < 2 ^ 32"
  shows "\<exists>d t' r'. read_transaction junk lib t r = Ret (d, t') r' \<and> req_addr t' \<noteq> ucast (a_addr a)"
proof -
  define s where "s = a_size a OR push_bit 4 (get_size_value (val_type (a_value a)))"
  define b where "b = boolean_value_and_type (a_store a) (if a_uncached a then 1 else 0)"
  define v where "v = (if a_store a then le_bytes (value_width (val_type (a_value a))) (val_data (a_value a)) else []) @ bs"
  let ?as = "le_bytes 4 (a_addr a) @ [s, b] @ take 2 v"
  have len: "12 \<le> length v" using assms(2) by (simp add: v_def)
  then obtain s' b' vs where v: "drop 2 v = s' # b' # vs" "8 \<le> length vs"
    by (cases "drop 2 v"; cases "tl (drop 2 v)") (auto dest!: arg_cong [of _ _ length])
  have "trace_record False a @ bs = a_delay a # ?as @ s' # b' # vs"
    using v(1) append_take_drop_id [of 2 v] by (simp add: trace_record_def s_def b_def v_def)
  with assms(1) have "delivers lib r (a_delay a # ?as @ s' # b' # vs)" by simp
  moreover have "length ?as = 8" using len by simp
  ultimately obtain d t' r' where
    t': "read_transaction junk lib t r = Ret (d, t') r'" "req_addr t' = ucast (word_of_bytes ?as)"
    using read_transaction_address v(2) by blast
  obtain j where j: "j < 8" "bit b j" using boolean_byte_high b_def by blast
  have "?as ! 5 = b" by (simp add: nth_append)
  then have "bit (req_addr t') (40 + j)"
    using j len by (simp add: t'(2) bit_simps bit_word_of_bytes div_add1_eq mod_add_eq [of 40 8 j, symmetric])
  moreover have "take_bit 32 (a_addr a) = a_addr a" by (rule take_bit_small [OF assms(3)])
  with bit_take_bit_iff [of 32 "a_addr a" "40 + j"] have "\<not> bit (a_addr a) (40 + j)" by simp
  then have "\<not> bit (ucast (a_addr a) :: addr_bv) (40 + j)" by (simp add: bit_simps)
  ultimately show ?thesis using t'(1) by metis
qed

theorem trace32_address_lost_witness:
  "\<exists>d t' r'. read_transaction 0 lib_w transaction_req_new
       (\<lparr>bool_finish = False, rd_stream = Live (), trace_left = trace_record False access_w @ replicate 20 0,
         rd_buf = (\<lambda>_. 0), end_buffer = 0, read_buffer = 0, rd_closed = False\<rparr>) = Ret (d, t') r' \<and>
     req_addr t' \<noteq> 0x80000010"
proof -
  have "decodes lib_w () (trace_record False access_w @ replicate 20 0) (trace_record False access_w @ replicate 20 0)"
    by (rule decodes_w) (simp_all add: trace_record_def access_w_def)
  from delivers_decoded [OF this, of "\<lparr>bool_finish = False, rd_stream = Live (),
      trace_left = trace_record False access_w @ replicate 20 0, rd_buf = (\<lambda>_. 0), end_buffer = 0, read_buffer = 0,
      rd_closed = False\<rparr>"]
  have "delivers lib_w \<lparr>bool_finish = False, rd_stream = Live (),
      trace_left = trace_record False access_w @ replicate 20 0, rd_buf = (\<lambda>_. 0), end_buffer = 0, read_buffer = 0,
      rd_closed = False\<rparr> (trace_record False access_w @ replicate 20 0)"
    by (simp add: continues_def lib_w_def)
  from trace32_address_lost [OF this, of 0 transaction_req_new] show ?thesis by (simp add: access_w_def)
qed

end
