(* ===== verification/Wiring.thy ===== *)
theory Wiring
  imports Test_Defs "HOL-Library.Multiset"
begin

text \<open>
  The structure of the test bench: the ports of its modules (\<^verbatim>\<open>hpdcache_test_agent.h\<close>, \<^verbatim>\<open>hpdcache_test_driver.h\<close>,
  \<^verbatim>\<open>hpdcache_test_mem_resp_model.h\<close>, \<^verbatim>\<open>hpdcache_test_scoreboard.h\<close>, with those they inherit from \<^verbatim>\<open>agent.h\<close> and
  \<^verbatim>\<open>driver.h\<close>), the signals of \<^verbatim>\<open>hpdcache_tb.cpp\<close> and the bindings of \<^verbatim>\<open>build\<close> and of the agent's constructor, as
  tables. Ports are listed in the order in which they are bound. The compiled cache is generated code; its ports are
  named with their direction, as all others are. SystemC reports a port that is not bound, or a signal with two
  drivers, only when the simulation starts; here it is proved that there is none.
\<close>

section \<open>Signals and ports\<close>

datatype sig_type = Sbool | Sbv nat | Sfifo string

datatype dir = In | Out

type_synonym port = "string \<times> dir \<times> sig_type"

definition tb_signals :: "(string \<times> sig_type) list" where
  "tb_signals =
     [(''clk_i'', Sbool), (''rst_ni'', Sbool), (''wbuf_flush'', Sbool), (''core_req_valid'', Sbool),
      (''core_req_ready'', Sbool), (''core_req'', Sbv HPDCACHE_CORE_REQ_WIDTH), (''core_req_abort'', Sbool),
      (''core_req_tag'', Sbv HPDCACHE_TAG_WIDTH), (''core_req_pma'', Sbv HPDCACHE_REQ_PMA_WIDTH),
      (''core_rsp_valid'', Sbool), (''core_rsp'', Sbv HPDCACHE_CORE_RSP_WIDTH), (''mem_req_read_ready'', Sbool),
      (''mem_req_read_valid'', Sbool), (''mem_req_read_addr'', Sbv HPDCACHE_MEM_ADDR_WIDTH),
      (''mem_req_read_len'', Sbv 8), (''mem_req_read_size'', Sbv 3),
      (''mem_req_read_id'', Sbv HPDCACHE_MEM_ID_WIDTH), (''mem_req_read_command'', Sbv 2),
      (''mem_req_read_atomic'', Sbv 4), (''mem_req_read_cacheable'', Sbool), (''mem_resp_read_ready'', Sbool),
      (''mem_resp_read_valid'', Sbool), (''mem_resp_read_error'', Sbv 2),
      (''mem_resp_read_id'', Sbv HPDCACHE_MEM_ID_WIDTH), (''mem_resp_read_data'', Sbv HPDCACHE_MEM_DATA_WIDTH),
      (''mem_resp_read_last'', Sbool), (''mem_req_write_ready'', Sbool), (''mem_req_write_valid'', Sbool),
      (''mem_req_write_addr'', Sbv HPDCACHE_MEM_ADDR_WIDTH), (''mem_req_write_len'', Sbv 8),
      (''mem_req_write_size'', Sbv 3), (''mem_req_write_id'', Sbv HPDCACHE_MEM_ID_WIDTH),
      (''mem_req_write_command'', Sbv 2), (''mem_req_write_atomic'', Sbv 4), (''mem_req_write_cacheable'', Sbool),
      (''mem_req_write_data_ready'', Sbool), (''mem_req_write_data_valid'', Sbool),
      (''mem_req_write_data'', Sbv HPDCACHE_MEM_DATA_WIDTH),
      (''mem_req_write_be'', Sbv (HPDCACHE_MEM_DATA_WIDTH div 8)), (''mem_req_write_last'', Sbool),
      (''mem_resp_write_ready'', Sbool), (''mem_resp_write_valid'', Sbool), (''mem_resp_write_is_atomic'', Sbool),
      (''mem_resp_write_error'', Sbv 2), (''mem_resp_write_id'', Sbv HPDCACHE_MEM_ID_WIDTH),
      (''sb_core_req'', Sfifo ''req''), (''sb_core_resp'', Sfifo ''resp''),
      (''sb_mem_read_req'', Sfifo ''mem_read_req''), (''sb_mem_read_resp'', Sfifo ''mem_read_resp''),
      (''sb_mem_write_req'', Sfifo ''mem_write_req''), (''sb_mem_write_resp'', Sfifo ''mem_write_resp''),
      (''evt_cache_write_miss'', Sbool), (''evt_cache_read_miss'', Sbool), (''evt_cache_dir_unc_err'', Sbool),
      (''evt_cache_dir_cor_err'', Sbool), (''evt_cache_dat_unc_err'', Sbool), (''evt_cache_dat_cor_err'', Sbool),
      (''evt_scrub_complete'', Sbool), (''evt_uncached_req'', Sbool), (''evt_cmo_req'', Sbool),
      (''evt_write_req'', Sbool), (''evt_read_req'', Sbool), (''evt_prefetch_req'', Sbool),
      (''evt_req_on_hold'', Sbool), (''evt_rtab_rollback'', Sbool), (''evt_stall_refill'', Sbool),
      (''evt_stall'', Sbool), (''no_inflight_requests'', Sbool), (''wbuf_empty'', Sbool), (''cfg_enable'', Sbool),
      (''cfg_wbuf_threshold'', Sbv 3), (''cfg_wbuf_reset_timecnt_on_write'', Sbool),
      (''cfg_wbuf_sequential_waw'', Sbool), (''cfg_wbuf_inhibit_write_coalescing'', Sbool),
      (''cfg_prefetch_updt_plru'', Sbool), (''cfg_error_on_cacheable_amo'', Sbool),
      (''cfg_rtab_single_entry'', Sbool), (''cfg_default_wb'', Sbool), (''cfg_scrub_enable'', Sbool),
      (''cfg_scrub_period'', Sbv 6), (''cfg_scrub_restart'', Sbool)]"

definition agent_ports :: "port list" where
  "agent_ports =
     [(''clk_i'', In, Sbool), (''rst_ni'', In, Sbool), (''core_req_valid_o'', Out, Sbool),
      (''core_req_ready_i'', In, Sbool), (''core_req_o'', Out, Sbv HPDCACHE_CORE_REQ_WIDTH),
      (''core_req_tag_o'', Out, Sbv HPDCACHE_TAG_WIDTH), (''core_req_pma_o'', Out, Sbv HPDCACHE_REQ_PMA_WIDTH),
      (''core_req_abort_o'', Out, Sbool), (''core_rsp_valid_i'', In, Sbool),
      (''core_rsp_i'', In, Sbv HPDCACHE_CORE_RSP_WIDTH), (''sb_core_req_o'', Out, Sfifo ''req''),
      (''sb_core_resp_o'', Out, Sfifo ''resp''), (''no_inflight_requests_i'', In, Sbool)]"

definition driver_ports :: "port list" where
  "driver_ports =
     [(''clk_i'', In, Sbool), (''rst_ni'', In, Sbool), (''core_req_valid_o'', Out, Sbool),
      (''core_req_ready_i'', In, Sbool), (''core_req_o'', Out, Sbv HPDCACHE_CORE_REQ_WIDTH),
      (''core_req_tag_o'', Out, Sbv HPDCACHE_TAG_WIDTH), (''core_req_pma_o'', Out, Sbv HPDCACHE_REQ_PMA_WIDTH),
      (''core_req_abort_o'', Out, Sbool), (''core_rsp_valid_i'', In, Sbool),
      (''core_rsp_i'', In, Sbv HPDCACHE_CORE_RSP_WIDTH), (''sb_core_req_o'', Out, Sfifo ''req''),
      (''sb_core_resp_o'', Out, Sfifo ''resp''), (''no_inflight_requests_i'', In, Sbool),
      (''transaction_fifo_i'', In, Sfifo ''Transaction''), (''transaction_ret_o'', Out, Sfifo ''uint64_t'')]"

text \<open>The ports of the base class \<^verbatim>\<open>Driver\<close> (\<^verbatim>\<open>TB/sc_verif_lib/include/driver.h\<close>).\<close>

definition base_driver_ports :: "port list" where
  "base_driver_ports =
     [(''clk_i'', In, Sbool), (''rst_ni'', In, Sbool), (''transaction_fifo_i'', In, Sfifo ''Transaction''),
      (''transaction_ret_o'', Out, Sfifo ''uint64_t'')]"

definition mem_ports :: "port list" where
  "mem_ports =
     [(''clk_i'', In, Sbool), (''rst_ni'', In, Sbool), (''mem_req_read_ready_o'', Out, Sbool),
      (''mem_req_read_valid_i'', In, Sbool), (''mem_req_read_addr_i'', In, Sbv HPDCACHE_MEM_ADDR_WIDTH),
      (''mem_req_read_len_i'', In, Sbv 8), (''mem_req_read_size_i'', In, Sbv 3),
      (''mem_req_read_id_i'', In, Sbv HPDCACHE_MEM_ID_WIDTH), (''mem_req_read_command_i'', In, Sbv 2),
      (''mem_req_read_atomic_i'', In, Sbv 4), (''mem_req_read_cacheable_i'', In, Sbool),
      (''mem_resp_read_ready_i'', In, Sbool), (''mem_resp_read_valid_o'', Out, Sbool),
      (''mem_resp_read_error_o'', Out, Sbv 2), (''mem_resp_read_id_o'', Out, Sbv HPDCACHE_MEM_ID_WIDTH),
      (''mem_resp_read_data_o'', Out, Sbv HPDCACHE_MEM_DATA_WIDTH), (''mem_resp_read_last_o'', Out, Sbool),
      (''mem_req_write_ready_o'', Out, Sbool), (''mem_req_write_valid_i'', In, Sbool),
      (''mem_req_write_addr_i'', In, Sbv HPDCACHE_MEM_ADDR_WIDTH), (''mem_req_write_len_i'', In, Sbv 8),
      (''mem_req_write_size_i'', In, Sbv 3), (''mem_req_write_id_i'', In, Sbv HPDCACHE_MEM_ID_WIDTH),
      (''mem_req_write_command_i'', In, Sbv 2), (''mem_req_write_atomic_i'', In, Sbv 4),
      (''mem_req_write_cacheable_i'', In, Sbool), (''mem_req_write_data_ready_o'', Out, Sbool),
      (''mem_req_write_data_valid_i'', In, Sbool), (''mem_req_write_data_i'', In, Sbv HPDCACHE_MEM_DATA_WIDTH),
      (''mem_req_write_be_i'', In, Sbv (HPDCACHE_MEM_DATA_WIDTH div 8)), (''mem_req_write_last_i'', In, Sbool),
      (''mem_resp_write_ready_i'', In, Sbool), (''mem_resp_write_valid_o'', Out, Sbool),
      (''mem_resp_write_is_atomic_o'', Out, Sbool), (''mem_resp_write_error_o'', Out, Sbv 2),
      (''mem_resp_write_id_o'', Out, Sbv HPDCACHE_MEM_ID_WIDTH),
      (''sb_mem_read_req_o'', Out, Sfifo ''mem_read_req''), (''sb_mem_read_resp_o'', Out, Sfifo ''mem_read_resp''),
      (''sb_mem_write_req_o'', Out, Sfifo ''mem_write_req''), (''sb_mem_write_resp_o'', Out, Sfifo ''mem_write_resp'')]"

definition scoreboard_ports :: "port list" where
  "scoreboard_ports =
     [(''clk_i'', In, Sbool), (''core_req_i'', In, Sfifo ''req''), (''core_resp_i'', In, Sfifo ''resp''),
      (''mem_read_req_i'', In, Sfifo ''mem_read_req''), (''mem_read_resp_i'', In, Sfifo ''mem_read_resp''),
      (''mem_write_req_i'', In, Sfifo ''mem_write_req''), (''mem_write_resp_i'', In, Sfifo ''mem_write_resp''),
      (''evt_cache_write_miss_i'', In, Sbool), (''evt_cache_read_miss_i'', In, Sbool),
      (''evt_cache_dir_unc_err_i'', In, Sbool), (''evt_cache_dir_cor_err_i'', In, Sbool),
      (''evt_cache_dat_unc_err_i'', In, Sbool), (''evt_cache_dat_cor_err_i'', In, Sbool),
      (''evt_scrub_complete_i'', In, Sbool), (''evt_uncached_req_i'', In, Sbool), (''evt_cmo_req_i'', In, Sbool),
      (''evt_write_req_i'', In, Sbool), (''evt_read_req_i'', In, Sbool), (''evt_prefetch_req_i'', In, Sbool),
      (''evt_req_on_hold_i'', In, Sbool), (''evt_rtab_rollback_i'', In, Sbool), (''evt_stall_refill_i'', In, Sbool),
      (''evt_stall_i'', In, Sbool), (''no_inflight_requests_o'', Out, Sbool)]"

text \<open>What a module inside the agent can be bound to: the agent's ports and its two channels.\<close>

definition agent_channels :: "(string \<times> sig_type) list" where
  "agent_channels =
     map (\<lambda>(p, d, t). (p, t)) agent_ports @ [(''transaction_fifo'', Sfifo ''Transaction''), (''transaction_ret'', Sfifo ''uint64_t'')]"

section \<open>Bindings\<close>

definition top_wiring :: "(string \<times> string) list" where
  "top_wiring =
     [(''clk_i'', ''clk_i''), (''rst_ni'', ''rst_ni''), (''wbuf_flush_i'', ''wbuf_flush''),
      (''core_req_valid_i'', ''core_req_valid''), (''core_req_ready_o'', ''core_req_ready''),
      (''core_req_i'', ''core_req''), (''core_req_abort_i'', ''core_req_abort''),
      (''core_req_tag_i'', ''core_req_tag''), (''core_req_pma_i'', ''core_req_pma''),
      (''core_rsp_valid_o'', ''core_rsp_valid''), (''core_rsp_o'', ''core_rsp''),
      (''mem_req_read_ready_i'', ''mem_req_read_ready''), (''mem_req_read_valid_o'', ''mem_req_read_valid''),
      (''mem_req_read_addr_o'', ''mem_req_read_addr''), (''mem_req_read_len_o'', ''mem_req_read_len''),
      (''mem_req_read_size_o'', ''mem_req_read_size''), (''mem_req_read_id_o'', ''mem_req_read_id''),
      (''mem_req_read_command_o'', ''mem_req_read_command''), (''mem_req_read_atomic_o'', ''mem_req_read_atomic''),
      (''mem_req_read_cacheable_o'', ''mem_req_read_cacheable''),
      (''mem_resp_read_ready_o'', ''mem_resp_read_ready''), (''mem_resp_read_valid_i'', ''mem_resp_read_valid''),
      (''mem_resp_read_error_i'', ''mem_resp_read_error''), (''mem_resp_read_id_i'', ''mem_resp_read_id''),
      (''mem_resp_read_data_i'', ''mem_resp_read_data''), (''mem_resp_read_last_i'', ''mem_resp_read_last''),
      (''mem_req_write_ready_i'', ''mem_req_write_ready''), (''mem_req_write_valid_o'', ''mem_req_write_valid''),
      (''mem_req_write_addr_o'', ''mem_req_write_addr''), (''mem_req_write_len_o'', ''mem_req_write_len''),
      (''mem_req_write_size_o'', ''mem_req_write_size''), (''mem_req_write_id_o'', ''mem_req_write_id''),
      (''mem_req_write_command_o'', ''mem_req_write_command''),
      (''mem_req_write_atomic_o'', ''mem_req_write_atomic''),
      (''mem_req_write_cacheable_o'', ''mem_req_write_cacheable''),
      (''mem_req_write_data_ready_i'', ''mem_req_write_data_ready''),
      (''mem_req_write_data_valid_o'', ''mem_req_write_data_valid''),
      (''mem_req_write_data_o'', ''mem_req_write_data''), (''mem_req_write_be_o'', ''mem_req_write_be''),
      (''mem_req_write_last_o'', ''mem_req_write_last''), (''mem_resp_write_ready_o'', ''mem_resp_write_ready''),
      (''mem_resp_write_valid_i'', ''mem_resp_write_valid''),
      (''mem_resp_write_is_atomic_i'', ''mem_resp_write_is_atomic''),
      (''mem_resp_write_error_i'', ''mem_resp_write_error''), (''mem_resp_write_id_i'', ''mem_resp_write_id''),
      (''evt_cache_write_miss_o'', ''evt_cache_write_miss''), (''evt_cache_read_miss_o'', ''evt_cache_read_miss''),
      (''evt_cache_dir_unc_err_o'', ''evt_cache_dir_unc_err''),
      (''evt_cache_dir_cor_err_o'', ''evt_cache_dir_cor_err''),
      (''evt_cache_dat_unc_err_o'', ''evt_cache_dat_unc_err''),
      (''evt_cache_dat_cor_err_o'', ''evt_cache_dat_cor_err''), (''evt_scrub_complete_o'', ''evt_scrub_complete''),
      (''evt_uncached_req_o'', ''evt_uncached_req''), (''evt_cmo_req_o'', ''evt_cmo_req''),
      (''evt_write_req_o'', ''evt_write_req''), (''evt_read_req_o'', ''evt_read_req''),
      (''evt_prefetch_req_o'', ''evt_prefetch_req''), (''evt_req_on_hold_o'', ''evt_req_on_hold''),
      (''evt_rtab_rollback_o'', ''evt_rtab_rollback''), (''evt_stall_refill_o'', ''evt_stall_refill''),
      (''evt_stall_o'', ''evt_stall''), (''wbuf_empty_o'', ''wbuf_empty''), (''cfg_enable_i'', ''cfg_enable''),
      (''cfg_wbuf_threshold_i'', ''cfg_wbuf_threshold''),
      (''cfg_wbuf_reset_timecnt_on_write_i'', ''cfg_wbuf_reset_timecnt_on_write''),
      (''cfg_wbuf_sequential_waw_i'', ''cfg_wbuf_sequential_waw''),
      (''cfg_wbuf_inhibit_write_coalescing_i'', ''cfg_wbuf_inhibit_write_coalescing''),
      (''cfg_prefetch_updt_plru_i'', ''cfg_prefetch_updt_plru''),
      (''cfg_error_on_cacheable_amo_i'', ''cfg_error_on_cacheable_amo''),
      (''cfg_rtab_single_entry_i'', ''cfg_rtab_single_entry''), (''cfg_default_wb_i'', ''cfg_default_wb''),
      (''cfg_scrub_enable_i'', ''cfg_scrub_enable''), (''cfg_scrub_period_i'', ''cfg_scrub_period''),
      (''cfg_scrub_restart_i'', ''cfg_scrub_restart'')]"

definition agent_wiring :: "(string \<times> string) list" where
  "agent_wiring =
     [(''clk_i'', ''clk_i''), (''rst_ni'', ''rst_ni''), (''core_req_valid_o'', ''core_req_valid''),
      (''core_req_ready_i'', ''core_req_ready''), (''core_req_o'', ''core_req''),
      (''core_req_tag_o'', ''core_req_tag''), (''core_req_pma_o'', ''core_req_pma''),
      (''core_req_abort_o'', ''core_req_abort''), (''core_rsp_valid_i'', ''core_rsp_valid''),
      (''core_rsp_i'', ''core_rsp''), (''sb_core_req_o'', ''sb_core_req''), (''sb_core_resp_o'', ''sb_core_resp''),
      (''no_inflight_requests_i'', ''no_inflight_requests'')]"

definition mem_wiring :: "(string \<times> string) list" where
  "mem_wiring =
     [(''clk_i'', ''clk_i''), (''rst_ni'', ''rst_ni''), (''mem_req_read_ready_o'', ''mem_req_read_ready''),
      (''mem_req_read_valid_i'', ''mem_req_read_valid''), (''mem_req_read_addr_i'', ''mem_req_read_addr''),
      (''mem_req_read_len_i'', ''mem_req_read_len''), (''mem_req_read_size_i'', ''mem_req_read_size''),
      (''mem_req_read_id_i'', ''mem_req_read_id''), (''mem_req_read_command_i'', ''mem_req_read_command''),
      (''mem_req_read_atomic_i'', ''mem_req_read_atomic''),
      (''mem_req_read_cacheable_i'', ''mem_req_read_cacheable''),
      (''mem_resp_read_ready_i'', ''mem_resp_read_ready''), (''mem_resp_read_valid_o'', ''mem_resp_read_valid''),
      (''mem_resp_read_error_o'', ''mem_resp_read_error''), (''mem_resp_read_id_o'', ''mem_resp_read_id''),
      (''mem_resp_read_data_o'', ''mem_resp_read_data''), (''mem_resp_read_last_o'', ''mem_resp_read_last''),
      (''mem_req_write_ready_o'', ''mem_req_write_ready''), (''mem_req_write_valid_i'', ''mem_req_write_valid''),
      (''mem_req_write_addr_i'', ''mem_req_write_addr''), (''mem_req_write_len_i'', ''mem_req_write_len''),
      (''mem_req_write_size_i'', ''mem_req_write_size''), (''mem_req_write_id_i'', ''mem_req_write_id''),
      (''mem_req_write_command_i'', ''mem_req_write_command''),
      (''mem_req_write_atomic_i'', ''mem_req_write_atomic''),
      (''mem_req_write_cacheable_i'', ''mem_req_write_cacheable''),
      (''mem_req_write_data_ready_o'', ''mem_req_write_data_ready''),
      (''mem_req_write_data_valid_i'', ''mem_req_write_data_valid''),
      (''mem_req_write_data_i'', ''mem_req_write_data''), (''mem_req_write_be_i'', ''mem_req_write_be''),
      (''mem_req_write_last_i'', ''mem_req_write_last''), (''mem_resp_write_ready_i'', ''mem_resp_write_ready''),
      (''mem_resp_write_valid_o'', ''mem_resp_write_valid''),
      (''mem_resp_write_is_atomic_o'', ''mem_resp_write_is_atomic''),
      (''mem_resp_write_error_o'', ''mem_resp_write_error''), (''mem_resp_write_id_o'', ''mem_resp_write_id''),
      (''sb_mem_read_req_o'', ''sb_mem_read_req''), (''sb_mem_read_resp_o'', ''sb_mem_read_resp''),
      (''sb_mem_write_req_o'', ''sb_mem_write_req''), (''sb_mem_write_resp_o'', ''sb_mem_write_resp'')]"

definition scoreboard_wiring :: "(string \<times> string) list" where
  "scoreboard_wiring =
     [(''clk_i'', ''clk_i''), (''core_req_i'', ''sb_core_req''), (''core_resp_i'', ''sb_core_resp''),
      (''mem_read_req_i'', ''sb_mem_read_req''), (''mem_read_resp_i'', ''sb_mem_read_resp''),
      (''mem_write_req_i'', ''sb_mem_write_req''), (''mem_write_resp_i'', ''sb_mem_write_resp''),
      (''evt_cache_write_miss_i'', ''evt_cache_write_miss''), (''evt_cache_read_miss_i'', ''evt_cache_read_miss''),
      (''evt_cache_dir_unc_err_i'', ''evt_cache_dir_unc_err''),
      (''evt_cache_dir_cor_err_i'', ''evt_cache_dir_cor_err''),
      (''evt_cache_dat_unc_err_i'', ''evt_cache_dat_unc_err''),
      (''evt_cache_dat_cor_err_i'', ''evt_cache_dat_cor_err''), (''evt_scrub_complete_i'', ''evt_scrub_complete''),
      (''evt_uncached_req_i'', ''evt_uncached_req''), (''evt_cmo_req_i'', ''evt_cmo_req''),
      (''evt_write_req_i'', ''evt_write_req''), (''evt_read_req_i'', ''evt_read_req''),
      (''evt_prefetch_req_i'', ''evt_prefetch_req''), (''evt_req_on_hold_i'', ''evt_req_on_hold''),
      (''evt_rtab_rollback_i'', ''evt_rtab_rollback''), (''evt_stall_refill_i'', ''evt_stall_refill''),
      (''evt_stall_i'', ''evt_stall''), (''no_inflight_requests_o'', ''no_inflight_requests'')]"

text \<open>The constructor of the agent binds the ports of its driver to its own ports and channels.\<close>

definition driver_wiring :: "(string \<times> string) list" where
  "driver_wiring =
     [(''clk_i'', ''clk_i''), (''rst_ni'', ''rst_ni''), (''core_req_valid_o'', ''core_req_valid_o''),
      (''core_req_ready_i'', ''core_req_ready_i''), (''core_req_o'', ''core_req_o''),
      (''core_req_tag_o'', ''core_req_tag_o''), (''core_req_pma_o'', ''core_req_pma_o''),
      (''core_req_abort_o'', ''core_req_abort_o''), (''core_rsp_valid_i'', ''core_rsp_valid_i''),
      (''core_rsp_i'', ''core_rsp_i''), (''sb_core_req_o'', ''sb_core_req_o''),
      (''sb_core_resp_o'', ''sb_core_resp_o''), (''no_inflight_requests_i'', ''no_inflight_requests_i''),
      (''transaction_fifo_i'', ''transaction_fifo''), (''transaction_ret_o'', ''transaction_ret'')]"

text \<open>What \<^verbatim>\<open>simulate\<close> writes, beside the clock and the reset.\<close>

definition tb_config :: "(string \<times> nat) list" where
  "tb_config =
     [(''wbuf_flush'', 0), (''cfg_enable'', 1), (''cfg_wbuf_threshold'', 1),
      (''cfg_wbuf_reset_timecnt_on_write'', 1), (''cfg_wbuf_sequential_waw'', 0),
      (''cfg_wbuf_inhibit_write_coalescing'', 0), (''cfg_prefetch_updt_plru'', 0),
      (''cfg_error_on_cacheable_amo'', 0), (''cfg_rtab_single_entry'', 0), (''cfg_default_wb'', 0),
      (''cfg_scrub_enable'', 0), (''cfg_scrub_period'', 10), (''cfg_scrub_restart'', 1)]"

definition out_port :: "string \<Rightarrow> bool" where
  "out_port p \<longleftrightarrow> last p = CHR ''o''"

definition wirings :: "(string \<times> string) list" where
  "wirings = top_wiring @ agent_wiring @ mem_wiring @ scoreboard_wiring"

definition drivers :: "string list" where
  "drivers = map snd (filter (\<lambda>(p, s). out_port p) wirings) @ map fst tb_config @ [''clk_i'', ''rst_ni'']"

definition readers :: "string list" where
  "readers = map snd (filter (\<lambda>(p, s). \<not> out_port p) wirings)"

text \<open>
  A module is bound correctly: every declared port is bound exactly once, its name tells its direction, and the
  signal bound to it exists and has its type.
\<close>

definition binds_ports :: "(string \<times> sig_type) list \<Rightarrow> port list \<Rightarrow> (string \<times> string) list \<Rightarrow> bool" where
  "binds_ports sigs ports ws \<longleftrightarrow>
     distinct (map fst ws) \<and> set (map fst ws) = set (map fst ports) \<and>
     (\<forall>(p, s) \<in> set ws. \<exists>d t. (p, d, t) \<in> set ports \<and> (s, t) \<in> set sigs \<and> out_port p = (d = Out))"

text \<open>
  Nothing is crossed: a port of the cache, the agent or the memory model goes to the signal of its own name, one of
  the scoreboard to that or to the channel of its name, one of the driver to the agent's port or channel of its name.
\<close>

definition own_name :: "string list \<Rightarrow> string \<times> string \<Rightarrow> bool" where
  "own_name prefixes b \<longleftrightarrow>
     (case b of (p, s) \<Rightarrow> s = p \<or> (\<exists>pre \<in> set prefixes. s = pre @ take (length p - 2) p))"

section \<open>Checking by index\<close>

text \<open>Names are compared through a number, which is faster to evaluate than comparing texts.\<close>

definition name_no :: "string \<Rightarrow> int" where
  "name_no s = foldr (\<lambda>c n. 256 * n + of_char c) s 0"

lemma distinct_names: "distinct (map (\<lambda>x. name_no (f x)) xs) \<Longrightarrow> distinct (map f xs)"
  using distinct_map [of name_no "map f xs"] by (simp add: comp_def)

lemma binds_by_index:
  assumes "ws = map2 (\<lambda>(p, d, t) i. (p, fst (sigs ! i))) ports ix" "length ix = length ports"
    "list_all2 (\<lambda>(p, d, t) i. i < length sigs \<and> snd (sigs ! i) = t \<and> out_port p = (d = Out)) ports ix"
    "distinct (map (\<lambda>x. name_no (fst x)) ports)"
  shows "binds_ports sigs ports ws"
proof -
  have fst: "map fst ws = map fst ports"
    using assms(1,2) by (auto intro!: nth_equalityI split: prod.split)
  moreover have "\<exists>d t. (p, d, t) \<in> set ports \<and> (s, t) \<in> set sigs \<and> out_port p = (d = Out)" if "(p, s) \<in> set ws" for p s
  proof -
    from that obtain k where k: "k < length ports" "ws ! k = (p, s)" using assms(1,2) by (auto simp: in_set_conv_nth)
    obtain q d t where q: "ports ! k = (q, d, t)" by (cases "ports ! k")
    have i: "ix ! k < length sigs" "snd (sigs ! (ix ! k)) = t" "out_port q = (d = Out)"
      using assms(3) k(1) q by (auto simp: list_all2_conv_all_nth)
    have "p = q" "s = fst (sigs ! (ix ! k))" using k assms(1,2) q by simp_all
    then have "(s, t) \<in> set sigs" using i(1,2) nth_mem [of "ix ! k" sigs] by (metis prod.collapse)
    then show ?thesis using i(3) q k(1) \<open>p = q\<close> nth_mem [of k ports] by auto
  qed
  ultimately show ?thesis using distinct_names [OF assms(4)] by (auto simp: binds_ports_def)
qed

lemma agent_bound: "binds_ports tb_signals agent_ports agent_wiring"
proof (rule binds_by_index)
  let ?ix = "[0, 1, 3, 4, 5, 7, 8, 6, 9, 10, 45, 46, 67]"
  show "agent_wiring = map2 (\<lambda>(p, d, t) i. (p, fst (tb_signals ! i))) agent_ports ?ix" by code_simp
  show "length ?ix = length agent_ports" by code_simp
  show "list_all2 (\<lambda>(p, d, t) i. i < length tb_signals \<and> snd (tb_signals ! i) = t \<and> out_port p = (d = Out)) agent_ports ?ix" by code_simp
  show "distinct (map (\<lambda>x. name_no (fst x)) agent_ports)" by code_simp
qed

lemma mem_bound: "binds_ports tb_signals mem_ports mem_wiring"
proof (rule binds_by_index)
  let ?ix = "[0, 1, 11, 12, 13, 14, 15, 16, 17, 18, 19, 20, 21, 22, 23, 24, 25, 26, 27, 28, 29, 30, 31, 32, 33, 34, 35, 36,
       37, 38, 39, 40, 41, 42, 43, 44, 47, 48, 49, 50]"
  show "mem_wiring = map2 (\<lambda>(p, d, t) i. (p, fst (tb_signals ! i))) mem_ports ?ix" by code_simp
  show "length ?ix = length mem_ports" by code_simp
  show "list_all2 (\<lambda>(p, d, t) i. i < length tb_signals \<and> snd (tb_signals ! i) = t \<and> out_port p = (d = Out)) mem_ports ?ix" by code_simp
  show "distinct (map (\<lambda>x. name_no (fst x)) mem_ports)" by code_simp
qed

lemma scoreboard_bound: "binds_ports tb_signals scoreboard_ports scoreboard_wiring"
proof (rule binds_by_index)
  let ?ix = "[0, 45, 46, 47, 48, 49, 50, 51, 52, 53, 54, 55, 56, 57, 58, 59, 60, 61, 62, 63, 64, 65, 66, 67]"
  show "scoreboard_wiring = map2 (\<lambda>(p, d, t) i. (p, fst (tb_signals ! i))) scoreboard_ports ?ix" by code_simp
  show "length ?ix = length scoreboard_ports" by code_simp
  show "list_all2 (\<lambda>(p, d, t) i. i < length tb_signals \<and> snd (tb_signals ! i) = t \<and> out_port p = (d = Out)) scoreboard_ports ?ix" by code_simp
  show "distinct (map (\<lambda>x. name_no (fst x)) scoreboard_ports)" by code_simp
qed

lemma driver_inherits: "set base_driver_ports \<subseteq> set driver_ports"
  by (simp add: base_driver_ports_def driver_ports_def)

lemma driver_bound: "binds_ports agent_channels driver_ports driver_wiring"
proof (rule binds_by_index)
  let ?ix = "[0, 1, 2, 3, 4, 5, 6, 7, 8, 9, 10, 11, 12, 13, 14]"
  show "driver_wiring = map2 (\<lambda>(p, d, t) i. (p, fst (agent_channels ! i))) driver_ports ?ix" by code_simp
  show "length ?ix = length driver_ports" by code_simp
  show "list_all2 (\<lambda>(p, d, t) i. i < length agent_channels \<and> snd (agent_channels ! i) = t \<and> out_port p = (d = Out)) driver_ports ?ix" by code_simp
  show "distinct (map (\<lambda>x. name_no (fst x)) driver_ports)" by code_simp
qed

definition driver_ix :: "nat list" where
  "driver_ix =
     [4, 9, 10, 12, 13, 14, 15, 16, 17, 18, 19, 20, 27, 28, 29, 30, 31, 32, 33, 34, 36, 37, 38, 39, 40, 51, 52, 53,
       54, 55, 56, 57, 58, 59, 60, 61, 62, 63, 64, 65, 66, 68, 3, 5, 7, 8, 6, 45, 46, 11, 21, 22, 23, 24, 25, 26, 35,
       41, 42, 43, 44, 47, 48, 49, 50, 67, 2, 69, 70, 71, 72, 73, 74, 75, 76, 77, 78, 79, 80, 0, 1]"

definition reader_ix :: "nat list" where
  "reader_ix =
     [0, 1, 2, 3, 5, 6, 7, 8, 11, 21, 22, 23, 24, 25, 26, 35, 41, 42, 43, 44, 69, 70, 71, 72, 73, 74, 75, 76, 77,
       78, 79, 80, 0, 1, 4, 9, 10, 67, 0, 1, 12, 13, 14, 15, 16, 17, 18, 19, 20, 27, 28, 29, 30, 31, 32, 33, 34, 36,
       37, 38, 39, 40, 0, 45, 46, 47, 48, 49, 50, 51, 52, 53, 54, 55, 56, 57, 58, 59, 60, 61, 62, 63, 64, 65, 66]"

lemma distinct_signals: "distinct (map fst tb_signals)"
  by (rule distinct_names) code_simp

lemma drivers_ix: "drivers = map (\<lambda>i. fst (tb_signals ! i)) driver_ix"
  by code_simp

lemma readers_ix: "readers = map (\<lambda>i. fst (tb_signals ! i)) reader_ix"
  by code_simp

lemma length_signals: "length tb_signals = 81"
  by code_simp

lemma driver_ix_perm: "sort driver_ix = [0..<81]"
  by code_simp

lemma reader_ix_set: "sort (remdups reader_ix) = remove1 68 [0..<81]"
  by code_simp

lemma empty_ix: "fst (tb_signals ! 68) = ''wbuf_empty''"
  by code_simp

lemma signals_by_index: "map (\<lambda>i. fst (tb_signals ! i)) [0..<81] = map fst tb_signals"
  by (rule nth_equalityI) (simp_all add: length_signals)

lemma names_kept:
  "list_all (own_name [[]]) (top_wiring @ agent_wiring @ mem_wiring @ driver_wiring)"
  "list_all (own_name [[], ''sb_'']) scoreboard_wiring"
  by code_simp+

section \<open>Properties\<close>

text \<open>
  The tables are consistent: every signal has exactly one driver, an output port of a module or
  \<^verbatim>\<open>simulate\<close>; every signal but \<^verbatim>\<open>wbuf_empty\<close> is read; the agent, the memory model, the scoreboard and the driver
  inside the agent have each of their ports bound exactly once, to a signal of its type; and every binding, those of
  the cache included, is by name. This is a check of constants.
\<close>

theorem tb_wiring:
  "mset drivers = mset (map fst tb_signals) \<and> distinct (map fst tb_signals) \<and>
   set readers = set (map fst tb_signals) - {''wbuf_empty''} \<and>
   binds_ports tb_signals agent_ports agent_wiring \<and> binds_ports tb_signals mem_ports mem_wiring \<and>
   binds_ports tb_signals scoreboard_ports scoreboard_wiring \<and> binds_ports agent_channels driver_ports driver_wiring \<and>
   list_all (own_name [[]]) (top_wiring @ agent_wiring @ mem_wiring @ driver_wiring) \<and>
   list_all (own_name [[], ''sb_'']) scoreboard_wiring"
proof (intro conjI distinct_signals agent_bound mem_bound scoreboard_bound driver_bound names_kept)
  let ?f = "\<lambda>i. fst (tb_signals ! i)"
  have "mset driver_ix = mset [0..<81]" using mset_sort [of "\<lambda>x. x" driver_ix] by (simp only: driver_ix_perm)
  then have "mset (map ?f driver_ix) = mset (map ?f [0..<81])" by (simp only: mset_map)
  then show "mset drivers = mset (map fst tb_signals)" by (simp only: drivers_ix signals_by_index)
  have inj: "inj_on ?f {0..<81}"
    using distinct_signals unfolding signals_by_index [symmetric] distinct_map by simp
  have "set reader_ix = {0..<81} - {68}"
    using arg_cong [OF reader_ix_set, of set] by (simp only: set_sort set_remdups set_remove1_eq distinct_upt set_upt)
  then have "set readers = ?f ` ({0..<81} - {68})" by (simp only: readers_ix set_map)
  also have "\<dots> = ?f ` {0..<81} - {?f 68}" using inj_on_image_set_diff [OF inj, of "{0..<81}" "{68}"] by simp
  finally show "set readers = set (map fst tb_signals) - {''wbuf_empty''}"
    unfolding empty_ix signals_by_index [symmetric] set_map set_upt .
qed

end
