(* ===== verification/Testbench.thy ===== *)
theory Testbench
  imports Wiring Scoreboard_Inv
begin

text \<open>
  \<^verbatim>\<open>hpdcache_tb.cpp\<close> beside its wiring (theory \<open>Wiring\<close>): the options of \<^verbatim>\<open>sc_main\<close>, \<^verbatim>\<open>build\<close> and \<^verbatim>\<open>simulate\<close>. What
  \<^verbatim>\<open>getopt_long\<close> returns is a list of option letters with their arguments. The file system is a function from names
  to contents. \<^verbatim>\<open>trace_on\<close> is not initialised; its first value is an argument. A numeral too large for the type that
  \<^verbatim>\<open>atoi\<close> and \<^verbatim>\<open>atoll\<close> return is undefined. Messages, the wall clock, wave dumps and coverage files are left out, and so is
  the variant \<^verbatim>\<open>CREATE_FILE\<close>.
\<close>

section \<open>Numerals\<close>

definition c_isspace :: "char \<Rightarrow> bool" where
  "c_isspace c \<longleftrightarrow> c = CHR '' '' \<or> (9 \<le> (of_char c :: nat) \<and> (of_char c :: nat) \<le> 13)"

definition digit_val :: "char \<Rightarrow> nat" where
  "digit_val c =
     (let n = of_char c :: nat in
      if 48 \<le> n \<and> n \<le> 57 then n - 48
      else if 65 \<le> n \<and> n \<le> 90 then n - 55
      else if 97 \<le> n \<and> n \<le> 122 then n - 87
      else 36)"

definition c_digits :: "nat \<Rightarrow> string \<Rightarrow> int" where
  "c_digits base s = foldl (\<lambda>n c. int base * n + int (digit_val c)) 0 (takeWhile (\<lambda>c. digit_val c < base) s)"

definition c_unsigned :: "nat \<Rightarrow> string \<Rightarrow> int" where
  "c_unsigned base s =
     (if base = 0 then
        (case s of
           c # x # d # r \<Rightarrow>
             if c = CHR ''0'' \<and> (x = CHR ''x'' \<or> x = CHR ''X'') \<and> digit_val d < 16 then c_digits 16 (d # r)
             else if c = CHR ''0'' then c_digits 8 s else c_digits 10 s
         | c # _ \<Rightarrow> if c = CHR ''0'' then c_digits 8 s else c_digits 10 s
         | [] \<Rightarrow> 0)
      else c_digits base s)"

definition c_number :: "nat \<Rightarrow> string \<Rightarrow> int" where
  "c_number base s =
     (case dropWhile c_isspace s of
        [] \<Rightarrow> 0
      | c # r \<Rightarrow>
          if c = CHR ''-'' then - c_unsigned base r
          else if c = CHR ''+'' then c_unsigned base r
          else c_unsigned base (c # r))"

definition c_atoll :: "string \<Rightarrow> u64 option" where
  "c_atoll s = (let v = c_number 10 s in if - (2 ^ 63) \<le> v \<and> v < 2 ^ 63 then Some (word_of_int v) else None)"

definition c_atoi :: "string \<Rightarrow> int option" where
  "c_atoi s = (let v = c_number 10 s in if - (2 ^ 31) \<le> v \<and> v < 2 ^ 31 then Some v else None)"

definition c_strtol :: "string \<Rightarrow> u64" where
  "c_strtol s = word_of_int (max (- (2 ^ 63)) (min (2 ^ 63 - 1) (c_number 0 s)))"

section \<open>The object\<close>

datatype seq_choice = Random_seq | Read_seq | Write_seq | Unique_set_seq | From_trace_seq string

datatype sc_verbosity = SC_NONE | SC_LOW | SC_MEDIUM | SC_HIGH | SC_FULL | SC_DEBUG

record hpdcache_test =
  tb_max_cycles :: u64
  tb_max_trans :: u64
  tb_error_limit :: u64
  trace_on :: bool
  trace_name :: string
  file_name :: string
  covname :: string
  tb_seq :: "(seq_choice \<times> test_sequence) option"
  tb_agent :: agent
  tb_mem :: mem_resp
  tb_sb :: scoreboard
  tb_seed :: "u64 option"
  tb_logger :: logger
  tb_verbosity :: "sc_verbosity option"

text \<open>
  The constructor. The members of type \<^verbatim>\<open>hpdcache_test_agent\<close> and the others are created with it; their
  uninitialised parts are in the arguments. Channels of the agent are numbered.
\<close>

definition hpdcache_test_new ::
  "bool \<Rightarrow> (nat \<Rightarrow> excl_reservation_buf_t) \<Rightarrow> lrsc_reservation_buf_t \<Rightarrow> hpdcache_test" where
  "hpdcache_test_new junk_on junk_excl junk_lrsc =
     \<lparr>tb_max_cycles = push_bit 30 1, tb_max_trans = 100, tb_error_limit = 0, trace_on = junk_on, trace_name = [],
      file_name = [], covname = [], tb_seq = None,
      tb_agent = \<lparr>ag_clk = 0, ag_rst = 1, ag_transaction_fifo = 2, ag_transaction_ret = 3, slist = []\<rparr>,
      tb_mem = mem_resp_new junk_excl, tb_sb = scoreboard_new junk_lrsc, tb_seed = None, tb_logger = logger_initial,
      tb_verbosity = None\<rparr>"

text \<open>The constructor of the base class of the sequences; \<open>h\<close> is the heap of its pool.\<close>

definition test_sequence_new :: "(nat \<Rightarrow> hpdcache_test_transaction_req) \<Rightarrow> string \<Rightarrow> test_sequence" where
  "test_sequence_new h nm =
     \<lparr>seq_ids = [], seq_name = nm, max_transactions = 100, seq_pool = transaction_pool_new h 10,
      transaction_fifo_o = [], transaction_ret_i = [], waits = 0\<rparr>"

type_synonym files = "string \<Rightarrow> u8 list option"

text \<open>
  \<^verbatim>\<open>set_sequence\<close>. The constructor of the trace sequence opens the trace of the current \<^verbatim>\<open>file_name\<close>, and ends the
  program when it cannot. The unique-set sequence carries the name of the random one.
\<close>

definition tb_set_sequence ::
  "files \<Rightarrow> (nat \<Rightarrow> hpdcache_test_transaction_req) \<Rightarrow> string \<Rightarrow> hpdcache_test \<Rightarrow> hpdcache_test outcome" where
  "tb_set_sequence fs h nm t =
     (if tb_seq t \<noteq> None then Exit 1 t
      else if nm = ''random'' then Next (t\<lparr>tb_seq := Some (Random_seq, test_sequence_new h ''random_seq'')\<rparr>)
      else if nm = ''read'' then Next (t\<lparr>tb_seq := Some (Read_seq, test_sequence_new h ''read_seq'')\<rparr>)
      else if nm = ''write'' then Next (t\<lparr>tb_seq := Some (Write_seq, test_sequence_new h ''write_seq'')\<rparr>)
      else if nm = ''unique_set'' then Next (t\<lparr>tb_seq := Some (Unique_set_seq, test_sequence_new h ''random_seq'')\<rparr>)
      else if nm = ''from_trace'' then
        (case fs (file_name t) of
           None \<Rightarrow> Exit 1 t
         | Some _ \<Rightarrow> Next (t\<lparr>tb_seq := Some (From_trace_seq (file_name t), test_sequence_new h ''from_trace_seq'')\<rparr>))
      else Exit 1 t)"

section \<open>Options\<close>

definition verbosity_of :: "int \<Rightarrow> sc_verbosity option" where
  "verbosity_of level =
     (if level = 0 then Some SC_NONE else if level = 1 then Some SC_LOW else if level = 2 then Some SC_MEDIUM
      else if level = 3 then Some SC_HIGH else if level = 4 then Some SC_FULL else if level = 5 then Some SC_DEBUG
      else None)"

definition set_number :: "(u64 \<Rightarrow> hpdcache_test \<Rightarrow> hpdcache_test) \<Rightarrow> string \<Rightarrow> hpdcache_test \<Rightarrow> hpdcache_test outcome" where
  "set_number f arg t = (case c_atoll arg of None \<Rightarrow> Undefined | Some v \<Rightarrow> Next (f v t))"

definition tb_option ::
  "files \<Rightarrow> (nat \<Rightarrow> hpdcache_test_transaction_req) \<Rightarrow> char \<times> string \<Rightarrow> hpdcache_test \<Rightarrow> hpdcache_test outcome" where
  "tb_option fs h opt t =
     (case opt of (c, optarg) \<Rightarrow>
        if c = CHR ''?'' \<or> c = CHR ''h'' then Exit 0 t
        else if c = CHR ''m'' then set_number (\<lambda>v. tb_max_cycles_update (\<lambda>_. v)) optarg t
        else if c = CHR ''n'' then set_number (\<lambda>v. tb_max_trans_update (\<lambda>_. v)) optarg t
        else if c = CHR ''r'' then Next (t\<lparr>tb_seed := Some (c_strtol optarg)\<rparr>)
        else if c = CHR ''t'' then Next (t\<lparr>trace_on := True, trace_name := optarg\<rparr>)
        else if c = CHR ''c'' then Next (t\<lparr>covname := optarg\<rparr>)
        else if c = CHR ''l'' then
          (case c_atoi optarg of
             None \<Rightarrow> Undefined
           | Some level \<Rightarrow>
               (case verbosity_of level of
                  None \<Rightarrow> Exit 1 t
                | Some v \<Rightarrow> Next (t\<lparr>tb_logger := set_log_level level (tb_logger t), tb_verbosity := Some v\<rparr>)))
        else if c = CHR ''s'' then tb_set_sequence fs h optarg t
        else if c = CHR ''f'' then
          (let t = t\<lparr>file_name := optarg\<rparr> in if fs (file_name t) = None then Exit 1 t else Next t)
        else if c = CHR ''e'' then set_number (\<lambda>v. tb_error_limit_update (\<lambda>_. v)) optarg t
        else Next t)"

fun tb_options ::
  "files \<Rightarrow> (nat \<Rightarrow> hpdcache_test_transaction_req) \<Rightarrow> (char \<times> string) list \<Rightarrow> hpdcache_test \<Rightarrow> hpdcache_test outcome" where
  "tb_options fs h [] t = Next t"
| "tb_options fs h (opt # opts) t = seq_out (tb_option fs h opt t) (tb_options fs h opts)"

section \<open>Build and simulate\<close>

text \<open>\<^verbatim>\<open>build\<close> after the bindings: without a sequence it follows a null pointer.\<close>

definition tb_build :: "hpdcache_test \<Rightarrow> hpdcache_test outcome" where
  "tb_build t =
     (case tb_seq t of
        None \<Rightarrow> Undefined
      | Some (ch, sq) \<Rightarrow>
          (let sq = set_max_transactions (unat (tb_max_trans t)) sq;
               t = t\<lparr>tb_seq := Some (ch, sq)\<rparr>;
               t = t\<lparr>tb_agent := add_sequence \<lparr>seq_clk = None, seq_rst = None, seq_fifo_o = None, seq_ret_i = None\<rparr> (tb_agent t)\<rparr>;
               t = t\<lparr>tb_sb := set_sequence (get_ids sq) (tb_sb t)\<rparr>;
               t = t\<lparr>tb_sb := set_mem_resp_model (errorsegs (tb_mem t)) (tb_sb t)\<rparr>;
               t = t\<lparr>tb_sb := set_error_limit (tb_error_limit t) (tb_sb t)\<rparr>
           in Next t))"

text \<open>
  \<^verbatim>\<open>simulate\<close>: the values of \<^verbatim>\<open>rst_ni\<close> and \<^verbatim>\<open>clk_i\<close> in each half cycle, and the last value of \<^verbatim>\<open>cycles\<close>. \<open>finish k\<close> tells
  whether the design has asked to stop after \<open>k\<close> half cycles.
\<close>

definition clk_cycle :: "bool \<Rightarrow> (bool \<times> bool) list" where
  "clk_cycle rst = [(rst, False), (rst, True)]"

function sim_loop :: "(nat \<Rightarrow> bool) \<Rightarrow> nat \<Rightarrow> nat \<Rightarrow> (bool \<times> bool) list \<Rightarrow> (bool \<times> bool) list \<times> nat" where
  "sim_loop finish max_cycles cycles waves =
     (if cycles < max_cycles then
        let waves = waves @ [(True, False)] in
        if finish (length waves) then (waves, cycles)
        else
          let waves = waves @ [(True, True)] in
          if finish (length waves) then (waves, cycles)
          else sim_loop finish max_cycles (cycles + 1) waves
      else (waves, cycles))"
  by auto
termination
  by (relation "measure (\<lambda>(f, m, c, w). m - c)") auto

declare sim_loop.simps [simp del]

definition reset_waves :: "(bool \<times> bool) list" where
  "reset_waves = concat (replicate 5 (clk_cycle True)) @ concat (replicate 5 (clk_cycle False))"

definition simulate :: "(nat \<Rightarrow> bool) \<Rightarrow> hpdcache_test \<Rightarrow> (bool \<times> bool) list \<times> nat" where
  "simulate finish t = sim_loop finish (unat (tb_max_cycles t)) 5 reset_waves"

text \<open>\<^verbatim>\<open>sc_main\<close>: the state after the options and \<^verbatim>\<open>build\<close>, then the simulation; its result is 0.\<close>

definition tb_setup ::
  "files \<Rightarrow> (nat \<Rightarrow> hpdcache_test_transaction_req) \<Rightarrow> (char \<times> string) list \<Rightarrow> hpdcache_test \<Rightarrow> hpdcache_test outcome" where
  "tb_setup fs h opts t = seq_out (tb_options fs h opts t) tb_build"

definition sc_main ::
  "files \<Rightarrow> (nat \<Rightarrow> hpdcache_test_transaction_req) \<Rightarrow> (nat \<Rightarrow> bool) \<Rightarrow> (char \<times> string) list \<Rightarrow> hpdcache_test \<Rightarrow>
   (int \<times> (bool \<times> bool) list) option" where
  "sc_main fs h finish opts t =
     (case tb_setup fs h opts t of
        Next t \<Rightarrow> Some (0, fst (simulate finish t))
      | Exit c t \<Rightarrow> Some (c, [])
      | Undefined \<Rightarrow> None)"

section \<open>Numerals read back\<close>

lemma digit_val_char: "d < 10 \<Longrightarrow> digit_val (digit_char d) = d" "d < 10 \<Longrightarrow> \<not> c_isspace (digit_char d) \<and> digit_char d \<noteq> CHR ''-'' \<and> digit_char d \<noteq> CHR ''+''"
proof -
  have "list_all (\<lambda>d. digit_val (digit_char d) = d \<and> \<not> c_isspace (digit_char d) \<and> digit_char d \<noteq> CHR ''-'' \<and> digit_char d \<noteq> CHR ''+'') [0..<10]"
    by code_simp
  then have "\<forall>d \<in> set [0..<10]. digit_val (digit_char d) = d \<and> \<not> c_isspace (digit_char d) \<and> digit_char d \<noteq> CHR ''-'' \<and> digit_char d \<noteq> CHR ''+''"
    by (simp only: list_all_iff)
  then show "d < 10 \<Longrightarrow> digit_val (digit_char d) = d" "d < 10 \<Longrightarrow> \<not> c_isspace (digit_char d) \<and> digit_char d \<noteq> CHR ''-'' \<and> digit_char d \<noteq> CHR ''+''"
    by (simp_all only: set_upt atLeastLessThan_iff le0 simp_thms)
qed

lemma digits_are_digits: "\<forall>c \<in> set (digits 10 n). \<exists>d < 10. c = digit_char d"
proof (induction n rule: less_induct)
  case (less n)
  show ?case
  proof (cases "n < 10")
    case True
    then show ?thesis by (subst digits.simps) auto
  next
    case False
    then show ?thesis using less [of "n div 10"] by (subst digits.simps) (auto intro: exI [of _ "n mod 10"])
  qed
qed

lemma digits_value: "foldl (\<lambda>n c. int 10 * n + int (digit_val c)) 0 (digits 10 n) = int n"
proof (induction n rule: less_induct)
  case (less n)
  show ?case
  proof (cases "n < 10")
    case True
    then show ?thesis by (subst digits.simps) (simp add: digit_val_char)
  next
    case False
    have "int 10 * int (n div 10) + int (n mod 10) = int (10 * (n div 10) + n mod 10)" by (simp only: of_nat_add of_nat_mult)
    then have "int 10 * int (n div 10) + int (n mod 10) = int n" by (simp only: mult_div_mod_eq)
    then show ?thesis using False less [of "n div 10"] by (subst digits.simps) (simp add: digit_val_char)
  qed
qed

lemma number_digits: "c_number 10 (digits 10 n) = int n"
proof -
  obtain c r where cr: "digits 10 n = c # r" by (cases "digits 10 n") (simp_all add: digits.simps [of 10 n] split: if_splits)
  with digits_are_digits [of n] obtain d where "d < 10" "c = digit_char d" by auto
  then have c: "\<not> c_isspace c" "c \<noteq> CHR ''-''" "c \<noteq> CHR ''+''" using digit_val_char(2) [of d] by simp_all
  have "\<forall>c \<in> set (digits 10 n). digit_val c < 10" using digits_are_digits [of n] digit_val_char(1) by fastforce
  then have tw: "takeWhile (\<lambda>c. digit_val c < 10) (digits 10 n) = digits 10 n" unfolding takeWhile_eq_all_conv .
  have "c_digits 10 (digits 10 n) = int n" unfolding c_digits_def tw by (rule digits_value)
  then have "c_unsigned 10 (digits 10 n) = int n" by (simp add: c_unsigned_def)
  with c show ?thesis by (simp add: c_number_def cr)
qed

lemma atoll_digits: "n < 2 ^ 63 \<Longrightarrow> c_atoll (digits 10 n) = Some (of_nat n)"
  by (simp add: c_atoll_def number_digits Let_def)

section \<open>What the options leave alone\<close>

definition tb_fresh :: "hpdcache_test \<Rightarrow> hpdcache_test \<Rightarrow> bool" where
  "tb_fresh t0 t \<longleftrightarrow> tb_agent t = tb_agent t0 \<and> tb_mem t = tb_mem t0 \<and> tb_sb t = tb_sb t0 \<and>
     (\<forall>ch sq. tb_seq t = Some (ch, sq) \<longrightarrow> seq_ids sq = [])"

lemma option_fresh:
  assumes "tb_option fs h opt t = Next u" "tb_fresh t0 t"
  shows "tb_fresh t0 u \<and> (tb_seq u \<noteq> None \<longrightarrow> tb_seq t \<noteq> None \<or> fst opt = CHR ''s'')"
  using assms
  by (auto simp: tb_option_def tb_fresh_def set_number_def tb_set_sequence_def test_sequence_new_def Let_def
      split: prod.splits if_splits option.splits)

lemma options_fresh:
  assumes "tb_options fs h opts t = Next u" "tb_fresh t0 t"
  shows "tb_fresh t0 u \<and> (tb_seq u \<noteq> None \<longrightarrow> tb_seq t \<noteq> None \<or> CHR ''s'' \<in> fst ` set opts)"
  using assms
proof (induction opts arbitrary: t)
  case (Cons opt opts)
  then obtain v where v: "tb_option fs h opt t = Next v" "tb_options fs h opts v = Next u" by (auto simp: seq_out_Next_iff)
  from option_fresh [OF v(1) Cons.prems(2)] Cons.IH [OF v(2)] show ?case by auto
qed auto

lemma new_fresh: "tb_fresh (hpdcache_test_new a b c) (hpdcache_test_new a b c)"
  by (simp add: tb_fresh_def hpdcache_test_new_def)

section \<open>The clock\<close>

lemma sim_loop_waves:
  "\<exists>n \<le> 2 * (m - c). fst (sim_loop finish m c ws) = ws @ take n (concat (replicate (m - c) (clk_cycle True))) \<and>
     (\<forall>j. 0 < j \<and> j < n \<longrightarrow> \<not> finish (length ws + j)) \<and>
     (n < 2 * (m - c) \<longrightarrow> 0 < n \<and> finish (length ws + n))"
proof (induction finish m c ws rule: sim_loop.induct)
  case (1 finish m c ws)
  let ?w1 = "ws @ [(True, False)]" and ?w2 = "ws @ [(True, False), (True, True)]"
  show ?case
  proof (cases "c < m")
    case False
    then show ?thesis by (subst sim_loop.simps) (simp add: exI [of _ 0])
  next
    case True
    then have R: "m - c = Suc (m - (c + 1))" by simp
    consider "finish (Suc (length ws))" | "\<not> finish (Suc (length ws))" "finish (Suc (Suc (length ws)))"
      | "\<not> finish (Suc (length ws))" "\<not> finish (Suc (Suc (length ws)))" by blast
    then show ?thesis
    proof cases
      case 1
      then show ?thesis using True by (subst sim_loop.simps, intro exI [of _ 1]) (simp add: R clk_cycle_def Let_def)
    next
      case 2
      then show ?thesis using True
        by (subst sim_loop.simps, intro exI [of _ 2]) (auto simp: R clk_cycle_def Let_def less_Suc_eq numeral_2_eq_2)
    next
      case 3
      have e: "sim_loop finish m c ws = sim_loop finish m (c + 1) ?w2"
        using True 3 by (subst sim_loop.simps) (simp add: Let_def)
      from 1 [OF True refl _ refl] 3 obtain n where n: "n \<le> 2 * (m - (c + 1))"
        "fst (sim_loop finish m (c + 1) ?w2) = ?w2 @ take n (concat (replicate (m - (c + 1)) (clk_cycle True)))"
        "\<forall>j. 0 < j \<and> j < n \<longrightarrow> \<not> finish (length ?w2 + j)"
        "n < 2 * (m - (c + 1)) \<longrightarrow> 0 < n \<and> finish (length ?w2 + n)" by auto
      have "\<not> finish (length ws + j)" if "0 < j" "j < n + 2" for j
      proof -
        show ?thesis
        proof (cases "j \<le> 2")
          case True
          then have "j = 1 \<or> j = 2" using that by linarith
          then show ?thesis using 3 by auto
        next
          case False
          then have "length ?w2 + (j - 2) = length ws + j" by simp
          with n(3) [rule_format, of "j - 2"] False that show ?thesis by simp
        qed
      qed
      moreover have "fst (sim_loop finish m c ws) = ws @ take (n + 2) (concat (replicate (m - c) (clk_cycle True)))"
        unfolding e n(2) R by (simp add: clk_cycle_def)
      ultimately show ?thesis using n(1,4) by (intro exI [of _ "n + 2"]) (auto simp: R)
    qed
  qed
qed

lemma setup_mem:
  assumes "tb_setup fs h opts (hpdcache_test_new a b c) = Next t"
  shows "tb_mem t = mem_resp_new b"
proof -
  obtain u where u: "tb_options fs h opts (hpdcache_test_new a b c) = Next u" "tb_build u = Next t"
    using assms by (auto simp: tb_setup_def seq_out_Next_iff)
  from options_fresh [OF u(1) new_fresh] have f: "tb_fresh (hpdcache_test_new a b c) u" by blast
  from u(2) obtain ch sq where "tb_seq u = Some (ch, sq)" by (cases "tb_seq u") (auto simp: tb_build_def)
  with u(2) f show ?thesis by (auto simp: tb_build_def tb_fresh_def hpdcache_test_new_def Let_def)
qed

lemma setup_state:
  assumes "tb_setup fs h opts (hpdcache_test_new a b c) = Next t"
  shows "tb_sb t = sb_start c [] [] (tb_error_limit t) \<and>
     (\<exists>ch sq. tb_seq t = Some (ch, sq) \<and> max_transactions sq = unat (tb_max_trans t)) \<and>
     map (\<lambda>p. (seq_fifo_o p, seq_ret_i p)) (get_sequence_list (tb_agent t)) =
       [(Some (ag_transaction_fifo (tb_agent t)), Some (ag_transaction_ret (tb_agent t)))]"
proof -
  obtain u where u: "tb_options fs h opts (hpdcache_test_new a b c) = Next u" "tb_build u = Next t"
    using assms by (auto simp: tb_setup_def seq_out_Next_iff)
  from options_fresh [OF u(1) new_fresh] have f: "tb_fresh (hpdcache_test_new a b c) u" by blast
  from u(2) obtain ch sq where sq: "tb_seq u = Some (ch, sq)" by (cases "tb_seq u") (auto simp: tb_build_def)
  with u(2) f show ?thesis
    by (auto simp: tb_build_def tb_fresh_def hpdcache_test_new_def mem_resp_new_def sb_start_def get_ids_def
        set_max_transactions_def add_sequence_def get_sequence_list_def Let_def)
qed

section \<open>Properties\<close>

text \<open>
  C32. Whatever the options, when \<^verbatim>\<open>build\<close> completes the scoreboard is in the start state that its properties are about, with the
  error limit of the options, no identifier in flight and no error segment; and the one sequence of the agent has the
  transaction limit of the options and talks to the agent's own channels.
\<close>

theorem build_starts_scoreboard:
  assumes "tb_setup fs h opts (hpdcache_test_new a b c) = Next t"
  shows "tb_sb t = sb_start c [] [] (tb_error_limit t) \<and>
     (\<exists>ch sq. tb_seq t = Some (ch, sq) \<and> max_transactions sq = unat (tb_max_trans t)) \<and>
     map (\<lambda>p. (seq_fifo_o p, seq_ret_i p)) (get_sequence_list (tb_agent t)) =
       [(Some (ag_transaction_fifo (tb_agent t)), Some (ag_transaction_ret (tb_agent t)))]"
  by (rule setup_state [OF assms])

theorem build_starts_scoreboard_witness:
  "\<forall>b c. \<exists>t. tb_setup (\<lambda>_. None) (\<lambda>_. transaction_req_new) [(CHR ''n'', ''20''), (CHR ''s'', ''read''), (CHR ''e'', ''3'')]
       (hpdcache_test_new False b c) = Next t \<and> tb_sb t = sb_start c [] [] 3"
proof (intro allI)
  fix b c
  let ?o = "[(CHR ''n'', ''20''), (CHR ''s'', ''read''), (CHR ''e'', ''3'')]"
  have n: "c_atoll ''20'' = Some 20" "c_atoll ''3'' = Some 3" by code_simp+
  obtain t where t: "tb_setup (\<lambda>_. None) (\<lambda>_. transaction_req_new) ?o (hpdcache_test_new False b c) = Next t" "tb_error_limit t = 3"
    by (auto simp: tb_setup_def tb_option_def set_number_def n tb_set_sequence_def tb_build_def hpdcache_test_new_def Let_def)
  with build_starts_scoreboard [OF t(1)]
  show "\<exists>t. tb_setup (\<lambda>_. None) (\<lambda>_. transaction_req_new) ?o (hpdcache_test_new False b c) = Next t \<and> tb_sb t = sb_start c [] [] 3"
    by auto
qed

text \<open>
  A sequence has to be chosen, and for a trace after its file: without \<^verbatim>\<open>-s\<close> the program never simulates (it ends in
  the options or follows a null pointer in \<^verbatim>\<open>build\<close>); \<^verbatim>\<open>-f\<close> and then \<^verbatim>\<open>-s from_trace\<close> replays the file; the same options in the
  other order open the file with the empty name, and the program fails.
\<close>

theorem sequence_option_needed:
  assumes "fs f = Some content" and "fs [] = None" and "CHR ''s'' \<notin> fst ` set opts"
  shows "(sc_main fs h finish opts (hpdcache_test_new a b c) = None \<or>
          (\<exists>r. sc_main fs h finish opts (hpdcache_test_new a b c) = Some (r, []))) \<and>
     (\<exists>t sq. tb_setup fs h [(CHR ''f'', f), (CHR ''s'', ''from_trace'')] (hpdcache_test_new a b c) = Next t \<and>
             tb_seq t = Some (From_trace_seq f, sq)) \<and>
     sc_main fs h finish [(CHR ''s'', ''from_trace''), (CHR ''f'', f)] (hpdcache_test_new a b c) = Some (1, [])"
proof (intro conjI)
  show "sc_main fs h finish opts (hpdcache_test_new a b c) = None \<or>
      (\<exists>r. sc_main fs h finish opts (hpdcache_test_new a b c) = Some (r, []))"
  proof (cases "tb_options fs h opts (hpdcache_test_new a b c)")
    case (Next u)
    with options_fresh [OF Next new_fresh] assms(3) have "tb_seq u = None" by (auto simp: hpdcache_test_new_def)
    with Next show ?thesis by (simp add: sc_main_def tb_setup_def tb_build_def)
  qed (simp_all add: sc_main_def tb_setup_def)
  show "\<exists>t sq. tb_setup fs h [(CHR ''f'', f), (CHR ''s'', ''from_trace'')] (hpdcache_test_new a b c) = Next t \<and>
      tb_seq t = Some (From_trace_seq f, sq)"
    using assms(1) by (simp add: tb_setup_def tb_option_def tb_set_sequence_def tb_build_def hpdcache_test_new_def Let_def)
  show "sc_main fs h finish [(CHR ''s'', ''from_trace''), (CHR ''f'', f)] (hpdcache_test_new a b c) = Some (1, [])"
    using assms(2) by (simp add: sc_main_def tb_setup_def tb_option_def tb_set_sequence_def hpdcache_test_new_def)
qed

theorem sequence_option_needed_witness:
  "\<forall>h finish a b c. sc_main ((\<lambda>_. None)(''t.bin'' := Some [])) h finish
     [(CHR ''s'', ''from_trace''), (CHR ''f'', ''t.bin'')] (hpdcache_test_new a b c) = Some (1, [])"
  using sequence_option_needed [of "(\<lambda>_. None)(''t.bin'' := Some [])" "''t.bin''" "[]" "[]"] by simp

text \<open>
  C34. The simulation drives the clock and the reset as a cache needs them: five cycles out of reset, five cycles in reset,
  then out of reset until the design asks to stop, at the first half cycle in which it does, or for
  \<^verbatim>\<open>max_cycles\<close> less five more cycles. So the clock of \<^verbatim>\<open>-m\<close> counts from the start of the reset, and at least ten cycles
  are always run.
\<close>

theorem simulate_protocol:
  "\<exists>n \<le> 2 * (unat (tb_max_cycles t) - 5).
     fst (simulate finish t) =
       concat (replicate 5 (clk_cycle True)) @ concat (replicate 5 (clk_cycle False)) @
       take n (concat (replicate (unat (tb_max_cycles t) - 5) (clk_cycle True))) \<and>
     (\<forall>j. 0 < j \<and> j < n \<longrightarrow> \<not> finish (20 + j)) \<and>
     (n < 2 * (unat (tb_max_cycles t) - 5) \<longrightarrow> 0 < n \<and> finish (20 + n))"
proof -
  have "length reset_waves = 20" by (simp add: reset_waves_def clk_cycle_def numeral_eq_Suc)
  with sim_loop_waves [of "unat (tb_max_cycles t)" 5 finish reset_waves] show ?thesis
    by (simp only: simulate_def reset_waves_def append_assoc)
qed

theorem simulate_protocol_witness:
  "\<forall>b c. fst (simulate (\<lambda>k. k = 23) (hpdcache_test_new False b c\<lparr>tb_max_cycles := 7\<rparr>)) =
     reset_waves @ [(True, False), (True, True), (True, False)]"
proof (intro allI)
  fix b c
  obtain n where n: "n \<le> 4"
    "fst (simulate (\<lambda>k. k = 23) (hpdcache_test_new False b c\<lparr>tb_max_cycles := 7\<rparr>)) = reset_waves @ take n (concat (replicate 2 (clk_cycle True)))"
    "\<forall>j. 0 < j \<and> j < n \<longrightarrow> 20 + j \<noteq> 23" "n < 4 \<longrightarrow> 20 + n = 23"
    using simulate_protocol [of "hpdcache_test_new False b c\<lparr>tb_max_cycles := 7\<rparr>" "\<lambda>k. k = 23"]
    by (auto simp: reset_waves_def)
  from n(1,4) n(3) [rule_format, of 3] have "n = 3" by (cases "n = 4") auto
  with n(2) show "fst (simulate (\<lambda>k. k = 23) (hpdcache_test_new False b c\<lparr>tb_max_cycles := 7\<rparr>)) =
      reset_waves @ [(True, False), (True, True), (True, False)]" by (simp add: clk_cycle_def numeral_eq_Suc)
qed

end
