(* ===== verification/Firmware.thy ===== *)
theory Firmware
  imports Transaction
begin

text \<open>
  The firmware of the example test bench: the system calls of \<^verbatim>\<open>custom/syscalls.c\<close>, the statistics of
  \<^verbatim>\<open>firmware/stats.c\<close> and the stall control of \<^verbatim>\<open>mem_stall/mem_stall.c\<close>. Stores to device registers are
  a log of addresses and values. Addresses have 32 bits; \<^verbatim>\<open>char\<close> is unsigned on the target. The bounds of the
  heap come from the linker and are part of the state.
\<close>

section \<open>System calls\<close>

definition STDOUT_REG :: u32 where "STDOUT_REG = 0x10000000"
definition RESULT_REG :: u32 where "RESULT_REG = 0x20000000"
definition EXIT_REG :: u32 where "EXIT_REG = 0x20000004"
definition STDOUT_FILENO :: int where "STDOUT_FILENO = 1"

text \<open>Error numbers and the file type as newlib defines them.\<close>

definition ENOENT :: int where "ENOENT = 2"
definition ECHILD :: int where "ECHILD = 10"
definition EAGAIN :: int where "EAGAIN = 11"
definition ENOMEM :: int where "ENOMEM = 12"
definition EINVAL :: int where "EINVAL = 22"
definition EMLINK :: int where "EMLINK = 31"
definition ENOSYS :: int where "ENOSYS = 88"
definition S_IFCHR :: u32 where "S_IFCHR = 0x2000"

record firmware =
  fw_errno :: int
  fw_mmio :: "(u32 \<times> u32) list"
  fw_brk :: u32
  heap_start :: u32
  heap_end :: u32
  fw_wfi :: bool

definition mmio_write :: "u32 \<Rightarrow> u32 \<Rightarrow> firmware \<Rightarrow> firmware" where
  "mmio_write a v s = s\<lparr>fw_mmio := fw_mmio s @ [(a, v)]\<rparr>"

definition put_chars :: "u8 list \<Rightarrow> firmware \<Rightarrow> firmware" where
  "put_chars bs s = foldl (\<lambda>s b. mmio_write STDOUT_REG (ucast b) s) s bs"

definition unimplemented_syscall :: "firmware \<Rightarrow> firmware" where
  "unimplemented_syscall s =
     put_chars (map of_char (''Unimplemented system call called!'' @ [char_of (10 :: nat)])) s"

definition fail_with :: "int \<Rightarrow> firmware \<Rightarrow> int \<times> firmware" where
  "fail_with e s = (-1, s\<lparr>fw_errno := e\<rparr>)"

definition sys_nanosleep :: "firmware \<Rightarrow> int \<times> firmware" where "sys_nanosleep s = fail_with ENOSYS s"
definition sys_access :: "firmware \<Rightarrow> int \<times> firmware" where "sys_access s = fail_with ENOSYS s"
definition sys_chdir :: "firmware \<Rightarrow> int \<times> firmware" where "sys_chdir s = fail_with ENOSYS s"
definition sys_chmod :: "firmware \<Rightarrow> int \<times> firmware" where "sys_chmod s = fail_with ENOSYS s"
definition sys_chown :: "firmware \<Rightarrow> int \<times> firmware" where "sys_chown s = fail_with ENOSYS s"
definition sys_close :: "firmware \<Rightarrow> int \<times> firmware" where "sys_close s = (-1, s)"
definition sys_execve :: "firmware \<Rightarrow> int \<times> firmware" where "sys_execve s = fail_with ENOMEM s"

definition sys_exit :: "u32 \<Rightarrow> firmware \<Rightarrow> firmware" where
  "sys_exit exit_status s = (mmio_write EXIT_REG exit_status s)\<lparr>fw_wfi := True\<rparr>"

definition sys_faccessat :: "firmware \<Rightarrow> int \<times> firmware" where "sys_faccessat s = fail_with ENOSYS s"
definition sys_fork :: "firmware \<Rightarrow> int \<times> firmware" where "sys_fork s = fail_with EAGAIN s"

text \<open>\<^verbatim>\<open>_fstat\<close> and \<^verbatim>\<open>_stat\<close> store the mode through their argument.\<close>

definition sys_fstat :: "firmware \<Rightarrow> int \<times> u32 \<times> firmware" where "sys_fstat s = (0, S_IFCHR, s)"
definition sys_fstatat :: "firmware \<Rightarrow> int \<times> firmware" where "sys_fstatat s = fail_with ENOSYS s"
definition sys_ftime :: "firmware \<Rightarrow> int \<times> firmware" where "sys_ftime s = fail_with ENOSYS s"
definition sys_getcwd :: "firmware \<Rightarrow> u32 \<times> firmware" where "sys_getcwd s = (0, s\<lparr>fw_errno := - ENOSYS\<rparr>)"
definition sys_getpid :: "firmware \<Rightarrow> int \<times> firmware" where "sys_getpid s = (1, s)"
definition sys_gettimeofday :: "firmware \<Rightarrow> int \<times> firmware" where "sys_gettimeofday s = fail_with (- ENOSYS) s"
definition sys_isatty :: "int \<Rightarrow> firmware \<Rightarrow> int \<times> firmware" where
  "sys_isatty fno s = (if fno = STDOUT_FILENO then 1 else 0, s)"
definition sys_kill :: "firmware \<Rightarrow> int \<times> firmware" where "sys_kill s = fail_with EINVAL s"
definition sys_link :: "firmware \<Rightarrow> int \<times> firmware" where "sys_link s = fail_with EMLINK s"
definition sys_lseek :: "firmware \<Rightarrow> int \<times> firmware" where "sys_lseek s = (0, s)"
definition sys_lstat :: "firmware \<Rightarrow> int \<times> firmware" where "sys_lstat s = fail_with ENOSYS s"
definition sys_open :: "firmware \<Rightarrow> int \<times> firmware" where "sys_open s = (-1, s)"
definition sys_openat :: "firmware \<Rightarrow> int \<times> firmware" where "sys_openat s = fail_with ENOSYS s"
definition sys_read :: "firmware \<Rightarrow> int \<times> firmware" where "sys_read s = (0, s)"
definition sys_stat :: "firmware \<Rightarrow> int \<times> u32 \<times> firmware" where "sys_stat s = (0, S_IFCHR, s)"
definition sys_sysconf :: "firmware \<Rightarrow> int \<times> firmware" where "sys_sysconf s = (-1, s)"
definition sys_times :: "firmware \<Rightarrow> int \<times> firmware" where "sys_times s = (-1, s)"
definition sys_unlink :: "firmware \<Rightarrow> int \<times> firmware" where "sys_unlink s = fail_with ENOENT s"
definition sys_utime :: "firmware \<Rightarrow> int \<times> firmware" where "sys_utime s = fail_with ENOSYS s"
definition sys_wait :: "firmware \<Rightarrow> int \<times> firmware" where "sys_wait s = fail_with ECHILD s"

text \<open>\<^verbatim>\<open>_write\<close>: the argument \<open>bs\<close> is the memory from \<^verbatim>\<open>ptr\<close> on, \<^verbatim>\<open>len\<close> its length.\<close>

definition sys_write :: "int \<Rightarrow> u8 list \<Rightarrow> firmware \<Rightarrow> int \<times> firmware" where
  "sys_write fno bs s =
     (if fno \<noteq> STDOUT_FILENO then fail_with ENOSYS s else (int (length bs), put_chars bs s))"

definition sys_brk :: "u32 \<Rightarrow> firmware \<Rightarrow> int \<times> firmware" where
  "sys_brk addr s = (0, s\<lparr>fw_brk := addr\<rparr>)"

definition sys_sbrk :: "u32 \<Rightarrow> firmware \<Rightarrow> u32 \<times> firmware" where
  "sys_sbrk incr s =
     (let old_brk = fw_brk s in
      if heap_start s = heap_end s then (0, s)
      else
        (let s = s\<lparr>fw_brk := fw_brk s + incr\<rparr>;
             s = (if fw_brk s < heap_end s then s\<lparr>fw_brk := fw_brk s + incr\<rparr> else s\<lparr>fw_brk := heap_end s\<rparr>)
         in (old_brk, s)))"

section \<open>Stall control\<close>

definition rnd_stall_reg_ptr :: "nat \<Rightarrow> u32" where
  "rnd_stall_reg_ptr i = 0x16000000 + 4 * of_nat i"

definition activate_random_stall :: "firmware \<Rightarrow> firmware" where
  "activate_random_stall s =
     foldl (\<lambda>s (i, v). mmio_write (rnd_stall_reg_ptr i) v s) s
       [(1, 0x01), (0, 0x01), (5, 0x0a), (7, 0x00), (9, 0x00), (4, 0x0a), (6, 0x00), (8, 0x00), (3, 0x02), (2, 0x02)]"

section \<open>Hello world\<close>

text \<open>\<open>stall\<close>: whether \<^verbatim>\<open>RANDOM_MEM_STALL\<close> is defined. \<^verbatim>\<open>printf\<close> hands its text to \<^verbatim>\<open>_write\<close>.\<close>

definition hello_main :: "bool \<Rightarrow> firmware \<Rightarrow> int \<times> firmware" where
  "hello_main stall s =
     (let s = (if stall then activate_random_stall s else s);
          s = snd (sys_write STDOUT_FILENO (map of_char (''hello world!'' @ [char_of (10 :: nat)])) s)
      in (0, s))"

section \<open>Statistics\<close>

text \<open>
  \<^verbatim>\<open>stats_print_dec\<close>, first loop: the characters it stores, in the order of the buffer. Its \<^verbatim>\<open>int\<close>
  argument counts down; a store at index 32 would leave the buffer.
\<close>

function dec_fill :: "nat \<Rightarrow> nat \<Rightarrow> bool \<Rightarrow> string" where
  "dec_fill v n zero_pad =
     (if v \<noteq> 0 \<or> n > 0 then
        (if v \<noteq> 0 then char_of (48 + v mod 10) else if zero_pad then CHR ''0'' else CHR '' '') #
        dec_fill (v div 10) (n - 1) zero_pad
      else [])"
  by auto
termination
  by (relation "measure (\<lambda>(v, n, z). v + n)") auto

declare dec_fill.simps [simp del]

text \<open>
  Second loop, on the buffer from its end: a space that follows a space is printed as a dot. At the
  first element the element before the buffer is read, but only when that element is a space.
\<close>

fun dec_emit :: "string \<Rightarrow> string option" where
  "dec_emit [] = Some []"
| "dec_emit [c] = (if c = CHR '' '' then None else Some [c])"
| "dec_emit (c # d # cs) =
     map_option (Cons (if c = CHR '' '' \<and> d = CHR '' '' then CHR ''.'' else c)) (dec_emit (d # cs))"

definition stats_print_dec :: "u32 \<Rightarrow> nat \<Rightarrow> bool \<Rightarrow> string option" where
  "stats_print_dec v n zero_pad =
     (let buffer = dec_fill (unat v) n zero_pad in
      if length buffer \<le> 32 then dec_emit (rev buffer) else None)"

text \<open>The control and status registers written by \<^verbatim>\<open>init_stats\<close>.\<close>

definition init_stats :: "(nat \<times> u32) list" where
  "init_stats = [(0xb00, 0), (0xb02, 0), (0x320, 0xfffffff8)]"

text \<open>\<^verbatim>\<open>stats\<close>: the text printed; a division by zero or an undefined step is \<open>None\<close>.\<close>

definition stats :: "u32 \<Rightarrow> u32 \<Rightarrow> string option" where
  "stats num_cycles num_instr =
     (if num_instr = 0 then None
      else
        Option.bind (stats_print_dec num_cycles 8 False) (\<lambda>c.
        Option.bind (stats_print_dec num_instr 8 False) (\<lambda>i.
        Option.bind (stats_print_dec (num_cycles div num_instr) 0 False) (\<lambda>q.
        Option.bind (stats_print_dec ((100 * num_cycles) div num_instr mod 100) 2 True) (\<lambda>f.
          Some (''Cycle counter ........'' @ c @ [char_of (10 :: nat)] @ ''Instruction counter ..'' @ i @
            [char_of (10 :: nat)] @ ''CPI: '' @ q @ ''.'' @ f @ [char_of (10 :: nat)]))))))"

section \<open>The text of a number\<close>

definition dec_text :: "nat \<Rightarrow> nat \<Rightarrow> bool \<Rightarrow> string" where
  "dec_text v n zero_pad =
     (let k = n - length (digits 10 v) in
      (if zero_pad then replicate k (CHR ''0'') else replicate (k - 1) (CHR ''.'') @ replicate (min k 1) (CHR '' '')) @
      digits 10 v)"

lemma digit_char_dec: "d < 10 \<Longrightarrow> digit_char d = char_of (48 + d)"
proof -
  have "\<forall>d \<in> set [0..<10]. digit_char d = char_of (48 + d)" by code_simp
  then show "d < 10 \<Longrightarrow> digit_char d = char_of (48 + d)" by simp
qed

lemma digit_char_not_space: "d < 10 \<Longrightarrow> digit_char d \<noteq> CHR '' ''"
proof -
  have "\<forall>d \<in> set [0..<10]. digit_char d \<noteq> CHR '' ''" by code_simp
  then show "d < 10 \<Longrightarrow> digit_char d \<noteq> CHR '' ''" by simp
qed

lemma digits_no_space: "CHR '' '' \<notin> set (digits 10 v)"
proof (induction v rule: less_induct)
  case (less v)
  show ?case
  proof (cases "v < 10")
    case True
    then show ?thesis using digit_char_not_space [of v] by (subst digits.simps) simp
  next
    case False
    then show ?thesis using less [of "v div 10"] digit_char_not_space [of "v mod 10"] by (subst digits.simps) simp
  qed
qed

lemma digits_nonempty: "digits 10 v \<noteq> []"
  by (subst digits.simps) simp

lemma dec_fill_zero: "dec_fill 0 n z = replicate n (if z then CHR ''0'' else CHR '' '')"
  by (induction n) (simp_all add: dec_fill.simps [of 0 "Suc n" for n] dec_fill.simps [of 0 0])

lemma dec_fill_digits:
  "0 < v \<Longrightarrow> dec_fill v n z =
     rev (digits 10 v) @ replicate (n - length (digits 10 v)) (if z then CHR ''0'' else CHR '' '')"
proof (induction v arbitrary: n rule: less_induct)
  case (less v)
  have step: "dec_fill v n z = digit_char (v mod 10) # dec_fill (v div 10) (n - 1) z"
    using less.prems by (subst dec_fill.simps) (simp add: digit_char_dec)
  show ?case
  proof (cases "v < 10")
    case True
    then have "digits 10 v = [digit_char v]" by (subst digits.simps) simp
    with step True show ?thesis by (simp add: dec_fill_zero)
  next
    case False
    then have "digits 10 v = digits 10 (v div 10) @ [digit_char (v mod 10)]" by (subst digits.simps) simp
    with step less.IH [of "v div 10" "n - 1"] False show ?thesis by simp
  qed
qed

lemma dec_emit_no_space: "CHR '' '' \<notin> set cs \<Longrightarrow> dec_emit cs = Some cs"
  by (induction cs rule: dec_emit.induct) auto

lemma dec_emit_spaces:
  assumes "CHR '' '' \<notin> set cs" "cs \<noteq> []"
  shows "dec_emit (replicate k (CHR '' '') @ cs) = Some (replicate (k - 1) (CHR ''.'') @ replicate (min k 1) (CHR '' '') @ cs)"
proof (induction k)
  case (Suc k)
  then show ?case using assms by (cases k; cases cs) (auto simp: dec_emit_no_space)
qed (simp add: assms dec_emit_no_space)

lemma dec_emit_all_spaces: "0 < k \<Longrightarrow> dec_emit (replicate k (CHR '' '')) = None"
proof (induction k)
  case (Suc k)
  then show ?case by (cases k) auto
qed simp

lemma length_digits: "v < 10 ^ Suc n \<Longrightarrow> length (digits 10 v) \<le> Suc n"
proof (induction n arbitrary: v)
  case 0
  then show ?case by (subst digits.simps) simp
next
  case (Suc n)
  then have "v div 10 < 10 ^ Suc n" by (simp add: div_less_iff_less_mult mult.commute)
  with Suc.IH [of "v div 10"] show ?case by (subst digits.simps) simp
qed

lemma length_digits_u32: "length (digits 10 (unat (v :: u32))) \<le> 10"
proof -
  have "unat v < 10 ^ Suc 9" using unat_less_exp [of v] by simp
  then show ?thesis using length_digits [of "unat v" 9] by simp
qed

lemma print_dec_text:
  assumes "n \<le> 32"
  shows "stats_print_dec v n zero_pad =
     (if v \<noteq> 0 then Some (dec_text (unat v) n zero_pad)
      else if zero_pad then Some (replicate n (CHR ''0''))
      else if n = 0 then Some [] else None)"
proof (cases "v = 0")
  case True
  then show ?thesis using assms dec_emit_no_space [of "replicate n (CHR ''0'')"]
    by (simp add: stats_print_dec_def dec_fill_zero dec_emit_all_spaces)
next
  case False
  let ?ds = "digits 10 (unat v)"
  have fill: "dec_fill (unat v) n zero_pad = rev ?ds @ replicate (n - length ?ds) (if zero_pad then CHR ''0'' else CHR '' '')"
    using False by (intro dec_fill_digits) (simp add: unat_gt_0)
  have "length (dec_fill (unat v) n zero_pad) \<le> 32" using assms length_digits_u32 [of v] by (simp add: fill)
  with False show ?thesis
    using dec_emit_spaces [OF digits_no_space digits_nonempty, of "n - length ?ds" "unat v"]
      dec_emit_no_space [of "replicate (n - length ?ds) (CHR ''0'') @ ?ds"] digits_no_space [of "unat v"]
    by (auto simp: stats_print_dec_def fill dec_text_def Let_def)
qed

section \<open>Properties\<close>

text \<open>
  The decimal printer of the statistics prints a positive number right-aligned in its field: its
  decimal digits, preceded by zeros, or by dots and one space; a number wider than the field in full.
  Zero without zero padding is different: the printer then compares with the character before its
  buffer, which is undefined.
\<close>

theorem stats_print_dec_text:
  assumes "n \<le> 32"
  shows "stats_print_dec v n zero_pad =
     (if v \<noteq> 0 then Some (dec_text (unat v) n zero_pad)
      else if zero_pad then Some (replicate n (CHR ''0''))
      else if n = 0 then Some [] else None)"
  by (rule print_dec_text [OF assms])

theorem stats_print_dec_text_witness:
  "stats_print_dec 1234 8 False = Some ''... 1234'' \<and> stats_print_dec 7 2 True = Some ''07'' \<and> stats_print_dec 0 8 False = None"
proof -
  have "dec_text 1234 8 False = ''... 1234''" "dec_text 7 2 True = ''07''" by code_simp+
  then show ?thesis
    using stats_print_dec_text [of 8 1234 False] stats_print_dec_text [of 2 7 True] stats_print_dec_text [of 8 0 False] by simp
qed

text \<open>
  C40. The heap break moves by twice the increment: \<^verbatim>\<open>_sbrk\<close> adds it in its test and again in its branch.
  So a request that fits leaves a gap of its own size unused, and the break passes the end of the
  heap exactly when the remaining room holds the request but not twice the request; a request
  that does not fit is not refused.
\<close>

theorem sbrk_moves_twice:
  assumes "heap_start s \<noteq> heap_end s" and "unat (fw_brk s) + 2 * unat incr < 2 ^ 32"
  shows "fst (sys_sbrk incr s) = fw_brk s \<and>
     unat (fw_brk (snd (sys_sbrk incr s))) =
       (if unat (fw_brk s) + unat incr < unat (heap_end s) then unat (fw_brk s) + 2 * unat incr else unat (heap_end s)) \<and>
     (fw_brk (snd (sys_sbrk incr s)) > heap_end s \<longleftrightarrow>
        unat (fw_brk s) + unat incr < unat (heap_end s) \<and> unat (heap_end s) < unat (fw_brk s) + 2 * unat incr)"
proof -
  have one: "unat (fw_brk s + incr) = unat (fw_brk s) + unat incr" using assms(2) by (simp add: unat_word_ariths)
  have "unat (fw_brk s + incr + incr) = unat (fw_brk s) + 2 * unat incr"
    using assms(2) by (simp add: unat_word_ariths mod_simps)
  with one assms(1) show ?thesis by (auto simp: sys_sbrk_def Let_def word_less_nat_alt)
qed

theorem sbrk_moves_twice_witness:
  "fw_brk (snd (sys_sbrk 0x600 \<lparr>fw_errno = 0, fw_mmio = [], fw_brk = 0x1000, heap_start = 0x1000, heap_end = 0x1800,
     fw_wfi = False\<rparr>)) > 0x1800"
  using sbrk_moves_twice [of "\<lparr>fw_errno = 0, fw_mmio = [], fw_brk = 0x1000, heap_start = 0x1000, heap_end = 0x1800,
     fw_wfi = False\<rparr>" "0x600"] by simp

text \<open>
  The fraction of the cycles per instruction is computed from \<^verbatim>\<open>100 * num_cycles\<close> in 32 bits: it is the
  right one up to 42949672 cycles.
\<close>

lemma cpi_fraction:
  assumes "unat c * 100 < 2 ^ 32"
  shows "unat ((100 * c) div i mod 100 :: u32) = unat c * 100 div unat i mod 100"
  using assms by (simp add: unat_div unat_mod unat_word_ariths mult.commute)

lemma stats_defined: "stats c i \<noteq> None \<longleftrightarrow> c \<noteq> 0 \<and> i \<noteq> 0"
  by (auto simp: stats_def print_dec_text split: if_splits)

text \<open>The writes of \<^verbatim>\<open>_write\<close> are exactly the bytes given, in order, all to the output register.\<close>

lemma put_chars_log: "fw_mmio (put_chars bs s) = fw_mmio s @ map (\<lambda>b. (STDOUT_REG, ucast b)) bs"
  by (induction bs arbitrary: s) (simp_all add: put_chars_def mmio_write_def)

lemma hello_main_log:
  "fst (hello_main False s) = 0 \<and>
   fw_mmio (snd (hello_main False s)) =
     fw_mmio s @ map (\<lambda>b. (STDOUT_REG, ucast (b :: u8))) (map of_char (''hello world!'' @ [char_of (10 :: nat)]))"
  by (simp add: hello_main_def sys_write_def put_chars_log)

end
