(* ===== verification/Interrupt_Test.thy ===== *)
theory Interrupt_Test
  imports Firmware
begin

text \<open>
  \<^verbatim>\<open>interrupt/interrupt.c\<close> with \<^verbatim>\<open>isr.h\<close> and \<^verbatim>\<open>matrix.h\<close>: the interrupt test. Its handlers run on the
  core under test, which is the parameter \<open>core\<close>: given the interrupt lines and \<^verbatim>\<open>mie\<close>, the identifier of the
  interrupt it takes while \<^verbatim>\<open>mstatus.MIE\<close> is set, or none. The lines are what the program last wrote to the
  generator's register. Entering a handler and returning from it move \<^verbatim>\<open>MIE\<close> through \<^verbatim>\<open>MPIE\<close>, as the
  privileged architecture has it. Waiting for an interrupt that never comes is a hang. A shift of \<^verbatim>\<open>1\<close> by 31
  is taken as the target's compiler has it. Messages are left out.
\<close>

section \<open>State\<close>

definition ERR_CODE_TEST_2 :: int where "ERR_CODE_TEST_2 = 2"
definition ERR_CODE_TEST_3 :: int where "ERR_CODE_TEST_3 = 3"
definition ERR_CODE_TEST_5 :: int where "ERR_CODE_TEST_5 = 5"

definition RND_STALL_REG_10 :: u32 where "RND_STALL_REG_10 = 0x16000028"
definition RND_STALL_REG_11 :: u32 where "RND_STALL_REG_11 = 0x1600002C"
definition RND_STALL_REG_12 :: u32 where "RND_STALL_REG_12 = 0x16000030"
definition RND_STALL_REG_13 :: u32 where "RND_STALL_REG_13 = 0x16000034"
definition RND_STALL_REG_14 :: u32 where "RND_STALL_REG_14 = 0x16000038"

definition IRQ_MODE_STD :: u32 where "IRQ_MODE_STD = 1"
definition IRQ_MODE_RND :: u32 where "IRQ_MODE_RND = 2"
definition IRQ_MODE_PC_TRIG :: u32 where "IRQ_MODE_PC_TRIG = 3"
definition IRQ_MODE_SD :: u32 where "IRQ_MODE_SD = 4"

definition MSTATUS_MIE_BIT :: nat where "MSTATUS_MIE_BIT = 3"
definition IRQ_NUM :: nat where "IRQ_NUM = 19"
definition STD_IRQ_MASK :: u32 where "STD_IRQ_MASK = 0xFFFF0888"

definition SOFTWARE_IRQ_ID :: nat where "SOFTWARE_IRQ_ID = 3"
definition TIMER_IRQ_ID :: nat where "TIMER_IRQ_ID = 7"
definition EXTERNAL_IRQ_ID :: nat where "EXTERNAL_IRQ_ID = 11"
definition FAST_IRQ_ID :: "nat \<Rightarrow> nat" where "FAST_IRQ_ID k = 16 + k"

definition RND_IRQ_NUM :: nat where "RND_IRQ_NUM = 50"
definition RND_IE_NUM :: nat where "RND_IE_NUM = 50"
definition RND_IRQ_MIN_CYCLES :: u32 where "RND_IRQ_MIN_CYCLES = 100"
definition RND_IRQ_MAX_CYCLES :: u32 where "RND_IRQ_MAX_CYCLES = 200"

definition IRQ_ID_PRIORITY :: "nat list" where
  "IRQ_ID_PRIORITY =
     [31, 30, 29, 28, 27, 26, 25, 24, 23, 22, 21, 20, 19, 18, 17, 16, EXTERNAL_IRQ_ID, SOFTWARE_IRQ_ID, TIMER_IRQ_ID]"

record irq_state =
  irq_processed :: u32
  irq_id :: nat
  irq_pending32_std :: u32
  irq_to_test32_std :: u32
  prev_irq_pending32_std :: u32
  first_irq_pending32_std :: u32
  ie_mask32_std :: u32
  mmstatus :: u32
  bit_to_set :: u32
  irq_mode :: u32
  irq_served :: u32
  csr_mstatus :: u32
  csr_mie :: u32
  stall_regs :: "u32 \<Rightarrow> u32"

definition irq_state_start :: "u32 \<Rightarrow> u32 \<Rightarrow> (u32 \<Rightarrow> u32) \<Rightarrow> irq_state" where
  "irq_state_start ms mie regs =
     \<lparr>irq_processed = 1, irq_id = 0, irq_pending32_std = 0, irq_to_test32_std = 0, prev_irq_pending32_std = 0,
      first_irq_pending32_std = 0, ie_mask32_std = 0, mmstatus = 0, bit_to_set = 0, irq_mode = 0, irq_served = 0,
      csr_mstatus = ms, csr_mie = mie, stall_regs = regs\<rparr>"

section \<open>Handlers\<close>

definition writew :: "u32 \<Rightarrow> u32 \<Rightarrow> irq_state \<Rightarrow> irq_state" where
  "writew v addr s = s\<lparr>stall_regs := (stall_regs s)(addr := v)\<rparr>"

text \<open>\<open>mip\<close> is what the handler reads from register \<^verbatim>\<open>0x344\<close>.\<close>

definition FAST_IRQ_GENERIC :: "u32 \<Rightarrow> nat \<Rightarrow> irq_state \<Rightarrow> irq_state" where
  "FAST_IRQ_GENERIC mip i s =
     (let s = s\<lparr>irq_id := i\<rparr>;
          s = (if irq_mode s = IRQ_MODE_RND then s\<lparr>irq_pending32_std := mip\<rparr> else s);
          s = s\<lparr>irq_pending32_std := irq_pending32_std s AND NOT (push_bit (irq_id s) 1)\<rparr>;
          s = writew (irq_pending32_std s) RND_STALL_REG_14 s
      in if irq_mode s = IRQ_MODE_RND then
           let s = s\<lparr>irq_served := irq_served s + 1, irq_mode := IRQ_MODE_STD\<rparr>;
               s = writew (irq_mode s) RND_STALL_REG_10 s;
               s = s\<lparr>irq_mode := IRQ_MODE_RND\<rparr>
           in writew (irq_mode s) RND_STALL_REG_10 s
         else
           let s = s\<lparr>mmstatus := csr_mstatus s\<rparr>;
               s = s\<lparr>mmstatus := mmstatus s AND NOT (push_bit 7 1)\<rparr>
           in s\<lparr>csr_mstatus := mmstatus s\<rparr>)"

definition software_irq_handler :: "u32 \<Rightarrow> irq_state \<Rightarrow> irq_state" where
  "software_irq_handler mip s = FAST_IRQ_GENERIC mip SOFTWARE_IRQ_ID s"

definition timer_irq_handler :: "u32 \<Rightarrow> irq_state \<Rightarrow> irq_state" where
  "timer_irq_handler mip s = FAST_IRQ_GENERIC mip TIMER_IRQ_ID s"

definition external_irq_handler :: "u32 \<Rightarrow> irq_state \<Rightarrow> irq_state" where
  "external_irq_handler mip s = FAST_IRQ_GENERIC mip EXTERNAL_IRQ_ID s"

definition fast_irq_handler :: "nat \<Rightarrow> u32 \<Rightarrow> irq_state \<Rightarrow> irq_state" where
  "fast_irq_handler k mip s = FAST_IRQ_GENERIC mip (FAST_IRQ_ID k) s"

text \<open>
  The vector table (\<^verbatim>\<open>vectors.S\<close>): entry 1 returns at once. The entries \<open>None\<close> are those that never return and
  entry 0, which lowers no line and returns one instruction after the interrupted one: a wait that takes it is taken
  to be endless. The core under test has no interrupt on these entries.
\<close>

definition verification_irq_handler :: "u32 \<Rightarrow> irq_state \<Rightarrow> irq_state" where
  "verification_irq_handler mip s = s"

definition vector_table :: "nat \<Rightarrow> (u32 \<Rightarrow> irq_state \<Rightarrow> irq_state) option" where
  "vector_table i =
     (if i = SOFTWARE_IRQ_ID then Some software_irq_handler
      else if i = TIMER_IRQ_ID then Some timer_irq_handler
      else if i = EXTERNAL_IRQ_ID then Some external_irq_handler
      else if 16 \<le> i \<and> i < 32 then Some (fast_irq_handler (i - 16))
      else if i = 1 then Some verification_irq_handler
      else None)"

definition set_bit_to :: "nat \<Rightarrow> bool \<Rightarrow> u32 \<Rightarrow> u32" where
  "set_bit_to n b w = (if b then w OR push_bit n 1 else w AND NOT (push_bit n 1))"

definition irq_enter :: "irq_state \<Rightarrow> irq_state" where
  "irq_enter s = s\<lparr>csr_mstatus := set_bit_to 3 False (set_bit_to 7 (bit (csr_mstatus s) 3) (csr_mstatus s))\<rparr>"

definition irq_return :: "irq_state \<Rightarrow> irq_state" where
  "irq_return s = s\<lparr>csr_mstatus := set_bit_to 7 True (set_bit_to 3 (bit (csr_mstatus s) 7) (csr_mstatus s))\<rparr>"

section \<open>The tests\<close>

definition random_num :: "u32 \<Rightarrow> u32 \<Rightarrow> u32 \<Rightarrow> u32" where
  "random_num rnd upper_bound lower_bound = rnd mod (upper_bound - lower_bound + 1) + lower_bound"

definition mstatus_enable :: "nat \<Rightarrow> irq_state \<Rightarrow> irq_state" where
  "mstatus_enable bit_enabled s =
     (let s = s\<lparr>mmstatus := csr_mstatus s\<rparr>;
          s = s\<lparr>mmstatus := mmstatus s OR push_bit bit_enabled 1\<rparr>
      in s\<lparr>csr_mstatus := mmstatus s\<rparr>)"

definition mstatus_disable :: "nat \<Rightarrow> irq_state \<Rightarrow> irq_state" where
  "mstatus_disable bit_disabled s =
     (let s = s\<lparr>mmstatus := csr_mstatus s\<rparr>;
          s = s\<lparr>mmstatus := mmstatus s AND NOT (push_bit bit_disabled 1)\<rparr>
      in s\<lparr>csr_mstatus := mmstatus s\<rparr>)"

type_synonym irq_core = "u32 \<Rightarrow> u32 \<Rightarrow> nat option"

datatype verdict = Passed irq_state | Returned int | Hang

text \<open>
  The loop that waits until \<^verbatim>\<open>irq_pending32_std\<close> changes: an interrupt is taken, and when its handler has
  returned with interrupts disabled and the variable as before, the loop never ends.
\<close>

definition wait_served :: "irq_core \<Rightarrow> irq_state \<Rightarrow> irq_state option" where
  "wait_served core s =
     (if \<not> bit (csr_mstatus s) MSTATUS_MIE_BIT then None
      else case core (stall_regs s RND_STALL_REG_14) (csr_mie s) of
             None \<Rightarrow> None
           | Some i \<Rightarrow>
               (case vector_table i of
                  None \<Rightarrow> None
                | Some handler \<Rightarrow>
                    let s = irq_return (handler (stall_regs s RND_STALL_REG_14) (irq_enter s)) in
                    if prev_irq_pending32_std s = irq_pending32_std s then None else Some s))"

definition serve_next :: "irq_core \<Rightarrow> int \<Rightarrow> nat \<Rightarrow> irq_state \<Rightarrow> verdict" where
  "serve_next core err i s =
     (let s = s\<lparr>prev_irq_pending32_std := irq_pending32_std s\<rparr>;
          s = mstatus_enable MSTATUS_MIE_BIT s
      in case wait_served core s of
           None \<Rightarrow> Hang
         | Some s \<Rightarrow> if i \<noteq> irq_id s then Returned err else Passed s)"

fun test2_loop :: "irq_core \<Rightarrow> nat list \<Rightarrow> irq_state \<Rightarrow> verdict" where
  "test2_loop core [] s = Passed s"
| "test2_loop core (i # is) s =
     (case serve_next core ERR_CODE_TEST_2 i s of Passed s \<Rightarrow> test2_loop core is s | v \<Rightarrow> v)"

definition test1 :: "irq_state \<Rightarrow> irq_state" where
  "test1 s =
     (let s = s\<lparr>ie_mask32_std := 0xFFFFFFFF\<rparr>;
          s = s\<lparr>csr_mie := ie_mask32_std s\<rparr>;
          s = writew IRQ_MODE_SD RND_STALL_REG_10 s
      in mstatus_disable MSTATUS_MIE_BIT s)"

definition test2 :: "irq_core \<Rightarrow> irq_state \<Rightarrow> verdict" where
  "test2 core s =
     (let s = s\<lparr>ie_mask32_std := 0xFFFFFFFF\<rparr>;
          s = s\<lparr>csr_mie := ie_mask32_std s\<rparr>;
          s = s\<lparr>irq_pending32_std := 0xFFFFFFFF\<rparr>;
          s = mstatus_disable MSTATUS_MIE_BIT s;
          s = writew (irq_pending32_std s) RND_STALL_REG_14 s
      in test2_loop core IRQ_ID_PRIORITY s)"

text \<open>
  A word built from \<open>n\<close> random bits: \<open>rnd i\<close> is what the \<open>i\<close>-th read of the generator returns; the last
  bit stays in \<^verbatim>\<open>bit_to_set\<close>.
\<close>

definition random_word :: "nat \<Rightarrow> (nat \<Rightarrow> u32) \<Rightarrow> u32" where
  "random_word n rnd = foldl (\<lambda>w i. w OR push_bit (unat (random_num (rnd i) 31 0)) 1) 0 [0..<n]"

definition last_bit :: "nat \<Rightarrow> (nat \<Rightarrow> u32) \<Rightarrow> u32" where
  "last_bit n rnd = random_num (rnd (n - 1)) 31 0"

definition words_to_test :: "u32 \<Rightarrow> u32 \<Rightarrow> u32 \<Rightarrow> u32" where
  "words_to_test first ie w0 = foldl (\<lambda>w i. if push_bit i 1 AND first AND ie \<noteq> 0 then w OR push_bit i 1 else w) w0 [0..<32]"

fun test3_loop :: "irq_core \<Rightarrow> nat list \<Rightarrow> irq_state \<Rightarrow> verdict" where
  "test3_loop core [] s = Passed s"
| "test3_loop core (i # is) s =
     (if i \<le> 31 \<and> push_bit i 1 AND irq_to_test32_std s \<noteq> 0
      then case serve_next core ERR_CODE_TEST_3 i s of Passed s \<Rightarrow> test3_loop core is s | v \<Rightarrow> v
      else test3_loop core is s)"

definition test3 :: "irq_core \<Rightarrow> (nat \<Rightarrow> u32) \<Rightarrow> (nat \<Rightarrow> u32) \<Rightarrow> irq_state \<Rightarrow> verdict" where
  "test3 core rnds_ie rnds_irq s =
     (let s = s\<lparr>irq_processed := 1, irq_id := 0, ie_mask32_std := 0, irq_pending32_std := 0\<rparr>;
          s = s\<lparr>ie_mask32_std := random_word RND_IE_NUM rnds_ie, bit_to_set := last_bit RND_IE_NUM rnds_ie\<rparr>;
          s = s\<lparr>ie_mask32_std := ie_mask32_std s AND STD_IRQ_MASK\<rparr>;
          s = s\<lparr>csr_mie := ie_mask32_std s\<rparr>;
          s = s\<lparr>irq_pending32_std := random_word RND_IRQ_NUM rnds_irq, bit_to_set := last_bit RND_IRQ_NUM rnds_irq\<rparr>;
          s = s\<lparr>irq_pending32_std := irq_pending32_std s AND STD_IRQ_MASK\<rparr>;
          s = s\<lparr>first_irq_pending32_std := irq_pending32_std s\<rparr>;
          s = s\<lparr>irq_to_test32_std := words_to_test (first_irq_pending32_std s) (ie_mask32_std s) (irq_to_test32_std s)\<rparr>;
          s = mstatus_disable MSTATUS_MIE_BIT s;
          s = writew (irq_pending32_std s) RND_STALL_REG_14 s
      in case test3_loop core IRQ_ID_PRIORITY s of
           Passed s \<Rightarrow>
             if irq_pending32_std s \<noteq> (NOT (ie_mask32_std s)) AND first_irq_pending32_std s then Returned ERR_CODE_TEST_3
             else Passed s
         | v \<Rightarrow> v)"

section \<open>The matrix product\<close>

definition MAT_DIM :: nat where "MAT_DIM = 10"

definition mat1 :: "u32 list list" where
  "mat1 =
     [[82, 16, 66, 71, 44, 28, 76, 85, 36, 8],
      [91, 98, 4, 4, 39, 68, 26, 26, 84, 6],
      [13, 96, 85, 28, 77, 66, 51, 82, 59, 54],
      [92, 49, 94, 5, 80, 17, 70, 25, 55, 78],
      [64, 81, 68, 10, 19, 12, 90, 93, 92, 94],
      [10, 15, 76, 83, 49, 50, 96, 35, 29, 13],
      [28, 43, 75, 70, 45, 96, 55, 20, 76, 57],
      [55, 92, 40, 32, 65, 35, 14, 26, 76, 47],
      [96, 80, 66, 96, 71, 59, 15, 62, 39, 2],
      [97, 96, 18, 4, 76, 23, 26, 48, 57, 34]]"

definition mat2 :: "u32 list list" where
  "mat2 =
     [[17, 46, 11, 44, 86, 42, 79, 24, 55, 93],
      [80, 9, 97, 92, 63, 5, 39, 36, 30, 78],
      [32, 23, 1, 19, 36, 91, 25, 83, 75, 49],
      [53, 92, 78, 27, 52, 95, 41, 2, 19, 44],
      [17, 16, 82, 15, 41, 50, 10, 5, 69, 45],
      [61, 83, 87, 14, 8, 49, 14, 17, 19, 31],
      [27, 54, 9, 87, 24, 34, 95, 65, 37, 51],
      [66, 100, 40, 58, 13, 91, 96, 74, 63, 52],
      [69, 8, 26, 55, 19, 37, 58, 65, 79, 82],
      [75, 45, 81, 15, 24, 12, 6, 46, 9, 80]]"

definition res_expected :: "u32 list list" where
  "res_expected =
     [[21751, 28246, 19770, 22945, 19961, 31594, 30011, 22798, 25940, 29968],
      [23202, 16742, 23881, 23221, 19197, 16768, 22491, 16753, 21594, 30388],
      [32350, 26559, 33427, 27102, 20074, 30532, 26201, 28088, 29269, 35628],
      [24339, 20216, 23666, 23650, 22981, 25597, 25480, 26036, 28730, 36951],
      [33295, 26583, 26547, 31977, 21823, 27824, 34061, 33451, 30082, 41759],
      [19962, 24414, 20554, 19112, 14888, 27874, 22108, 19662, 20773, 23365],
      [28971, 26671, 29944, 21502, 18462, 29006, 22323, 23059, 24526, 32351],
      [25374, 17246, 27389, 21584, 19821, 20633, 19901, 18872, 23126, 31727],
      [27376, 28931, 31116, 24397, 26002, 33618, 27477, 20402, 28034, 34997],
      [23165, 17423, 25332, 23703, 21693, 19268, 23691, 18568, 24117, 32916]]"

definition mat_mult :: "u32 list list \<Rightarrow> u32 list list \<Rightarrow> u32 list list" where
  "mat_mult m1 m2 =
     map (\<lambda>i. map (\<lambda>j. foldl (\<lambda>r k. r + m1 ! i ! k * m2 ! k ! j) 0 [0..<MAT_DIM]) [0..<MAT_DIM]) [0..<MAT_DIM]"

text \<open>
  Test 5: \<open>irqs\<close> are the interrupts taken while the product is computed, each with what its handler
  reads of \<^verbatim>\<open>mip\<close>; the handlers touch neither matrix.
\<close>

definition take_irq :: "irq_state option \<Rightarrow> u32 \<times> nat \<Rightarrow> irq_state option" where
  "take_irq so irq =
     (case so of None \<Rightarrow> None
      | Some s \<Rightarrow> map_option (\<lambda>h. irq_return (h (fst irq) (irq_enter s))) (vector_table (snd irq)))"

definition test5 :: "(u32 \<times> nat) list \<Rightarrow> irq_state \<Rightarrow> verdict" where
  "test5 irqs s =
     (let s = mstatus_disable MSTATUS_MIE_BIT s;
          s = s\<lparr>ie_mask32_std := 0xFFFFFFFF\<rparr>;
          s = s\<lparr>csr_mie := ie_mask32_std s\<rparr>;
          s = writew RND_IRQ_MIN_CYCLES RND_STALL_REG_11 s;
          s = writew RND_IRQ_MAX_CYCLES RND_STALL_REG_12 s;
          s = s\<lparr>irq_mode := IRQ_MODE_RND\<rparr>;
          s = writew (irq_mode s) RND_STALL_REG_10 s;
          s = s\<lparr>irq_served := 0\<rparr>;
          s = mstatus_enable MSTATUS_MIE_BIT s
      in case foldl take_irq (Some s) irqs of
           None \<Rightarrow> Hang
         | Some s \<Rightarrow>
             let s = mstatus_disable MSTATUS_MIE_BIT s;
                 s = s\<lparr>irq_served := 0\<rparr>
             in if \<exists>i \<in> set [0..<MAT_DIM]. \<exists>j \<in> set [0..<MAT_DIM]. mat_mult mat1 mat2 ! i ! j \<noteq> res_expected ! i ! j
                then Returned ERR_CODE_TEST_5 else Passed s)"

definition irq_main ::
  "irq_core \<Rightarrow> (nat \<Rightarrow> u32) \<Rightarrow> (nat \<Rightarrow> u32) \<Rightarrow> (u32 \<times> nat) list \<Rightarrow> irq_state \<Rightarrow> verdict" where
  "irq_main core rnds_ie rnds_irq irqs s =
     (case test2 core (test1 s) of
        Passed s \<Rightarrow>
          (case test3 core rnds_ie rnds_irq s of
             Passed s \<Rightarrow> (case test5 irqs s of Passed s \<Rightarrow> Returned 0 | v \<Rightarrow> v)
           | v \<Rightarrow> v)
      | v \<Rightarrow> v)"

section \<open>One interrupt\<close>

definition clear_irqs :: "nat list \<Rightarrow> u32 \<Rightarrow> u32" where
  "clear_irqs is w = foldl (\<lambda>w i. w AND NOT (push_bit i 1)) w is"

lemma bit_one_shift: "bit (push_bit i 1 :: u32) n \<longleftrightarrow> n = i \<and> n < 32"
  by (auto simp: bit_simps)

lemma bit_clear_irq: "bit (w AND NOT (push_bit i 1) :: u32) n \<longleftrightarrow> bit w n \<and> n \<noteq> i"
  by (auto simp: bit_simps dest: bit_imp_le_length)

lemma test_bit_and: "push_bit i 1 AND (w :: u32) \<noteq> 0 \<longleftrightarrow> bit w i"
proof (cases "bit w i")
  case True
  then have "bit (push_bit i 1 AND w) i" using bit_imp_le_length [of w i] by (simp only: bit_and_iff bit_one_shift) simp
  with True show ?thesis by (metis bit_0_eq bot_apply bot_bool_def)
next
  case False
  have "push_bit i 1 AND w = 0"
    by (rule bit_word_eqI) (use False in \<open>auto simp only: bit_and_iff bit_one_shift bit_0_eq bot_apply bot_bool_def\<close>)
  with False show ?thesis by simp
qed

lemma bit_clear_irqs: "bit (clear_irqs is w) n \<longleftrightarrow> bit w n \<and> n \<notin> set is"
proof (induction "is" arbitrary: w)
  case (Cons i "is")
  have "clear_irqs (i # is) w = clear_irqs is (w AND NOT (push_bit i 1))" by (simp add: clear_irqs_def)
  with Cons show ?case by (simp only: bit_clear_irq list.set) blast
qed (simp add: clear_irqs_def)

lemma priority_ids: "i \<in> set IRQ_ID_PRIORITY \<longleftrightarrow> i = 3 \<or> i = 7 \<or> i = 11 \<or> 16 \<le> i \<and> i < 32"
proof -
  have l: "[16..<32] = [16, 17, 18, 19, 20, 21, 22, 23, 24, 25, 26, 27, 28, 29, 30, 31 :: nat]"
    by (simp add: upt_rec_numeral)
  have "16 \<le> i \<and> i < 32 \<longleftrightarrow> i \<in> set [16..<32]" by (simp only: set_upt atLeastLessThan_iff)
  then show ?thesis
    unfolding l IRQ_ID_PRIORITY_def EXTERNAL_IRQ_ID_def SOFTWARE_IRQ_ID_def TIMER_IRQ_ID_def by (simp only: list.set insert_iff empty_iff) blast
qed

lemma distinct_priority: "distinct IRQ_ID_PRIORITY" "length IRQ_ID_PRIORITY = IRQ_NUM"
  by (simp_all add: IRQ_ID_PRIORITY_def EXTERNAL_IRQ_ID_def SOFTWARE_IRQ_ID_def TIMER_IRQ_ID_def IRQ_NUM_def)

lemma vector_table_handler:
  "vector_table i = (if i \<in> set IRQ_ID_PRIORITY then Some (\<lambda>mip. FAST_IRQ_GENERIC mip i)
     else if i = 1 then Some (\<lambda>mip s. s) else None)"
  unfolding priority_ids
  by (auto simp: vector_table_def SOFTWARE_IRQ_ID_def TIMER_IRQ_ID_def EXTERNAL_IRQ_ID_def fun_eq_iff
      software_irq_handler_def timer_irq_handler_def external_irq_handler_def fast_irq_handler_def FAST_IRQ_ID_def
      verification_irq_handler_def)

text \<open>What a test relies on between two interrupts, and what an interrupt leaves alone.\<close>

definition irq_ready :: "irq_state \<Rightarrow> bool" where
  "irq_ready s \<longleftrightarrow> irq_mode s \<noteq> IRQ_MODE_RND \<and> stall_regs s RND_STALL_REG_14 = irq_pending32_std s"

definition irq_frame :: "irq_state \<Rightarrow> irq_state \<Rightarrow> bool" where
  "irq_frame s t \<longleftrightarrow> csr_mie t = csr_mie s \<and> ie_mask32_std t = ie_mask32_std s \<and>
     first_irq_pending32_std t = first_irq_pending32_std s \<and> irq_to_test32_std t = irq_to_test32_std s \<and>
     irq_mode t = irq_mode s"

lemma irq_frame_trans: "irq_frame a b \<Longrightarrow> irq_frame b c \<Longrightarrow> irq_frame a c"
  by (simp add: irq_frame_def)

definition after_irq :: "nat \<Rightarrow> irq_state \<Rightarrow> irq_state" where
  "after_irq j s =
     irq_return (FAST_IRQ_GENERIC (irq_pending32_std s) j
                (irq_enter (mstatus_enable MSTATUS_MIE_BIT (s\<lparr>prev_irq_pending32_std := irq_pending32_std s\<rparr>))))"

lemma wait_served_eq:
  assumes "irq_ready s" "bit (csr_mstatus s) 3" "prev_irq_pending32_std s = irq_pending32_std s"
  shows "wait_served core s =
     (case core (irq_pending32_std s) (csr_mie s) of
        None \<Rightarrow> None
      | Some i \<Rightarrow>
          if i \<in> set IRQ_ID_PRIORITY \<and> bit (irq_pending32_std s) i
          then Some (irq_return (FAST_IRQ_GENERIC (irq_pending32_std s) i (irq_enter s))) else None)"
proof -
  have "irq_pending32_std (irq_return (FAST_IRQ_GENERIC mip i (irq_enter s))) = irq_pending32_std s AND NOT (push_bit i 1)"
    "prev_irq_pending32_std (irq_return (FAST_IRQ_GENERIC mip i (irq_enter s))) = irq_pending32_std s" for mip i
    using assms by (simp_all add: irq_return_def FAST_IRQ_GENERIC_def irq_enter_def irq_ready_def writew_def Let_def)
  moreover have "prev_irq_pending32_std (irq_return (irq_enter s)) = irq_pending32_std (irq_return (irq_enter s))"
    using assms(3) by (simp add: irq_return_def irq_enter_def)
  moreover have "w = w AND NOT (push_bit i 1) \<longleftrightarrow> \<not> bit w i" for w :: u32 and i
  proof (cases "bit w i")
    case True
    then show ?thesis using bit_clear_irq [of w i i] by metis
  next
    case False
    then have "w = w AND NOT (push_bit i 1)" by (intro bit_word_eqI) (metis bit_clear_irq)
    with False show ?thesis by blast
  qed
  ultimately show ?thesis using assms
    by (auto simp: wait_served_def MSTATUS_MIE_BIT_def irq_ready_def vector_table_handler Let_def split: option.split)
qed

lemma serve_next_eq:
  assumes "irq_ready s"
  shows "serve_next core err i s =
     (case core (irq_pending32_std s) (csr_mie s) of
        None \<Rightarrow> Hang
      | Some j \<Rightarrow>
          if j \<in> set IRQ_ID_PRIORITY \<and> bit (irq_pending32_std s) j then
            if i = j then
              Passed (after_irq j s)
            else Returned err
          else Hang)"
proof -
  let ?s = "mstatus_enable MSTATUS_MIE_BIT (s\<lparr>prev_irq_pending32_std := irq_pending32_std s\<rparr>)"
  have "irq_ready ?s" "bit (csr_mstatus ?s) 3" "prev_irq_pending32_std ?s = irq_pending32_std ?s"
    "irq_pending32_std ?s = irq_pending32_std s" "csr_mie ?s = csr_mie s"
    using assms by (auto simp: irq_ready_def mstatus_enable_def MSTATUS_MIE_BIT_def Let_def bit_simps)
  moreover have "irq_id (irq_return (FAST_IRQ_GENERIC mip j t)) = j" for mip j t
    by (simp add: irq_return_def FAST_IRQ_GENERIC_def writew_def Let_def)
  ultimately show ?thesis
    by (auto simp: serve_next_def wait_served_eq after_irq_def Let_def split: option.split)
qed

lemma after_irq_state:
  assumes "irq_ready s"
  shows "irq_ready (after_irq j s)" "irq_frame s (after_irq j s)"
    "irq_pending32_std (after_irq j s) = irq_pending32_std s AND NOT (push_bit j 1)"
  using assms
  by (simp_all add: after_irq_def irq_ready_def irq_frame_def irq_return_def FAST_IRQ_GENERIC_def irq_enter_def
      mstatus_enable_def writew_def Let_def)

section \<open>What the tests decide\<close>

lemma test2_loop_verdict:
  assumes "irq_ready s" "distinct is" "set is \<subseteq> set IRQ_ID_PRIORITY" "\<forall>i \<in> set is. bit (irq_pending32_std s) i"
  shows "((\<exists>t. test2_loop core is s = Passed t) \<longleftrightarrow>
            (\<forall>k < length is. core (clear_irqs (take k is) (irq_pending32_std s)) (csr_mie s) = Some (is ! k))) \<and>
         (\<forall>t. test2_loop core is s = Passed t \<longrightarrow> irq_ready t \<and> irq_frame s t) \<and>
         (\<forall>c. test2_loop core is s = Returned c \<longrightarrow> c = ERR_CODE_TEST_2)"
  using assms
proof (induction "is" arbitrary: s)
  case Nil
  then show ?case by (auto simp: irq_frame_def)
next
  case (Cons i "is")
  let ?t = "after_irq i s" and ?p = "irq_pending32_std s"
  note t = after_irq_state [OF Cons.prems(1), of i]
  have step: "serve_next core ERR_CODE_TEST_2 i s = Passed u \<longleftrightarrow> core ?p (csr_mie s) = Some i \<and> u = ?t" for u
    using Cons.prems by (auto simp: serve_next_eq split: option.splits if_splits)
  have err: "c = ERR_CODE_TEST_2" if "serve_next core ERR_CODE_TEST_2 i s = Returned c" for c
    using that Cons.prems(1) by (auto simp: serve_next_eq split: option.splits if_splits)
  have pend: "\<forall>j \<in> set is. bit (irq_pending32_std ?t) j"
    unfolding t(3) bit_clear_irq using Cons.prems(2,4) by auto
  have IH: "(\<exists>t. test2_loop core is ?t = Passed t) \<longleftrightarrow>
        (\<forall>k < length is. core (clear_irqs (take k is) (irq_pending32_std ?t)) (csr_mie ?t) = Some (is ! k))"
      "\<forall>t. test2_loop core is ?t = Passed t \<longrightarrow> irq_ready t \<and> irq_frame ?t t"
      "\<forall>c. test2_loop core is ?t = Returned c \<longrightarrow> c = ERR_CODE_TEST_2"
    using Cons.IH [OF t(1) _ _ pend] Cons.prems(2,3) by simp_all
  have cl: "clear_irqs (take k is) (irq_pending32_std ?t) = clear_irqs (take (Suc k) (i # is)) ?p" for k
    by (simp add: t(3) clear_irqs_def)
  have mie: "csr_mie ?t = csr_mie s" using t(2) by (simp add: irq_frame_def)
  show ?case
  proof (cases "serve_next core ERR_CODE_TEST_2 i s")
    case (Passed u)
    with step [of u] have c: "core ?p (csr_mie s) = Some i" and u: "u = ?t" by auto
    have "(\<forall>k < length is. core (clear_irqs (take k is) (irq_pending32_std ?t)) (csr_mie ?t) = Some (is ! k)) \<longleftrightarrow>
        (\<forall>k < length (i # is). core (clear_irqs (take k (i # is)) ?p) (csr_mie s) = Some ((i # is) ! k))"
      unfolding cl mie using c by (simp add: All_less_Suc2 clear_irqs_def)
    with IH t(2) Passed show ?thesis by (auto simp: u intro: irq_frame_trans)
  next
    case (Returned c)
    with step have "core ?p (csr_mie s) \<noteq> Some i" by auto
    with err [OF Returned] Returned show ?thesis by (auto intro!: exI [of _ 0] simp: clear_irqs_def)
  next
    case Hang
    with step have "core ?p (csr_mie s) \<noteq> Some i" by auto
    with Hang show ?thesis by (auto intro!: exI [of _ 0] simp: clear_irqs_def)
  qed
qed

lemma test2_start:
  assumes "irq_mode s \<noteq> IRQ_MODE_RND"
  shows "\<exists>u. test2 core (test1 s) = test2_loop core IRQ_ID_PRIORITY u \<and> irq_ready u \<and> irq_pending32_std u = 0xFFFFFFFF \<and>
     csr_mie u = 0xFFFFFFFF \<and> irq_mode u = irq_mode s \<and> irq_to_test32_std u = irq_to_test32_std s"
  using assms
  by (auto simp: test2_def test1_def irq_ready_def mstatus_disable_def writew_def Let_def)

lemma bit_all_u32: "bit (0xFFFFFFFF :: u32) n \<longleftrightarrow> n < 32"
proof -
  have "(0xFFFFFFFF :: u32) = mask 32" by (simp add: mask_eq_exp_minus_1)
  then show ?thesis by (simp only: bit_mask_iff possible_bit_word) simp
qed

text \<open>
  The documented order of the core (\<^verbatim>\<open>docs/source/exceptions_interrupts.rst\<close>): the highest identifier first, except
  for the timer, which comes last; from high to low 31 down to 16, then 11, 3 and 7. It is written down apart from
  the table of the test.
\<close>

definition documented_priority :: "nat list" where
  "documented_priority = rev [16..<32] @ [11, 3, 7]"

definition priority_core :: irq_core where
  "priority_core lines mie = find (\<lambda>i. bit lines i \<and> bit mie i) documented_priority"

text \<open>The table of the test is that order.\<close>

lemma table_documented: "documented_priority = IRQ_ID_PRIORITY"
  by code_simp

lemma priority_core_table: "priority_core lines mie = find (\<lambda>i. bit lines i \<and> bit mie i) IRQ_ID_PRIORITY"
  by (simp add: priority_core_def table_documented)

lemma find_nth_first:
  assumes "k < length xs" "P (xs ! k)" "\<forall>j < k. \<not> P (xs ! j)"
  shows "find P xs = Some (xs ! k)"
  using assms by (auto simp: find_Some_iff)

lemma priority_core_order:
  assumes "k < length IRQ_ID_PRIORITY"
  shows "priority_core (clear_irqs (take k IRQ_ID_PRIORITY) 0xFFFFFFFF) 0xFFFFFFFF = Some (IRQ_ID_PRIORITY ! k)"
  unfolding priority_core_table
proof (rule find_nth_first [OF assms])
  have "IRQ_ID_PRIORITY ! k \<in> set IRQ_ID_PRIORITY" using assms by simp
  then have "IRQ_ID_PRIORITY ! k < 32" by (auto simp: priority_ids)
  moreover have "IRQ_ID_PRIORITY ! k \<notin> set (take k IRQ_ID_PRIORITY)"
    using assms distinct_priority(1) by (auto simp: in_set_conv_nth nth_eq_iff_index_eq)
  ultimately show "bit (clear_irqs (take k IRQ_ID_PRIORITY) 0xFFFFFFFF) (IRQ_ID_PRIORITY ! k) \<and>
      bit (0xFFFFFFFF :: u32) (IRQ_ID_PRIORITY ! k)"
    by (simp only: bit_clear_irqs bit_all_u32) simp
  show "\<forall>j < k. \<not> (bit (clear_irqs (take k IRQ_ID_PRIORITY) 0xFFFFFFFF) (IRQ_ID_PRIORITY ! j) \<and>
      bit (0xFFFFFFFF :: u32) (IRQ_ID_PRIORITY ! j))"
    using assms by (auto simp: bit_clear_irqs in_set_conv_nth)
qed

lemma priority_core_next:
  assumes "IRQ_ID_PRIORITY = ps @ i # qs" "bit w i" "bit e i" "\<forall>j \<in> set ps. \<not> (bit w j \<and> bit e j)"
  shows "priority_core w e = Some i"
proof -
  have "find (\<lambda>j. bit w j \<and> bit e j) (ps @ i # qs) = Some ((ps @ i # qs) ! length ps)"
    using assms(2-4) by (intro find_nth_first) (auto simp: nth_append)
  then show ?thesis unfolding priority_core_table assms(1) by simp
qed

text \<open>Test 3 under the documented order: what is enabled and pending is served, and nothing else.\<close>

lemma test3_loop_passes:
  assumes "irq_ready s" "IRQ_ID_PRIORITY = ps @ is" "irq_to_test32_std s = w AND csr_mie s"
    "\<forall>n. bit (irq_pending32_std s) n \<longleftrightarrow> bit w n \<and> \<not> (n \<in> set ps \<and> bit (csr_mie s) n)"
  shows "\<exists>t. test3_loop priority_core is s = Passed t \<and> irq_ready t \<and> irq_frame s t \<and>
     (\<forall>n. bit (irq_pending32_std t) n \<longleftrightarrow> bit w n \<and> \<not> (n \<in> set IRQ_ID_PRIORITY \<and> bit (csr_mie s) n))"
  using assms
proof (induction "is" arbitrary: ps s)
  case Nil
  then show ?case by (auto simp: irq_frame_def)
next
  case (Cons i "is")
  have i: "i \<in> set IRQ_ID_PRIORITY" "i \<notin> set ps" "i \<le> 31"
  proof -
    show "i \<in> set IRQ_ID_PRIORITY" by (subst Cons.prems(2)) simp
    then show "i \<le> 31" by (auto simp: priority_ids)
    have "distinct (ps @ i # is)" using distinct_priority(1) by (simp only: Cons.prems(2))
    then show "i \<notin> set ps" by simp
  qed
  have test: "i \<le> 31 \<and> push_bit i 1 AND irq_to_test32_std s \<noteq> 0 \<longleftrightarrow> bit w i \<and> bit (csr_mie s) i"
    unfolding test_bit_and Cons.prems(3) bit_and_iff using i(3) by simp
  show ?case
  proof (cases "bit w i \<and> bit (csr_mie s) i")
    case False
    have "\<forall>n. bit (irq_pending32_std s) n \<longleftrightarrow> bit w n \<and> \<not> (n \<in> set (ps @ [i]) \<and> bit (csr_mie s) n)"
      using Cons.prems(4) False by auto
    moreover have "test3_loop priority_core (i # is) s = test3_loop priority_core is s"
      using False unfolding test3_loop.simps test [symmetric] by (rule if_not_P)
    ultimately show ?thesis using Cons.IH [of s "ps @ [i]"] Cons.prems(1-3) by simp
  next
    case True
    let ?t = "after_irq i s"
    note t = after_irq_state [OF Cons.prems(1), of i]
    have core: "priority_core (irq_pending32_std s) (csr_mie s) = Some i"
      using Cons.prems(2,4) True i(2) by (intro priority_core_next) auto
    have "bit (irq_pending32_std s) i" using Cons.prems(4) True i(2) by simp
    then have serve: "serve_next priority_core ERR_CODE_TEST_3 i s = Passed ?t"
      using core i(1) Cons.prems(1) by (simp add: serve_next_eq)
    have fr: "csr_mie ?t = csr_mie s" "irq_to_test32_std ?t = irq_to_test32_std s" using t(2) by (simp_all add: irq_frame_def)
    have "\<forall>n. bit (irq_pending32_std ?t) n \<longleftrightarrow> bit w n \<and> \<not> (n \<in> set (ps @ [i]) \<and> bit (csr_mie ?t) n)"
      unfolding t(3) bit_clear_irq fr(1) using Cons.prems(4) True by auto
    moreover have "test3_loop priority_core (i # is) s = test3_loop priority_core is ?t"
      using True serve unfolding test3_loop.simps test [symmetric] by (simp del: push_bit_of_1)
    ultimately show ?thesis using Cons.IH [OF t(1), of "ps @ [i]"] Cons.prems(2,3) fr t(2)
      by (auto intro: irq_frame_trans)
  qed
qed

lemma bit_std_mask: "bit STD_IRQ_MASK n \<longleftrightarrow> n \<in> set IRQ_ID_PRIORITY"
proof (cases "n < 32")
  case True
  have "list_all (\<lambda>n. bit STD_IRQ_MASK n \<longleftrightarrow> n = 3 \<or> n = 7 \<or> n = 11 \<or> 16 \<le> n) [0..<32]" by code_simp
  with True have "bit STD_IRQ_MASK n \<longleftrightarrow> n = 3 \<or> n = 7 \<or> n = 11 \<or> 16 \<le> n" by (simp add: list_all_iff)
  with True show ?thesis by (simp add: priority_ids)
next
  case False
  then show ?thesis by (auto simp: priority_ids dest: bit_imp_le_length)
qed

lemma bit_or_shift: "bit (w OR push_bit i 1 :: u32) n \<longleftrightarrow> bit w n \<or> n = i \<and> n < 32"
  by (simp only: bit_or_iff bit_one_shift)

lemma collect_bits:
  "bit (foldl (\<lambda>w i. if push_bit i 1 AND m \<noteq> 0 then w OR push_bit i 1 else w) w0 is) n \<longleftrightarrow>
     bit (w0 :: u32) n \<or> n \<in> set is \<and> bit (m :: u32) n"
proof (induction "is" arbitrary: w0)
  case (Cons i "is")
  have "bit m n \<Longrightarrow> n < 32" using bit_imp_le_length [of m n] by simp
  then show ?case
    unfolding foldl.simps Cons.IH unfolding test_bit_and
    by (cases "bit m i") (simp_all only: if_True if_False bit_or_shift list.set, blast+)
qed simp

lemma words_to_test_eq: "words_to_test first ie 0 = first AND ie"
proof (rule bit_word_eqI)
  fix n assume "n < LENGTH(32)"
  then show "bit (words_to_test first ie 0) n \<longleftrightarrow> bit (first AND ie) n"
    unfolding words_to_test_def and.assoc [symmetric]
    using collect_bits [of "first AND ie" 0 "[0..<32]" n] by (simp del: push_bit_of_1 add: and.assoc)
qed

lemma test3_passes:
  assumes "irq_mode s \<noteq> IRQ_MODE_RND" "irq_to_test32_std s = 0"
  shows "\<exists>t. test3 priority_core rnds_ie rnds_irq s = Passed t"
proof -
  define ie where "ie = random_word RND_IE_NUM rnds_ie AND STD_IRQ_MASK"
  define w where "w = random_word RND_IRQ_NUM rnds_irq AND STD_IRQ_MASK"
  obtain u where u: "test3 priority_core rnds_ie rnds_irq s =
      (case test3_loop priority_core IRQ_ID_PRIORITY u of
         Passed t \<Rightarrow> if irq_pending32_std t \<noteq> (NOT (ie_mask32_std t)) AND first_irq_pending32_std t
                     then Returned ERR_CODE_TEST_3 else Passed t
       | v \<Rightarrow> v)"
    "irq_ready u" "irq_to_test32_std u = w AND csr_mie u" "irq_pending32_std u = w" "first_irq_pending32_std u = w"
    "ie_mask32_std u = ie" "csr_mie u = ie"
    using assms unfolding test3_def w_def ie_def
    by (auto simp: irq_ready_def mstatus_disable_def writew_def words_to_test_eq Let_def and.assoc)
  obtain t where t: "test3_loop priority_core IRQ_ID_PRIORITY u = Passed t" "irq_frame u t"
    "\<forall>n. bit (irq_pending32_std t) n \<longleftrightarrow> bit w n \<and> \<not> (n \<in> set IRQ_ID_PRIORITY \<and> bit (csr_mie u) n)"
    using test3_loop_passes [OF u(2), of "[]" IRQ_ID_PRIORITY w] u(3,4) by auto
  have "bit w n \<Longrightarrow> n \<in> set IRQ_ID_PRIORITY" for n by (simp add: w_def bit_and_iff bit_std_mask)
  then have "irq_pending32_std t = NOT ie AND w"
    using t(3) u(7) by (intro bit_word_eqI) (auto simp: bit_simps)
  with t u show ?thesis by (simp add: irq_frame_def)
qed

lemma mat_product: "mat_mult mat1 mat2 = res_expected"
  by code_simp

lemma take_irqs_handled:
  assumes "\<forall>irq \<in> set irqs. snd irq \<in> set IRQ_ID_PRIORITY"
  shows "\<exists>t. foldl take_irq (Some s) irqs = Some t"
  using assms by (induction irqs arbitrary: s) (auto simp: take_irq_def vector_table_handler)

lemma test5_passes:
  assumes "\<forall>irq \<in> set irqs. snd irq \<in> set IRQ_ID_PRIORITY"
  shows "\<exists>t. test5 irqs s = Passed t"
  using take_irqs_handled [OF assms] unfolding test5_def mat_product Let_def by (auto split: option.split)

section \<open>Properties\<close>

text \<open>
  C35. The first ordering test judges the core exactly: it passes if and only if, with all lines
  raised and enabled and each served one lowered, the core takes the nineteen interrupts in the order
  of the priority table; any other core is reported with code 2 or keeps the test waiting.
\<close>

theorem interrupt_order_decided:
  assumes "irq_mode s \<noteq> IRQ_MODE_RND"
  shows "((\<exists>t. test2 core (test1 s) = Passed t) \<longleftrightarrow>
            (\<forall>k < IRQ_NUM. core (clear_irqs (take k IRQ_ID_PRIORITY) 0xFFFFFFFF) 0xFFFFFFFF = Some (IRQ_ID_PRIORITY ! k))) \<and>
         (\<forall>c. test2 core (test1 s) = Returned c \<longrightarrow> c = ERR_CODE_TEST_2)"
proof -
  obtain u where u: "test2 core (test1 s) = test2_loop core IRQ_ID_PRIORITY u" "irq_ready u"
    "irq_pending32_std u = 0xFFFFFFFF" "csr_mie u = 0xFFFFFFFF"
    using test2_start [OF assms] by blast
  have "\<forall>i \<in> set IRQ_ID_PRIORITY. bit (irq_pending32_std u) i" unfolding u(3) bit_all_u32 by (auto simp: priority_ids)
  from test2_loop_verdict [OF u(2) distinct_priority(1) order_refl this, of core] show ?thesis
    unfolding u(1,3,4) distinct_priority(2) by blast
qed

theorem interrupt_order_decided_witness:
  "\<not> (\<exists>t. test2 (\<lambda>lines mie. Some 3) (test1 (irq_state_start 0 0 (\<lambda>_. 0))) = Passed t)"
proof -
  have "irq_mode (irq_state_start 0 0 (\<lambda>_. 0)) \<noteq> IRQ_MODE_RND" by (simp add: irq_state_start_def IRQ_MODE_RND_def)
  from interrupt_order_decided [OF this, of "\<lambda>lines mie. Some 3"] show ?thesis
    by (auto simp: IRQ_NUM_def IRQ_ID_PRIORITY_def intro!: exI [of _ 0])
qed

text \<open>
  C36. A core that takes interrupts in the order of the documentation (31 down to 16, then 11, 3, 7) passes
  the whole program: for all values of the random generator and all interrupts taken during the matrix
  product, \<^verbatim>\<open>main\<close> returns 0; no wait is endless, the masked interrupts stay pending, and the expected
  matrix is the product.
\<close>

theorem interrupt_test_passes:
  assumes "\<And>lines mie. core lines mie = find (\<lambda>i. bit lines i \<and> bit mie i) (rev [16..<32] @ [11, 3, 7])"
    and "\<forall>irq \<in> set irqs. snd irq \<in> {3, 7, 11} \<union> {16..<32}"
  shows "irq_main core rnds_ie rnds_irq irqs (irq_state_start ms mie regs) = Returned 0"
proof -
  let ?s = "irq_state_start ms mie regs"
  have c: "core = priority_core" by (rule ext, rule ext) (simp only: assms(1) priority_core_def documented_priority_def)
  have irqs: "\<forall>irq \<in> set irqs. snd irq \<in> set IRQ_ID_PRIORITY" using assms(2) unfolding priority_ids by auto
  have "irq_mode ?s \<noteq> IRQ_MODE_RND" by (simp add: irq_state_start_def IRQ_MODE_RND_def)
  then obtain u where u: "test2 core (test1 ?s) = test2_loop core IRQ_ID_PRIORITY u" "irq_ready u"
    "irq_pending32_std u = 0xFFFFFFFF" "csr_mie u = 0xFFFFFFFF" "irq_to_test32_std u = 0"
    using test2_start [of ?s core] by (auto simp: irq_state_start_def)
  have "\<forall>i \<in> set IRQ_ID_PRIORITY. bit (irq_pending32_std u) i" unfolding u(3) bit_all_u32 by (auto simp: priority_ids)
  from test2_loop_verdict [OF u(2) distinct_priority(1) order_refl this, of core] priority_core_order u(3,4)
  obtain t where t: "test2_loop core IRQ_ID_PRIORITY u = Passed t" "irq_ready t" "irq_frame u t" by (auto simp: c)
  then have "irq_mode t \<noteq> IRQ_MODE_RND" "irq_to_test32_std t = 0" using u(5) by (simp_all add: irq_ready_def irq_frame_def)
  from test3_passes [OF this] obtain v where "test3 core rnds_ie rnds_irq t = Passed v" unfolding c by blast
  moreover obtain w where "test5 irqs v = Passed w" using test5_passes [OF irqs] by blast
  ultimately show ?thesis by (simp add: irq_main_def u(1) t(1))
qed

theorem interrupt_test_passes_witness:
  "irq_main priority_core (\<lambda>i. of_nat i) (\<lambda>i. of_nat (3 * i)) [(0x80, 7)] (irq_state_start 0x1800 0 (\<lambda>_. 0)) = Returned 0"
  by (rule interrupt_test_passes) (simp_all add: priority_core_def documented_priority_def)

end
