(* ===== verification/Fp_Test.thy ===== *)
theory Fp_Test
  imports Firmware
begin

text \<open>
  \<^verbatim>\<open>custom_fp/main.c\<close> and \<^verbatim>\<open>custom_fp/matmulNxN.c\<close>: a product of matrices in single precision, compared with
  stored results. A finite single-precision number is an integer, in units of the least positive one
  (\<open>2\<^sup>-\<^sup>1\<^sup>4\<^sup>9\<close>); infinities and NaN are \<open>None\<close>, and the sign of a zero is dropped, which \<^verbatim>\<open>!=\<close> does not see
  either. C lets the compiler contract a product and a sum to one rounding; \<open>contract\<close> says whether it
  does. Messages are left out.
\<close>

section \<open>Single precision\<close>

type_synonym f32 = "int option"

function bit_length :: "int \<Rightarrow> nat" where
  "bit_length n = (if n \<le> 0 then 0 else Suc (bit_length (n div 2)))"
  by auto
termination
  by (relation "measure nat") auto

declare bit_length.simps [simp del]

text \<open>The same, eight bits at a time, for evaluation.\<close>

lemma bit_length_step: "0 < n \<Longrightarrow> bit_length n = Suc (bit_length (n div 2))"
  by (subst bit_length.simps) simp

lemma bit_length_byte: "2 ^ 8 \<le> n \<Longrightarrow> bit_length n = 8 + bit_length (n div 2 ^ 8)"
  by (simp add: bit_length_step [of n] bit_length_step [of "n div _"] div_mult2_eq [symmetric] zdiv_zmult2_eq [symmetric])

lemma bit_length_code [code]:
  "bit_length n = (if 2 ^ 8 \<le> n then 8 + bit_length (n div 2 ^ 8) else if n \<le> 0 then 0 else Suc (bit_length (n div 2)))"
  using bit_length_byte [of n] bit_length_step [of n] bit_length.simps [of n] by simp

text \<open>
  \<open>n\<close> in units of \<open>2\<^sup>-\<^sup>(\<^sup>1\<^sup>4\<^sup>9 \<^sup>+ \<^sup>k\<^sup>)\<close>, rounded to the nearest number of 24 bits, ties to even; from \<open>2\<^sup>1\<^sup>2\<^sup>8\<close> on it is infinite.
\<close>

definition round_shift :: "nat \<Rightarrow> int \<Rightarrow> nat" where
  "round_shift k n = max k (bit_length \<bar>n\<bar> - 24)"

definition round_f32 :: "nat \<Rightarrow> int \<Rightarrow> f32" where
  "round_f32 k n =
     (let a = \<bar>n\<bar>;
          sh = round_shift k n;
          q = drop_bit sh a;
          r = take_bit sh a;
          q = (if 2 * r > 2 ^ sh \<or> 2 * r = 2 ^ sh \<and> odd q then q + 1 else q);
          m = push_bit (sh - k) q
      in if m \<ge> 2 ^ 277 then None else Some (if n < 0 then - m else m))"

text \<open>The literal \<open>p / q\<close>, with 63 bits below the least unit and a sticky bit.\<close>

definition f32_lit :: "int \<Rightarrow> int \<Rightarrow> f32" where
  "f32_lit p q = round_f32 64 (2 * (push_bit 212 p div q) + (if q dvd push_bit 212 p then 0 else 1))"

definition f32_neg :: "f32 \<Rightarrow> f32" where
  "f32_neg x = map_option uminus x"

definition f32_add :: "f32 \<Rightarrow> f32 \<Rightarrow> f32" where
  "f32_add x y = Option.bind x (\<lambda>x. Option.bind y (\<lambda>y. round_f32 0 (x + y)))"

definition f32_sub :: "f32 \<Rightarrow> f32 \<Rightarrow> f32" where
  "f32_sub x y = f32_add x (f32_neg y)"

definition f32_mul :: "f32 \<Rightarrow> f32 \<Rightarrow> f32" where
  "f32_mul x y = Option.bind x (\<lambda>x. Option.bind y (\<lambda>y. round_f32 149 (x * y)))"

text \<open>\<open>z + x * y\<close>, rounded twice or, contracted, once.\<close>

definition f32_mul_add :: "bool \<Rightarrow> f32 \<Rightarrow> f32 \<Rightarrow> f32 \<Rightarrow> f32" where
  "f32_mul_add contract z x y =
     (if contract
      then Option.bind z (\<lambda>z. Option.bind x (\<lambda>x. Option.bind y (\<lambda>y. round_f32 149 (push_bit 149 z + x * y))))
      else f32_add z (f32_mul x y))"

section \<open>The program\<close>

definition matmulNxN :: "bool \<Rightarrow> f32 list \<Rightarrow> f32 list \<Rightarrow> nat \<Rightarrow> f32 list" where
  "matmulNxN contract matA matB n =
     concat (map (\<lambda>i. map (\<lambda>j.
       foldl (\<lambda>tot k. f32_mul_add contract tot (matA ! (i * n + k)) (matB ! (k * n + j))) (Some 0) [0..<n]) [0..<n]) [0..<n])"

definition FP_N :: nat where "FP_N = 5"

text \<open>The loop that fills the operands: one row of each matrix at a time.\<close>

fun fill_rows :: "nat \<Rightarrow> f32 \<Rightarrow> f32 \<Rightarrow> f32 \<Rightarrow> f32 list \<times> f32 list" where
  "fill_rows 0 tmpA tmpB tmpC = ([], [])"
| "fill_rows (Suc i) tmpA tmpB tmpC =
     (let (as, bs) = fill_rows i (f32_sub tmpA tmpC) (f32_add tmpB tmpC) tmpC
      in (replicate FP_N tmpA @ as, replicate FP_N tmpB @ bs))"

definition matC_ref :: "f32 list" where
  "matC_ref =
     replicate FP_N (f32_lit 1422150115966796875 10000000000000000) @
     replicate FP_N (f32_neg (f32_lit 1367260009765625 1000000000000)) @
     replicate FP_N (f32_neg (f32_lit 28767353515625 10000000000)) @
     replicate FP_N (f32_neg (f32_lit 43862109375 10000000)) @
     replicate FP_N (f32_neg (f32_lit 5895685546875 1000000000))"

definition fp_errors :: "bool \<Rightarrow> int" where
  "fp_errors contract =
     (let (matA, matB) = fill_rows FP_N (f32_lit 114 100) (f32_lit 75 100) (f32_lit 121 10);
          matC = matmulNxN contract matA matB FP_N
      in int (length (filter (\<lambda>i. matC_ref ! i \<noteq> matC ! i) [0..<FP_N * FP_N])))"

text \<open>\<open>stall\<close>: whether \<^verbatim>\<open>RANDOM_MEM_STALL\<close> is defined; the example has its own stall settings.\<close>

definition fp_activate_random_stall :: "firmware \<Rightarrow> firmware" where
  "fp_activate_random_stall s =
     foldl (\<lambda>s (i, v). mmio_write (rnd_stall_reg_ptr i) v s) s
       [(1, 0x01), (0, 0x01), (5, 0x05), (7, 0x05), (9, 0x05), (4, 0x05), (6, 0x05), (8, 0x05), (3, 0x02), (2, 0x02)]"

definition fp_main :: "bool \<Rightarrow> bool \<Rightarrow> firmware \<Rightarrow> int \<times> firmware" where
  "fp_main stall contract s =
     (let s = (if stall then fp_activate_random_stall s else s);
          error = fp_errors contract
      in (if error \<noteq> 0 then error else 0, s))"

section \<open>Matrices with constant rows\<close>

lemma nth_concat_replicate:
  assumes "i < length xs" "k < n"
  shows "concat (map (replicate n) xs) ! (i * n + k) = xs ! i"
  using assms
proof (induction xs arbitrary: i)
  case (Cons x xs)
  then show ?case by (cases i) (simp_all add: nth_append algebra_simps)
qed simp

definition mul_rows :: "bool \<Rightarrow> f32 list \<Rightarrow> f32 \<Rightarrow> f32" where
  "mul_rows contract bs a = foldl (\<lambda>tot b. f32_mul_add contract tot a b) (Some 0) bs"

lemma foldl_nth: "foldl (\<lambda>t k. f t (xs ! k)) z [0..<length xs] = foldl f z xs"
  using foldl_map [of f z "nth xs" "[0..<length xs]"] by (simp add: map_nth)

lemma matmul_rows:
  assumes "length as = n" "length bs = n"
  shows "matmulNxN contract (concat (map (replicate n) as)) (concat (map (replicate n) bs)) n =
     concat (map (\<lambda>a. replicate n (mul_rows contract bs a)) as)"
proof -
  have "foldl (\<lambda>tot k. f32_mul_add contract tot (concat (map (replicate n) as) ! (i * n + k)) (concat (map (replicate n) bs) ! (k * n + j)))
      (Some 0) [0..<n] = mul_rows contract bs (as ! i)" if "i < n" "j < n" for i j
  proof -
    have "foldl (\<lambda>tot k. f32_mul_add contract tot (concat (map (replicate n) as) ! (i * n + k)) (concat (map (replicate n) bs) ! (k * n + j)))
        (Some 0) [0..<n] = foldl (\<lambda>tot k. f32_mul_add contract tot (as ! i) (bs ! k)) (Some 0) [0..<n]"
      using that assms by (intro foldl_cong) (simp_all add: nth_concat_replicate)
    with foldl_nth [of "\<lambda>t b. f32_mul_add contract t (as ! i) b" bs] assms(2) show ?thesis by (simp add: mul_rows_def)
  qed
  then have "matmulNxN contract (concat (map (replicate n) as)) (concat (map (replicate n) bs)) n =
      concat (map (\<lambda>i. map (\<lambda>j. mul_rows contract bs (as ! i)) [0..<n]) [0..<n])"
    unfolding matmulNxN_def by (intro arg_cong [of _ _ concat] map_cong) auto
  also have "\<dots> = concat (map (\<lambda>a. map (\<lambda>j. mul_rows contract bs a) [0..<n]) (map (nth as) [0..<n]))" by (simp add: comp_def)
  also have "map (nth as) [0..<n] = as" using assms(1) map_nth [of as] by simp
  finally show ?thesis by (simp add: map_replicate_const)
qed

lemma filter_nth_zip:
  assumes "length xs = length ys"
  shows "length (filter (\<lambda>i. P (xs ! i) (ys ! i)) [0..<length xs]) = length (filter (\<lambda>(x, y). P x y) (zip xs ys))"
proof -
  have "map (\<lambda>i. (xs ! i, ys ! i)) [0..<length xs] = zip xs ys"
    using assms by (intro nth_equalityI) simp_all
  then have "filter (\<lambda>(x, y). P x y) (zip xs ys) =
      map (\<lambda>i. (xs ! i, ys ! i)) (filter (\<lambda>i. P (xs ! i) (ys ! i)) [0..<length xs])"
    by (metis (mono_tags, lifting) case_prod_conv comp_apply filter_cong filter_map)
  then show ?thesis by simp
qed

lemma zip_concat_replicate:
  assumes "length xs = length ys"
  shows "zip (concat (map (replicate n) xs)) (concat (map (replicate n) ys)) = concat (map (replicate n) (zip xs ys))"
  using assms by (induction xs ys rule: list_induct2) (simp_all add: zip_append zip_replicate)

lemma length_filter_blocks: "length (filter P (concat (map (replicate n) xs))) = n * length (filter P xs)"
  by (induction xs) (simp_all add: filter_replicate)

lemma length_blocks: "length (concat (map (replicate n) xs)) = length xs * n"
  by (induction xs) simp_all

lemma errors_in_rows:
  assumes "length xs = length ys"
  shows "length (filter (\<lambda>i. concat (map (replicate n) xs) ! i \<noteq> concat (map (replicate n) ys) ! i) [0..<length xs * n]) =
     n * length (filter (\<lambda>(x, y). x \<noteq> y) (zip xs ys))"
  using filter_nth_zip [of "concat (map (replicate n) xs)" "concat (map (replicate n) ys)" "(\<noteq>)"] assms
  by (simp only: length_blocks zip_concat_replicate length_filter_blocks)

section \<open>Rounding\<close>

lemma round_f32_nearest:
  assumes "round_f32 k n = Some m"
  shows "2 * \<bar>m * 2 ^ k - n\<bar> \<le> 2 ^ round_shift k n"
proof -
  define sh q r where "sh = round_shift k n" and "q = drop_bit sh \<bar>n\<bar>" and "r = take_bit sh \<bar>n\<bar>"
  have n: "\<bar>n\<bar> = q * 2 ^ sh + r" unfolding q_def r_def push_bit_eq_mult [symmetric] by (rule bits_ident [symmetric])
  have r: "0 \<le> r" "r < 2 ^ sh" by (simp_all add: r_def)
  define q' where "q' = (if 2 * r > 2 ^ sh \<or> 2 * r = 2 ^ sh \<and> odd q then q + 1 else q)"
  have near: "2 * \<bar>q' * 2 ^ sh - \<bar>n\<bar>\<bar> \<le> 2 ^ sh"
    using r unfolding n q'_def by (auto simp: algebra_simps)
  have "k \<le> sh" by (simp add: sh_def round_shift_def)
  then have pow: "push_bit (sh - k) q' * 2 ^ k = q' * 2 ^ sh" by (simp add: push_bit_eq_mult power_add [symmetric])
  have "round_f32 k n = (if push_bit (sh - k) q' \<ge> 2 ^ 277 then None
      else Some (if n < 0 then - push_bit (sh - k) q' else push_bit (sh - k) q'))"
    unfolding round_f32_def Let_def q'_def q_def r_def sh_def by (rule refl)
  then have "m = (if n < 0 then - push_bit (sh - k) q' else push_bit (sh - k) q')"
    using assms by (simp split: if_splits)
  then have "\<bar>m * 2 ^ k - n\<bar> = \<bar>q' * 2 ^ sh - \<bar>n\<bar>\<bar>" using pow by (cases "n < 0") (simp_all, linarith?)
  with near show ?thesis by (simp add: sh_def)
qed

section \<open>Exact results\<close>

lemma bit_length_le: "n < 2 ^ m \<Longrightarrow> bit_length n \<le> m"
proof (induction m arbitrary: n)
  case 0
  then show ?case by (simp add: bit_length.simps)
next
  case (Suc m)
  then have "bit_length (n div 2) \<le> m" by (intro Suc.IH) simp
  then show ?case by (subst bit_length.simps) simp
qed

lemma bit_length_scale: "0 < n \<Longrightarrow> bit_length (n * 2 ^ e) = bit_length n + e"
proof (induction e)
  case (Suc e)
  have "n * 2 ^ Suc e div 2 = n * 2 ^ e" "0 < n * 2 ^ Suc e" using Suc.prems by simp_all
  then show ?case using Suc by (simp only: bit_length_step [of "n * 2 ^ Suc e"] add_Suc_right)
qed simp

text \<open>A number of 24 bits, scaled by a power of two that is not below the unit, is not rounded.\<close>

lemma round_exact:
  assumes "\<bar>x\<bar> < 2 ^ 24" "k \<le> e" "e - k < 253"
  shows "round_f32 k (x * 2 ^ e) = Some (x * 2 ^ (e - k))"
proof -
  define sh where "sh = round_shift k (x * 2 ^ e)"
  have abs: "\<bar>x * 2 ^ e\<bar> = \<bar>x\<bar> * 2 ^ e" by (simp add: abs_mult)
  have sh: "k \<le> sh" "sh \<le> e"
  proof -
    have "bit_length (\<bar>x\<bar> * 2 ^ e) - 24 \<le> e"
    proof (cases "x = 0")
      case False
      then show ?thesis using bit_length_scale [of "\<bar>x\<bar>" e] bit_length_le [OF assms(1)] by simp
    qed (simp add: bit_length.simps)
    then show "k \<le> sh" "sh \<le> e" using assms(2) unfolding sh_def round_shift_def abs by simp_all
  qed
  have split: "\<bar>x\<bar> * 2 ^ e = \<bar>x\<bar> * 2 ^ (e - sh) * 2 ^ sh" using sh by (simp add: power_add [symmetric])
  have q: "drop_bit sh \<bar>x * 2 ^ e\<bar> = \<bar>x\<bar> * 2 ^ (e - sh)" and r: "take_bit sh \<bar>x * 2 ^ e\<bar> = 0"
    unfolding abs split by (simp_all add: drop_bit_eq_div take_bit_eq_mod)
  have m: "push_bit (sh - k) (\<bar>x\<bar> * 2 ^ (e - sh)) = \<bar>x\<bar> * 2 ^ (e - k)"
    using sh by (simp add: push_bit_eq_mult power_add [symmetric])
  have "\<bar>x\<bar> * 2 ^ (e - k) < 2 ^ 24 * 2 ^ (e - k)" using assms(1) by simp
  also have "\<dots> = (2 :: int) ^ (24 + (e - k))" by (simp only: power_add)
  also have "\<dots> \<le> 2 ^ 277" using assms(3) by (intro power_increasing) simp_all
  finally have small: "\<not> 2 ^ 277 \<le> \<bar>x\<bar> * 2 ^ (e - k)" by simp
  have neg: "x * 2 ^ e < 0 \<longleftrightarrow> x < 0" by (simp add: mult_less_0_iff)
  have down: "(if 2 * 0 > (2 :: int) ^ sh \<or> 2 * 0 = (2 :: int) ^ sh \<and> odd y then y + 1 else y) = y" for y :: int by simp
  show ?thesis
    unfolding round_f32_def Let_def sh_def [symmetric] q r neg down m using small by (cases "x < 0") simp_all
qed

lemma f32_mul_add_exact:
  assumes "\<bar>s\<bar> + \<bar>a * b\<bar> < 2 ^ 24" "149 \<le> p + q" "p + q < 402"
  shows "f32_mul_add contract (Some (s * 2 ^ (p + q - 149))) (Some (a * 2 ^ p)) (Some (b * 2 ^ q)) =
    Some ((s + a * b) * 2 ^ (p + q - 149))"
proof -
  have small: "\<bar>a * b\<bar> < 2 ^ 24" "\<bar>s + a * b\<bar> < 2 ^ 24" using assms(1) by linarith+
  have prod: "a * 2 ^ p * (b * 2 ^ q) = a * b * 2 ^ (p + q)" by (simp add: power_add algebra_simps)
  have "push_bit 149 (s * 2 ^ (p + q - 149)) = s * 2 ^ (p + q)"
    unfolding push_bit_eq_mult mult.assoc power_add [symmetric] using assms(2) by (simp only: le_add_diff_inverse2)
  then have fused: "push_bit 149 (s * 2 ^ (p + q - 149)) + a * b * 2 ^ (p + q) = (s + a * b) * 2 ^ (p + q)"
    by (simp add: algebra_simps)
  have sum: "s * 2 ^ (p + q - 149) + a * b * 2 ^ (p + q - 149) = (s + a * b) * 2 ^ (p + q - 149)" by (simp add: algebra_simps)
  have e: "p + q - 149 < 253" using assms(3) by simp
  show ?thesis
    using round_exact [OF small(1) assms(2) e] round_exact [OF small(2) assms(2) e] round_exact [OF small(2), of 0 "p + q - 149"] e
    by (cases contract) (simp_all only: f32_mul_add_def f32_mul_def f32_add_def fused prod sum if_True if_False bind.bind_lunit diff_zero le0 simp_thms)
qed

lemma row_exact:
  assumes "(\<Sum>k<m. \<bar>f k * g k\<bar>) < 2 ^ 24" "149 \<le> p + q" "p + q < 402"
  shows "foldl (\<lambda>tot k. f32_mul_add contract tot (Some (f k * 2 ^ p)) (Some (g k * 2 ^ q))) (Some 0) [0..<m] =
    Some ((\<Sum>k<m. f k * g k) * 2 ^ (p + q - 149))"
  using assms(1)
proof (induction m)
  case (Suc m)
  have "\<bar>\<Sum>k<m. f k * g k\<bar> \<le> (\<Sum>k<m. \<bar>f k * g k\<bar>)" by (rule sum_abs)
  moreover have "(\<Sum>k<m. \<bar>f k * g k\<bar>) + \<bar>f m * g m\<bar> < 2 ^ 24" using Suc.prems by simp
  ultimately have "\<bar>\<Sum>k<m. f k * g k\<bar> + \<bar>f m * g m\<bar> < 2 ^ 24" "(\<Sum>k<m. \<bar>f k * g k\<bar>) < 2 ^ 24" by linarith+
  with Suc.IH f32_mul_add_exact [OF _ assms(2,3)] show ?case by simp
qed simp

text \<open>An entry of a square matrix in row order.\<close>

lemma nth_rows:
  assumes "i < n" "j < (m :: nat)"
  shows "concat (map (\<lambda>i. map (f i) [0..<m]) [0..<n]) ! (i * m + j) = f i j"
  using assms
proof (induction n)
  case (Suc n)
  have len: "length (concat (map (\<lambda>i. map (f i) [0..<m]) [0..<n])) = n * m" by (induction n) simp_all
  show ?case
  proof (cases "i < n")
    case True
    have "i * m + j < Suc i * m" using Suc.prems(2) by simp
    also have "\<dots> \<le> n * m" using True by (intro mult_le_mono1) simp
    finally show ?thesis using Suc.IH [OF True Suc.prems(2)] len by (simp add: nth_append)
  next
    case False
    with Suc.prems have "i = n" by simp
    with Suc.prems(2) len show ?thesis by (simp add: nth_append)
  qed
qed simp

lemma index_bound: "i < n \<Longrightarrow> j < n \<Longrightarrow> i * n + j < n * (n :: nat)"
proof -
  assume "i < n" "j < n"
  then have "i * n + j < Suc i * n" by simp
  also have "\<dots> \<le> n * n" using \<open>i < n\<close> by (intro mult_le_mono1) simp
  finally show ?thesis .
qed

section \<open>The operands and the products\<close>

definition rows_A :: "f32 list" where
  "rows_A = map Some [9563013 * 2 ^ 126, - 11492393 * 2 ^ 129, - 6045041 * 2 ^ 131, - 1152123 * 2 ^ 134, - 6194463 * 2 ^ 132]"

definition rows_B :: "f32 list" where
  "rows_B = map Some [3 * 2 ^ 147, 6737101 * 2 ^ 130, 6540493 * 2 ^ 131, 2428109 * 2 ^ 133, 6442189 * 2 ^ 132]"

lemma operands:
  "fill_rows FP_N (f32_lit 114 100) (f32_lit 75 100) (f32_lit 121 10) =
     (concat (map (replicate FP_N) rows_A), concat (map (replicate FP_N) rows_B))"
  by code_simp

definition refs :: "f32 list" where
  "refs =
     [f32_lit 1422150115966796875 10000000000000000, f32_neg (f32_lit 1367260009765625 1000000000000),
      f32_neg (f32_lit 28767353515625 10000000000), f32_neg (f32_lit 43862109375 10000000),
      f32_neg (f32_lit 5895685546875 1000000000)]"

lemma refs_rows: "matC_ref = concat (map (replicate FP_N) refs)"
  by (simp add: matC_ref_def refs_def)

lemma length_rows: "length rows_A = FP_N" "length rows_B = FP_N" "length refs = FP_N"
  by (simp_all add: rows_A_def rows_B_def refs_def FP_N_def)

lemma errors_by_row:
  "fp_errors contract = int (FP_N * length (filter (\<lambda>(x, y). x \<noteq> y) (zip refs (map (mul_rows contract rows_B) rows_A))))"
proof -
  have "fp_errors contract = int (length (filter (\<lambda>i. concat (map (replicate FP_N) refs) ! i \<noteq>
      concat (map (replicate FP_N) (map (mul_rows contract rows_B) rows_A)) ! i) [0..<length refs * FP_N]))"
    unfolding fp_errors_def operands
    by (simp add: matmul_rows length_rows refs_rows Let_def comp_def)
  then show ?thesis by (subst (asm) errors_in_rows) (simp_all add: length_rows)
qed

lemma refs_value: "refs = map Some [9320203 * 2 ^ 133, - 5600297 * 2 ^ 137, - 2945777 * 2 ^ 139, - 561435 * 2 ^ 142, - 3018591 * 2 ^ 140]"
  by code_simp

text \<open>The sums of each row, evaluated: with two roundings per term, and with one.\<close>

lemma row_products:
  "mul_rows False rows_B (Some (9563013 * 2 ^ 126)) = Some (9320203 * 2 ^ 133)"
  "mul_rows False rows_B (Some (- 11492393 * 2 ^ 129)) = Some (- 5600297 * 2 ^ 137)"
  "mul_rows False rows_B (Some (- 6045041 * 2 ^ 131)) = Some (- 2945777 * 2 ^ 139)"
  "mul_rows False rows_B (Some (- 1152123 * 2 ^ 134)) = Some (- 561435 * 2 ^ 142)"
  "mul_rows False rows_B (Some (- 6194463 * 2 ^ 132)) = Some (- 3018591 * 2 ^ 140)"
  subgoal by code_simp
  subgoal by code_simp
  subgoal by code_simp
  subgoal by code_simp
  subgoal by code_simp
  done

lemma row_products_contracted:
  "mul_rows True rows_B (Some (9563013 * 2 ^ 126)) = Some (9320203 * 2 ^ 133)"
  "mul_rows True rows_B (Some (- 11492393 * 2 ^ 129)) = Some (- 5600297 * 2 ^ 137)"
  "mul_rows True rows_B (Some (- 6045041 * 2 ^ 131)) = Some (- 2945777 * 2 ^ 139)"
  "mul_rows True rows_B (Some (- 1152123 * 2 ^ 134)) = Some (- 8982959 * 2 ^ 138)"
  "mul_rows True rows_B (Some (- 6194463 * 2 ^ 132)) = Some (- 3018591 * 2 ^ 140)"
  subgoal by code_simp
  subgoal by code_simp
  subgoal by code_simp
  subgoal by code_simp
  subgoal by code_simp
  done

section \<open>Properties\<close>

text \<open>
  C39. The matrix product is exact where single precision allows it: for matrices of any size, the entries of
  one being multiples of a power of two and those of the other of another, such that the products of
  each row and column add up to less than 24 bits in absolute value (and the scale of the result is in
  range), the program computes the mathematical product, whether or not the compiler contracts products and
  sums. Integers are the case \<open>p = q = 149\<close>.
\<close>

theorem matmul_exact:
  assumes "length as = n * n" "length bs = n * n" and "149 \<le> p + q" "p + q < 402"
    and "\<And>i j. i < n \<Longrightarrow> j < n \<Longrightarrow> (\<Sum>k<n. \<bar>as ! (i * n + k) * bs ! (k * n + j)\<bar>) < 2 ^ 24"
  shows "length (matmulNxN contract (map (\<lambda>a. Some (a * 2 ^ p)) as) (map (\<lambda>b. Some (b * 2 ^ q)) bs) n) = n * n \<and>
    (\<forall>i < n. \<forall>j < n. matmulNxN contract (map (\<lambda>a. Some (a * 2 ^ p)) as) (map (\<lambda>b. Some (b * 2 ^ q)) bs) n ! (i * n + j) =
       Some ((\<Sum>k<n. as ! (i * n + k) * bs ! (k * n + j)) * 2 ^ (p + q - 149)))"
proof (intro conjI allI impI)
  let ?A = "map (\<lambda>a. Some (a * 2 ^ p)) as" and ?B = "map (\<lambda>b. Some (b * 2 ^ q)) bs"
  have len: "length (concat (map (\<lambda>i. map (f i) [0..<n]) [0..<m])) = m * n" for f :: "nat \<Rightarrow> nat \<Rightarrow> f32" and m
    by (induction m) simp_all
  show "length (matmulNxN contract ?A ?B n) = n * n" unfolding matmulNxN_def by (rule len)
  fix i j assume ij: "i < n" "j < n"
  have "matmulNxN contract ?A ?B n ! (i * n + j) =
      foldl (\<lambda>tot k. f32_mul_add contract tot (?A ! (i * n + k)) (?B ! (k * n + j))) (Some 0) [0..<n]"
    unfolding matmulNxN_def by (rule nth_rows [OF ij])
  also have "\<dots> = foldl (\<lambda>tot k. f32_mul_add contract tot (Some (as ! (i * n + k) * 2 ^ p)) (Some (bs ! (k * n + j) * 2 ^ q))) (Some 0) [0..<n]"
    using ij assms(1,2) index_bound by (intro foldl_cong) simp_all
  also have "\<dots> = Some ((\<Sum>k<n. as ! (i * n + k) * bs ! (k * n + j)) * 2 ^ (p + q - 149))"
    by (rule row_exact [OF assms(5) [OF ij] assms(3,4)])
  finally show "matmulNxN contract ?A ?B n ! (i * n + j) = Some ((\<Sum>k<n. as ! (i * n + k) * bs ! (k * n + j)) * 2 ^ (p + q - 149))" .
qed

theorem matmul_exact_witness:
  "\<forall>contract. matmulNxN contract (map (\<lambda>a. Some (a * 2 ^ 149)) [1, -2, 3, 4])
     (map (\<lambda>b. Some (b * 2 ^ 149)) [5, 6, 7, 8]) 2 ! 1 = Some (-10 * 2 ^ 149)"
proof
  fix contract
  have "(\<Sum>k<2. \<bar>[1, -2, 3, 4 :: int] ! (i * 2 + k) * [5, 6, 7, 8] ! (k * 2 + j)\<bar>) < 2 ^ 24" if "i < 2" "j < 2" for i j
  proof -
    have "i = 0 \<or> i = 1" "j = 0 \<or> j = 1" using that by auto
    then show ?thesis by (auto simp: numeral_2_eq_2 eval_nat_numeral)
  qed
  from matmul_exact [of "[1, -2, 3, 4]" 2 "[5, 6, 7, 8]" 149 149 contract, OF _ _ _ _ this]
  have "\<forall>i < 2. \<forall>j < 2. matmulNxN contract (map (\<lambda>a. Some (a * 2 ^ 149)) [1, -2, 3, 4]) (map (\<lambda>b. Some (b * 2 ^ 149)) [5, 6, 7, 8]) 2 ! (i * 2 + j) =
       Some ((\<Sum>k<2. [1, -2, 3, 4 :: int] ! (i * 2 + k) * [5, 6, 7, 8] ! (k * 2 + j)) * 2 ^ (149 + 149 - 149))" by simp
  from this [rule_format, of 0 1]
  show "matmulNxN contract (map (\<lambda>a. Some (a * 2 ^ 149)) [1, -2, 3, 4])
     (map (\<lambda>b. Some (b * 2 ^ 149)) [5, 6, 7, 8]) 2 ! 1 = Some (-10 * 2 ^ 149)" by (simp add: numeral_2_eq_2)
qed

text \<open>
  The example with its own operands: \<^verbatim>\<open>main\<close> returns 0 when every operation is rounded on its own. When
  the compiler contracts product and sum to fused operations, the stored results no longer hold: the
  fourth row differs, and \<^verbatim>\<open>main\<close> returns 5 on a correct core.
\<close>

theorem fp_main_verdict: "fst (fp_main stall False s) = 0 \<and> fst (fp_main stall True s) = 5"
  unfolding fp_main_def Let_def fst_conv errors_by_row refs_value rows_A_def list.map row_products row_products_contracted
  by (simp add: FP_N_def)

end
