(* ===== verification/Hwlp.thy ===== *)
theory Hwlp
  imports Prelude
begin

text \<open>
  \<^verbatim>\<open>hwlp_test/hwlp.h\<close> and \<^verbatim>\<open>hwlp_test/hwlp_test.c\<close>: test programs for the hardware loops of the core, written as
  inline assembly. Each macro is a list of instructions; the machine that runs them has the registers they
  name, a memory of aligned words, \<^verbatim>\<open>mcycle\<close> (which does not count after reset, as the header says) and the
  start, end and count registers of two loops. Program counters are byte offsets from the first
  instruction. The header takes the end of a loop to be its last instruction; the manual of the core
  (\<^verbatim>\<open>docs/source/corev_hw_loop.rst\<close>) and the core itself (\<^verbatim>\<open>cv32e40p_controller.sv\<close>, which compares it with \<^verbatim>\<open>pc + 4\<close>)
  the instruction after it: \<open>incl\<close> is the header's reading, its negation the core's. \<^verbatim>\<open>dret\<close>, \<^verbatim>\<open>ecall\<close> and \<^verbatim>\<open>ebreak\<close>
  trap to the handler of \<^verbatim>\<open>vectors.S\<close>, which continues after the instruction without touching the loops.
\<close>

section \<open>The machine\<close>

datatype reg = X0 | T0 | T1 | T2 | SP | RES

datatype lp = L0 | L1

datatype insn =
    Addi reg reg int | Add reg reg reg | Mul reg reg reg | Div reg reg reg | Mv reg reg
  | Lw reg int reg | Sw reg int reg | Csrrw_mcycle reg reg | Dret | Ecall | Ebreak | Fence_i
  | Lp_setupi lp nat nat | Lp_setup lp reg nat | Lp_starti lp nat | Lp_endi lp nat | Lp_counti lp nat | Lp_count lp reg

record hw_data =
  gpr :: "reg \<Rightarrow> u32"
  dmem :: "u32 \<Rightarrow> u32"
  mcycle :: u32

record hw_state =
  pc :: nat
  dat :: hw_data
  lstart :: "lp \<Rightarrow> nat"
  lend :: "lp \<Rightarrow> nat"
  lcount :: "lp \<Rightarrow> nat"

definition rget :: "reg \<Rightarrow> hw_data \<Rightarrow> u32" where
  "rget r d = (if r = X0 then 0 else gpr d r)"

definition rset :: "reg \<Rightarrow> u32 \<Rightarrow> hw_data \<Rightarrow> hw_data" where
  "rset r v d = (if r = X0 then d else d\<lparr>gpr := (gpr d)(r := v)\<rparr>)"

definition rv_div :: "u32 \<Rightarrow> u32 \<Rightarrow> u32" where
  "rv_div a b =
     (if b = 0 then -1 else word_of_int (sgn (sint a) * sgn (sint b) * (\<bar>sint a\<bar> div \<bar>sint b\<bar>)))"

fun hw_exec :: "insn \<Rightarrow> hw_data \<Rightarrow> hw_data" where
  "hw_exec (Addi rd rs imm) d = rset rd (rget rs d + of_int imm) d"
| "hw_exec (Add rd rs1 rs2) d = rset rd (rget rs1 d + rget rs2 d) d"
| "hw_exec (Mul rd rs1 rs2) d = rset rd (rget rs1 d * rget rs2 d) d"
| "hw_exec (Div rd rs1 rs2) d = rset rd (rv_div (rget rs1 d) (rget rs2 d)) d"
| "hw_exec (Mv rd rs) d = rset rd (rget rs d) d"
| "hw_exec (Lw rd off rs) d = rset rd (dmem d (rget rs d + of_int off)) d"
| "hw_exec (Sw r off rs) d = d\<lparr>dmem := (dmem d)(rget rs d + of_int off := rget r d)\<rparr>"
| "hw_exec (Csrrw_mcycle rd rs) d = (rset rd (mcycle d) d)\<lparr>mcycle := rget rs d\<rparr>"
| "hw_exec _ d = d"

text \<open>What the loop instructions write, at address \<open>p\<close>.\<close>

definition set_loop :: "lp \<Rightarrow> nat \<Rightarrow> nat \<Rightarrow> nat \<Rightarrow> hw_state \<Rightarrow> hw_state" where
  "set_loop l a b c s =
     s\<lparr>lstart := (lstart s)(l := a), lend := (lend s)(l := b), lcount := (lcount s)(l := c)\<rparr>"

fun hw_loops :: "insn \<Rightarrow> nat \<Rightarrow> hw_state \<Rightarrow> hw_state" where
  "hw_loops (Lp_setupi l n u) p s = set_loop l (p + 4) (p + u) n s"
| "hw_loops (Lp_setup l r u) p s = set_loop l (p + 4) (p + u) (unat (rget r (dat s))) s"
| "hw_loops (Lp_starti l u) p s = s\<lparr>lstart := (lstart s)(l := p + u)\<rparr>"
| "hw_loops (Lp_endi l u) p s = s\<lparr>lend := (lend s)(l := p + u)\<rparr>"
| "hw_loops (Lp_counti l n) p s = s\<lparr>lcount := (lcount s)(l := n)\<rparr>"
| "hw_loops (Lp_count l r) p s = s\<lparr>lcount := (lcount s)(l := unat (rget r (dat s)))\<rparr>"
| "hw_loops _ p s = s"

fun is_loop :: "insn \<Rightarrow> bool" where
  "is_loop (Lp_setupi l n u) = True"
| "is_loop (Lp_setup l r u) = True"
| "is_loop (Lp_starti l u) = True"
| "is_loop (Lp_endi l u) = True"
| "is_loop (Lp_counti l n) = True"
| "is_loop (Lp_count l r) = True"
| "is_loop _ = False"

definition is_trap :: "insn \<Rightarrow> bool" where
  "is_trap i \<longleftrightarrow> i = Dret \<or> i = Ecall \<or> i = Ebreak"

text \<open>
  After the instruction at \<open>p\<close>: a loop that ends here counts down, and jumps back while it was above
  one; loop 0 comes first.
\<close>

definition at_end :: "bool \<Rightarrow> hw_state \<Rightarrow> lp \<Rightarrow> nat \<Rightarrow> bool" where
  "at_end incl s l p \<longleftrightarrow> lend s l = (if incl then p else p + 4)"

definition hw_advance :: "bool \<Rightarrow> nat \<Rightarrow> hw_state \<Rightarrow> hw_state" where
  "hw_advance incl p s =
     s\<lparr>pc := (if at_end incl s L0 p \<and> lcount s L0 > 1 then lstart s L0
              else if at_end incl s L1 p \<and> lcount s L1 > 1 then lstart s L1
              else p + 4),
       lcount := (\<lambda>l. if at_end incl s l p then lcount s l - 1 else lcount s l)\<rparr>"

definition hw_step :: "bool \<Rightarrow> insn list \<Rightarrow> hw_state \<Rightarrow> hw_state" where
  "hw_step incl prog s =
     (if pc s < 4 * length prog then
        (let p = pc s;
             i = prog ! (p div 4);
             s = hw_loops i p s;
             s = s\<lparr>dat := hw_exec i (dat s)\<rparr>
         in if is_trap i then s\<lparr>pc := p + 4\<rparr> else hw_advance incl p s)
      else s)"

definition hw_start :: "hw_data \<Rightarrow> hw_state" where
  "hw_start d = \<lparr>pc = 0, dat = d, lstart = \<lambda>_. 0, lend = \<lambda>_. 0, lcount = \<lambda>_. 0\<rparr>"

section \<open>Reaching\<close>

definition reaches :: "bool \<Rightarrow> insn list \<Rightarrow> hw_state \<Rightarrow> hw_state \<Rightarrow> bool" where
  "reaches incl prog s t \<longleftrightarrow> (\<exists>k. (hw_step incl prog ^^ k) s = t)"

lemma reaches_refl: "reaches incl prog s s"
  unfolding reaches_def by (rule exI [of _ 0]) simp

lemma reaches_step: "reaches incl prog s (hw_step incl prog s)"
  unfolding reaches_def by (rule exI [of _ 1]) simp

lemma reaches_trans:
  assumes "reaches incl prog s t" "reaches incl prog t u"
  shows "reaches incl prog s u"
proof -
  from assms obtain j k where "(hw_step incl prog ^^ j) s = t" "(hw_step incl prog ^^ k) t = u" by (auto simp: reaches_def)
  then have "(hw_step incl prog ^^ (k + j)) s = u" by (simp add: funpow_add)
  then show ?thesis by (auto simp: reaches_def)
qed

section \<open>Straight-line code\<close>

lemma no_loop_insn: "\<not> is_loop i \<Longrightarrow> hw_loops i p s = s"
  by (cases i) simp_all

text \<open>No loop that is running ends in a range of addresses.\<close>

definition quiet :: "bool \<Rightarrow> hw_state \<Rightarrow> nat \<Rightarrow> nat \<Rightarrow> bool" where
  "quiet incl s a b \<longleftrightarrow> (\<forall>l p. a \<le> p \<longrightarrow> p < b \<longrightarrow> at_end incl s l p \<longrightarrow> lcount s l = 0)"

lemma quietD: "quiet incl s a b \<Longrightarrow> at_end incl s l p \<Longrightarrow> a \<le> p \<Longrightarrow> p < b \<Longrightarrow> lcount s l = 0"
  unfolding quiet_def by blast

lemma quiet_mono:
  assumes "quiet incl s a b" "a \<le> a'" "b' \<le> b"
  shows "quiet incl (s\<lparr>pc := p, dat := d\<rparr>) a' b'"
proof -
  have "lcount s l = 0" if "a' \<le> q" "q < b'" "lend s l = (if incl then q else q + 4)" for l q
    using that assms by (intro quietD [OF assms(1), of l q]) (simp_all add: at_end_def)
  then show ?thesis by (simp add: quiet_def at_end_def)
qed

lemma quiet_idle: "lcount s L0 = 0 \<Longrightarrow> lcount s L1 = 0 \<Longrightarrow> quiet incl s a b"
  unfolding quiet_def by (metis lp.exhaust)

lemma step_fetch:
  assumes "prog = pre @ i # post" "pc s = 4 * length pre"
  shows "hw_step incl prog s =
     (let s' = (hw_loops i (pc s) s)\<lparr>dat := hw_exec i (dat s)\<rparr>
      in if is_trap i then s'\<lparr>pc := pc s + 4\<rparr> else hw_advance incl (pc s) s')"
proof -
  have "dat (hw_loops i p s) = dat s" for p by (cases i) (simp_all add: set_loop_def)
  then show ?thesis using assms by (simp add: hw_step_def Let_def)
qed

lemma advance_dat: "hw_advance incl p (s\<lparr>dat := d\<rparr>) = (hw_advance incl p s)\<lparr>dat := d\<rparr>"
  by (cases s) (simp add: hw_advance_def at_end_def cong: if_cong)

lemma step_quiet:
  assumes "prog = pre @ i # post" "pc s = 4 * length pre" "\<not> is_loop i" "quiet incl s (pc s) (pc s + 4)"
  shows "hw_step incl prog s = s\<lparr>pc := pc s + 4, dat := hw_exec i (dat s)\<rparr>"
proof -
  have q: "at_end incl s l (pc s) \<Longrightarrow> lcount s l = 0" for l using quietD [OF assms(4)] by simp
  then have "(\<lambda>l. if at_end incl s l (pc s) then lcount s l - 1 else lcount s l) = lcount s" by (auto simp: fun_eq_iff)
  with q have "hw_advance incl (pc s) s = s\<lparr>pc := pc s + 4\<rparr>"
    unfolding hw_advance_def using q [of L0] q [of L1] by auto
  then show ?thesis using step_fetch [OF assms(1,2)] assms(3) by (simp add: no_loop_insn Let_def advance_dat)
qed

lemma run_straight:
  assumes "prog = pre @ xs @ post" "pc s = 4 * length pre" "list_all (\<lambda>i. \<not> is_loop i) xs"
    "quiet incl s (pc s) (pc s + 4 * length xs)"
  shows "reaches incl prog s (s\<lparr>pc := pc s + 4 * length xs, dat := fold hw_exec xs (dat s)\<rparr>)"
  using assms
proof (induction xs arbitrary: pre s)
  case Nil
  show ?case using reaches_refl by simp
next
  case (Cons i xs)
  let ?t = "s\<lparr>pc := pc s + 4, dat := hw_exec i (dat s)\<rparr>"
  have "quiet incl s (pc s) (pc s + 4)"
    using quiet_mono [OF Cons.prems(4), where p = "pc s" and d = "dat s" and a' = "pc s" and b' = "pc s + 4"] by simp
  then have "hw_step incl prog s = ?t"
    using Cons.prems(1-3) by (intro step_quiet [of prog pre i "xs @ post"]) simp_all
  then have "reaches incl prog s ?t" using reaches_step [of incl prog s] by simp
  moreover have "reaches incl prog ?t (?t\<lparr>pc := pc ?t + 4 * length xs, dat := fold hw_exec xs (dat ?t)\<rparr>)"
    using Cons.prems by (intro Cons.IH [of "pre @ [i]"]) (auto intro!: quiet_mono [OF Cons.prems(4)])
  ultimately show ?case by (auto dest: reaches_trans simp: add.assoc add.commute)
qed

section \<open>Loops\<close>

lemma step_end:
  assumes "prog = pre @ i # post" "pc s = 4 * length pre" "\<not> is_loop i" "\<not> is_trap i" "at_end incl s l (pc s)"
    "\<And>l'. l' \<noteq> l \<Longrightarrow> at_end incl s l' (pc s) \<Longrightarrow> lcount s l' = 0"
  shows "hw_step incl prog s =
     s\<lparr>pc := (if lcount s l > 1 then lstart s l else pc s + 4), lcount := (lcount s)(l := lcount s l - 1),
       dat := hw_exec i (dat s)\<rparr>"
proof -
  have "(\<lambda>l'. if at_end incl s l' (pc s) then lcount s l' - 1 else lcount s l') = (lcount s)(l := lcount s l - 1)"
    using assms(5,6) by (auto simp: fun_eq_iff)
  moreover have "(if at_end incl s L0 (pc s) \<and> lcount s L0 > 1 then lstart s L0
      else if at_end incl s L1 (pc s) \<and> lcount s L1 > 1 then lstart s L1 else pc s + 4) =
      (if lcount s l > 1 then lstart s l else pc s + 4)"
    using assms(5) assms(6) [of L0] assms(6) [of L1] by (cases l) auto
  ultimately have "hw_advance incl (pc s) s =
      s\<lparr>pc := (if lcount s l > 1 then lstart s l else pc s + 4), lcount := (lcount s)(l := lcount s l - 1)\<rparr>"
    unfolding hw_advance_def by simp
  then show ?thesis using step_fetch [OF assms(1,2)] assms(3,4) by (simp add: no_loop_insn Let_def advance_dat)
qed

text \<open>
  The principle of a loop: when every pass applies \<open>F\<close> to the data and counts down, the loop applies it
  as often as its count says, and once when the count is zero.
\<close>

lemma loop_iterate:
  assumes again: "\<And>u. I u \<Longrightarrow> lcount u l > 1 \<Longrightarrow> \<exists>v. reaches incl prog u v \<and> I v \<and> lcount v l = lcount u l - 1 \<and> dat v = F (dat u)"
    and leave: "\<And>u. I u \<Longrightarrow> lcount u l \<le> 1 \<Longrightarrow> \<exists>v. reaches incl prog u v \<and> J v \<and> dat v = F (dat u)"
    and "I s"
  shows "\<exists>v. reaches incl prog s v \<and> J v \<and> dat v = (F ^^ max 1 (lcount s l)) (dat s)"
  using assms(3)
proof (induction "lcount s l" arbitrary: s rule: less_induct)
  case less
  show ?case
  proof (cases "lcount s l > 1")
    case True
    then obtain u where u: "reaches incl prog s u" "I u" "lcount u l = lcount s l - 1" "dat u = F (dat s)"
      using again less.prems by blast
    with less.hyps [of u] True obtain v where
      v: "reaches incl prog u v" "J v" "dat v = (F ^^ max 1 (lcount u l)) (dat u)" by auto
    have "max 1 (lcount s l) = Suc (max 1 (lcount u l))" using True u(3) by simp
    then have "dat v = (F ^^ max 1 (lcount s l)) (dat s)" using v(3) u(4) by (simp add: funpow_swap1)
    with u(1) v(1,2) show ?thesis by (blast intro: reaches_trans)
  next
    case False
    then show ?thesis using leave [OF less.prems] by (auto simp: max_def)
  qed
qed

text \<open>A loop body without loop instructions whose last instruction does not trap; other loops stay out of it.\<close>

definition loop_body :: "insn list \<Rightarrow> bool" where
  "loop_body body \<longleftrightarrow> body \<noteq> [] \<and> list_all (\<lambda>i. \<not> is_loop i) body \<and> \<not> is_trap (last body)"

definition others_quiet :: "bool \<Rightarrow> hw_state \<Rightarrow> lp \<Rightarrow> nat \<Rightarrow> nat \<Rightarrow> bool" where
  "others_quiet incl s l a b \<longleftrightarrow>
     (\<forall>l' p. l' \<noteq> l \<longrightarrow> a \<le> p \<longrightarrow> p < b \<longrightarrow> at_end incl s l' p \<longrightarrow> lcount s l' = 0)"

lemma others_quietD:
  "others_quiet incl s l a b \<Longrightarrow> at_end incl s l' p \<Longrightarrow> l' \<noteq> l \<Longrightarrow> a \<le> p \<Longrightarrow> p < b \<Longrightarrow> lcount s l' = 0"
  unfolding others_quiet_def by blast

lemma others_quiet_frame [simp]:
  "others_quiet incl (s\<lparr>pc := q, dat := d\<rparr>) l a b = others_quiet incl s l a b"
  "others_quiet incl (s\<lparr>lcount := (lcount s)(l := c), dat := d\<rparr>) l a b = others_quiet incl s l a b"
  by (auto simp: others_quiet_def at_end_def)

lemma others_quiet_L1: "lcount s L0 = 0 \<Longrightarrow> others_quiet incl s L1 a b"
  unfolding others_quiet_def by (metis lp.exhaust)

lemma run_pass:
  assumes "prog = pre @ body @ post" "loop_body body" "pc s = 4 * length pre"
    "at_end incl s l (pc s + 4 * (length body - 1))" "others_quiet incl s l (pc s) (pc s + 4 * length body)"
  shows "reaches incl prog s
     (s\<lparr>pc := (if lcount s l > 1 then lstart s l else pc s + 4 * length body), lcount := (lcount s)(l := lcount s l - 1),
        dat := fold hw_exec body (dat s)\<rparr>)"
proof -
  obtain xs i where body: "body = xs @ [i]" using assms(2) by (metis loop_body_def append_butlast_last_id)
  let ?t = "s\<lparr>pc := pc s + 4 * length xs, dat := fold hw_exec xs (dat s)\<rparr>"
  have "quiet incl s (pc s) (pc s + 4 * length xs)"
    unfolding quiet_def
  proof (intro allI impI)
    fix l' p assume p: "pc s \<le> p" "p < pc s + 4 * length xs" "at_end incl s l' p"
    then have "l' \<noteq> l" using assms(4) by (auto simp: at_end_def body split: if_splits)
    with p show "lcount s l' = 0" by (intro others_quietD [OF assms(5) p(3)]) (simp_all add: body)
  qed
  then have "reaches incl prog s ?t"
    using assms(1-3) by (intro run_straight [of prog pre xs "i # post"]) (simp_all add: body loop_body_def)
  moreover have "hw_step incl prog ?t =
      ?t\<lparr>pc := (if lcount ?t l > 1 then lstart ?t l else pc ?t + 4), lcount := (lcount ?t)(l := lcount ?t l - 1),
         dat := hw_exec i (dat ?t)\<rparr>"
  proof (rule step_end [of prog "pre @ xs" i post])
    show "at_end incl ?t l (pc ?t)" using assms(4) by (simp add: at_end_def body)
    show "lcount ?t l' = 0" if "l' \<noteq> l" "at_end incl ?t l' (pc ?t)" for l'
      using that by (intro others_quietD [of incl ?t l "pc s" "pc s + 4 * length body" l' "pc ?t"]) (simp_all add: assms(5), simp add: body)
  qed (use assms(1-3) in \<open>simp_all add: body loop_body_def\<close>)
  then have "reaches incl prog ?t
     (s\<lparr>pc := (if lcount s l > 1 then lstart s l else pc s + 4 * length body), lcount := (lcount s)(l := lcount s l - 1),
        dat := fold hw_exec body (dat s)\<rparr>)"
    using reaches_step [of incl prog ?t] by (simp add: body ac_simps cong: if_cong split del: if_split)
  ultimately show ?thesis by (rule reaches_trans)
qed

lemma run_loop:
  assumes "prog = pre @ body @ post" "loop_body body" "pc s = 4 * length pre" "lstart s l = pc s"
    "at_end incl s l (pc s + 4 * (length body - 1))" "others_quiet incl s l (pc s) (pc s + 4 * length body)"
  shows "reaches incl prog s
     (s\<lparr>pc := pc s + 4 * length body, lcount := (lcount s)(l := 0),
        dat := (fold hw_exec body ^^ max 1 (lcount s l)) (dat s)\<rparr>)"
proof -
  let ?at = "\<lambda>c d. s\<lparr>lcount := (lcount s)(l := c), dat := d\<rparr>"
  let ?done = "\<lambda>d. s\<lparr>pc := pc s + 4 * length body, lcount := (lcount s)(l := 0), dat := d\<rparr>"
  have pass: "reaches incl prog (?at c d)
      (s\<lparr>pc := (if c > 1 then pc s else pc s + 4 * length body), lcount := (lcount s)(l := c - 1),
         dat := fold hw_exec body d\<rparr>)" for c d
  proof -
    have "at_end incl (?at c d) l (pc (?at c d) + 4 * (length body - 1))" using assms(5) by (simp add: at_end_def)
    from run_pass [OF assms(1,2) _ this] show ?thesis using assms(3,4,6) by (simp cong: if_cong split del: if_split)
  qed
  have "\<exists>v. reaches incl prog s v \<and> (\<exists>d. v = ?done d) \<and> dat v = (fold hw_exec body ^^ max 1 (lcount s l)) (dat s)"
  proof (rule loop_iterate [where I = "\<lambda>u. \<exists>c d. u = ?at c d"])
    show "\<exists>c d. s = ?at c d" by (intro exI [of _ "lcount s l"] exI [of _ "dat s"]) simp
    fix u assume "\<exists>c d. u = ?at c d"
    then obtain c d where u: "u = ?at c d" by blast
    show "\<exists>v. reaches incl prog u v \<and> (\<exists>c d. v = ?at c d) \<and> lcount v l = lcount u l - 1 \<and> dat v = fold hw_exec body (dat u)"
      if "lcount u l > 1"
      using pass [where c = c and d = d] that by (intro exI [of _ "?at (c - 1) (fold hw_exec body d)"]) (auto simp: u)
    show "\<exists>v. reaches incl prog u v \<and> (\<exists>d. v = ?done d) \<and> dat v = fold hw_exec body (dat u)" if "lcount u l \<le> 1"
      using pass [where c = c and d = d] that by (intro exI [of _ "?done (fold hw_exec body d)"]) (auto simp: u)
  qed
  then show ?thesis by auto
qed

section \<open>Structured loops\<close>

text \<open>
  The specification: code, a loop, and a loop around a loop, whose meanings iterate. \<open>assemble\<close> lays a block out
  with the set-up instructions of the hardware; \<open>Pieces\<close> is a loop around a loop whose start, end and count registers
  are written one by one, the count of the inner loop through \<open>T0\<close>.
\<close>

datatype hw_count = Imm nat | Reg reg

datatype hw_block =
    Code "insn list"
  | Loop hw_count "insn list"
  | Nest hw_count "insn list" nat "insn list" "insn list"
  | Pieces nat int "insn list" "insn list" "insn list"

fun lp_setup :: "lp \<Rightarrow> hw_count \<Rightarrow> nat \<Rightarrow> insn" where
  "lp_setup l (Imm n) u = Lp_setupi l n u"
| "lp_setup l (Reg r) u = Lp_setup l r u"

fun count_of :: "hw_count \<Rightarrow> hw_data \<Rightarrow> nat" where
  "count_of (Imm n) d = n"
| "count_of (Reg r) d = unat (rget r d)"

definition end_bias :: "bool \<Rightarrow> nat" where
  "end_bias incl = (if incl then 0 else 4)"

fun assemble :: "bool \<Rightarrow> hw_block \<Rightarrow> insn list" where
  "assemble incl (Code xs) = xs"
| "assemble incl (Loop c ys) = lp_setup L1 c (4 * length ys + end_bias incl) # ys"
| "assemble incl (Nest c xs m ys zs) =
     lp_setup L1 c (4 * (length xs + 1 + length ys + length zs) + end_bias incl) #
     xs @ Lp_setupi L0 m (4 * length ys + end_bias incl) # ys @ zs"
| "assemble incl (Pieces n k xs ys zs) =
     [Lp_starti L1 16, Lp_counti L1 n, Lp_endi L1 (4 * (length xs + length ys + length zs + 4) + end_bias incl),
      Lp_starti L0 (4 * (length xs + 4)), Addi T0 X0 k, Lp_count L0 T0, Lp_endi L0 (4 * (length xs + length ys) + end_bias incl)] @
     xs @ ys @ zs"

fun block_ok :: "hw_block \<Rightarrow> bool" where
  "block_ok (Code xs) = list_all (\<lambda>i. \<not> is_loop i) xs"
| "block_ok (Loop c ys) = loop_body ys"
| "block_ok (Nest c xs m ys zs) = (list_all (\<lambda>i. \<not> is_loop i) xs \<and> loop_body ys \<and> loop_body zs)"
| "block_ok (Pieces n k xs ys zs) = (list_all (\<lambda>i. \<not> is_loop i) xs \<and> loop_body ys \<and> loop_body zs)"

definition nest_pass :: "insn list \<Rightarrow> nat \<Rightarrow> insn list \<Rightarrow> insn list \<Rightarrow> hw_data \<Rightarrow> hw_data" where
  "nest_pass xs m ys zs d = fold hw_exec zs ((fold hw_exec ys ^^ max 1 m) (fold hw_exec xs d))"

definition pieces_pass :: "int \<Rightarrow> insn list \<Rightarrow> insn list \<Rightarrow> insn list \<Rightarrow> hw_data \<Rightarrow> hw_data" where
  "pieces_pass k xs ys zs d =
     (let d = hw_exec (Addi T0 X0 k) d
      in fold hw_exec zs ((fold hw_exec ys ^^ max 1 (unat (rget T0 d))) (fold hw_exec xs d)))"

fun meaning :: "hw_block \<Rightarrow> hw_data \<Rightarrow> hw_data" where
  "meaning (Code xs) d = fold hw_exec xs d"
| "meaning (Loop c ys) d = (fold hw_exec ys ^^ max 1 (count_of c d)) d"
| "meaning (Nest c xs m ys zs) d = (nest_pass xs m ys zs ^^ max 1 (count_of c d)) d"
| "meaning (Pieces n k xs ys zs) d = (pieces_pass k xs ys zs ^^ max 1 n) d"

text \<open>Between two blocks: no loop is running, and the end registers point back.\<close>

definition idle :: "hw_state \<Rightarrow> nat \<Rightarrow> bool" where
  "idle s p \<longleftrightarrow> pc s = p \<and> lcount s L0 = 0 \<and> lcount s L1 = 0 \<and> lend s L0 \<le> p \<and> lend s L1 \<le> p"

lemma lp_setup_loops: "hw_loops (lp_setup l c u) p s = set_loop l (p + 4) (p + u) (count_of c (dat s)) s"
  by (cases c) simp_all

lemma lp_setup_exec: "hw_exec (lp_setup l c u) d = d" "\<not> is_trap (lp_setup l c u)"
  by (cases c; simp add: is_trap_def)+

text \<open>The set-up instruction itself.\<close>

lemma step_setup:
  assumes "prog = pre @ lp_setup l c (4 * n + end_bias incl) # post" "pc s = 4 * length pre" "n > 0"
    "others_quiet incl s l (pc s) (pc s + 4)"
  shows "hw_step incl prog s =
     (set_loop l (pc s + 4) (pc s + 4 * n + end_bias incl) (count_of c (dat s)) s)\<lparr>pc := pc s + 4\<rparr>"
proof -
  let ?u = "set_loop l (pc s + 4) (pc s + 4 * n + end_bias incl) (count_of c (dat s)) s"
  have "\<not> at_end incl ?u l (pc s)" using assms(3) by (simp add: at_end_def set_loop_def end_bias_def)
  moreover have "lcount ?u l' = 0" if "at_end incl ?u l' (pc s)" "l' \<noteq> l" for l'
    using that others_quietD [OF assms(4), of l' "pc s"] by (simp add: at_end_def set_loop_def)
  ultimately have q: "at_end incl ?u l' (pc s) \<Longrightarrow> lcount ?u l' = 0" for l' by (cases "l' = l") auto
  then have "(\<lambda>l. if at_end incl ?u l (pc s) then lcount ?u l - 1 else lcount ?u l) = lcount ?u" by (auto simp: fun_eq_iff)
  then have "hw_advance incl (pc s) ?u = ?u\<lparr>pc := pc s + 4\<rparr>"
    unfolding hw_advance_def using q [of L0] q [of L1] by auto
  moreover have "?u\<lparr>dat := dat s\<rparr> = ?u" by (simp add: set_loop_def)
  ultimately show ?thesis using step_fetch [OF assms(1,2), of incl]
    by (simp add: lp_setup_loops lp_setup_exec Let_def add.assoc)
qed

lemma run_simple:
  assumes "prog = pre @ assemble incl (Loop c ys) @ post" "idle s (4 * length pre)" "loop_body ys"
  shows "\<exists>v. reaches incl prog s v \<and> idle v (4 * (length pre + length (assemble incl (Loop c ys)))) \<and>
     dat v = meaning (Loop c ys) (dat s)"
proof -
  let ?u = "(set_loop L1 (pc s + 4) (pc s + 4 * length ys + end_bias incl) (count_of c (dat s)) s)\<lparr>pc := pc s + 4\<rparr>"
  have pc: "pc s = 4 * length pre" "lcount s L0 = 0" using assms(2) by (simp_all add: idle_def)
  have "hw_step incl prog s = ?u"
    using assms(1,3) pc others_quiet_L1 [OF pc(2)] by (intro step_setup [of prog pre L1 c "length ys" incl "ys @ post"]) (simp_all add: loop_body_def)
  then have r: "reaches incl prog s ?u" using reaches_step [of incl prog s] by simp
  let ?v = "?u\<lparr>pc := pc ?u + 4 * length ys, lcount := (lcount ?u)(L1 := 0),
      dat := (fold hw_exec ys ^^ max 1 (lcount ?u L1)) (dat ?u)\<rparr>"
  have "reaches incl prog ?u ?v"
  proof (rule run_loop [of prog "pre @ [lp_setup L1 c (4 * length ys + end_bias incl)]" ys post])
    show "others_quiet incl ?u L1 (pc ?u) (pc ?u + 4 * length ys)"
      using pc(2) by (intro others_quiet_L1) (simp add: set_loop_def)
    show "at_end incl ?u L1 (pc ?u + 4 * (length ys - 1))"
      using assms(3) by (cases ys) (simp_all add: at_end_def set_loop_def end_bias_def loop_body_def)
  qed (use assms(1,3) pc in \<open>simp_all add: set_loop_def\<close>)
  then have "reaches incl prog s ?v" by (rule reaches_trans [OF r])
  moreover have "idle ?v (4 * (length pre + length (assemble incl (Loop c ys))))" "dat ?v = meaning (Loop c ys) (dat s)"
    using pc assms(2) by (simp_all add: idle_def set_loop_def end_bias_def)
  ultimately show ?thesis by blast
qed

text \<open>The inner loop, once it is set up, and the rest of a pass of the outer loop.\<close>

lemma nest_tail:
  assumes "prog = pre @ ys @ zs @ post" "loop_body ys" "loop_body zs" "pc s = 4 * length pre" "lstart s L0 = pc s"
    "at_end incl s L0 (pc s + 4 * (length ys - 1))" "at_end incl s L1 (pc s + 4 * (length ys + length zs - 1))"
  shows "reaches incl prog s
     (s\<lparr>pc := (if lcount s L1 > 1 then lstart s L1 else pc s + 4 * (length ys + length zs)),
        lcount := (lcount s)(L0 := 0, L1 := lcount s L1 - 1),
        dat := fold hw_exec zs ((fold hw_exec ys ^^ max 1 (lcount s L0)) (dat s))\<rparr>)"
proof -
  let ?t = "s\<lparr>pc := pc s + 4 * length ys, lcount := (lcount s)(L0 := 0), dat := (fold hw_exec ys ^^ max 1 (lcount s L0)) (dat s)\<rparr>"
  have len: "length ys > 0" "length zs > 0" using assms(2,3) by (simp_all add: loop_body_def)
  have r: "reaches incl prog s ?t"
  proof (rule run_loop [of prog pre ys "zs @ post"])
    show "others_quiet incl s L0 (pc s) (pc s + 4 * length ys)"
      unfolding others_quiet_def
    proof (intro allI impI)
      fix l' x assume x: "l' \<noteq> L0" "x < pc s + 4 * length ys" "at_end incl s l' x"
      then have "at_end incl s L1 x" by (cases l') simp_all
      with assms(7) have "x = pc s + 4 * (length ys + length zs - 1)" by (simp add: at_end_def split: if_splits)
      with len x(2) have False by linarith
      then show "lcount s l' = 0" ..
    qed
  qed (use assms in simp_all)
  have "reaches incl prog ?t
     (?t\<lparr>pc := (if lcount ?t L1 > 1 then lstart ?t L1 else pc ?t + 4 * length zs),
        lcount := (lcount ?t)(L1 := lcount ?t L1 - 1), dat := fold hw_exec zs (dat ?t)\<rparr>)"
  proof (rule run_pass [of prog "pre @ ys" zs post])
    show "at_end incl ?t L1 (pc ?t + 4 * (length zs - 1))"
      using assms(7) len(2) by (cases zs) (simp_all add: at_end_def algebra_simps)
    show "others_quiet incl ?t L1 (pc ?t) (pc ?t + 4 * length zs)" by (intro others_quiet_L1) simp
  qed (use assms in simp_all)
  from reaches_trans [OF r this] show ?thesis by (simp add: algebra_simps cong: if_cong split del: if_split)
qed

text \<open>One pass of the outer loop of a nest: code, set-up, inner loop, code.\<close>

lemma nest_once:
  assumes "prog = pre @ xs @ Lp_setupi L0 m (4 * length ys + end_bias incl) # ys @ zs @ post"
    "list_all (\<lambda>i. \<not> is_loop i) xs" "loop_body ys" "loop_body zs"
    "pc s = 4 * length pre" "lcount s L0 = 0" "at_end incl s L1 (4 * (length pre + length xs + length ys + length zs))"
  shows "\<exists>v. reaches incl prog s v \<and> lstart v L1 = lstart s L1 \<and> lend v L1 = lend s L1 \<and> lcount v L0 = 0 \<and>
     lcount v L1 = lcount s L1 - 1 \<and> dat v = nest_pass xs m ys zs (dat s) \<and>
     lend v L0 \<le> 4 * (length pre + length xs + 1 + length ys + length zs) \<and>
     pc v = (if lcount s L1 > 1 then lstart s L1 else 4 * (length pre + length xs + 1 + length ys + length zs))"
proof -
  let ?a = "4 * (length pre + length xs)" and ?b = "4 * (length pre + length xs + 1 + length ys)"
  let ?s1 = "s\<lparr>pc := pc s + 4 * length xs, dat := fold hw_exec xs (dat s)\<rparr>"
  have len: "length ys > 0" "length zs > 0" using assms(3,4) by (simp_all add: loop_body_def)
  have e1: "at_end incl s L1 p \<longleftrightarrow> p = 4 * (length pre + length xs + length ys + length zs)" for p
    using assms(7) by (auto simp: at_end_def split: if_splits)
  have "quiet incl s (pc s) (pc s + 4 * length xs)"
    unfolding quiet_def
  proof (intro allI impI)
    fix l p assume "p < pc s + 4 * length xs" "at_end incl s l p"
    then show "lcount s l = 0" using e1 [of p] assms(5,6) by (cases l) auto
  qed
  then have r1: "reaches incl prog s ?s1"
    using assms(1,2,5) by (intro run_straight [of prog pre xs "Lp_setupi L0 m (4 * length ys + end_bias incl) # ys @ zs @ post"]) simp_all
  let ?s2 = "(set_loop L0 (pc ?s1 + 4) (pc ?s1 + 4 * length ys + end_bias incl) m ?s1)\<lparr>pc := pc ?s1 + 4\<rparr>"
  have oq: "others_quiet incl t L0 p q" if "lend t L1 = lend s L1" "q \<le> ?b" for t p q
    unfolding others_quiet_def
  proof (intro allI impI)
    fix l' x assume "l' \<noteq> L0" "x < q" "at_end incl t l' x"
    then have "at_end incl s L1 x" using that by (cases l') (simp_all add: at_end_def)
    with e1 [of x] \<open>x < q\<close> that(2) len show "lcount t l' = 0" by simp
  qed
  have "hw_step incl prog ?s1 = ?s2"
    using step_setup [of prog "pre @ xs" L0 "Imm m" "length ys" incl "ys @ zs @ post" ?s1] assms(1,5) len(1)
      oq [of ?s1 "pc ?s1 + 4" "pc ?s1"] by simp
  then have r2: "reaches incl prog ?s1 ?s2" using reaches_step [of incl prog ?s1] by simp
  let ?v = "?s2\<lparr>pc := (if lcount ?s2 L1 > 1 then lstart ?s2 L1 else pc ?s2 + 4 * (length ys + length zs)),
      lcount := (lcount ?s2)(L0 := 0, L1 := lcount ?s2 L1 - 1),
      dat := fold hw_exec zs ((fold hw_exec ys ^^ max 1 (lcount ?s2 L0)) (dat ?s2))\<rparr>"
  have "reaches incl prog ?s2 ?v"
  proof (rule nest_tail [of prog "pre @ xs @ [Lp_setupi L0 m (4 * length ys + end_bias incl)]" ys zs post])
    show "at_end incl ?s2 L0 (pc ?s2 + 4 * (length ys - 1))"
      using len(1) by (cases ys) (simp_all add: at_end_def set_loop_def end_bias_def)
    show "at_end incl ?s2 L1 (pc ?s2 + 4 * (length ys + length zs - 1))"
      using assms(5,7) len by (cases ys) (simp_all add: at_end_def set_loop_def algebra_simps)
  qed (use assms(1,3,4,5) in \<open>simp_all add: set_loop_def\<close>)
  then have "reaches incl prog s ?v" by (rule reaches_trans [OF reaches_trans [OF r1 r2]])
  then show ?thesis
    using assms(5,6) by (auto intro!: exI [of _ ?v] simp: set_loop_def nest_pass_def end_bias_def algebra_simps)
qed

lemma run_nest:
  assumes "prog = pre @ assemble incl (Nest c xs m ys zs) @ post" "idle s (4 * length pre)" "block_ok (Nest c xs m ys zs)"
  shows "\<exists>v. reaches incl prog s v \<and> idle v (4 * (length pre + length (assemble incl (Nest c xs m ys zs)))) \<and>
     dat v = meaning (Nest c xs m ys zs) (dat s)"
proof -
  let ?n = "length xs + 1 + length ys + length zs"
  let ?pre = "pre @ [lp_setup L1 c (4 * ?n + end_bias incl)]"
  let ?u = "(set_loop L1 (pc s + 4) (pc s + 4 * ?n + end_bias incl) (count_of c (dat s)) s)\<lparr>pc := pc s + 4\<rparr>"
  let ?e = "4 * (length ?pre + length xs + length ys + length zs)"
  let ?I = "\<lambda>u. pc u = 4 * length ?pre \<and> lstart u L1 = 4 * length ?pre \<and> at_end incl u L1 ?e \<and> lcount u L0 = 0"
  have pc: "pc s = 4 * length pre" "lcount s L0 = 0" using assms(2) by (simp_all add: idle_def)
  have prog: "prog = ?pre @ xs @ Lp_setupi L0 m (4 * length ys + end_bias incl) # ys @ zs @ post" using assms(1) by simp
  have "hw_step incl prog s = ?u"
    using assms(1) pc others_quiet_L1 [OF pc(2)]
    by (intro step_setup [of prog pre L1 c ?n incl "xs @ Lp_setupi L0 m (4 * length ys + end_bias incl) # ys @ zs @ post"]) simp_all
  then have r: "reaches incl prog s ?u" using reaches_step [of incl prog s] by simp
  have once: "\<exists>v. reaches incl prog u v \<and> lstart v L1 = lstart u L1 \<and> lend v L1 = lend u L1 \<and> lcount v L0 = 0 \<and>
       lcount v L1 = lcount u L1 - 1 \<and> dat v = nest_pass xs m ys zs (dat u) \<and>
       lend v L0 \<le> 4 * (length ?pre + length xs + 1 + length ys + length zs) \<and>
       pc v = (if lcount u L1 > 1 then lstart u L1 else 4 * (length ?pre + length xs + 1 + length ys + length zs))" if "?I u" for u
    using that assms(3) by (intro nest_once [OF prog]) simp_all
  have "\<exists>v. reaches incl prog ?u v \<and> idle v (4 * (length pre + length (assemble incl (Nest c xs m ys zs)))) \<and>
      dat v = (nest_pass xs m ys zs ^^ max 1 (lcount ?u L1)) (dat ?u)"
  proof (rule loop_iterate [where I = ?I])
    show "?I ?u" using pc by (auto simp: set_loop_def at_end_def end_bias_def)
    fix u assume u: "?I u"
    show "\<exists>v. reaches incl prog u v \<and> ?I v \<and> lcount v L1 = lcount u L1 - 1 \<and> dat v = nest_pass xs m ys zs (dat u)"
      if "lcount u L1 > 1" using once [OF u] u that by (fastforce simp: at_end_def)
    show "\<exists>v. reaches incl prog u v \<and> idle v (4 * (length pre + length (assemble incl (Nest c xs m ys zs)))) \<and>
        dat v = nest_pass xs m ys zs (dat u)" if "lcount u L1 \<le> 1"
    proof -
      have "lend u L1 \<le> ?e + 4" using u by (simp add: at_end_def split: if_splits)
      with once [OF u] that show ?thesis by (fastforce simp: idle_def)
    qed
  qed
  then obtain v where "reaches incl prog ?u v" "idle v (4 * (length pre + length (assemble incl (Nest c xs m ys zs))))"
    "dat v = (nest_pass xs m ys zs ^^ max 1 (lcount ?u L1)) (dat ?u)" by blast
  moreover from this(1) have "reaches incl prog s v" by (rule reaches_trans [OF r])
  ultimately show ?thesis by (auto simp: set_loop_def)
qed

text \<open>The registers of a loop written one by one.\<close>

lemma step_loop_insn:
  assumes "prog = pre @ i # post" "pc s = 4 * length pre" "is_loop i"
    "\<And>l. at_end incl (hw_loops i (pc s) s) l (pc s) \<Longrightarrow> lcount (hw_loops i (pc s) s) l = 0"
  shows "hw_step incl prog s = (hw_loops i (pc s) s)\<lparr>pc := pc s + 4\<rparr>"
proof -
  let ?u = "hw_loops i (pc s) s"
  have i: "\<not> is_trap i" "hw_exec i d = d" for d using assms(3) by (cases i; simp add: is_trap_def)+
  have "?u\<lparr>dat := dat s\<rparr> = ?u" by (cases i) (simp_all add: set_loop_def)
  moreover have "(\<lambda>l. if at_end incl ?u l (pc s) then lcount ?u l - 1 else lcount ?u l) = lcount ?u"
    using assms(4) by (auto simp: fun_eq_iff)
  then have "hw_advance incl (pc s) ?u = ?u\<lparr>pc := pc s + 4\<rparr>"
    unfolding hw_advance_def using assms(4) [of L0] assms(4) [of L1] by auto
  ultimately show ?thesis using step_fetch [OF assms(1,2), of incl] i by (simp add: Let_def)
qed

lemma pieces_setup:
  assumes "prog = pre @ Addi T0 X0 k # Lp_count L0 T0 # Lp_endi L0 (4 * (length xs + length ys) + end_bias incl) # xs @ ys @ zs @ post"
    "0 < length ys" "pc s = 4 * length pre" "lcount s L0 = 0"
    "lend s L1 = pc s + 8 + 4 * (length xs + length ys + length zs) + end_bias incl"
    "lend s L0 < pc s \<or> lend s L0 = pc s + 8 + 4 * (length xs + length ys) + end_bias incl"
  defines "d \<equiv> hw_exec (Addi T0 X0 k) (dat s)"
  shows "reaches incl prog s (s\<lparr>lcount := (lcount s)(L0 := unat (rget T0 d)), dat := d, pc := pc s + 12,
    lend := (lend s)(L0 := pc s + 8 + 4 * (length xs + length ys) + end_bias incl)\<rparr>)"
proof -
  let ?e = "Lp_endi L0 (4 * (length xs + length ys) + end_bias incl)"
  let ?d = "hw_exec (Addi T0 X0 k) (dat s)" and ?p = "pc s"
  let ?n = "unat (rget T0 ?d)"
  let ?b = "?p + 8 + 4 * (length xs + length ys) + end_bias incl"
  have len: "1 \<le> length ys" using assms(2) by linarith
  let ?s1 = "s\<lparr>pc := ?p + 4, dat := ?d\<rparr>"
  have "quiet incl s ?p (?p + 4)"
    unfolding quiet_def
  proof (intro allI impI)
    fix l q assume "q < ?p + 4" "at_end incl s l q"
    with assms(4,5) show "lcount s l = 0" by (cases l) (auto simp: at_end_def end_bias_def split: if_splits)
  qed
  then have "hw_step incl prog s = ?s1"
    using assms(1,3) by (intro step_quiet [of prog pre "Addi T0 X0 k" "Lp_count L0 T0 # ?e # xs @ ys @ zs @ post"]) simp_all
  then have r1: "reaches incl prog s ?s1" using reaches_step [of incl prog s] by simp
  let ?s2 = "?s1\<lparr>lcount := (lcount s)(L0 := ?n), pc := ?p + 8\<rparr>"
  have ne: "lend s l \<noteq> (if incl then ?p + 4 else ?p + 8)" for l
  proof (cases l)
    case L0
    show ?thesis using assms(6) len unfolding L0 end_bias_def by (cases incl) auto
  next
    case L1
    show ?thesis using assms(5) len unfolding L1 end_bias_def by (cases incl) auto
  qed
  have l2: "hw_loops (Lp_count L0 T0) (pc ?s1) ?s1 = ?s1\<lparr>lcount := (lcount s)(L0 := ?n)\<rparr>" by simp
  have "hw_step incl prog ?s1 = (hw_loops (Lp_count L0 T0) (pc ?s1) ?s1)\<lparr>pc := pc ?s1 + 4\<rparr>"
  proof (rule step_loop_insn [of prog "pre @ [Addi T0 X0 k]" _ "?e # xs @ ys @ zs @ post"])
    fix l assume "at_end incl (hw_loops (Lp_count L0 T0) (pc ?s1) ?s1) l (pc ?s1)"
    then have False using ne [of l] unfolding l2 by (simp add: at_end_def split: if_splits)
    then show "lcount (hw_loops (Lp_count L0 T0) (pc ?s1) ?s1) l = 0" ..
  qed (use assms(1,3) in simp_all)
  then have r2: "reaches incl prog ?s1 ?s2" using reaches_step [of incl prog ?s1] unfolding l2 by (simp add: add.commute)
  let ?s3 = "?s2\<lparr>lend := (lend s)(L0 := ?b), pc := ?p + 12\<rparr>"
  have l3: "hw_loops ?e (pc ?s2) ?s2 = ?s2\<lparr>lend := (lend s)(L0 := ?b)\<rparr>" by (simp add: add.assoc)
  have "hw_step incl prog ?s2 = (hw_loops ?e (pc ?s2) ?s2)\<lparr>pc := pc ?s2 + 4\<rparr>"
  proof (rule step_loop_insn [of prog "pre @ [Addi T0 X0 k, Lp_count L0 T0]" _ "xs @ ys @ zs @ post"])
    fix l assume "at_end incl (hw_loops ?e (pc ?s2) ?s2) l (pc ?s2)"
    then have False using assms(5) len unfolding l3 end_bias_def by (cases l) (simp_all add: at_end_def split: if_splits)
    then show "lcount (hw_loops ?e (pc ?s2) ?s2) l = 0" ..
  qed (use assms(1,3) in simp_all)
  then have r3: "reaches incl prog ?s2 ?s3" using reaches_step [of incl prog ?s2] unfolding l3 by (simp add: add.commute)
  have "?s3 = s\<lparr>lcount := (lcount s)(L0 := ?n), dat := ?d, pc := ?p + 12, lend := (lend s)(L0 := ?b)\<rparr>" by simp
  with reaches_trans [OF reaches_trans [OF r1 r2] r3] show ?thesis by (simp only: d_def)
qed

lemma pieces_once:
  assumes "prog = pre @ Addi T0 X0 k # Lp_count L0 T0 # Lp_endi L0 (4 * (length xs + length ys) + end_bias incl) # xs @ ys @ zs @ post"
    "list_all (\<lambda>i. \<not> is_loop i) xs" "loop_body ys" "loop_body zs" "pc s = 4 * length pre" "lcount s L0 = 0"
    "lstart s L0 = pc s + 12 + 4 * length xs" "lend s L1 = pc s + 8 + 4 * (length xs + length ys + length zs) + end_bias incl"
    "lend s L0 < pc s \<or> lend s L0 = pc s + 8 + 4 * (length xs + length ys) + end_bias incl"
  shows "\<exists>v. reaches incl prog s v \<and> lstart v = lstart s \<and> lend v L1 = lend s L1 \<and> lcount v L0 = 0 \<and>
     lcount v L1 = lcount s L1 - 1 \<and> dat v = pieces_pass k xs ys zs (dat s) \<and>
     lend v L0 = pc s + 8 + 4 * (length xs + length ys) + end_bias incl \<and>
     pc v = (if lcount s L1 > 1 then lstart s L1 else pc s + 12 + 4 * (length xs + length ys + length zs))"
proof -
  let ?d = "hw_exec (Addi T0 X0 k) (dat s)" and ?p = "pc s"
  let ?e = "Lp_endi L0 (4 * (length xs + length ys) + end_bias incl)"
  let ?s3 = "s\<lparr>lcount := (lcount s)(L0 := unat (rget T0 ?d)), dat := ?d, pc := ?p + 12,
    lend := (lend s)(L0 := ?p + 8 + 4 * (length xs + length ys) + end_bias incl)\<rparr>"
  have len: "1 \<le> length ys" "1 \<le> length zs" using assms(3,4) by (simp_all add: loop_body_def Suc_le_eq)
  have r3: "reaches incl prog s ?s3"
    using assms(3) by (intro pieces_setup [OF assms(1) _ assms(5,6,8,9)]) (simp add: loop_body_def)
  let ?s4 = "?s3\<lparr>pc := pc ?s3 + 4 * length xs, dat := fold hw_exec xs (dat ?s3)\<rparr>"
  have r4: "reaches incl prog ?s3 ?s4"
  proof (rule run_straight [of prog "pre @ [Addi T0 X0 k, Lp_count L0 T0, ?e]" xs "ys @ zs @ post"])
    show "quiet incl ?s3 (pc ?s3) (pc ?s3 + 4 * length xs)"
      unfolding quiet_def
    proof (intro allI impI)
      fix l q assume "q < pc ?s3 + 4 * length xs" "at_end incl ?s3 l q"
      then have False using assms(8) len unfolding end_bias_def by (cases l) (simp_all add: at_end_def split: if_splits)
      then show "lcount ?s3 l = 0" ..
    qed
  qed (use assms(1,2,5) in simp_all)
  let ?v = "?s4\<lparr>pc := (if lcount ?s4 L1 > 1 then lstart ?s4 L1 else pc ?s4 + 4 * (length ys + length zs)),
      lcount := (lcount ?s4)(L0 := 0, L1 := lcount ?s4 L1 - 1),
      dat := fold hw_exec zs ((fold hw_exec ys ^^ max 1 (lcount ?s4 L0)) (dat ?s4))\<rparr>"
  have "reaches incl prog ?s4 ?v"
  proof (rule nest_tail [of prog "pre @ [Addi T0 X0 k, Lp_count L0 T0, ?e] @ xs" ys zs post])
    show "at_end incl ?s4 L0 (pc ?s4 + 4 * (length ys - 1))" using len(1) by (cases ys) (simp_all add: at_end_def end_bias_def)
    show "at_end incl ?s4 L1 (pc ?s4 + 4 * (length ys + length zs - 1))"
      using assms(8) len by (cases ys) (simp_all add: at_end_def end_bias_def)
  qed (use assms(1,3,4,5,7) in simp_all)
  then have "reaches incl prog s ?v"
    by (rule reaches_trans [OF reaches_trans [OF r3 r4]])
  then show ?thesis by (auto intro!: exI [of _ ?v] simp: pieces_pass_def Let_def)
qed

lemma pieces_start:
  assumes "prog = pre @ [Lp_starti L1 16, Lp_counti L1 n, Lp_endi L1 (4 * (j + 4) + end_bias incl), Lp_starti L0 (4 * (i + 4))] @ body"
    and "pc s = 4 * length pre" "lcount s L0 = 0" "lcount s L1 = 0" "lend s L0 \<le> 4 * length pre" "lend s L1 \<le> 4 * length pre"
  shows "reaches incl prog s (s\<lparr>pc := pc s + 16, lcount := (lcount s)(L1 := n),
    lend := (lend s)(L1 := pc s + 24 + 4 * j + end_bias incl),
    lstart := (lstart s)(L1 := pc s + 16, L0 := pc s + 28 + 4 * i)\<rparr>)"
proof -
  let ?p = "4 * length pre"
  let ?i1 = "Lp_starti L1 16" and ?i2 = "Lp_counti L1 n"
    and ?i3 = "Lp_endi L1 (4 * (j + 4) + end_bias incl)" and ?i4 = "Lp_starti L0 (4 * (i + 4))"
  let ?e1 = "?p + 24 + 4 * j + end_bias incl"
  note s = assms(2-6) and prog = assms(1)
  let ?s1 = "s\<lparr>lstart := (lstart s)(L1 := ?p + 16), pc := ?p + 4\<rparr>"
  let ?s2 = "?s1\<lparr>lcount := (lcount s)(L1 := n), pc := ?p + 8\<rparr>"
  let ?s3 = "?s2\<lparr>lend := (lend s)(L1 := ?e1), pc := ?p + 12\<rparr>"
  let ?s4 = "?s3\<lparr>lstart := (lstart s)(L1 := ?p + 16, L0 := ?p + 28 + 4 * i), pc := ?p + 16\<rparr>"
  have "hw_step incl prog s = ?s1"
  proof (subst step_loop_insn [of prog pre ?i1 "[?i2, ?i3, ?i4] @ body"])
    show "lcount (hw_loops ?i1 (pc s) s) l = 0" for l using s by (cases l) simp_all
  qed (use prog s in \<open>simp_all\<close>)
  then have r1: "reaches incl prog s ?s1" using reaches_step [of incl prog s] by simp
  have "hw_step incl prog ?s1 = ?s2"
  proof (subst step_loop_insn [of prog "pre @ [?i1]" ?i2 "[?i3, ?i4] @ body"])
    fix l assume "at_end incl (hw_loops ?i2 (pc ?s1) ?s1) l (pc ?s1)"
    then show "lcount (hw_loops ?i2 (pc ?s1) ?s1) l = 0" using s by (cases l) (auto simp: at_end_def split: if_splits)
  qed (use prog in \<open>simp_all add: ac_simps\<close>)
  then have r2: "reaches incl prog ?s1 ?s2" using reaches_step [of incl prog ?s1] by simp
  have "hw_step incl prog ?s2 = ?s3"
  proof (subst step_loop_insn [of prog "pre @ [?i1, ?i2]" ?i3 "[?i4] @ body"])
    fix l assume "at_end incl (hw_loops ?i3 (pc ?s2) ?s2) l (pc ?s2)"
    then show "lcount (hw_loops ?i3 (pc ?s2) ?s2) l = 0" using s by (cases l) (auto simp: at_end_def end_bias_def split: if_splits)
  qed (use prog in \<open>simp_all add: ac_simps\<close>)
  then have r3: "reaches incl prog ?s2 ?s3" using reaches_step [of incl prog ?s2] by simp
  have "hw_step incl prog ?s3 = ?s4"
  proof (subst step_loop_insn [of prog "pre @ [?i1, ?i2, ?i3]" ?i4 body])
    fix l assume "at_end incl (hw_loops ?i4 (pc ?s3) ?s3) l (pc ?s3)"
    then show "lcount (hw_loops ?i4 (pc ?s3) ?s3) l = 0" using s by (cases l) (auto simp: at_end_def end_bias_def split: if_splits)
  qed (use prog in \<open>simp_all add: ac_simps\<close>)
  then have r4: "reaches incl prog ?s3 ?s4" using reaches_step [of incl prog ?s3] by simp
  have "?s4 = s\<lparr>pc := pc s + 16, lcount := (lcount s)(L1 := n), lend := (lend s)(L1 := pc s + 24 + 4 * j + end_bias incl),
      lstart := (lstart s)(L1 := pc s + 16, L0 := pc s + 28 + 4 * i)\<rparr>" by (simp add: s)
  with reaches_trans [OF reaches_trans [OF reaches_trans [OF r1 r2] r3] r4] show ?thesis by (simp only:)
qed

lemma run_pieces:
  assumes "prog = pre @ assemble incl (Pieces n k xs ys zs) @ post" "idle s (4 * length pre)" "block_ok (Pieces n k xs ys zs)"
  shows "\<exists>v. reaches incl prog s v \<and> idle v (4 * (length pre + length (assemble incl (Pieces n k xs ys zs)))) \<and>
     dat v = meaning (Pieces n k xs ys zs) (dat s)"
proof -
  let ?p = "4 * length pre"
  let ?i1 = "Lp_starti L1 16" and ?i2 = "Lp_counti L1 n"
    and ?i3 = "Lp_endi L1 (4 * (length xs + length ys + length zs + 4) + end_bias incl)" and ?i4 = "Lp_starti L0 (4 * (length xs + 4))"
  let ?pre = "pre @ [?i1, ?i2, ?i3, ?i4]"
  let ?body = "Addi T0 X0 k # Lp_count L0 T0 # Lp_endi L0 (4 * (length xs + length ys) + end_bias incl) # xs @ ys @ zs @ post"
  let ?e1 = "?p + 24 + 4 * (length xs + length ys + length zs) + end_bias incl"
  let ?e0 = "?p + 24 + 4 * (length xs + length ys) + end_bias incl"
  have s: "pc s = ?p" "lcount s L0 = 0" "lcount s L1 = 0" "lend s L0 \<le> ?p" "lend s L1 \<le> ?p"
    using assms(2) by (simp_all add: idle_def)
  have len: "length ys > 0" "length zs > 0" using assms(3) by (simp_all add: loop_body_def)
  have prog: "prog = ?pre @ ?body" using assms(1) by simp
  let ?s4 = "s\<lparr>pc := pc s + 16, lcount := (lcount s)(L1 := n), lend := (lend s)(L1 := pc s + 24 + 4 * (length xs + length ys + length zs) + end_bias incl),
      lstart := (lstart s)(L1 := pc s + 16, L0 := pc s + 28 + 4 * length xs)\<rparr>"
  have r4: "reaches incl prog s ?s4"
    by (rule pieces_start [where pre = pre and body = ?body]) (use prog s in simp_all)
  let ?I = "\<lambda>u :: hw_state. pc u = ?p + 16 \<and> lstart u L1 = ?p + 16 \<and> lstart u L0 = ?p + 28 + 4 * length xs \<and> lend u L1 = ?e1 \<and>
      lcount u L0 = 0 \<and> (lend u L0 < ?p + 16 \<or> lend u L0 = ?e0)"
  have once: "\<exists>v. reaches incl prog u v \<and> lstart v = lstart u \<and> lend v L1 = lend u L1 \<and> lcount v L0 = 0 \<and>
      lcount v L1 = lcount u L1 - 1 \<and> dat v = pieces_pass k xs ys zs (dat u) \<and> lend v L0 = ?e0 \<and>
      pc v = (if lcount u L1 > 1 then lstart u L1 else ?p + 28 + 4 * (length xs + length ys + length zs))" if "?I u" for u
  proof -
    have u: "pc u = 4 * length ?pre" "lstart u L0 = pc u + 12 + 4 * length xs"
      "lend u L1 = pc u + 8 + 4 * (length xs + length ys + length zs) + end_bias incl"
      "lend u L0 < pc u \<or> lend u L0 = pc u + 8 + 4 * (length xs + length ys) + end_bias incl" using that by auto
    have c: "lcount u L0 = 0" and ok: "list_all (\<lambda>i. \<not> is_loop i) xs" "loop_body ys" "loop_body zs" using that assms(3) by simp_all
    obtain v where v: "reaches incl prog u v" "lstart v = lstart u" "lend v L1 = lend u L1" "lcount v L0 = 0"
      "lcount v L1 = lcount u L1 - 1" "dat v = pieces_pass k xs ys zs (dat u)"
      "lend v L0 = pc u + 8 + 4 * (length xs + length ys) + end_bias incl"
      "pc v = (if lcount u L1 > 1 then lstart u L1 else pc u + 12 + 4 * (length xs + length ys + length zs))"
      using pieces_once [OF prog ok u(1) c u(2-4)] by blast
    have "lend v L0 = ?e0" using v(7) that by linarith
    moreover have "pc v = (if lcount u L1 > 1 then lstart u L1 else ?p + 28 + 4 * (length xs + length ys + length zs))"
      using v(8) that by auto
    ultimately show ?thesis using v(1-6) by blast
  qed
  have "\<exists>v. reaches incl prog ?s4 v \<and> idle v (4 * (length pre + length (assemble incl (Pieces n k xs ys zs)))) \<and>
      dat v = (pieces_pass k xs ys zs ^^ max 1 (lcount ?s4 L1)) (dat ?s4)"
  proof (rule loop_iterate [where I = ?I])
    show "?I ?s4" using s by simp
    fix u assume u: "?I u"
    show "\<exists>v. reaches incl prog u v \<and> ?I v \<and> lcount v L1 = lcount u L1 - 1 \<and> dat v = pieces_pass k xs ys zs (dat u)"
      if "lcount u L1 > 1" using once [OF u] u that by fastforce
    show "\<exists>v. reaches incl prog u v \<and> idle v (4 * (length pre + length (assemble incl (Pieces n k xs ys zs)))) \<and>
        dat v = pieces_pass k xs ys zs (dat u)" if "lcount u L1 \<le> 1"
      using once [OF u] u that by (fastforce simp: idle_def end_bias_def)
  qed
  then obtain v where "reaches incl prog ?s4 v" "idle v (4 * (length pre + length (assemble incl (Pieces n k xs ys zs))))"
    "dat v = (pieces_pass k xs ys zs ^^ max 1 (lcount ?s4 L1)) (dat ?s4)" by blast
  moreover from this(1) have "reaches incl prog s v"
    by (rule reaches_trans [OF r4])
  ultimately show ?thesis by auto
qed

lemma run_block:
  assumes "prog = pre @ assemble incl b @ post" "idle s (4 * length pre)" "block_ok b"
  shows "\<exists>v. reaches incl prog s v \<and> idle v (4 * (length pre + length (assemble incl b))) \<and> dat v = meaning b (dat s)"
proof (cases b)
  case (Code xs)
  let ?v = "s\<lparr>pc := pc s + 4 * length xs, dat := fold hw_exec xs (dat s)\<rparr>"
  have "reaches incl prog s ?v"
    using assms by (intro run_straight [of prog pre xs post]) (simp_all add: Code idle_def quiet_idle)
  moreover have "idle ?v (4 * (length pre + length (assemble incl b)))" "dat ?v = meaning b (dat s)"
    using assms(2) by (simp_all add: Code idle_def)
  ultimately show ?thesis by blast
next
  case (Loop c ys)
  show ?thesis using run_simple [OF assms(1) [unfolded Loop] assms(2)] assms(3) by (simp add: Loop)
next
  case (Nest c xs m ys zs)
  show ?thesis using run_nest [OF assms(1) [unfolded Nest] assms(2) assms(3) [unfolded Nest]] by (simp add: Nest)
next
  case (Pieces n k xs ys zs)
  show ?thesis using run_pieces [OF assms(1) [unfolded Pieces] assms(2) assms(3) [unfolded Pieces]] by (simp add: Pieces)
qed

lemma run_blocks:
  assumes "prog = pre @ concat (map (assemble incl) bs) @ post" "idle s (4 * length pre)" "list_all block_ok bs"
  shows "\<exists>v. reaches incl prog s v \<and> idle v (4 * (length pre + length (concat (map (assemble incl) bs)))) \<and>
     dat v = fold meaning bs (dat s)"
  using assms
proof (induction bs arbitrary: pre s)
  case Nil
  then show ?case by (auto intro: reaches_refl)
next
  case (Cons b bs)
  from run_block [of prog pre incl b "concat (map (assemble incl) bs) @ post" s] Cons.prems
  obtain u where u: "reaches incl prog s u" "idle u (4 * length (pre @ assemble incl b))" "dat u = meaning b (dat s)" by auto
  from Cons.IH [of "pre @ assemble incl b" u] Cons.prems u(2)
  obtain v where "reaches incl prog u v" "idle v (4 * (length (pre @ assemble incl b) + length (concat (map (assemble incl) bs))))"
    "dat v = fold meaning bs (dat u)" by auto
  then show ?case using u by (auto intro!: exI [of _ v] intro: reaches_trans simp: add.assoc)
qed

text \<open>A whole program: it comes to its end, idle, with the data its blocks mean.\<close>

definition finishes :: "bool \<Rightarrow> insn list \<Rightarrow> hw_data \<Rightarrow> hw_data \<Rightarrow> bool" where
  "finishes incl prog d d' \<longleftrightarrow> (\<exists>v. reaches incl prog (hw_start d) v \<and> idle v (4 * length prog) \<and> dat v = d')"

lemma blocks_finish:
  assumes "prog = concat (map (assemble incl) bs)" "list_all block_ok bs"
  shows "finishes incl prog d (fold meaning bs d)"
  using run_blocks [of prog "[]" incl bs "[]" "hw_start d"] assms by (simp add: finishes_def idle_def hw_start_def)

text \<open>At its end a program stays, so it finishes with one result.\<close>

lemma step_stops: "idle s (4 * length prog) \<Longrightarrow> (hw_step incl prog ^^ k) s = s"
  by (induction k) (simp_all add: hw_step_def idle_def)

lemma finishes_unique:
  assumes "finishes incl prog d d1" "finishes incl prog d d2"
  shows "d1 = d2"
proof -
  obtain j u where u: "(hw_step incl prog ^^ j) (hw_start d) = u" "idle u (4 * length prog)" "dat u = d1"
    using assms(1) by (auto simp: finishes_def reaches_def)
  obtain k v where v: "(hw_step incl prog ^^ k) (hw_start d) = v" "idle v (4 * length prog)" "dat v = d2"
    using assms(2) by (auto simp: finishes_def reaches_def)
  have "(hw_step incl prog ^^ (k + j)) (hw_start d) = u" using step_stops [OF u(2), where incl = incl and k = k] u(1) by (simp add: funpow_add)
  moreover have "(hw_step incl prog ^^ (k + j)) (hw_start d) = v"
    using step_stops [OF v(2), where incl = incl and k = j] v(1) by (metis funpow_add add.commute comp_apply)
  ultimately show ?thesis using u(3) v(3) by simp
qed

section \<open>Interrupts\<close>

text \<open>
  An interrupt between two instructions: its handler restores the registers, the loops and \<^verbatim>\<open>mcycle\<close>, and may
  overwrite the stack, except for the words at the offsets the programs use.
\<close>

definition kept_offsets :: "int list" where
  "kept_offsets = [- 64, - 68, - 80, - 84]"

definition same_data :: "hw_data \<Rightarrow> hw_data \<Rightarrow> bool" where
  "same_data d e \<longleftrightarrow> gpr d = gpr e \<and> mcycle d = mcycle e \<and>
     (\<forall>off \<in> set kept_offsets. dmem d (gpr d SP + of_int off) = dmem e (gpr d SP + of_int off))"

definition hw_irq :: "hw_state \<Rightarrow> hw_state \<Rightarrow> bool" where
  "hw_irq s t \<longleftrightarrow> pc s = pc t \<and> lstart s = lstart t \<and> lend s = lend t \<and> lcount s = lcount t \<and> same_data (dat s) (dat t)"

inductive irq_run :: "bool \<Rightarrow> insn list \<Rightarrow> hw_state \<Rightarrow> hw_state \<Rightarrow> bool" for incl prog s where
  irq_refl: "irq_run incl prog s s"
| irq_insn: "irq_run incl prog s t \<Longrightarrow> irq_run incl prog s (hw_step incl prog t)"
| irq_taken: "irq_run incl prog s t \<Longrightarrow> hw_irq t u \<Longrightarrow> irq_run incl prog s u"

fun stack_safe :: "insn \<Rightarrow> bool" where
  "stack_safe (Addi rd rs imm) = (rd \<noteq> SP)"
| "stack_safe (Add rd rs1 rs2) = (rd \<noteq> SP)"
| "stack_safe (Mul rd rs1 rs2) = (rd \<noteq> SP)"
| "stack_safe (Div rd rs1 rs2) = (rd \<noteq> SP)"
| "stack_safe (Mv rd rs) = (rd \<noteq> SP)"
| "stack_safe (Lw rd off rs) = (rd \<noteq> SP \<and> rs = SP \<and> off \<in> set kept_offsets)"
| "stack_safe (Sw r off rs) = (rs = SP \<and> off \<in> set kept_offsets)"
| "stack_safe (Csrrw_mcycle rd rs) = (rd \<noteq> SP)"
| "stack_safe _ = True"

lemma exec_same:
  assumes "stack_safe i" "same_data d e"
  shows "same_data (hw_exec i d) (hw_exec i e)"
  using assms by (cases i) (auto simp: same_data_def rset_def rget_def)

lemma step_irq:
  assumes "list_all stack_safe prog" "hw_irq s t"
  shows "hw_irq (hw_step incl prog s) (hw_step incl prog t)"
proof (cases "pc s < 4 * length prog")
  case False
  with assms(2) show ?thesis by (simp add: hw_step_def hw_irq_def)
next
  case True
  let ?i = "prog ! (pc s div 4)" and ?p = "pc s"
  have "?p div 4 < length prog" using True by linarith
  then have i: "stack_safe ?i" using assms(1) by (simp add: list_all_length)
  have eq: "pc t = ?p" "lstart t = lstart s" "lend t = lend s" "lcount t = lcount s" "same_data (dat s) (dat t)"
    using assms(2) by (simp_all add: hw_irq_def)
  then have r: "rget r (dat t) = rget r (dat s)" for r by (simp add: same_data_def rget_def)
  define u v where "u = (hw_loops ?i ?p s)\<lparr>dat := hw_exec ?i (dat s)\<rparr>" and "v = (hw_loops ?i ?p t)\<lparr>dat := hw_exec ?i (dat t)\<rparr>"
  have d: "dat (hw_loops ?i ?p s) = dat s" "dat (hw_loops ?i ?p t) = dat t" by (cases ?i; simp add: set_loop_def)+
  have uv: "pc u = ?p" "pc v = ?p" "lstart v = lstart u" "lend v = lend u" "lcount v = lcount u" "same_data (dat u) (dat v)"
    using eq r exec_same [OF i eq(5)] unfolding u_def v_def by (cases ?i; simp add: set_loop_def)+
  have "hw_step incl prog s = (if is_trap ?i then u\<lparr>pc := ?p + 4\<rparr> else hw_advance incl ?p u)"
    "hw_step incl prog t = (if is_trap ?i then v\<lparr>pc := ?p + 4\<rparr> else hw_advance incl ?p v)"
    using True eq(1) d by (simp_all add: hw_step_def u_def v_def Let_def)
  then show ?thesis using uv by (simp add: hw_irq_def hw_advance_def at_end_def cong: if_cong)
qed

lemma steps_irq: "list_all stack_safe prog \<Longrightarrow> hw_irq s t \<Longrightarrow> hw_irq ((hw_step incl prog ^^ k) s) ((hw_step incl prog ^^ k) t)"
  by (induction k) (simp_all add: step_irq)

lemma hw_irq_trans: "hw_irq s t \<Longrightarrow> hw_irq t u \<Longrightarrow> hw_irq s u"
  by (auto simp: hw_irq_def same_data_def)

lemma irq_run_simulates:
  assumes "irq_run incl prog s t" "list_all stack_safe prog"
  shows "\<exists>k. hw_irq ((hw_step incl prog ^^ k) s) t"
  using assms(1)
proof induction
  case irq_refl
  show ?case by (rule exI [of _ 0]) (simp add: hw_irq_def same_data_def)
next
  case (irq_insn t)
  then obtain k where "hw_irq ((hw_step incl prog ^^ k) s) t" by blast
  from step_irq [OF assms(2) this, of incl] show ?case by (intro exI [of _ "Suc k"]) simp
next
  case (irq_taken t u)
  then show ?case by (blast intro: hw_irq_trans)
qed

text \<open>
  So interrupts are invisible: from any point of an interrupted run the program comes to its end with the
  registers of the run without interrupts.
\<close>

lemma interrupted_finish:
  assumes "finishes incl prog d d'" "irq_run incl prog (hw_start d) t" "list_all stack_safe prog"
  shows "\<exists>m. pc ((hw_step incl prog ^^ m) t) = 4 * length prog \<and> gpr (dat ((hw_step incl prog ^^ m) t)) = gpr d'"
proof -
  obtain j v where v: "(hw_step incl prog ^^ j) (hw_start d) = v" "idle v (4 * length prog)" "dat v = d'"
    using assms(1) by (auto simp: finishes_def reaches_def)
  obtain k where k: "hw_irq ((hw_step incl prog ^^ k) (hw_start d)) t" using irq_run_simulates [OF assms(2,3)] by blast
  have "(hw_step incl prog ^^ j) ((hw_step incl prog ^^ k) (hw_start d)) = v"
    using step_stops [OF v(2), where incl = incl and k = k] v(1) by (metis funpow_add add.commute comp_apply)
  with steps_irq [OF assms(3) k, where incl = incl and k = j] v(2,3) show ?thesis
    by (intro exI [of _ j]) (simp add: hw_irq_def same_data_def idle_def)
qed

end
