(* ===== verification/Hwlp_Test.thy ===== *)
theory Hwlp_Test
  imports Hwlp
begin

text \<open>
  The programs of \<^verbatim>\<open>hwlp_test/hwlp.h\<close> and \<^verbatim>\<open>hwlp_test/hwlp_test.c\<close>, instruction by instruction, and what they compute
  on the machine of \<open>Hwlp\<close> with the header's convention for the end of a loop, which is not that of the core.
\<close>

section \<open>The programs\<close>

definition HWLP_TEST0 :: "insn list" where
  "HWLP_TEST0 =
     [Lp_setupi L1 10 16, Addi T1 T1 1, Addi T1 T1 2, Addi T1 T1 3, Addi T2 T2 4, Mul T1 T1 T2]"

definition HWLP_TEST1 :: "insn list" where
  "HWLP_TEST1 =
     [Lp_setupi L1 10 44, Addi T1 T1 1, Addi T2 T1 2, Addi T1 T2 3, Addi T2 T2 4, Lp_setupi L0 20 12,
      Addi T1 T1 5, Addi T2 T1 6, Addi T1 T2 7, Addi T2 T2 8, Addi T2 T2 9, Addi T2 T2 10, Mul T2 T1 T1]"

definition HWLP_TEST2 :: "insn list" where
  "HWLP_TEST2 =
     [Lp_setupi L1 100 44, Addi T1 T1 1, Addi T2 T1 2, Addi T1 T2 3, Addi T2 T2 4, Lp_setupi L0 200 12,
      Addi T1 T1 5, Addi T2 T1 6, Addi T1 T2 7, Addi T2 T2 8, Addi T2 T2 9, Addi T2 T2 10, Mul T2 T1 T1]"

definition HWLP_TEST3 :: "insn list" where
  "HWLP_TEST3 =
     [Addi T1 X0 0, Addi T2 X0 0, Lp_setupi L1 102 60, Addi T1 X0 4, Addi T2 X0 8, Lw T1 24 T2,
      Addi T2 X0 12, Addi T1 X0 4, Lp_setupi L0 21 20, Addi T2 X0 4, Addi T1 X0 4, Lw T2 8 T1,
      Addi T2 X0 4, Addi T2 X0 4, Addi T2 X0 4, Lw T1 0 T2, Sw T2 (- 4) SP, Addi T2 X0 4, Addi T2 X0 4,
      Lw T2 8 T2, Addi T2 X0 4, Addi T2 X0 4, Sw T2 (- 12) SP, Addi T2 X0 8, Addi T1 X0 12, Lw T2 4 T1]"

definition HWLP_TEST4 :: "insn list" where
  "HWLP_TEST4 =
     [Addi T0 X0 0, Lp_setup L1 T0 24, Lp_setupi L0 21 12, Addi T2 X0 1, Addi T1 X0 2, Lw T2 24 T0,
      Add T1 X0 T2, Sw T1 (- 28) SP, Mul T0 T0 T0]"

definition HWLP_TEST5 :: "insn list" where
  "HWLP_TEST5 =
     [Addi T0 X0 0, Addi T1 X0 0, Addi T2 X0 0, Lp_starti L1 16, Lp_counti L1 12, Lp_endi L1 100,
      Lp_starti L0 52, Addi T0 X0 100, Lp_count L0 T0, Lp_endi L0 76, Addi T0 X0 1024, Addi T1 X0 4,
      Addi T2 X0 8, Add T1 T2 T2, Mul T2 T0 T1, Lw T2 128 T0, Sw T2 (- 8) SP, Lw T2 256 T0, Addi T2 X0 4,
      Lw T1 0 T0, Lw T1 4 T0, Lw T2 8 T0, Lw T1 12 T0, Lw T2 16 T0, Sw T1 (- 20) SP, Sw T2 (- 24) SP,
      Sw T1 (- 28) SP, Lw T1 32 T0, Sw T2 (- 36) SP, Lw T1 0 T0, Sw T2 (- 4) SP, Lw T2 8 T0,
      Addi T2 X0 4, Addi T2 X0 4, Sw T2 (- 12) SP, Addi T1 X0 28, Lp_setup L1 T0 24, Lp_setupi L0 21 12,
      Addi T2 X0 8, Addi T1 X0 12, Sw T2 (- 24) SP, Addi T1 X0 12, Sw T1 (- 28) SP, Lw T1 32 T0,
      Addi T2 X0 8, Addi T1 X0 12, Lw T2 4 T0]"

definition HWLP_TEST6 :: "insn list" where
  "HWLP_TEST6 =
     [Addi T0 X0 0, Lp_setupi L1 10 24, Lp_setupi L0 20 12, Addi T2 X0 1381, Addi T1 X0 17, Div T2 T2 T1,
      Lw T2 24 T0, Div T1 T1 T2, Sw T1 (- 28) SP, Mul T0 T0 T0]"

text \<open>The programs run under a load of interrupts: \<^verbatim>\<open>%0\<close>, the register of the result, is \<open>RES\<close>.\<close>

definition HWLP_TEST_INTERRUPT0 :: "insn list" where
  "HWLP_TEST_INTERRUPT0 =
     [Addi T0 X0 6, Sw T0 (- 64) SP, Addi T2 X0 53, Sw T2 (- 68) SP, Lp_setupi L1 40 24,
      Lp_setupi L0 40 12, Addi T2 T2 1, Addi T2 T2 2, Addi T2 T2 3, Addi T2 T2 13, Addi T2 T2 9,
      Sw T2 (- 80) SP, Lp_setupi L1 40 24, Lp_setupi L0 40 12, Lw T1 (- 80) SP, Addi T2 T1 1,
      Sw T2 (- 80) SP, Addi T2 T2 15, Sw T2 (- 80) SP, Mv RES T2]"

definition HWLP_TEST_INTERRUPT1 :: "insn list" where
  "HWLP_TEST_INTERRUPT1 =
     [Addi T0 X0 6, Sw T0 (- 64) SP, Addi T2 X0 53, Sw T2 (- 68) SP, Addi T0 X0 7, Lp_setupi L1 40 40,
      Lp_setupi L0 40 28, Addi T2 T2 1, Addi T2 T2 2, Addi T2 T2 3, Csrrw_mcycle T2 T2, Addi T1 X0 0,
      Csrrw_mcycle T1 T1, Mv T2 T1, Addi T2 T2 13, Addi T2 T2 9, Sw T2 (- 80) SP, Lp_setupi L1 40 44,
      Lp_setupi L0 40 32, Lw T1 (- 80) SP, Addi T2 T1 1, Csrrw_mcycle T2 T2, Addi T1 X0 0,
      Csrrw_mcycle T1 T1, Mv T2 T1, Sw T2 (- 80) SP, Csrrw_mcycle T1 T1, Addi T2 T2 15, Sw T2 (- 80) SP,
      Mv RES T2]"

definition HWLP_TEST_INTERRUPT2 :: "insn list" where
  "HWLP_TEST_INTERRUPT2 =
     [Addi T0 X0 6, Sw T0 (- 64) SP, Addi T2 X0 53, Sw T2 (- 68) SP, Addi T1 X0 7, Lp_setupi L1 10 28,
      Lp_setupi L0 10 16, Addi T2 T2 1, Addi T2 T2 2, Dret, Addi T2 T2 3, Addi T2 T2 13, Addi T2 T2 9,
      Sw T2 (- 80) SP, Lp_setupi L1 10 24, Lp_setupi L0 10 12, Lw T1 (- 80) SP, Addi T2 T1 1,
      Sw T2 (- 80) SP, Addi T2 T2 15, Sw T2 (- 80) SP, Mv RES T2]"

definition HWLP_TEST_INTERRUPT3 :: "insn list" where
  "HWLP_TEST_INTERRUPT3 =
     [Addi T0 X0 6, Sw T0 (- 64) SP, Addi T2 X0 53, Sw T2 (- 68) SP, Addi T1 X0 7, Lp_setupi L1 40 28,
      Lp_setupi L0 40 16, Addi T2 T2 1, Addi T2 T2 2, Addi T2 T2 3, Dret, Addi T2 T2 13, Addi T2 T2 9,
      Sw T2 (- 80) SP, Lp_setupi L1 40 24, Lp_setupi L0 40 12, Lw T1 (- 80) SP, Addi T2 T1 1,
      Sw T2 (- 80) SP, Addi T2 T2 15, Sw T2 (- 80) SP, Mv RES T2]"

definition HWLP_TEST_INTERRUPT4 :: "insn list" where
  "HWLP_TEST_INTERRUPT4 =
     [Addi T0 X0 3, Sw T0 (- 80) SP, Addi T0 X0 85, Sw T0 (- 84) SP, Addi T2 X0 53, Sw T2 (- 68) SP,
      Addi T1 X0 3, Lp_setupi L1 40 40, Lp_setupi L0 40 16, Addi T0 T2 21, Addi T0 T0 10, Addi T2 T0 75,
      Div T2 T2 T1, Addi T1 X0 5, Addi T0 T2 41, Addi T2 T0 171, Div T2 T2 T1, Addi T1 X0 3,
      Lp_setupi L1 40 44, Lp_setupi L0 40 20, Addi T2 T2 21, Lw T1 (- 84) SP, Add T2 T1 T1,
      Lw T1 (- 80) SP, Div T2 T2 T1, Addi T1 X0 5, Addi T0 T2 41, Addi T2 T0 171, Div T2 T2 T1,
      Lw T1 (- 80) SP, Mv RES T2]"

definition RES_EXPECTED0 :: u32 where "RES_EXPECTED0 = 12733"
definition RES_EXPECTED1 :: u32 where "RES_EXPECTED1 = 12733"
definition RES_EXPECTED2 :: u32 where "RES_EXPECTED2 = 1123"
definition RES_EXPECTED4 :: u32 where "RES_EXPECTED4 = 53"

text \<open>\<^verbatim>\<open>main\<close> of \<^verbatim>\<open>hwlp_test.c\<close>, without the stall control.\<close>

definition hwlp_main :: "insn list" where
  "hwlp_main =
     [Ecall] @ HWLP_TEST0 @ [Ebreak] @ HWLP_TEST1 @ [Ecall] @ HWLP_TEST2 @ [Ebreak, Fence_i, Ebreak] @ HWLP_TEST3 @
     [Ecall, Ecall] @ HWLP_TEST4 @ [Ecall] @ HWLP_TEST5 @ [Fence_i] @ HWLP_TEST6"

section \<open>The programs as structured loops\<close>

definition test_blocks0 :: "hw_block list" where
  "test_blocks0 =
     [Loop (Imm 10) [Addi T1 T1 1, Addi T1 T1 2, Addi T1 T1 3, Addi T2 T2 4],
      Code [Mul T1 T1 T2]]"

definition test_blocks1 :: "hw_block list" where
  "test_blocks1 =
     [Nest (Imm 10) [Addi T1 T1 1, Addi T2 T1 2, Addi T1 T2 3, Addi T2 T2 4] 20 [Addi T1 T1 5, Addi T2 T1 6, Addi T1 T2 7] [Addi T2 T2 8, Addi T2 T2 9, Addi T2 T2 10],
      Code [Mul T2 T1 T1]]"

definition test_blocks2 :: "hw_block list" where
  "test_blocks2 =
     [Nest (Imm 100) [Addi T1 T1 1, Addi T2 T1 2, Addi T1 T2 3, Addi T2 T2 4] 200 [Addi T1 T1 5, Addi T2 T1 6, Addi T1 T2 7] [Addi T2 T2 8, Addi T2 T2 9, Addi T2 T2 10],
      Code [Mul T2 T1 T1]]"

definition test_blocks3 :: "hw_block list" where
  "test_blocks3 =
     [Code [Addi T1 X0 0, Addi T2 X0 0],
      Nest (Imm 102) [Addi T1 X0 4, Addi T2 X0 8, Lw T1 24 T2, Addi T2 X0 12, Addi T1 X0 4] 21 [Addi T2 X0 4, Addi T1 X0 4, Lw T2 8 T1, Addi T2 X0 4, Addi T2 X0 4] [Addi T2 X0 4, Lw T1 0 T2, Sw T2 (- 4) SP, Addi T2 X0 4],
      Code [Addi T2 X0 4, Lw T2 8 T2, Addi T2 X0 4, Addi T2 X0 4, Sw T2 (- 12) SP, Addi T2 X0 8, Addi T1 X0 12, Lw T2 4 T1]]"

definition test_blocks4 :: "hw_block list" where
  "test_blocks4 =
     [Code [Addi T0 X0 0],
      Nest (Reg T0) [] 21 [Addi T2 X0 1, Addi T1 X0 2, Lw T2 24 T0] [Add T1 X0 T2, Sw T1 (- 28) SP],
      Code [Mul T0 T0 T0]]"

definition test_blocks5 :: "hw_block list" where
  "test_blocks5 =
     [Code [Addi T0 X0 0, Addi T1 X0 0, Addi T2 X0 0],
      Pieces 12 100
        [Addi T0 X0 1024, Addi T1 X0 4, Addi T2 X0 8, Add T1 T2 T2, Mul T2 T0 T1, Lw T2 128 T0, Sw T2 (- 8) SP, Lw T2 256 T0, Addi T2 X0 4]
        [Lw T1 0 T0, Lw T1 4 T0, Lw T2 8 T0, Lw T1 12 T0, Lw T2 16 T0,
         Sw T1 (- 20) SP, Sw T2 (- 24) SP, Sw T1 (- 28) SP, Lw T1 32 T0, Sw T2 (- 36) SP]
        [Lw T1 0 T0, Sw T2 (- 4) SP],
      Code [Lw T2 8 T0, Addi T2 X0 4, Addi T2 X0 4, Sw T2 (- 12) SP, Addi T1 X0 28],
      Nest (Reg T0) [] 21 [Addi T2 X0 8, Addi T1 X0 12, Sw T2 (- 24) SP] [Addi T1 X0 12, Sw T1 (- 28) SP],
      Code [Lw T1 32 T0, Addi T2 X0 8, Addi T1 X0 12, Lw T2 4 T0]]"

definition test_blocks6 :: "hw_block list" where
  "test_blocks6 =
     [Code [Addi T0 X0 0],
      Nest (Imm 10) [] 20 [Addi T2 X0 1381, Addi T1 X0 17, Div T2 T2 T1] [Lw T2 24 T0, Div T1 T1 T2],
      Code [Sw T1 (- 28) SP, Mul T0 T0 T0]]"

definition main_blocks :: "hw_block list" where
  "main_blocks =
     [Code [Ecall]] @ test_blocks0 @ [Code [Ebreak]] @ test_blocks1 @ [Code [Ecall]] @ test_blocks2 @ [Code [Ebreak, Fence_i, Ebreak]] @
     test_blocks3 @ [Code [Ecall, Ecall]] @ test_blocks4 @ [Code [Ecall]] @ test_blocks5 @ [Code [Fence_i]] @ test_blocks6"

definition irq_blocks0 :: "hw_block list" where
  "irq_blocks0 =
     [Code [Addi T0 X0 6, Sw T0 (- 64) SP, Addi T2 X0 53, Sw T2 (- 68) SP],
      Nest (Imm 40) [] 40 [Addi T2 T2 1, Addi T2 T2 2, Addi T2 T2 3] [Addi T2 T2 13, Addi T2 T2 9],
      Code [Sw T2 (- 80) SP],
      Nest (Imm 40) [] 40 [Lw T1 (- 80) SP, Addi T2 T1 1, Sw T2 (- 80) SP] [Addi T2 T2 15, Sw T2 (- 80) SP],
      Code [Mv RES T2]]"

definition irq_blocks1 :: "hw_block list" where
  "irq_blocks1 =
     [Code [Addi T0 X0 6, Sw T0 (- 64) SP, Addi T2 X0 53, Sw T2 (- 68) SP, Addi T0 X0 7],
      Nest (Imm 40) [] 40 [Addi T2 T2 1, Addi T2 T2 2, Addi T2 T2 3, Csrrw_mcycle T2 T2, Addi T1 X0 0, Csrrw_mcycle T1 T1, Mv T2 T1] [Addi T2 T2 13, Addi T2 T2 9],
      Code [Sw T2 (- 80) SP],
      Nest (Imm 40) [] 40 [Lw T1 (- 80) SP, Addi T2 T1 1, Csrrw_mcycle T2 T2, Addi T1 X0 0, Csrrw_mcycle T1 T1, Mv T2 T1, Sw T2 (- 80) SP, Csrrw_mcycle T1 T1] [Addi T2 T2 15, Sw T2 (- 80) SP],
      Code [Mv RES T2]]"

definition irq_blocks2 :: "hw_block list" where
  "irq_blocks2 =
     [Code [Addi T0 X0 6, Sw T0 (- 64) SP, Addi T2 X0 53, Sw T2 (- 68) SP, Addi T1 X0 7],
      Nest (Imm 10) [] 10 [Addi T2 T2 1, Addi T2 T2 2, Dret, Addi T2 T2 3] [Addi T2 T2 13, Addi T2 T2 9],
      Code [Sw T2 (- 80) SP],
      Nest (Imm 10) [] 10 [Lw T1 (- 80) SP, Addi T2 T1 1, Sw T2 (- 80) SP] [Addi T2 T2 15, Sw T2 (- 80) SP],
      Code [Mv RES T2]]"

definition irq_blocks4 :: "hw_block list" where
  "irq_blocks4 =
     [Code [Addi T0 X0 3, Sw T0 (- 80) SP, Addi T0 X0 85, Sw T0 (- 84) SP, Addi T2 X0 53, Sw T2 (- 68) SP, Addi T1 X0 3],
      Nest (Imm 40) [] 40 [Addi T0 T2 21, Addi T0 T0 10, Addi T2 T0 75, Div T2 T2 T1] [Addi T1 X0 5, Addi T0 T2 41, Addi T2 T0 171, Div T2 T2 T1, Addi T1 X0 3],
      Nest (Imm 40) [] 40 [Addi T2 T2 21, Lw T1 (- 84) SP, Add T2 T1 T1, Lw T1 (- 80) SP, Div T2 T2 T1] [Addi T1 X0 5, Addi T0 T2 41, Addi T2 T0 171, Div T2 T2 T1, Lw T1 (- 80) SP],
      Code [Mv RES T2]]"

definition irq_blocks0_excl :: "hw_block list" where
  "irq_blocks0_excl =
     [Code [Addi T0 X0 6, Sw T0 (- 64) SP, Addi T2 X0 53, Sw T2 (- 68) SP],
      Nest (Imm 40) [] 40 [Addi T2 T2 1, Addi T2 T2 2] [Addi T2 T2 3, Addi T2 T2 13],
      Code [Addi T2 T2 9, Sw T2 (- 80) SP],
      Nest (Imm 40) [] 40 [Lw T1 (- 80) SP, Addi T2 T1 1] [Sw T2 (- 80) SP, Addi T2 T2 15],
      Code [Sw T2 (- 80) SP, Mv RES T2]]"

lemma test_blocks_assemble:
  "HWLP_TEST0 = concat (map (assemble True) test_blocks0)"
  "HWLP_TEST1 = concat (map (assemble True) test_blocks1)"
  "HWLP_TEST2 = concat (map (assemble True) test_blocks2)"
  "HWLP_TEST3 = concat (map (assemble True) test_blocks3)"
  "HWLP_TEST4 = concat (map (assemble True) test_blocks4)"
  "HWLP_TEST5 = concat (map (assemble True) test_blocks5)"
  "HWLP_TEST6 = concat (map (assemble True) test_blocks6)"
  by (simp_all add: HWLP_TEST0_def HWLP_TEST1_def HWLP_TEST2_def HWLP_TEST3_def HWLP_TEST4_def HWLP_TEST5_def HWLP_TEST6_def
      test_blocks0_def test_blocks1_def test_blocks2_def test_blocks3_def test_blocks4_def test_blocks5_def test_blocks6_def
      end_bias_def)

lemma main_blocks_assemble: "hwlp_main = concat (map (assemble True) main_blocks)"
  by (simp add: hwlp_main_def main_blocks_def test_blocks_assemble)

lemma test_blocks_ok:
  "list_all block_ok test_blocks0" "list_all block_ok test_blocks1" "list_all block_ok test_blocks2"
  "list_all block_ok test_blocks3" "list_all block_ok test_blocks4" "list_all block_ok test_blocks5"
  "list_all block_ok test_blocks6"
  by (simp_all add: test_blocks0_def test_blocks1_def test_blocks2_def test_blocks3_def test_blocks4_def test_blocks5_def
      test_blocks6_def loop_body_def is_trap_def)

lemma main_blocks_ok: "list_all block_ok main_blocks"
  by (simp add: main_blocks_def test_blocks_ok)

lemma irq_blocks_assemble:
  "HWLP_TEST_INTERRUPT0 = concat (map (assemble True) irq_blocks0)"
  "HWLP_TEST_INTERRUPT1 = concat (map (assemble True) irq_blocks1)"
  "HWLP_TEST_INTERRUPT2 = concat (map (assemble True) irq_blocks2)"
  "HWLP_TEST_INTERRUPT4 = concat (map (assemble True) irq_blocks4)"
  "HWLP_TEST_INTERRUPT0 = concat (map (assemble False) irq_blocks0_excl)"
  by (simp_all add: HWLP_TEST_INTERRUPT0_def HWLP_TEST_INTERRUPT1_def HWLP_TEST_INTERRUPT2_def HWLP_TEST_INTERRUPT4_def
      irq_blocks0_def irq_blocks1_def irq_blocks2_def irq_blocks4_def irq_blocks0_excl_def end_bias_def)

lemma irq_blocks_ok:
  "list_all block_ok irq_blocks0" "list_all block_ok irq_blocks1" "list_all block_ok irq_blocks2"
  "list_all block_ok irq_blocks4" "list_all block_ok irq_blocks0_excl"
  by (simp_all add: irq_blocks0_def irq_blocks1_def irq_blocks2_def irq_blocks4_def irq_blocks0_excl_def loop_body_def is_trap_def)

section \<open>Results\<close>

lemmas exec_simps = rset_def rget_def

lemma funpow_inv:
  assumes "\<And>i d. P i d \<Longrightarrow> P (Suc i) (F d)" "P 0 d"
  shows "P n ((F ^^ n) d)"
  by (induction n) (simp_all add: assms)

text \<open>Code that adds to \<open>T2\<close>, and code that adds to the word at \<^verbatim>\<open>-80(sp)\<close> and leaves the sum in \<open>T2\<close>.\<close>

definition adds :: "(hw_data \<Rightarrow> hw_data) \<Rightarrow> u32 \<Rightarrow> bool" where
  "adds F a \<longleftrightarrow> (\<forall>d. gpr (F d) T2 = gpr d T2 + a \<and> gpr (F d) SP = gpr d SP)"

definition word80 :: "hw_data \<Rightarrow> u32" where
  "word80 d = dmem d (gpr d SP - 80)"

definition bumps :: "(hw_data \<Rightarrow> hw_data) \<Rightarrow> u32 \<Rightarrow> bool" where
  "bumps F a \<longleftrightarrow> (\<forall>d. word80 (F d) = word80 d + a \<and> gpr (F d) T2 = word80 d + a \<and> gpr (F d) SP = gpr d SP)"

lemma adds_funpow: "adds F a \<Longrightarrow> adds (F ^^ n) (of_nat n * a)"
  by (induction n) (auto simp: adds_def algebra_simps)

lemma bumps_funpow: "bumps F a \<Longrightarrow> bumps (F ^^ Suc n) (of_nat (Suc n) * a)"
  by (induction n) (auto simp: bumps_def algebra_simps)

lemma nest_adds:
  assumes "adds (fold hw_exec ys) a" "adds (fold hw_exec zs) b" "m > 0"
  shows "adds (nest_pass [] m ys zs ^^ n) (of_nat n * (of_nat m * a + b))"
proof -
  have "max 1 m = m" using assms(3) by simp
  then have "adds (nest_pass [] m ys zs) (of_nat m * a + b)"
    using adds_funpow [OF assms(1), of m] assms(2) by (simp add: adds_def nest_pass_def add.assoc)
  then show ?thesis by (rule adds_funpow)
qed

lemma nest_bumps:
  assumes "bumps (fold hw_exec ys) a" "m > 0"
    and "\<And>d. gpr d T2 = word80 d \<Longrightarrow> word80 (fold hw_exec zs d) = word80 d + b \<and>
      gpr (fold hw_exec zs d) T2 = word80 d + b \<and> gpr (fold hw_exec zs d) SP = gpr d SP"
  shows "bumps (nest_pass [] m ys zs ^^ Suc n) (of_nat (Suc n) * (of_nat m * a + b))"
proof -
  obtain k where m: "m = Suc k" using assms(2) by (cases m) auto
  have "bumps (nest_pass [] m ys zs) (of_nat m * a + b)"
    using bumps_funpow [OF assms(1), of k] assms(3) by (simp add: bumps_def nest_pass_def m del: funpow.simps of_nat_Suc)
  then show ?thesis by (rule bumps_funpow)
qed

lemma irq_result0: "gpr (fold meaning irq_blocks0 d) RES = 12733"
proof -
  let ?y = "[Addi T2 T2 1, Addi T2 T2 2, Addi T2 T2 3]" and ?z = "[Addi T2 T2 13, Addi T2 T2 9]"
  let ?v = "[Lw T1 (- 80) SP, Addi T2 T1 1, Sw T2 (- 80) SP]" and ?w = "[Addi T2 T2 15, Sw T2 (- 80) SP]"
  have "adds (nest_pass [] 40 ?y ?z ^^ 40) (of_nat 40 * (of_nat 40 * 6 + 22))"
    by (rule nest_adds) (simp_all add: adds_def exec_simps)
  moreover have "bumps (nest_pass [] 40 ?v ?w ^^ Suc 39) (of_nat (Suc 39) * (of_nat 40 * 1 + 15))"
    by (rule nest_bumps) (simp_all add: bumps_def word80_def exec_simps)
  ultimately show ?thesis
    by (simp add: irq_blocks0_def adds_def bumps_def word80_def exec_simps del: funpow.simps)
qed

lemma irq_result1: "gpr (fold meaning irq_blocks1 d) RES = 12733"
proof -
  let ?y = "[Addi T2 T2 1, Addi T2 T2 2, Addi T2 T2 3, Csrrw_mcycle T2 T2, Addi T1 X0 0, Csrrw_mcycle T1 T1, Mv T2 T1]" and ?z = "[Addi T2 T2 13, Addi T2 T2 9]"
  let ?v = "[Lw T1 (- 80) SP, Addi T2 T1 1, Csrrw_mcycle T2 T2, Addi T1 X0 0, Csrrw_mcycle T1 T1, Mv T2 T1, Sw T2 (- 80) SP, Csrrw_mcycle T1 T1]" and ?w = "[Addi T2 T2 15, Sw T2 (- 80) SP]"
  have "adds (nest_pass [] 40 ?y ?z ^^ 40) (of_nat 40 * (of_nat 40 * 6 + 22))"
    by (rule nest_adds) (simp_all add: adds_def exec_simps)
  moreover have "bumps (nest_pass [] 40 ?v ?w ^^ Suc 39) (of_nat (Suc 39) * (of_nat 40 * 1 + 15))"
    by (rule nest_bumps) (simp_all add: bumps_def word80_def exec_simps)
  ultimately show ?thesis
    by (simp add: irq_blocks1_def adds_def bumps_def word80_def exec_simps del: funpow.simps)
qed

lemma irq_result2: "gpr (fold meaning irq_blocks2 d) RES = 1123"
proof -
  let ?y = "[Addi T2 T2 1, Addi T2 T2 2, Dret, Addi T2 T2 3]" and ?z = "[Addi T2 T2 13, Addi T2 T2 9]"
  let ?v = "[Lw T1 (- 80) SP, Addi T2 T1 1, Sw T2 (- 80) SP]" and ?w = "[Addi T2 T2 15, Sw T2 (- 80) SP]"
  have "adds (nest_pass [] 10 ?y ?z ^^ 10) (of_nat 10 * (of_nat 10 * 6 + 22))"
    by (rule nest_adds) (simp_all add: adds_def exec_simps)
  moreover have "bumps (nest_pass [] 10 ?v ?w ^^ Suc 9) (of_nat (Suc 9) * (of_nat 10 * 1 + 15))"
    by (rule nest_bumps) (simp_all add: bumps_def word80_def exec_simps)
  ultimately show ?thesis
    by (simp add: irq_blocks2_def adds_def bumps_def word80_def exec_simps del: funpow.simps)
qed

text \<open>With divisions: each loop keeps 53 in \<open>T2\<close>.\<close>

lemma rv_div_values: "rv_div 159 3 = 53" "rv_div 265 5 = 53" "rv_div 170 3 = 56" "rv_div 268 5 = 53"
  by code_simp+

lemma irq_result4: "gpr (fold meaning irq_blocks4 d) RES = 53"
proof -
  let ?y = "[Addi T0 T2 21, Addi T0 T0 10, Addi T2 T0 75, Div T2 T2 T1]"
  let ?z = "[Addi T1 X0 5, Addi T0 T2 41, Addi T2 T0 171, Div T2 T2 T1, Addi T1 X0 3]"
  let ?v = "[Addi T2 T2 21, Lw T1 (- 84) SP, Add T2 T1 T1, Lw T1 (- 80) SP, Div T2 T2 T1]"
  let ?w = "[Addi T1 X0 5, Addi T0 T2 41, Addi T2 T0 171, Div T2 T2 T1, Lw T1 (- 80) SP]"
  define P where "P d \<longleftrightarrow> gpr d T2 = 53 \<and> gpr d T1 = 3 \<and> dmem d (gpr d SP - 84) = 85 \<and> dmem d (gpr d SP - 80) = 3" for d :: hw_data
  define Q where "Q d \<longleftrightarrow> gpr d T1 = 3 \<and> dmem d (gpr d SP - 84) = 85 \<and> dmem d (gpr d SP - 80) = 3" for d :: hw_data
  have in1: "P ((fold hw_exec ?y ^^ n) d)" if "P d" for n d
    by (rule funpow_inv [where P = "\<lambda>_. P"]) (use that in \<open>simp_all add: P_def exec_simps rv_div_values\<close>)
  have "P (nest_pass [] 40 ?y ?z d)" if "P d" for d
    using in1 [OF that, of 40] by (simp add: nest_pass_def P_def exec_simps rv_div_values)
  then have n1: "P ((nest_pass [] 40 ?y ?z ^^ 40) d)" if "P d" for d
    by (rule funpow_inv [where P = "\<lambda>_. P"]) (use that in simp_all)
  have in2: "Q ((fold hw_exec ?v ^^ n) d) \<and> (n > 0 \<longrightarrow> gpr ((fold hw_exec ?v ^^ n) d) T2 = 56)" if "P d" for n d
    by (rule funpow_inv [where P = "\<lambda>n d. Q d \<and> (n > 0 \<longrightarrow> gpr d T2 = 56)"])
      (use that in \<open>simp_all add: P_def Q_def exec_simps rv_div_values\<close>)
  have "P (nest_pass [] 40 ?v ?w d)" if "P d" for d
    using in2 [OF that, of 40] by (simp add: nest_pass_def P_def Q_def exec_simps rv_div_values)
  then have n2: "P ((nest_pass [] 40 ?v ?w ^^ 40) d)" if "P d" for d
    by (rule funpow_inv [where P = "\<lambda>_. P"]) (use that in simp_all)
  let ?d = "fold hw_exec [Addi T0 X0 3, Sw T0 (- 80) SP, Addi T0 X0 85, Sw T0 (- 84) SP, Addi T2 X0 53, Sw T2 (- 68) SP, Addi T1 X0 3] d"
  have "P ?d" by (simp add: P_def exec_simps)
  from n2 [OF n1 [OF this]] show ?thesis
    by (simp add: irq_blocks4_def P_def exec_simps del: funpow.simps)
qed

text \<open>The first of these programs when the end of a loop is the instruction after it.\<close>

lemma irq_result0_excl: "gpr (fold meaning irq_blocks0_excl d) RES = 5557"
proof -
  let ?y = "[Addi T2 T2 1, Addi T2 T2 2]" and ?z = "[Addi T2 T2 3, Addi T2 T2 13]"
  let ?v = "[Lw T1 (- 80) SP, Addi T2 T1 1]" and ?w = "[Sw T2 (- 80) SP, Addi T2 T2 15]"
  have f1: "adds (nest_pass [] 40 ?y ?z ^^ 40) (of_nat 40 * (of_nat 40 * 3 + 16))"
    by (rule nest_adds) (simp_all add: adds_def exec_simps)
  have in2: "word80 ((fold hw_exec ?v ^^ n) d) = word80 d \<and> gpr ((fold hw_exec ?v ^^ n) d) SP = gpr d SP \<and>
      (n > 0 \<longrightarrow> gpr ((fold hw_exec ?v ^^ n) d) T2 = word80 d + 1)" for n d
    by (rule funpow_inv [where P = "\<lambda>n u. word80 u = word80 d \<and> gpr u SP = gpr d SP \<and> (n > 0 \<longrightarrow> gpr u T2 = word80 d + 1)"])
      (auto simp: word80_def exec_simps)
  have "word80 (nest_pass [] 40 ?v ?w d) = word80 d + 1 \<and> gpr (nest_pass [] 40 ?v ?w d) SP = gpr d SP \<and>
      gpr (nest_pass [] 40 ?v ?w d) T2 = word80 d + 16" for d
    using in2 [of 40 d] by (simp add: nest_pass_def word80_def exec_simps)
  then have f2: "word80 ((nest_pass [] 40 ?v ?w ^^ 40) d) = word80 d + of_nat 40 \<and>
      gpr ((nest_pass [] 40 ?v ?w ^^ 40) d) T2 = word80 d + of_nat 40 + 15" for d
    using funpow_inv [where F = "nest_pass [] 40 ?v ?w" and n = 40 and d = d and
      P = "\<lambda>n u. word80 u = word80 d + of_nat n \<and> (n > 0 \<longrightarrow> gpr u T2 = word80 d + of_nat n + 15)"] by simp
  from f1 f2 show ?thesis
    by (simp add: irq_blocks0_excl_def adds_def word80_def exec_simps del: funpow.simps)
qed

lemma irq_stack_safe:
  "list_all stack_safe HWLP_TEST_INTERRUPT0" "list_all stack_safe HWLP_TEST_INTERRUPT1"
  "list_all stack_safe HWLP_TEST_INTERRUPT2" "list_all stack_safe HWLP_TEST_INTERRUPT4"
  by (simp_all add: HWLP_TEST_INTERRUPT0_def HWLP_TEST_INTERRUPT1_def HWLP_TEST_INTERRUPT2_def HWLP_TEST_INTERRUPT4_def
      kept_offsets_def)

text \<open>An interrupted run of a program comes to its end with a value in the result register.\<close>

definition ends_with :: "bool \<Rightarrow> insn list \<Rightarrow> hw_state \<Rightarrow> u32 \<Rightarrow> bool" where
  "ends_with incl prog t r \<longleftrightarrow>
     (\<exists>m. pc ((hw_step incl prog ^^ m) t) = 4 * length prog \<and> gpr (dat ((hw_step incl prog ^^ m) t)) RES = r)"

lemma blocks_end_with:
  assumes "prog = concat (map (assemble incl) bs)" "list_all block_ok bs" "list_all stack_safe prog"
    "gpr (fold meaning bs d) RES = r" "irq_run incl prog (hw_start d) t"
  shows "ends_with incl prog t r"
  using interrupted_finish [OF blocks_finish [OF assms(1,2)] assms(5,3)] assms(4) by (auto simp: ends_with_def)

section \<open>Properties\<close>

text \<open>
  The constants of the header fit its own reading of the loops: with the end of a loop as its last
  instruction, the self-checking programs come, from every state an interrupted run can be in, to their end
  with the expected constant in the result register. This is about the header, not about the core: the
  core's end is the instruction after the last (\<^verbatim>\<open>corev_hw_loop.rst\<close>, and \<^verbatim>\<open>cv32e40p_controller.sv\<close>, which compares the end
  with \<^verbatim>\<open>pc + 4\<close>), and the manual forbids the \<^verbatim>\<open>dret\<close> that the third program has in a loop.
\<close>

theorem hwlp_results:
  "(irq_run True HWLP_TEST_INTERRUPT0 (hw_start d) t \<longrightarrow> ends_with True HWLP_TEST_INTERRUPT0 t RES_EXPECTED0) \<and>
   (irq_run True HWLP_TEST_INTERRUPT1 (hw_start d) t \<longrightarrow> ends_with True HWLP_TEST_INTERRUPT1 t RES_EXPECTED1) \<and>
   (irq_run True HWLP_TEST_INTERRUPT2 (hw_start d) t \<longrightarrow> ends_with True HWLP_TEST_INTERRUPT2 t RES_EXPECTED2) \<and>
   (irq_run True HWLP_TEST_INTERRUPT4 (hw_start d) t \<longrightarrow> ends_with True HWLP_TEST_INTERRUPT4 t RES_EXPECTED4)"
  unfolding RES_EXPECTED0_def RES_EXPECTED1_def RES_EXPECTED2_def RES_EXPECTED4_def
  using blocks_end_with [OF irq_blocks_assemble(1) irq_blocks_ok(1) irq_stack_safe(1) irq_result0]
    blocks_end_with [OF irq_blocks_assemble(2) irq_blocks_ok(2) irq_stack_safe(2) irq_result1]
    blocks_end_with [OF irq_blocks_assemble(3) irq_blocks_ok(3) irq_stack_safe(3) irq_result2]
    blocks_end_with [OF irq_blocks_assemble(4) irq_blocks_ok(4) irq_stack_safe(4) irq_result4] by blast

theorem hwlp_results_witness:
  "\<exists>t. hw_irq (hw_start \<lparr>gpr = \<lambda>_. 0, dmem = \<lambda>_. 0, mcycle = 0\<rparr>) t \<and> dmem (dat t) 0x100 = 7 \<and>
     ends_with True HWLP_TEST_INTERRUPT0 (hw_step True HWLP_TEST_INTERRUPT0 t) 12733"
proof -
  let ?d = "\<lparr>gpr = \<lambda>_. 0, dmem = \<lambda>_. 0, mcycle = 0\<rparr> :: hw_data"
  let ?t = "hw_start (?d\<lparr>dmem := (\<lambda>_. 0)(0x100 := 7)\<rparr>)"
  have irq: "hw_irq (hw_start ?d) ?t" by (simp add: hw_irq_def hw_start_def same_data_def kept_offsets_def)
  then have "irq_run True HWLP_TEST_INTERRUPT0 (hw_start ?d) (hw_step True HWLP_TEST_INTERRUPT0 ?t)"
    by (intro irq_insn irq_taken [OF irq_refl])
  with hwlp_results [of ?d "hw_step True HWLP_TEST_INTERRUPT0 ?t"] irq show ?thesis
    by (intro exI [of _ ?t]) (simp add: RES_EXPECTED0_def hw_start_def)
qed

text \<open>
  The header and the manual of the core disagree on where a loop ends. With the manual's convention,
  by which the end register holds the address after the last instruction, each loop of the first
  self-checking program loses its last instruction: run on it, the program computes 5557 and not the expected
  constant. (Its inner loops then have two instructions, where the manual asks for three.)
\<close>

theorem hwlp_end_convention:
  "finishes False HWLP_TEST_INTERRUPT0 d d' \<Longrightarrow> gpr d' RES = 5557 \<and> gpr d' RES \<noteq> RES_EXPECTED0"
  by (drule finishes_unique [OF _ blocks_finish [OF irq_blocks_assemble(5) irq_blocks_ok(5)]])
    (simp add: irq_result0_excl RES_EXPECTED0_def)

theorem hwlp_end_convention_witness:
  "\<exists>d'. finishes False HWLP_TEST_INTERRUPT0 \<lparr>gpr = \<lambda>_. 0, dmem = \<lambda>_. 0, mcycle = 0\<rparr> d' \<and> gpr d' RES = 5557"
  using hwlp_end_convention blocks_finish [OF irq_blocks_assemble(5) irq_blocks_ok(5)] by blast

text \<open>
  The test program of \<^verbatim>\<open>hwlp_test.c\<close> and its macros in the header's reading: they run to their end, whatever the
  registers and the memory hold, and their hardware loops mean structured loops: the body of each is executed as
  often as its count says, once when it is zero, and an inner loop anew in every pass of the outer one. On the core,
  with the other convention, a loop leaves its last instruction out; \<^verbatim>\<open>HWLP_TEST5\<close> moreover writes an end register
  while the count is not zero, which the manual leaves undefined.
\<close>

theorem hwlp_tests_refine:
  "finishes True hwlp_main d (fold meaning main_blocks d) \<and>
   finishes True HWLP_TEST0 d (fold meaning test_blocks0 d) \<and> finishes True HWLP_TEST1 d (fold meaning test_blocks1 d) \<and>
   finishes True HWLP_TEST2 d (fold meaning test_blocks2 d) \<and> finishes True HWLP_TEST3 d (fold meaning test_blocks3 d) \<and>
   finishes True HWLP_TEST4 d (fold meaning test_blocks4 d) \<and> finishes True HWLP_TEST5 d (fold meaning test_blocks5 d) \<and>
   finishes True HWLP_TEST6 d (fold meaning test_blocks6 d)"
  by (intro conjI blocks_finish main_blocks_assemble main_blocks_ok test_blocks_assemble test_blocks_ok)

end
