(* ===== verification/Spec2Isabelle.thy ===== *)
theory Spec2Isabelle
  imports Prelude Test_Defs Ram_Model Mem_Model Cache_Data Cache_Dir Amo Driver Seq_Setup Fault_Injection Mem_Resp
    Scoreboard_Props Golden_Props Trace_Props Testbench Interrupt_Test Fp_Test Hwlp_Test
begin

text \<open>
  The program. The repository integrates a RISC-V core with an L1 data cache (the HPDcache); the
  hardware itself is SystemVerilog. Its C and C++ code is the test bench that judges the cache
  (\<^verbatim>\<open>src/rtl/l1_cache/hpdcache/cv-hpdcache/rtl/tb\<close>, written TB below), a small verification library
  (\<^verbatim>\<open>TB/sc_verif_lib\<close>), a plugin that records traces (\<^verbatim>\<open>TB/qemu_plugin\<close>) and firmware examples
  (\<^verbatim>\<open>src/example_tb\<close>). A sequence draws requests and takes an identifier for each, the driver packs
  them into the request wires, a memory model answers the cache, and the scoreboard sees every
  request and response on both sides and decides whether the cache behaved. The development verifies
  that test bench: a cache is only as trustworthy as the judge.

  Theories, in the order they build on each other.

  \<^item> \<open>Prelude\<close>: machine words, \<^verbatim>\<open>sc_bv\<close> ranges, little-endian bytes, outcomes of handlers
    (continue, exit, undefined) and \<^verbatim>\<open>std::map\<close> as a sorted association list, with the locale
    \<open>std_map\<close> for its laws.
  \<^item> \<open>Test_Defs\<close>: the macros of \<^verbatim>\<open>hpdcache_test_defs.h\<close> in the default configuration.
  \<^item> \<open>Ram_Model\<close> (\<^verbatim>\<open>ram_model.h\<close>): a byte memory with a bitmap of known bytes; it refines a partial
    map from addresses to bytes (locale \<open>byte_store\<close>).
  \<^item> \<open>Mem_Model\<close> (\<^verbatim>\<open>mem_model.h\<close>): the sparse memory of words; locale \<open>word_memory\<close>.
  \<^item> \<open>Cache_Data\<close>, \<open>Cache_Dir\<close> (\<^verbatim>\<open>generic_cache_data.h\<close>, \<^verbatim>\<open>generic_cache_directory_base.h\<close>,
    \<^verbatim>\<open>generic_cache_directory_plru.h\<close>): the reference cache. The directory's reachable states are an
    inductive predicate with an invariant (valid tags of a set are distinct, the pseudo-LRU bits of a
    set are never all ones); the locale \<open>replacement_policy\<close> is what the base class asks of a policy.
  \<^item> \<open>Sc_Verif_Lib\<close> (\<^verbatim>\<open>sc_verif_lib/include\<close>): transactions, the object pool (references into a
    heap), sequences, drivers, agents, the logger.
  \<^item> \<open>Transaction\<close> (\<^verbatim>\<open>hpdcache_test_transaction.h\<close>), \<open>Amo\<close> (\<^verbatim>\<open>hpdcache_test_amo.h\<close>),
    \<open>Fault_Injection\<close> (\<^verbatim>\<open>hpdcache_fault_injection.h\<close>).
  \<^item> \<open>Driver\<close> (\<^verbatim>\<open>hpdcache_test_driver.h\<close>): packing and unpacking (locale \<open>codec\<close>), and the threads
    as functions of one clock edge.
  \<^item> \<open>Test_Sequence\<close>, \<open>Seq_Lib\<close> (\<^verbatim>\<open>hpdcache_test_sequence.h\<close>, \<^verbatim>\<open>sequence_lib\<close>): identifiers in flight
    (locale \<open>id_allocator\<close>) and the random, unique-set, read and write sequences (locales
    \<open>request_source\<close> and \<open>lrsc_source\<close>, whose one proof serves every sequence). The draws of the SCV
    generators are arguments, constrained to the distributions the code sets up.
  \<^item> \<open>Mem_Resp\<close> (\<^verbatim>\<open>hpdcache_test_mem_resp_model_base.h\<close>, \<^verbatim>\<open>hpdcache_test_mem_resp_model.h\<close>): the memory
    side, its six threads as an inductive step relation.
  \<^item> \<open>Scoreboard\<close> (\<^verbatim>\<open>hpdcache_test_scoreboard.h\<close>): one definition per handler, composed over lists of
    events in any order. \<open>Scoreboard_Inv\<close> has its invariant and the preservation by every handler,
    \<open>Scoreboard_Exec\<close> the exact effect of single handlers and where they are defined,
    \<open>Scoreboard_Props\<close> the properties.
  \<^item> \<open>Golden\<close>, \<open>Coherence\<close>, \<open>Golden_Props\<close>: the scoreboard against its purpose. \<open>Golden\<close> is an abstract judge
    that keeps the known bytes, the requests in flight with the memory as it was when they were accepted,
    and the reservation, with the simulation of every handler by it; \<open>Coherence\<close> a reference system that
    holds what core and memory really contain, with the locales \<open>core_kept\<close> and \<open>all_kept\<close> for what a
    step leaves alone; \<open>Golden_Props\<close> what both give together.
  \<^item> \<open>Seq_Setup\<close>: the preambles of the sequences' threads (error segments and delays of the memory model) and
    the members they repeat.
  \<^item> \<open>Trace_Manager\<close> (\<^verbatim>\<open>hpdcache_test_trace_manager.h\<close>, \<^verbatim>\<open>hpdcache_test_from_trace_seq.h\<close>), \<open>Qemu_Plugin\<close>
    (\<^verbatim>\<open>qemu_plugin.c\<close>) and \<open>Trace_Props\<close>: recording and replaying traces.

  \<^item> \<open>Wiring\<close> and \<open>Testbench\<close> (\<^verbatim>\<open>hpdcache_tb.cpp\<close>, \<^verbatim>\<open>hpdcache_test_agent.h\<close> and the port declarations of the modules): signals,
    ports and bindings as tables, the options of \<^verbatim>\<open>sc_main\<close>, \<^verbatim>\<open>build\<close>, and the clock and reset of \<^verbatim>\<open>simulate\<close>.
  \<^item> \<open>Firmware\<close> (\<^verbatim>\<open>src/example_tb/core\<close>: \<^verbatim>\<open>custom/syscalls.c\<close>, \<^verbatim>\<open>custom/hello_world.c\<close>, \<^verbatim>\<open>firmware/stats.c\<close>, \<^verbatim>\<open>mem_stall\<close>),
    \<open>Interrupt_Test\<close> (\<^verbatim>\<open>interrupt\<close>), \<open>Fp_Test\<close> (\<^verbatim>\<open>custom_fp\<close>): the programs the core runs in its example test bench. The core
    under test is a parameter of the interrupt test; single precision is exact rounding on integers.
  \<^item> \<open>Hwlp\<close> and \<open>Hwlp_Test\<close> (\<^verbatim>\<open>hwlp_test\<close>): a machine with two hardware loops, the theorem that code laid out by its set-up
    instructions means structured loops, and the test programs instruction by instruction.

  What is shown. The scoreboard: a store is checked against later loads byte by byte, responses
  balance requests, the error limit is exact, the reservation buffer refines the specification of
  LR/SC, what is known is never overwritten by a refill, and
  undefined behaviour arises only in one computation, which is characterised exactly. Every run of it is
  a run of the abstract judge, in which atomics have their RISC-V result; a cache that answers from a
  coherent memory is never accused of wrong data before something else went wrong, the first answer
  that contradicts a byte the core wrote is reported, and every sequence of the library keeps to
  addresses for which this holds, from the command line on, although the scoreboard keeps 16 MiB of a
  larger address space. This is said of runs up to the first undefined refill: an error-free refill of a
  64-byte line always is undefined, which is a property of its own, and nothing is claimed after it. The memory
  model: reads see writes, and under every interleaving of its threads the channels to the scoreboard carry the beats
  of every read, complete, in order and in error exactly on the error segments, one response per AMO and one
  acknowledgement per write; a reservation is used once. The directory: a refill always finds a victim, and not
  the line just used. Sequences: runs terminate, every request is well formed and in its segment,
  and core and memory side expect errors of the same requests.
  Driver: nothing is lost, duplicated or reordered, and the packed request is the struct of the cache with exactly
  the interface fields of the transaction. The object pool loses no transaction. Traces: what is recorded is
  what is replayed, for 64-bit programs. The test bench: the scoreboard is built in the state its properties start
  from, and the reset protocol; the tables of its wiring are checked for consistency and for bindings by name.
  Firmware: the ordering test passes exactly for the interrupt order of its table and the whole test for a core with
  the order of the manual; the matrix product of the floating-point example is exact wherever 24 bits suffice.
  The last section of this theory has the properties that span components.

  The hardware-loop programs are modelled, and run, in the reading of their header, by which a loop ends with the
  instruction its end register addresses. The core and its manual end it one instruction earlier; so the theorems
  on these programs say that the header is consistent with itself, not what the core computes, and with the manual's
  reading the first of them misses its expected constant. Where the code does not do what it means to, the theorem says what it does.

  Conventions. A handler returns an outcome; \<^verbatim>\<open>exit\<close> and failed assertions are one constructor,
  undefined behaviour of C++ (a shift by the width of a type, an index outside an array) another. Loops
  are structural recursions on counters of the code, so there is no fuel; loops that may not end
  (\<^verbatim>\<open>allocate_id\<close>, compression and decompression) are \<^theory_text>\<open>partial_function\<close>s and shown to return, or not
  to. Values the code leaves uninitialised are arguments. A write to an \<^verbatim>\<open>sc_fifo\<close> is visible to its
  reader at once; blocking is a step that is not enabled. The compressor, the decompressor, QEMU, the
  operating system, \<^verbatim>\<open>rand\<close> and the simulator's hierarchy are parameters; the contracts assumed of
  them are definitions named in the theorems, with an instance for which they hold.

  Not modelled: the hardware (SystemVerilog, and the start-up code in assembly); miniz (third party); messages above
  the default verbosity and the three floating-point ratios of the statistics; the disabled directory
  comparison of the scoreboard; wave dumps, coverage files and the variant \<^verbatim>\<open>CREATE_FILE\<close> of the test bench, which would write
  the trace of a run but calls functions that are not declared. The hardware-loop program \<^verbatim>\<open>HWLP_TEST_INTERRUPT3\<close> is given without a theorem on its result: it ends
  a loop with a trap, and the source expects no result either.
\<close>

section \<open>Properties across components\<close>

text \<open>The traffic of a random run: its requests, and anything else but error-free memory responses.\<close>

fun traffic_of :: "hpdcache_test_transaction_req option list \<Rightarrow> sb_event \<Rightarrow> bool" where
  "traffic_of q (Core_req junk t) = (Some t \<in> set q)"
| "traffic_of q (Mem_read_req r) = (unat (mreq_size r) < 64)"
| "traffic_of q (Mem_write_req r) = (unat (mreq_size r) < 64)"
| "traffic_of q (Mem_read_resp r) = (rresp_error r \<noteq> 0)"
| "traffic_of q v = True"

lemma traffic_event_ok:
  assumes "traffic_of q v" "\<And>t. Some t \<in> set q \<Longrightarrow> req_wf t"
  shows "event_ok v"
  using assms by (cases v) auto

text \<open>
  C15. The random sequence and the scoreboard fit: any interleaving of requests of a random run (in
  any order, any number of times) with core responses, memory requests, memory write responses,
  erroneous memory read responses and clock edges is judged without undefined behaviour.
\<close>

theorem random_traffic_defined:
  assumes "env_ok (random_draws fi fid fi2) e" and "random_run e n = Some q"
    and "list_all (traffic_of q) vs"
  shows "sb_run vs (sb_start junk ids segs limit) \<noteq> Undefined"
proof
  assume u: "sb_run vs (sb_start junk ids segs limit) = Undefined"
  obtain out where "q = map Some out @ [None]" "\<forall>t \<in> set out. req_wf t"
    using random_src.lrsc_run_good [OF assms(1), of n] assms(2) by (auto simp: random_run_def req_in_def)
  then have "\<forall>v \<in> set vs. event_ok v"
    using assms(3) by (auto simp: list_all_iff intro!: traffic_event_ok)
  moreover have "sb_safe (sb_start junk ids segs limit)"
    using sb_start_inv [of junk ids segs limit] by (simp add: sb_safe_def sb_start_defs fits_table_def)
  ultimately obtain v where "v \<in> set vs" "\<exists>t. bad_refill t v"
    using sb_run_defined [OF _ _ u] by (metis in_set_conv_decomp)
  with assms(3) show False by (auto simp: bad_refill_def list_all_iff)
qed

theorem random_traffic_defined_witness:
  "\<exists>q t. random_run (env_w draws_w) 1 = Some q \<and> Some t \<in> set q \<and>
     (\<forall>junk junk' ids segs limit. sb_run [Core_req junk' t, Clk_neg] (sb_start junk ids segs limit) \<noteq> Undefined)"
proof -
  have ok: "env_ok (random_draws False False False) (env_w draws_w)"
    by (rule env_w_ok [where ok = "random_draws False False False", OF random_draws_w])
  obtain out where q: "random_run (env_w draws_w) 1 = Some (map Some out @ [None])" "1 \<le> length out"
    using random_src.lrsc_run_good [OF ok, of 1] by (auto simp: random_run_def)
  then obtain t where "t \<in> set out" by (cases out) auto
  with random_traffic_defined [OF ok q(1), of "[Core_req junk' t, Clk_neg]" for junk'] q(1) show ?thesis by auto
qed

text \<open>
  The sequences of the library by the choice of the command line: their segments, the constraints on
  their draws, their runs, and what their threads do to the memory model first. The scoreboard consults
  the memory model through its pointer. Replaying a trace is not among them (\<open>None\<close>): its addresses
  are those of the trace.
\<close>

fun sequence_segs :: "seq_choice \<Rightarrow> hpdcache_test_memory_segment list" where
  "sequence_segs Random_seq = random_segs"
| "sequence_segs Unique_set_seq = unique_set_segs"
| "sequence_segs Read_seq = [read_seg]"
| "sequence_segs Write_seq = [write_seg]"
| "sequence_segs (From_trace_seq f) = []"

fun sequence_draws :: "bool \<Rightarrow> bool \<Rightarrow> bool \<Rightarrow> seq_choice \<Rightarrow> draws \<Rightarrow> bool" where
  "sequence_draws fi fid fi2 Random_seq dr = random_draws fi fid fi2 dr"
| "sequence_draws fi fid fi2 Unique_set_seq dr = unique_set_draws dr"
| "sequence_draws fi fid fi2 Read_seq dr = read_draws dr"
| "sequence_draws fi fid fi2 Write_seq dr = write_draws dr"
| "sequence_draws fi fid fi2 (From_trace_seq f) dr = False"

fun sequence_run :: "seq_choice \<Rightarrow> u32 \<Rightarrow> run_env \<Rightarrow> nat \<Rightarrow> hpdcache_test_transaction_req option list option" where
  "sequence_run Random_seq rnd e n = random_run e n"
| "sequence_run Unique_set_seq rnd e n = unique_set_run rnd e n"
| "sequence_run Read_seq rnd e n = read_run e n"
| "sequence_run Write_seq rnd e n = write_run e n"
| "sequence_run (From_trace_seq f) rnd e n = None"

definition random_thread_start :: "hpdcache_test \<Rightarrow> hpdcache_test" where
  "random_thread_start t =
     (case random_run_setup (Some (tb_mem t)) of
        None \<Rightarrow> t
      | Some m \<Rightarrow> t\<lparr>tb_mem := m, tb_sb := set_mem_resp_model (errorsegs m) (tb_sb t)\<rparr>)"

fun sequence_thread_start ::
  "(int \<Rightarrow> ((int \<times> int) \<times> nat) list \<Rightarrow> ((int \<times> int) \<times> nat) list) \<Rightarrow> seq_choice \<Rightarrow> hpdcache_test \<Rightarrow> hpdcache_test" where
  "sequence_thread_start keep_only Random_seq t = random_thread_start t"
| "sequence_thread_start keep_only Read_seq t = t\<lparr>tb_mem := read_run_setup (tb_mem t)\<rparr>"
| "sequence_thread_start keep_only Write_seq t = t\<lparr>tb_mem := write_run_setup keep_only (tb_mem t)\<rparr>"
| "sequence_thread_start keep_only ch t = t"

lemma sequence_thread_start_sb:
  assumes "tb_sb t = sb_start junk ids (errorsegs (tb_mem t)) limit"
  shows "tb_sb (sequence_thread_start keep_only ch t) =
    sb_start junk ids (errorsegs (tb_mem (sequence_thread_start keep_only ch t))) limit"
  using assms
  by (cases ch) (simp_all add: random_thread_start_def random_run_setup_def sb_start_defs read_run_setup_def write_run_setup_def
      set_ra_ready_delay_distribution_def set_rd_valid_delay_distribution_def set_wa_ready_delay_distribution_def
      set_wd_ready_delay_distribution_def set_wb_valid_delay_distribution_def Let_def)

lemma sequence_segs_ok: "word_segs (sequence_segs ch) \<and> alias_free (segs_bytes (sequence_segs ch))"
proof -
  have "word_segs (sequence_segs ch)"
    by (cases ch) (simp_all add: word_segs_def random_segs_def unique_set_segs_def mk_segment_def read_seg_def write_seg_def segment_defs Let_def)
  moreover have "alias_free (segs_bytes (sequence_segs ch))"
  proof (cases ch)
    case Random_seq
    show ?thesis unfolding Random_seq sequence_segs.simps by (rule random_segs_alias_free)
  next
    case Unique_set_seq
    show ?thesis unfolding Unique_set_seq sequence_segs.simps unique_set_segs_bytes by (rule random_segs_alias_free)
  next
    case Read_seq
    show ?thesis unfolding Read_seq
      by (rule small_segs_alias_free) (auto simp: segs_bytes_def read_seg_def segment_defs)
  next
    case Write_seq
    show ?thesis unfolding Write_seq
      by (rule small_segs_alias_free) (auto simp: segs_bytes_def write_seg_def segment_defs)
  qed (simp add: alias_free_def segs_bytes_def)
  ultimately show ?thesis ..
qed

lemma sequence_run_in:
  assumes "env_ok (sequence_draws fi fid fi2 ch) e" and "sequence_run ch rnd e n = Some q"
  obtains out where "q = map Some out @ [None]" "\<forall>t \<in> set out. req_in (sequence_segs ch) t" "n \<le> length out"
proof (cases ch)
  case Random_seq
  with assms random_src.lrsc_run_good [of fi fid fi2 e n] that show thesis
    by (auto simp: random_run_def env_ok_def)
next
  case Unique_set_seq
  with assms unique_src.lrsc_run_good [of e n rnd] that show thesis
    by (auto simp: unique_set_run_def in_unique_set_def env_ok_def Let_def)
next
  case Read_seq
  with assms read_src.plain_run_good [of e n] that show thesis
    by (auto simp: read_run_def req_in_def env_ok_def)
next
  case Write_seq
  with assms write_src.plain_run_good [of e n] that show thesis
    by (auto simp: write_run_def req_in_def env_ok_def)
qed (use assms in simp)

text \<open>
  C4. The whole test raises no false alarms: whatever the command line, when it builds a test bench with
  a sequence of the library and without an error limit (no \<^verbatim>\<open>-e\<close>, or a limit of 0), the segments of
  that sequence do not meet in the 16 MiB the scoreboard keeps; and when the requests of a run of the
  sequence are interleaved with the answers of a coherent cache and memory, errors in the error
  segments included, wrong data is not the first message of the scoreboard as far as the run goes. It
  goes to its end, unless it comes to a refill that is undefined (as every error-free refill of a
  64-byte line is) or to an allocation with no identifier left. Replaying a trace is not covered: its
  addresses are those of the trace (\<open>sequence_run\<close> is \<open>None\<close>).
\<close>

theorem library_test_no_false_alarm:
  assumes "tb_setup fs h opts (hpdcache_test_new a b c) = Next t"
    and "tb_seq t = Some (ch, sq)" and "tb_error_limit t = 0" and "t' = sequence_thread_start keep_only ch t"
    and "env_ok (sequence_draws fi fid fi2 ch) e" and "sequence_run ch rnd e (max_transactions sq) = Some q"
    and "list_all (system_traffic (sequence_segs ch) q) vs"
    and "honest (errorsegs (tb_mem t')) (ref_start m) vs"
  shows "alias_free (segs_bytes (sequence_segs ch)) \<and>
     (case sb_run vs (tb_sb t') of
        Next s \<Rightarrow> sb_errors s = [] \<or> \<not> is_wrong_data (hd (sb_errors s))
      | stopped \<Rightarrow> \<exists>us v ws s. vs = us @ v # ws \<and> sb_run us (tb_sb t') = Next s \<and>
          (sb_errors s = [] \<or> \<not> is_wrong_data (hd (sb_errors s))) \<and> (bad_refill s v \<or> \<not> id_granted s v))"
proof -
  have "tb_sb t = sb_start c [] (errorsegs (tb_mem t)) 0"
    using setup_state [OF assms(1)] setup_mem [OF assms(1)] assms(3) by (simp add: mem_resp_new_def)
  then have sb: "tb_sb t' = sb_start c [] (errorsegs (tb_mem t')) 0"
    unfolding assms(4) by (rule sequence_thread_start_sb)
  obtain out where out: "q = map Some out @ [None]" "\<forall>t \<in> set out. req_in (sequence_segs ch) t"
    using sequence_run_in [OF assms(5,6)] by blast
  have ok: "word_segs (sequence_segs ch)" "alias_free (segs_bytes (sequence_segs ch))"
    using sequence_segs_ok [of ch] by blast+
  from segments_no_false_alarm [OF ok out assms(7,8), of c "[]"] ok(2) show ?thesis
    unfolding sb [symmetric] calm_def by simp
qed

text \<open>
  A test with \<^verbatim>\<open>-s read\<close>, as the model starts it: the memory is read, answers with zeros, a load of the run
  is accepted and answered with zeros.
\<close>

lemma read_setup_w:
  obtains t sq where "tb_setup (\<lambda>_. None) (\<lambda>_. transaction_req_new) [(CHR ''s'', ''read'')] (hpdcache_test_new False b c) = Next t"
    "tb_seq t = Some (Read_seq, sq)" "tb_error_limit t = 0" "max_transactions sq = 100"
  by (auto simp: tb_setup_def tb_option_def tb_set_sequence_def tb_build_def hpdcache_test_new_def test_sequence_new_def
      set_max_transactions_def Let_def)

definition traffic_w :: "hpdcache_test_transaction_req \<Rightarrow> sb_event list" where
  "traffic_w r = [Mem_read_req (mem_read_w 0x48 3), Mem_read_resp mem_read_resp_new, Core_req entry_w r,
     Core_resp (transaction_resp_new\<lparr>rsp_tid := req_tid r\<rparr>), Clk_neg]"

lemma zero_line: "j < 64 \<Longrightarrow> line_bytes mem_read_resp_new ! j = 0"
proof -
  have "line_bytes mem_read_resp_new = replicate 64 0" by code_simp
  then show "j < 64 \<Longrightarrow> line_bytes mem_read_resp_new ! j = 0" by simp
qed

lemma traffic_w_honest:
  assumes "is_load r" "req_need_rsp r"
  shows "honest [] (ref_start (\<lambda>_. 0)) (traffic_w r)"
proof -
  let ?resp = "transaction_resp_new\<lparr>rsp_tid := req_tid r\<rparr>"
  define r1 where "r1 = ref_step [] (Mem_read_resp mem_read_resp_new) (note_read (mem_read_w 0x48 3) (ref_start (\<lambda>_. 0)))"
  have r1: "rf_mem r1 = (\<lambda>_. 0)" "rf_open r1 = (\<lambda>_. None)" by (simp_all add: r1_def note_read_def ref_start_def)
  have "truthful (note_read (mem_read_w 0x48 3) (ref_start (\<lambda>_. 0))) (Mem_read_resp mem_read_resp_new)"
    using zero_line by (auto simp: note_read_def ref_start_def list_all_iff transfer_bytes_def split: option.split)
  moreover have "truthful (ref_request [] r r1) (Core_resp ?resp)"
    using assms load_exclusive [OF assms(1)]
    by (auto simp: ref_request_def r1 req_tag_def list_all_iff transaction_resp_new_def byte_of_def)
  ultimately show ?thesis by (simp add: traffic_w_def r1_def)
qed

lemma traffic_w_goes:
  assumes "req_wf r"
  shows "\<exists>s. sb_run (traffic_w r) (sb_start junk ids [] 0) = Next s"
proof -
  let ?s0 = "sb_start junk ids [] 0" and ?g0 = "golden_start (rsv_abs junk)"
  let ?e = "\<lparr>me_addr = 0x48, me_bytes = 8, me_is_uncacheable = True, me_is_error = False, me_core_req_ptr = None\<rparr>"
  obtain s1 where s1: "sb_run [Mem_read_req (mem_read_w 0x48 3)] ?s0 = Next s1" "smap_find (inflight_mem_read_m s1) 0 = Some ?e"
    by (simp add: sb_start_defs mem_read_w_def mem_req_new_def mem_is_ldex_def mem_read_req_process_def mem_entry_def Let_def)
  have v1: "event_ok (Mem_read_req (mem_read_w 0x48 3))" by (simp add: mem_read_w_def mem_req_new_def)
  have h1: "sb_handle (Mem_read_req (mem_read_w 0x48 3)) ?s0 = Next s1" using s1(1) by (simp add: seq_out_Next_iff)
  obtain g1 where g1: "sim [] s1 g1" using sb_handle_sim [OF sim_start v1 h1] by blast
  have f1: "fits_table s1"
    using sb_handle_progress [OF sim_start start_fits v1, of junk ids "[]"] h1 by (simp add: bad_refill_def id_granted_def)
  have z: "rresp_error mem_read_resp_new = 0" "ucast (rresp_id mem_read_resp_new) = (0 :: u64)" by (simp_all add: mem_read_resp_new_def)
  obtain s2 where h2: "mem_read_resp_process mem_read_resp_new s1 = Next s2"
    using uncached_refill_effect [OF s1(1), of mem_read_resp_new ?e] s1(2) z by auto
  then have b2: "\<not> bad_refill s1 (Mem_read_resp mem_read_resp_new)"
    using s1(2) z by (auto simp: bad_refill_def mem_read_resp_process_def Let_def split: option.splits)
  have h2': "sb_handle (Mem_read_resp mem_read_resp_new) s1 = Next s2" using h2 by simp
  obtain g2 where g2: "sim [] s2 g2" using sb_handle_sim [OF g1 _ h2'] by auto
  have f2: "fits_table s2" using sb_handle_progress [OF g1 f1 _ b2] h2' by (auto simp: id_granted_def)
  obtain s where "sb_run [Core_req entry_w r, Core_resp (transaction_resp_new\<lparr>rsp_tid := req_tid r\<rparr>), Clk_neg] s2 = Next s"
    using sb_run_progress [OF g2 f2, of "[Core_req entry_w r, Core_resp (transaction_resp_new\<lparr>rsp_tid := req_tid r\<rparr>), Clk_neg]"] assms
    by auto
  then show ?thesis using h1 h2 by (simp add: traffic_w_def)
qed

theorem library_test_no_false_alarm_witness:
  "\<exists>t s q r. tb_setup (\<lambda>_. None) (\<lambda>_. transaction_req_new) [(CHR ''s'', ''read'')]
       (hpdcache_test_new False (\<lambda>_. \<lparr>excl_valid = False, excl_base_addr = 0, excl_end_addr = 0\<rparr>) rsv_w) = Next t \<and>
     read_run (env_w (draws_w\<lparr>d_seg := 0\<rparr>)) 100 = Some q \<and> Some r \<in> set q \<and> is_load r \<and> req_need_rsp r \<and>
     sb_run (traffic_w r) (tb_sb (sequence_thread_start (\<lambda>_ d. d) Read_seq t)) = Next s \<and>
     (sb_errors s = [] \<or> \<not> is_wrong_data (hd (sb_errors s)))"
proof -
  let ?b = "\<lambda>_. \<lparr>excl_valid = False, excl_base_addr = 0, excl_end_addr = 0\<rparr> :: excl_reservation_buf_t"
  let ?e = "env_w (draws_w\<lparr>d_seg := 0\<rparr>)"
  obtain t sq where t: "tb_setup (\<lambda>_. None) (\<lambda>_. transaction_req_new) [(CHR ''s'', ''read'')] (hpdcache_test_new False ?b rsv_w) = Next t"
      "tb_seq t = Some (Read_seq, sq)" "tb_error_limit t = 0" "max_transactions sq = 100" by (rule read_setup_w)
  let ?t' = "sequence_thread_start (\<lambda>_ d. d) Read_seq t"
  have dr: "read_draws (draws_w\<lparr>d_seg := 0\<rparr>)" by code_simp
  then have ok: "env_ok read_draws ?e" by (rule env_w_ok)
  then obtain out where q: "read_run ?e 100 = Some (map Some out @ [None])" "100 \<le> length out"
      "\<forall>r \<in> set out. req_wf r \<and> is_load r \<and> req_need_rsp r"
    using read_src.plain_run_good [of ?e 100] by (auto simp: read_run_def)
  then obtain r where r: "r \<in> set out" by (cases out) auto
  have segs: "errorsegs (tb_mem ?t') = []" using setup_mem [OF t(1)]
    by (simp add: mem_resp_new_def read_run_setup_def set_ra_ready_delay_distribution_def set_rd_valid_delay_distribution_def
        set_wa_ready_delay_distribution_def set_wd_ready_delay_distribution_def set_wb_valid_delay_distribution_def Let_def)
  have "tb_sb t = sb_start rsv_w [] (errorsegs (tb_mem t)) 0"
    using setup_state [OF t(1)] setup_mem [OF t(1)] t(3) by (simp add: mem_resp_new_def)
  note sb = sequence_thread_start_sb [OF this, of "\<lambda>_ d. d" Read_seq, unfolded segs]
  obtain s where s: "sb_run (traffic_w r) (tb_sb ?t') = Next s" using traffic_w_goes [of r rsv_w "[]"] q(3) r unfolding sb by auto
  have hyps: "env_ok (sequence_draws False False False Read_seq) ?e"
      "sequence_run Read_seq 0 ?e (max_transactions sq) = Some (map Some out @ [None])"
    using q(1) t(4) by (auto intro: env_w_ok simp: dr)
  have tr: "list_all (system_traffic (sequence_segs Read_seq) (map Some out @ [None])) (traffic_w r)"
    using r by (simp add: traffic_w_def mem_read_w_def mem_req_new_def transfer_within_def transfer_bytes_def line_addr_def
        segs_bytes_def read_seg_def segment_defs)
  have hon: "honest (errorsegs (tb_mem ?t')) (ref_start (\<lambda>_. 0)) (traffic_w r)"
    unfolding segs using traffic_w_honest q(3) r by blast
  have "sb_errors s = [] \<or> \<not> is_wrong_data (hd (sb_errors s))"
    using library_test_no_false_alarm [OF t(1-3) refl hyps tr hon] unfolding s by simp
  with t q r s show ?thesis by (intro exI [of _ t] exI [of _ s] exI [of _ "map Some out @ [None]"] exI [of _ r]) auto
qed

text \<open>
  The reference directory and the transactions split an address the same way: for a directory of
  the configured geometry, tag and set of a request are those under which the directory looks its
  line up, and the directory's line address with the word and the byte offset gives the address back.
\<close>

theorem transaction_fields_match_directory:
  assumes "sets_m d = 64" and "bytes_m d = 64" and "0 < ways_m d"
  shows "getAddrTag d (addr_u64 t) = get_cache_tag t \<and> getAddrSet d (addr_u64 t) = unat (get_cache_set t) \<and>
     unat (getAddr d (get_cache_tag t) (unat (get_cache_set t))) + unat (get_cache_word t) * 8 +
       unat (req_addr t) mod 8 = unat (req_addr t)"
proof -
  have tag: "getAddrTag d (addr_u64 t) = get_cache_tag t"
    by (simp add: getAddrTag_def assms flip: unat_get_cache_tag)
  have set: "getAddrSet d (addr_u64 t) = unat (get_cache_set t)"
    by (simp add: getAddrSet_def assms unat_get_cache_set)
  have "dir_geo d" using assms by (simp add: dir_geo_def)
  from getAddr_split [OF this, of "addr_u64 t"] tag set
  have "unat (getAddr d (get_cache_tag t) (unat (get_cache_set t))) = unat (req_addr t) div 64 * 64"
    by (simp add: assms)
  moreover have "n div 64 * 64 + n div 8 mod 8 * 8 + n mod 8 = n" for n :: nat
  proof -
    have "n div 64 = n div 8 div 8" using div_mult2_eq [of n 8 8] by simp
    then show ?thesis using div_mult_mod_eq [of "n div 8" 8] div_mult_mod_eq [of n 8] by linarith
  qed
  ultimately show ?thesis using tag set by (simp add: unat_get_cache_word)
qed

theorem transaction_fields_match_directory_witness:
  "getAddrTag (dir_w0\<lparr>sets_m := 64, bytes_m := 64\<rparr>) (addr_u64 (transaction_req_new\<lparr>req_addr := 0x12345678\<rparr>)) =
     get_cache_tag (transaction_req_new\<lparr>req_addr := 0x12345678\<rparr>)"
  using transaction_fields_match_directory [of "dir_w0\<lparr>sets_m := 64, bytes_m := 64\<rparr>"
      "transaction_req_new\<lparr>req_addr := 0x12345678\<rparr>"]
  by (simp add: dir_w0_def plru_reset_def base_reset_def Let_def)

end
